(* ===== verification/Prelude.thy ===== *)
theory Prelude
  imports Main "HOL-Library.Word" "HOL-Library.List_Lexorder" "HOL-Library.Char_ord"
begin

text \<open>
  What every component shares: the machine integers of the Go code, the state-and-error
  monad in which the transactions are written (state passing over \<open>'s\<close>, an error of type
  \<open>'e\<close> that aborts the rest, as every \<open>if err != nil { return err }\<close> does), a locale for the
  properties that every statement of a program respects, and generic lemmas on lists and words.
\<close>

section \<open>Machine integers\<close>

type_synonym u64 = "64 word"
type_synonym u32 = "32 word"

section \<open>Collections of facts\<close>

named_theorems tx_simps \<open>unfolding equations of the transaction monad\<close>

section \<open>Programs with state and errors\<close>

type_synonym ('s, 'e, 'a) tx = "'s \<Rightarrow> 'e + ('a \<times> 's)"

definition tx_return :: "'a \<Rightarrow> ('s, 'e, 'a) tx" where
  "tx_return a = (\<lambda>s. Inr (a, s))"

definition tx_fail :: "'e \<Rightarrow> ('s, 'e, 'a) tx" where
  "tx_fail e = (\<lambda>s. Inl e)"

definition tx_lift :: "'e + 'a \<Rightarrow> ('s, 'e, 'a) tx" where
  "tx_lift r = (\<lambda>s. case r of Inl e \<Rightarrow> Inl e | Inr a \<Rightarrow> Inr (a, s))"

definition tx_bind :: "('s, 'e, 'a) tx \<Rightarrow> ('a \<Rightarrow> ('s, 'e, 'b) tx) \<Rightarrow> ('s, 'e, 'b) tx" where
  "tx_bind m f = (\<lambda>s. case m s of Inl e \<Rightarrow> Inl e | Inr (a, s') \<Rightarrow> f a s')"

text \<open>A read of the state that may fail and never changes it.\<close>

definition tx_read :: "('s \<Rightarrow> 'e + 'a) \<Rightarrow> ('s, 'e, 'a) tx" where
  "tx_read f = (\<lambda>s. case f s of Inl e \<Rightarrow> Inl e | Inr a \<Rightarrow> Inr (a, s))"

text \<open>A loop that runs one statement per list element and stops at the first error.\<close>

fun tx_foreach :: "('x \<Rightarrow> ('s, 'e, unit) tx) \<Rightarrow> 'x list \<Rightarrow> ('s, 'e, unit) tx" where
  "tx_foreach f [] = tx_return ()"
| "tx_foreach f (x # xs) = tx_bind (f x) (\<lambda>_. tx_foreach f xs)"

lemma tx_return_Inr [simp, tx_simps]: "tx_return a s = Inr r \<longleftrightarrow> r = (a, s)"
  by (auto simp: tx_return_def)

lemma tx_return_Inl [simp, tx_simps]: "tx_return a s \<noteq> Inl e"
  by (simp add: tx_return_def)

lemma tx_fail_Inr [simp, tx_simps]: "tx_fail e s \<noteq> Inr r"
  by (simp add: tx_fail_def)

lemma tx_fail_Inl [simp, tx_simps]: "tx_fail e s = Inl e' \<longleftrightarrow> e' = e"
  by (auto simp: tx_fail_def)

lemma tx_lift_Inr [simp, tx_simps]: "tx_lift r s = Inr (a, s') \<longleftrightarrow> r = Inr a \<and> s' = s"
  by (auto simp: tx_lift_def split: sum.splits)

lemma tx_lift_Inl [simp, tx_simps]: "tx_lift r s = Inl e \<longleftrightarrow> r = Inl e"
  by (auto simp: tx_lift_def split: sum.splits)

lemma tx_read_Inr [simp, tx_simps]: "tx_read f s = Inr (a, s') \<longleftrightarrow> f s = Inr a \<and> s' = s"
  by (auto simp: tx_read_def split: sum.splits)

lemma tx_read_Inl [simp, tx_simps]: "tx_read f s = Inl e \<longleftrightarrow> f s = Inl e"
  by (auto simp: tx_read_def split: sum.splits)

lemma tx_bind_Inr [tx_simps]:
  "tx_bind m f s = Inr r \<longleftrightarrow> (\<exists>a s'. m s = Inr (a, s') \<and> f a s' = Inr r)"
  by (auto simp: tx_bind_def split: sum.splits)

lemma tx_bind_Inl [tx_simps]:
  "tx_bind m f s = Inl e \<longleftrightarrow> m s = Inl e \<or> (\<exists>a s'. m s = Inr (a, s') \<and> f a s' = Inl e)"
  by (auto simp: tx_bind_def split: sum.splits)

lemma tx_bind_InrE:
  assumes "tx_bind m f s = Inr r"
  obtains a s' where "m s = Inr (a, s')" and "f a s' = Inr r"
  using assms by (auto simp: tx_bind_Inr)

lemma tx_bind_run [simp]: "m s = Inr (a, s') \<Longrightarrow> tx_bind m f s = f a s'"
  by (simp add: tx_bind_def)

lemma tx_bind_run_Inl [simp]: "m s = Inl e \<Longrightarrow> tx_bind m f s = Inl e"
  by (simp add: tx_bind_def)

lemma tx_bind_return [simp]: "tx_bind (tx_return a) f = f a"
  by (simp add: tx_bind_def tx_return_def fun_eq_iff)

lemma tx_foreach_append:
  "tx_foreach f (xs @ ys) = tx_bind (tx_foreach f xs) (\<lambda>_. tx_foreach f ys)"
  by (induction xs) (auto simp: tx_bind_def tx_return_def fun_eq_iff split: sum.splits)

section \<open>What every step of a program relates\<close>

text \<open>
  \<open>tx_rel R m\<close>: whenever \<open>m\<close> succeeds, \<open>R\<close> relates the states before and after. When \<open>R\<close> is a
  preorder ("the other owners' rows are the same", "the archive has only grown"), it is enough
  that each statement of a program respects it; the locale proves that once.
\<close>

definition tx_rel :: "('s \<Rightarrow> 's \<Rightarrow> bool) \<Rightarrow> ('s, 'e, 'a) tx \<Rightarrow> bool" where
  "tx_rel R m \<longleftrightarrow> (\<forall>s a s'. m s = Inr (a, s') \<longrightarrow> R s s')"

lemma tx_relI: "(\<And>s a s'. m s = Inr (a, s') \<Longrightarrow> R s s') \<Longrightarrow> tx_rel R m"
  by (simp add: tx_rel_def)

lemma tx_relD: "tx_rel R m \<Longrightarrow> m s = Inr (a, s') \<Longrightarrow> R s s'"
  by (simp add: tx_rel_def)

locale tx_preorder =
  fixes R :: "'s \<Rightarrow> 's \<Rightarrow> bool"
  assumes refl: "R s s"
    and trans: "R s t \<Longrightarrow> R t u \<Longrightarrow> R s u"
begin

lemma return: "tx_rel R (tx_return a)"
  by (rule tx_relI) (simp add: refl)

lemma fail: "tx_rel R (tx_fail e)"
  by (rule tx_relI) simp

lemma lift: "tx_rel R (tx_lift r)"
  by (rule tx_relI) (simp add: refl)

lemma read: "tx_rel R (tx_read f)"
  by (rule tx_relI) (simp add: refl)

lemma bind:
  assumes "tx_rel R m" and "\<And>a. tx_rel R (f a)"
  shows "tx_rel R (tx_bind m f)"
proof (rule tx_relI)
  fix s b u assume "tx_bind m f s = Inr (b, u)"
  then obtain a t where "m s = Inr (a, t)" and "f a t = Inr (b, u)"
    by (auto elim: tx_bind_InrE)
  with assms show "R s u" by (meson tx_relD trans)
qed

lemma foreach:
  assumes "\<And>x. tx_rel R (f x)"
  shows "tx_rel R (tx_foreach f xs)"
  by (induction xs) (auto intro: return bind assms)

lemma if_then: "tx_rel R m \<Longrightarrow> tx_rel R n \<Longrightarrow> tx_rel R (if b then m else n)"
  by simp

lemma case_opt:
  "tx_rel R m \<Longrightarrow> (\<And>x. tx_rel R (f x)) \<Longrightarrow> tx_rel R (case opt of None \<Rightarrow> m | Some x \<Rightarrow> f x)"
  by (cases opt) simp_all

lemma let_in: "(\<And>x. tx_rel R (f x)) \<Longrightarrow> tx_rel R (let x = v in f x)"
  by (simp add: Let_def)

lemmas rules = return fail lift read bind foreach if_then case_opt let_in

end

section \<open>Lists\<close>

lemma find_append: "find P (xs @ ys) = (case find P xs of None \<Rightarrow> find P ys | Some x \<Rightarrow> Some x)"
  by (induction xs) auto

lemma filter_singleton_find:
  "distinct (map k xs) \<Longrightarrow> find (\<lambda>x. k x = a) xs = Some y \<Longrightarrow> filter (\<lambda>x. k x = a) xs = [y]"
proof (induction xs)
  case (Cons x xs)
  show ?case
  proof (cases "k x = a")
    case True
    with Cons.prems have "a \<notin> k ` set xs" by auto
    then have "filter (\<lambda>x. k x = a) xs = []"
      by (simp add: filter_empty_conv image_iff) metis
    with True Cons.prems show ?thesis by simp
  qed (use Cons in auto)
qed simp

lemma find_None_filter: "find P xs = None \<Longrightarrow> filter P xs = []"
  by (simp add: find_None_iff filter_empty_conv)

lemma filter_sort_key_strict:
  assumes "sorted_wrt (<) (map f xs)"
  shows "sorted_wrt (<) (map f (filter P xs))"
  using assms by (induction xs) auto

lemma sorted_wrt_less_take: "sorted_wrt (<) (map f xs) \<Longrightarrow> sorted_wrt (<) (map f (take n xs))"
  by (metis sorted_wrt_take take_map)

lemma strict_sorted_sort_key:
  fixes f :: "'a \<Rightarrow> 'b :: linorder"
  assumes "distinct (map f xs)"
  shows "sorted_wrt (<) (map f (sort_key f xs))"
proof -
  have "distinct (map f (sort_key f xs))"
    using assms by (metis distinct_map distinct_sort inj_on_def set_sort)
  then show ?thesis by (simp add: strict_sorted_iff)
qed

section \<open>Words\<close>

lemma unat_Suc_word:
  fixes c :: "'a::len word"
  assumes "c \<noteq> - 1"
  shows "unat (c + 1) = Suc (unat c)"
  using assms by (simp add: add.commute add_eq_0_iff unatSuc)

lemma word_less_Suc:
  fixes c :: "'a::len word"
  assumes "c \<noteq> - 1"
  shows "c < c + 1"
  using unat_Suc_word [OF assms] by (simp add: word_less_nat_alt)

lemma word_le_Suc_iff:
  fixes a c :: "'a::len word"
  assumes "c \<noteq> - 1"
  shows "a \<le> c + 1 \<longleftrightarrow> a \<le> c \<or> a = c + 1"
  using unat_Suc_word [OF assms] by (auto simp: word_le_nat_alt word_unat_eq_iff le_Suc_eq)

lemma word_less_Suc_iff:
  fixes a c :: "'a::len word"
  assumes "c \<noteq> - 1"
  shows "a < c + 1 \<longleftrightarrow> a \<le> c"
  using unat_Suc_word [OF assms] by (auto simp: word_le_nat_alt word_less_nat_alt)

end
