(* ===== verification/GoStrings.thy ===== *)
theory GoStrings
  imports Prelude
begin

text \<open>
  What the code uses of Go's string handling. A Go string is a sequence of bytes, so it is a
  \<^typ>\<open>string\<close> whose characters are the bytes. Converting it to runes decodes UTF-8, with
  U+FFFD and a width of one byte for every byte that starts no well-formed encoding
  (package \<open>unicode/utf8\<close>); \<open>strings.TrimSpace\<close>, \<open>strings.Split\<close>, \<open>strings.HasPrefix\<close>,
  \<open>strings.ToLower\<close> on ASCII, \<open>url.PathUnescape\<close>, \<open>hex.EncodeToString\<close> and the length of
  \<open>utf16.Encode\<close> are written out from their documentation. The character classes of the
  regular expressions of the code are predicates on bytes.
\<close>

section \<open>Character classes\<close>

definition in_range :: "char \<Rightarrow> nat \<Rightarrow> nat \<Rightarrow> bool" where
  "in_range c lo hi \<longleftrightarrow> lo \<le> of_char c \<and> of_char c \<le> hi"

definition is_digit :: "char \<Rightarrow> bool" where
  "is_digit c \<longleftrightarrow> in_range c 48 57"

definition is_lower_hex :: "char \<Rightarrow> bool" where
  "is_lower_hex c \<longleftrightarrow> in_range c 97 102 \<or> is_digit c"

definition is_hex :: "char \<Rightarrow> bool" where
  "is_hex c \<longleftrightarrow> is_digit c \<or> in_range c 97 102 \<or> in_range c 65 70"

text \<open>The class \<open>[A-Za-z0-9_-]\<close>.\<close>

definition is_id_char :: "char \<Rightarrow> bool" where
  "is_id_char c \<longleftrightarrow> in_range c 65 90 \<or> in_range c 97 122 \<or> is_digit c \<or> c = CHR ''_'' \<or> c = CHR ''-''"

definition unhex :: "char \<Rightarrow> nat" where
  "unhex c =
     (if is_digit c then of_char c - 48
      else if in_range c 97 102 then of_char c - 97 + 10
      else if in_range c 65 70 then of_char c - 65 + 10
      else 0)"

section \<open>UTF-8\<close>

definition is_cont :: "nat \<Rightarrow> bool" where
  "is_cont b \<longleftrightarrow> 128 \<le> b \<and> b \<le> 191"

text \<open>The second byte's range, by first byte (the accept ranges of \<open>unicode/utf8\<close>).\<close>

definition second_ok :: "nat \<Rightarrow> nat \<Rightarrow> bool" where
  "second_ok b0 b1 \<longleftrightarrow>
     (if b0 = 224 then 160 \<le> b1 \<and> b1 \<le> 191
      else if b0 = 237 then 128 \<le> b1 \<and> b1 \<le> 159
      else if b0 = 240 then 144 \<le> b1 \<and> b1 \<le> 191
      else if b0 = 244 then 128 \<le> b1 \<and> b1 \<le> 143
      else is_cont b1)"

definition rune_error :: nat where
  "rune_error = 65533"

text \<open>The first rune of a byte sequence and the number of bytes it takes.\<close>

definition decode_rune :: "nat list \<Rightarrow> nat \<times> nat" where
  "decode_rune bs =
     (case bs of
        [] \<Rightarrow> (rune_error, 0)
      | b0 # rest \<Rightarrow>
          if b0 < 128 then (b0, 1)
          else if 194 \<le> b0 \<and> b0 \<le> 223 then
            (case rest of
               b1 # _ \<Rightarrow> if is_cont b1 then ((b0 - 192) * 64 + (b1 - 128), 2) else (rune_error, 1)
             | _ \<Rightarrow> (rune_error, 1))
          else if 224 \<le> b0 \<and> b0 \<le> 239 then
            (case rest of
               b1 # b2 # _ \<Rightarrow>
                 if second_ok b0 b1 \<and> is_cont b2
                 then ((b0 - 224) * 4096 + (b1 - 128) * 64 + (b2 - 128), 3)
                 else (rune_error, 1)
             | _ \<Rightarrow> (rune_error, 1))
          else if 240 \<le> b0 \<and> b0 \<le> 244 then
            (case rest of
               b1 # b2 # b3 # _ \<Rightarrow>
                 if second_ok b0 b1 \<and> is_cont b2 \<and> is_cont b3
                 then ((b0 - 240) * 262144 + (b1 - 128) * 4096 + (b2 - 128) * 64 + (b3 - 128), 4)
                 else (rune_error, 1)
             | _ \<Rightarrow> (rune_error, 1))
          else (rune_error, 1))"

text \<open>The runes of a string, each with the bytes it was decoded from.\<close>

function rune_chunks :: "string \<Rightarrow> (nat \<times> string) list" where
  "rune_chunks [] = []"
| "rune_chunks (c # cs) =
     (let (r, w) = decode_rune (map of_char (take 4 (c # cs)))
      in (r, take (max 1 w) (c # cs)) # rune_chunks (drop (w - 1) cs))"
  by pat_completeness auto
termination
  by (relation "measure length") auto

definition runes :: "string \<Rightarrow> nat list" where
  "runes s = map fst (rune_chunks s)"

definition rune_count :: "string \<Rightarrow> nat" where
  "rune_count s = length (rune_chunks s)"

text \<open>\<open>len(utf16.Encode([]rune(s)))\<close>: two units for a rune beyond the basic plane.\<close>

definition utf16_length :: "string \<Rightarrow> nat" where
  "utf16_length s = sum_list (map (\<lambda>r. if 65536 \<le> r then 2 else 1) (runes s))"

lemma rune_count_le_utf16: "rune_count s \<le> utf16_length s"
proof -
  have "length rs \<le> sum_list (map (\<lambda>r. if 65536 \<le> r then 2 else 1) rs)" for rs :: "nat list"
    by (induction rs) auto
  from this [of "runes s"] show ?thesis
    by (simp add: rune_count_def utf16_length_def runes_def)
qed

lemma rune_chunks_concat: "concat (map snd (rune_chunks s)) = s"
proof (induction s rule: rune_chunks.induct)
  case (2 c cs)
  obtain r w where rw: "decode_rune (map of_char (take 4 (c # cs))) = (r, w)"
    by (cases "decode_rune (map of_char (take 4 (c # cs)))") auto
  have "take (max 1 w) (c # cs) @ drop (w - 1) cs = c # cs"
    by (cases w) auto
  with 2 [OF rw [symmetric] refl] rw show ?case by simp
qed simp

text \<open>A string of ASCII bytes has one rune per byte.\<close>

lemma rune_chunks_ascii:
  "list_all (\<lambda>c. of_char c < (128::nat)) s \<Longrightarrow> rune_chunks s = map (\<lambda>c. (of_char c, [c])) s"
  by (induction s) (simp_all add: decode_rune_def)

lemma rune_count_ascii: "list_all (\<lambda>c. of_char c < (128::nat)) s \<Longrightarrow> rune_count s = length s"
  by (simp add: rune_count_def rune_chunks_ascii)

lemma id_char_ascii: "is_id_char c \<Longrightarrow> of_char c < (128::nat)"
  by (auto simp: is_id_char_def in_range_def is_digit_def)

lemma rune_count_id: "list_all is_id_char s \<Longrightarrow> rune_count s = length s"
  by (rule rune_count_ascii) (auto simp: list_all_iff id_char_ascii)

text \<open>\<open>utf8.ValidString\<close>: no byte decodes to the error rune on its own.\<close>

definition valid_utf8 :: "string \<Rightarrow> bool" where
  "valid_utf8 s \<longleftrightarrow> list_all (\<lambda>(r, bytes). \<not> (r = rune_error \<and> length bytes = 1)) (rune_chunks s)"

lemma valid_utf8_empty [simp]: "valid_utf8 []"
  by (simp add: valid_utf8_def)

lemma valid_utf8_ascii: "list_all (\<lambda>c. of_char c < (128::nat)) s \<Longrightarrow> valid_utf8 s"
  by (auto simp: valid_utf8_def rune_chunks_ascii list_all_iff rune_error_def)

text \<open>A rune that is no error is decoded from its own bytes, whatever follows.\<close>

lemma decode_rune_take: "decode_rune (take 4 bs) = decode_rune bs"
proof -
  have four: "take 4 (a # b # c # d # e) = [a, b, c, d]" for a b c d :: nat and e by simp
  show ?thesis
  proof (cases bs)
    case (Cons b0 r0)
    show ?thesis
    proof (cases r0)
      case r0: (Cons b1 r1)
      show ?thesis
      proof (cases r1)
        case r1: (Cons b2 r2)
        show ?thesis
        proof (cases r2)
          case (Cons b3 r3)
          then show ?thesis unfolding \<open>bs = _\<close> r0 r1 by (simp add: decode_rune_def)
        qed (simp add: \<open>bs = _\<close> r0 r1)
      qed (simp add: \<open>bs = _\<close> r0)
    qed (simp add: \<open>bs = _\<close>)
  qed simp
qed

lemma decode_rune_own_bytes:
  assumes "decode_rune bs = (r, w)" and "\<not> (r = rune_error \<and> w \<le> 1)"
  shows "1 \<le> w \<and> w \<le> length bs \<and> decode_rune (take w bs @ rest) = (r, w)"
proof (cases bs)
  case (Cons b0 r0)
  consider (one) "b0 < 128" | (two) "194 \<le> b0" "b0 \<le> 223" | (three) "224 \<le> b0" "b0 \<le> 239" | (four) "240 \<le> b0" "b0 \<le> 244"
    using assms by (fastforce simp: Cons decode_rune_def)
  then show ?thesis
  proof cases
    case one
    then show ?thesis using assms(1) by (auto simp: Cons decode_rune_def)
  next
    case two
    then show ?thesis using assms by (cases r0) (auto simp: Cons decode_rune_def split: if_splits)
  next
    case three
    then show ?thesis using assms by (cases r0; cases "tl r0") (auto simp: Cons decode_rune_def split: if_splits)
  next
    case four
    then show ?thesis using assms
      by (cases r0; cases "tl r0"; cases "tl (tl r0)") (auto simp: Cons decode_rune_def split: if_splits)
  qed
qed (use assms in \<open>simp add: decode_rune_def\<close>)

lemma rune_chunks_take:
  assumes "valid_utf8 s"
  shows "rune_chunks (concat (map snd (take n (rune_chunks s)))) = take n (rune_chunks s)"
  using assms
proof (induction s arbitrary: n rule: rune_chunks.induct)
  case (2 c cs)
  obtain r w where rw: "decode_rune (map of_char (take 4 (c # cs))) = (r, w)" by fastforce
  then have full: "decode_rune (map of_char (c # cs)) = (r, w)" using decode_rune_take by (metis take_map)
  have chunks: "rune_chunks (c # cs) = (r, take (max 1 w) (c # cs)) # rune_chunks (drop (w - 1) cs)" using rw by simp
  have ok: "\<not> (r = rune_error \<and> w \<le> 1)" and rest: "valid_utf8 (drop (w - 1) cs)"
    using 2(2) unfolding valid_utf8_def chunks by (cases w; auto)+
  show ?case
  proof (cases n)
    case (Suc k)
    let ?tail = "concat (map snd (take k (rune_chunks (drop (w - 1) cs))))"
    have w: "1 \<le> w" "w \<le> length (c # cs)" using decode_rune_own_bytes [OF full ok, of "[]"] by simp_all
    then obtain v where v: "w = Suc v" by (cases w) auto
    have "map of_char (take w (c # cs) @ ?tail) = take w (map of_char (c # cs)) @ map of_char ?tail"
      by (simp only: map_append take_map)
    then have "decode_rune (map of_char (take w (c # cs) @ ?tail)) = (r, w)"
      using decode_rune_own_bytes [OF full ok, of "map of_char ?tail"] by metis
    then have "decode_rune (map of_char (take 4 (take w (c # cs) @ ?tail))) = (r, w)" using decode_rune_take by (metis take_map)
    moreover have split: "take w (c # cs) @ ?tail = c # (take v cs @ ?tail)" by (simp add: v)
    ultimately have dec: "decode_rune (map of_char (take 4 (c # (take v cs @ ?tail)))) = (r, w)" by metis
    have "rune_chunks (c # (take v cs @ ?tail))
        = (r, take (max 1 w) (c # (take v cs @ ?tail))) # rune_chunks (drop (w - 1) (take v cs @ ?tail))"
      by (subst rune_chunks.simps(2)) (simp only: dec Let_def case_prod_conv)
    moreover have "take (max 1 w) (c # (take v cs @ ?tail)) = take w (c # cs)" "drop (w - 1) (take v cs @ ?tail) = ?tail"
      using w(2) by (simp_all add: v)
    ultimately have "rune_chunks (take w (c # cs) @ ?tail) = (r, take w (c # cs)) # rune_chunks ?tail"
      by (metis split)
    also have "rune_chunks ?tail = take k (rune_chunks (drop (w - 1) cs))" using 2(1) [OF rw [symmetric] refl rest] by simp
    finally show ?thesis using w(1) by (simp add: chunks Suc max_def del: rune_chunks.simps)
  qed simp
qed simp

lemma valid_utf8_take:
  "valid_utf8 s \<Longrightarrow> valid_utf8 (concat (map snd (take n (rune_chunks s))))"
  using set_take_subset [of n "rune_chunks s"] rune_chunks_take [of s n]
  by (fastforce simp: valid_utf8_def list_all_iff)

section \<open>Package strings\<close>

definition has_prefix :: "string \<Rightarrow> string \<Rightarrow> bool" where
  "has_prefix s p \<longleftrightarrow> take (length p) s = p"

definition trim_prefix :: "string \<Rightarrow> string \<Rightarrow> string" where
  "trim_prefix s p = (if has_prefix s p then drop (length p) s else s)"

definition has_suffix :: "string \<Rightarrow> string \<Rightarrow> bool" where
  "has_suffix s p \<longleftrightarrow> length p \<le> length s \<and> drop (length s - length p) s = p"

definition trim_suffix :: "string \<Rightarrow> string \<Rightarrow> string" where
  "trim_suffix s p = (if has_suffix s p then take (length s - length p) s else s)"

text \<open>\<open>strings.Split\<close> on a one-byte separator: always at least one part.\<close>

fun split_on :: "char \<Rightarrow> string \<Rightarrow> string list" where
  "split_on d [] = [[]]"
| "split_on d (c # cs) =
     (if c = d then [] # split_on d cs
      else (case split_on d cs of [] \<Rightarrow> [[c]] | p # ps \<Rightarrow> (c # p) # ps))"

fun join_with :: "string \<Rightarrow> string list \<Rightarrow> string" where
  "join_with d [] = []"
| "join_with d [x] = x"
| "join_with d (x # y # ys) = x @ d @ join_with d (y # ys)"

lemma split_on_nonempty [simp]: "split_on d s \<noteq> []"
  by (induction s) (auto split: list.splits)

lemma join_split: "join_with [d] (split_on d s) = s"
proof (induction s)
  case (Cons c cs)
  then show ?case
    by (cases "split_on d cs"; cases "tl (split_on d cs)") auto
qed simp

text \<open>\<open>unicode.IsSpace\<close>.\<close>

definition is_space_rune :: "nat \<Rightarrow> bool" where
  "is_space_rune r \<longleftrightarrow>
     (9 \<le> r \<and> r \<le> 13) \<or> r = 32 \<or> r = 133 \<or> r = 160 \<or> r = 5760 \<or>
     (8192 \<le> r \<and> r \<le> 8202) \<or> r = 8232 \<or> r = 8233 \<or> r = 8239 \<or> r = 8287 \<or> r = 12288"

definition trim_space :: "string \<Rightarrow> string" where
  "trim_space s =
     (let keep = dropWhile (\<lambda>(r, _). is_space_rune r) (rune_chunks s)
      in concat (map snd (rev (dropWhile (\<lambda>(r, _). is_space_rune r) (rev keep)))))"

lemma trim_space_ascii:
  assumes "list_all (\<lambda>c. of_char c < (128 :: nat) \<and> \<not> is_space_rune (of_char c)) s"
  shows "trim_space s = s"
proof -
  have "rune_chunks s = map (\<lambda>c. (of_char c, [c])) s"
    using assms by (intro rune_chunks_ascii) (auto simp: list_all_iff)
  moreover have "dropWhile (\<lambda>(r, _). is_space_rune r) (map (\<lambda>c. (of_char c, [c])) t) = map (\<lambda>c. (of_char c, [c])) t"
    if "set t \<subseteq> set s" for t
    using that assms by (cases t) (auto simp: list_all_iff)
  note this [of s] this [of "rev s"]
  moreover have "concat (map (\<lambda>c. [c]) s) = s" by (induction s) simp_all
  ultimately show ?thesis by (simp add: trim_space_def rev_map comp_def)
qed

definition ascii_lower :: "char \<Rightarrow> char" where
  "ascii_lower c = (if in_range c 65 90 then char_of (of_char c + 32 :: nat) else c)"

definition to_lower :: "string \<Rightarrow> string" where
  "to_lower s = map ascii_lower s"

section \<open>Package net/url\<close>

text \<open>\<open>url.PathUnescape\<close>; the error carries up to three bytes from the bad percent sign on.\<close>

fun path_unescape :: "string \<Rightarrow> string + string" where
  "path_unescape [] = Inr []"
| "path_unescape (c # cs) =
     (if c = CHR 0x25 then
        (case cs of
           h # l # rest \<Rightarrow>
             if is_hex h \<and> is_hex l
             then (case path_unescape rest of
                     Inl e \<Rightarrow> Inl e
                   | Inr r \<Rightarrow> Inr (char_of (unhex h * 16 + unhex l) # r))
             else Inl [c, h, l]
         | _ \<Rightarrow> Inl (c # cs))
      else (case path_unescape cs of Inl e \<Rightarrow> Inl e | Inr r \<Rightarrow> Inr (c # r)))"

text \<open>A string without a percent sign is its own unescaping.\<close>

lemma path_unescape_plain: "CHR 0x25 \<notin> set s \<Longrightarrow> path_unescape s = Inr s"
  by (induction s) auto

section \<open>Package encoding/hex\<close>

definition hex_digit :: "nat \<Rightarrow> char" where
  "hex_digit n = (if n < 10 then char_of (48 + n) else char_of (87 + n))"

definition hex_encode :: "8 word list \<Rightarrow> string" where
  "hex_encode bs = concat (map (\<lambda>b. [hex_digit (unat b div 16), hex_digit (unat b mod 16)]) bs)"

lemma hex_digit_lower: "n < 16 \<Longrightarrow> is_lower_hex (hex_digit n)"
  by (auto simp: hex_digit_def is_lower_hex_def is_digit_def in_range_def)

lemma hex_encode_length: "length (hex_encode bs) = 2 * length bs"
  by (induction bs) (simp_all add: hex_encode_def)

lemma hex_encode_lower: "list_all is_lower_hex (hex_encode bs)"
proof (induction bs)
  case (Cons b bs)
  have "unat b < 2 ^ LENGTH(8)" by (rule unsigned_less)
  then have "unat b < 256" by simp
  then have "unat b div 16 < 16" "unat b mod 16 < 16" by auto
  then show ?case using Cons by (simp add: hex_encode_def hex_digit_lower)
qed (simp add: hex_encode_def)

end
