(* ===== verification/Wire.thy ===== *)
theory Wire
  imports Prelude
begin

text \<open>
  The protocol messages (\<open>api/sync/v1/sync.pb.go\<close>, generated from \<open>sync.proto\<close>): one record per
  message struct, its fields in the struct's order, without the bookkeeping fields of the protobuf
  runtime. A \<open>string\<close> or \<open>bytes\<close> field is a byte sequence; nil and empty \<open>bytes\<close> are the same
  value. Request lists hold pointers, so their elements are options, \<^const>\<open>None\<close> for nil, and the
  generated nil-safe getters are functions on options. The other lists are only ever filled by
  the server with non-nil messages and hold the messages themselves. Encoding and decoding
  (\<open>proto.Marshal\<close>, \<open>proto.Unmarshal\<close>) belong to the protobuf runtime and are parameters where used.
\<close>

text \<open>The open enum \<open>BaselineChoice\<close> (an \<open>int32\<close>): unknown numbers are kept.\<close>

datatype baseline_choice =
    CHOICE_UNSPECIFIED
  | CHOICE_USE_LOCAL
  | CHOICE_USE_SERVER
  | CHOICE_UNKNOWN int

text \<open>\<open>message Mutation\<close>.\<close>

record mutation =
  m_op_id :: string
  m_entity_key :: string
  m_base_version :: u64
  m_client_time_ms :: u64
  m_value_json :: string
  m_deleted :: bool
  m_device_id :: string
  m_client_seq :: u64

text \<open>The getters of \<open>*Mutation\<close>: the zero value on a nil pointer.\<close>

definition Mutation_GetOpId :: "mutation option \<Rightarrow> string" where
  "Mutation_GetOpId x = (case x of Some v \<Rightarrow> m_op_id v | None \<Rightarrow> [])"

definition Mutation_GetEntityKey :: "mutation option \<Rightarrow> string" where
  "Mutation_GetEntityKey x = (case x of Some v \<Rightarrow> m_entity_key v | None \<Rightarrow> [])"

definition Mutation_GetBaseVersion :: "mutation option \<Rightarrow> u64" where
  "Mutation_GetBaseVersion x = (case x of Some v \<Rightarrow> m_base_version v | None \<Rightarrow> 0)"

definition Mutation_GetClientTimeMs :: "mutation option \<Rightarrow> u64" where
  "Mutation_GetClientTimeMs x = (case x of Some v \<Rightarrow> m_client_time_ms v | None \<Rightarrow> 0)"

definition Mutation_GetValueJson :: "mutation option \<Rightarrow> string" where
  "Mutation_GetValueJson x = (case x of Some v \<Rightarrow> m_value_json v | None \<Rightarrow> [])"

definition Mutation_GetDeleted :: "mutation option \<Rightarrow> bool" where
  "Mutation_GetDeleted x = (case x of Some v \<Rightarrow> m_deleted v | None \<Rightarrow> False)"

definition Mutation_GetDeviceId :: "mutation option \<Rightarrow> string" where
  "Mutation_GetDeviceId x = (case x of Some v \<Rightarrow> m_device_id v | None \<Rightarrow> [])"

definition Mutation_GetClientSeq :: "mutation option \<Rightarrow> u64" where
  "Mutation_GetClientSeq x = (case x of Some v \<Rightarrow> m_client_seq v | None \<Rightarrow> 0)"

lemmas mutation_getters = Mutation_GetOpId_def Mutation_GetEntityKey_def Mutation_GetBaseVersion_def Mutation_GetClientTimeMs_def Mutation_GetValueJson_def Mutation_GetDeleted_def Mutation_GetDeviceId_def Mutation_GetClientSeq_def

text \<open>\<open>message MutationAck\<close>.\<close>

record mutation_ack =
  ack_op_id :: string
  ack_server_cursor :: u64
  ack_conflict :: bool
  ack_applied :: bool

text \<open>\<open>message Change\<close>.\<close>

record change =
  c_cursor :: u64
  c_entity_key :: string
  c_value_json :: string
  c_deleted :: bool
  c_device_id :: string
  c_client_time_ms :: u64
  c_op_id :: string

text \<open>The getters of \<open>*Change\<close>: the zero value on a nil pointer.\<close>

definition Change_GetCursor :: "change option \<Rightarrow> u64" where
  "Change_GetCursor x = (case x of Some v \<Rightarrow> c_cursor v | None \<Rightarrow> 0)"

definition Change_GetEntityKey :: "change option \<Rightarrow> string" where
  "Change_GetEntityKey x = (case x of Some v \<Rightarrow> c_entity_key v | None \<Rightarrow> [])"

definition Change_GetValueJson :: "change option \<Rightarrow> string" where
  "Change_GetValueJson x = (case x of Some v \<Rightarrow> c_value_json v | None \<Rightarrow> [])"

definition Change_GetDeleted :: "change option \<Rightarrow> bool" where
  "Change_GetDeleted x = (case x of Some v \<Rightarrow> c_deleted v | None \<Rightarrow> False)"

definition Change_GetDeviceId :: "change option \<Rightarrow> string" where
  "Change_GetDeviceId x = (case x of Some v \<Rightarrow> c_device_id v | None \<Rightarrow> [])"

definition Change_GetClientTimeMs :: "change option \<Rightarrow> u64" where
  "Change_GetClientTimeMs x = (case x of Some v \<Rightarrow> c_client_time_ms v | None \<Rightarrow> 0)"

definition Change_GetOpId :: "change option \<Rightarrow> string" where
  "Change_GetOpId x = (case x of Some v \<Rightarrow> c_op_id v | None \<Rightarrow> [])"

lemmas change_getters = Change_GetCursor_def Change_GetEntityKey_def Change_GetValueJson_def Change_GetDeleted_def Change_GetDeviceId_def Change_GetClientTimeMs_def Change_GetOpId_def

text \<open>\<open>message SyncRequest\<close>.\<close>

record sync_request =
  sr_device_id :: string
  sr_cursor :: u64
  sr_mutations :: "mutation option list"
  sr_pull_limit :: u32
  sr_baseline_id :: string
  sr_local_version :: u64
  sr_local_updated_at_ms :: u64
  sr_local_progress_day :: string

text \<open>\<open>message SyncResponse\<close>.\<close>

record sync_response =
  sp_next_cursor :: u64
  sp_acks :: "mutation_ack list"
  sp_changes :: "change list"
  sp_has_more :: bool
  sp_reset_required :: bool
  sp_baseline_id :: string
  sp_server_version :: u64
  sp_server_updated_at_ms :: u64
  sp_server_progress_day :: string
  sp_baseline_mismatch :: bool

text \<open>\<open>message DiffRequest\<close>.\<close>

record diff_request =
  dr_device_id :: string
  dr_mutations :: "mutation option list"
  dr_baseline_id :: string
  dr_local_version :: u64
  dr_local_updated_at_ms :: u64
  dr_local_progress_day :: string

text \<open>\<open>message DiffResponse\<close>.\<close>

record diff_response =
  dp_acks :: "mutation_ack list"
  dp_canonical_changes :: "change list"
  dp_baseline_id :: string
  dp_server_cursor :: u64
  dp_server_version :: u64
  dp_server_updated_at_ms :: u64
  dp_server_progress_day :: string
  dp_baseline_mismatch :: bool

text \<open>\<open>message ResolveBaselineRequest\<close>.\<close>

record resolve_request =
  rr_request_id :: string
  rr_device_id :: string
  rr_local_baseline_id :: string
  rr_expected_server_baseline_id :: string
  rr_expected_server_version :: u64
  rr_choice :: baseline_choice
  rr_local_snapshot :: "mutation option list"
  rr_local_version :: u64
  rr_local_updated_at_ms :: u64
  rr_local_progress_day :: string

text \<open>\<open>message ResolveBaselineResponse\<close>.\<close>

record resolve_response =
  rp_baseline_id :: string
  rp_server_version :: u64
  rp_server_updated_at_ms :: u64
  rp_server_progress_day :: string
  rp_records :: "change list"
  rp_stale :: bool
  rp_server_cursor :: u64

end
