(* ===== verification/Errors.thy ===== *)
theory Errors
  imports Prelude
begin

text \<open>
  The errors a synchronisation call can end with (\<open>internal/sync/errors.go\<close>, and the sentinel
  \<open>ErrNotFound\<close> of \<open>internal/sync/store.go\<close>). Wrapping with \<open>fmt.Errorf("...: %w", err)\<close> keeps
  what \<open>errors.Is\<close> and \<open>errors.As\<close> see, so a wrapped error is modelled by the error it wraps.
  Errors that come from outside the program (a broken connection, a failing random source, a
  protobuf runtime error), and those the program makes with a text only, are \<open>ErrExternal\<close>;
  \<open>ErrSSEWrite\<close> is \<open>errSSEWrite\<close> of \<open>internal/httpapi/sse.go\<close> with the text of its cause.
\<close>

datatype error_code = CodeInvalidArgument | CodeFailedPrecondition

text \<open>The wire value of an error code.\<close>

fun error_code_string :: "error_code \<Rightarrow> string" where
  "error_code_string CodeInvalidArgument = ''INVALID_ARGUMENT''"
| "error_code_string CodeFailedPrecondition = ''FAILED_PRECONDITION''"

text \<open>What the database refuses.\<close>

datatype sql_error =
    DuplicateEntry     \<comment> \<open>a primary or unique key already holds the value (1062)\<close>
  | ForeignKeyMissing  \<comment> \<open>no row in the referenced table (1452)\<close>
  | ValueOutOfRange    \<comment> \<open>\<open>BIGINT UNSIGNED\<close> arithmetic overflows (1690)\<close>
  | IncorrectString    \<comment> \<open>a string is not valid in the character set of its column (1366)\<close>
  | DataTooLong        \<comment> \<open>a string does not fit its \<open>VARCHAR\<close> (1406)\<close>

datatype err =
    ErrNotFound
  | ErrNoRows
  | ErrResponseTooLarge
  | OperationError error_code string
  | EscapeError string
  | SqlError sql_error
  | ErrExternal string
  | ErrSSEWrite string

definition invalid_argument :: "string \<Rightarrow> err" where
  "invalid_argument message = OperationError CodeInvalidArgument message"

definition failed_precondition :: "string \<Rightarrow> err" where
  "failed_precondition message = OperationError CodeFailedPrecondition message"

text \<open>\<open>OperationError.Error\<close>.\<close>

definition operation_error_text :: "error_code \<Rightarrow> string \<Rightarrow> string" where
  "operation_error_text code message = error_code_string code @ '': '' @ message"

text \<open>\<open>errors.As(err, *OperationError)\<close>.\<close>

fun is_operation_error :: "err \<Rightarrow> bool" where
  "is_operation_error (OperationError _ _) = True"
| "is_operation_error _ = False"

text \<open>A read whose \<open>ErrNotFound\<close> is an answer; every other error is passed on.\<close>

definition tx_found :: "('s, err, 'a) tx \<Rightarrow> ('s, err, 'a option) tx" where
  "tx_found m = (\<lambda>s. case m s of
       Inl ErrNotFound \<Rightarrow> Inr (None, s)
     | Inl e \<Rightarrow> Inl e
     | Inr (a, s') \<Rightarrow> Inr (Some a, s'))"

lemma tx_found_Inr [tx_simps]:
  "tx_found m s = Inr (r, s') \<longleftrightarrow>
     (case r of None \<Rightarrow> m s = Inl ErrNotFound \<and> s' = s | Some a \<Rightarrow> m s = Inr (a, s'))"
  by (auto simp: tx_found_def split: sum.splits err.splits option.splits)

lemma tx_found_Inl [tx_simps]: "tx_found m s = Inl e \<longleftrightarrow> m s = Inl e \<and> e \<noteq> ErrNotFound"
  by (auto simp: tx_found_def split: sum.splits err.splits)

context tx_preorder
begin

lemma found: "tx_rel R m \<Longrightarrow> tx_rel R (tx_found m)"
  by (rule tx_relI) (auto simp: tx_found_Inr refl split: option.splits dest: tx_relD)

end

end
