(* ===== verification/Validation.thy ===== *)
theory Validation
  imports GoStrings Wire Errors
begin

text \<open>
  Request validation (\<open>internal/sync/validation.go\<close>): the regular expressions as matchers on the
  whole byte string, and one function per validator, its checks in the order of the code. A
  validator returns \<^const>\<open>Inr\<close> of unit, or the \<open>INVALID_ARGUMENT\<close> error of its first failing check.
  The lemmas characterise acceptance, and show that what is accepted fits the columns of the
  schema and the range of a JavaScript number.
\<close>

section \<open>Limits and patterns\<close>

definition max_safe_integer :: u64 where
  "max_safe_integer = 2 ^ 53 - 1"

definition max_mutations :: nat where "max_mutations = 200"
definition max_resolution_records :: nat where "max_resolution_records = 768"
definition max_value_json_bytes :: nat where "max_value_json_bytes = 128 * 1024"
definition default_pull_limit :: u32 where "default_pull_limit = 128"
definition max_pull_limit :: u32 where "max_pull_limit = 256"

text \<open>\<open>^baseline_[a-f0-9]{32}$\<close>\<close>

definition baseline_id_pattern :: "string \<Rightarrow> bool" where
  "baseline_id_pattern s \<longleftrightarrow>
     has_prefix s ''baseline_'' \<and> length (drop 9 s) = 32 \<and> list_all is_lower_hex (drop 9 s)"

text \<open>\<open>^[A-Za-z0-9_-]{8,128}$\<close>\<close>

definition device_id_pattern :: "string \<Rightarrow> bool" where
  "device_id_pattern s \<longleftrightarrow> 8 \<le> length s \<and> length s \<le> 128 \<and> list_all is_id_char s"

text \<open>\<open>^[A-Za-z0-9_-]{12,128}$\<close>\<close>

definition request_id_pattern :: "string \<Rightarrow> bool" where
  "request_id_pattern s \<longleftrightarrow> 12 \<le> length s \<and> length s \<le> 128 \<and> list_all is_id_char s"

text \<open>\<open>^[a-f0-9]{64}$\<close>\<close>

definition owner_key_pattern :: "string \<Rightarrow> bool" where
  "owner_key_pattern s \<longleftrightarrow> length s = 64 \<and> list_all is_lower_hex s"

section \<open>Validators\<close>

type_synonym check = "err + unit"

text \<open>\<open>if err := a; err != nil { return err }\<close>, then the rest.\<close>

definition and_then :: "check \<Rightarrow> check \<Rightarrow> check" where
  "and_then a b = (case a of Inl e \<Rightarrow> Inl e | Inr _ \<Rightarrow> b)"

definition check_that :: "bool \<Rightarrow> string \<Rightarrow> check" where
  "check_that ok message = (if ok then Inr () else Inl (invalid_argument message))"

lemma and_then_ok [simp]: "and_then a b = Inr u \<longleftrightarrow> a = Inr () \<and> b = Inr ()"
  by (auto simp: and_then_def split: sum.splits)

lemma and_then_err: "and_then a b = Inl e \<longleftrightarrow> a = Inl e \<or> (a = Inr () \<and> b = Inl e)"
  by (auto simp: and_then_def split: sum.splits)

lemma check_that_ok [simp]: "check_that ok message = Inr u \<longleftrightarrow> ok"
  by (simp add: check_that_def)

lemma check_that_err: "check_that ok message = Inl e \<longleftrightarrow> \<not> ok \<and> e = invalid_argument message"
  by (auto simp: check_that_def)

definition validate_owner_key :: "string \<Rightarrow> check" where
  "validate_owner_key owner = check_that (owner_key_pattern owner) ''invalid owner_key''"

definition validate_baseline_id :: "string \<Rightarrow> string \<Rightarrow> check" where
  "validate_baseline_id value label =
     check_that (baseline_id_pattern value) (''invalid '' @ label)"

definition validate_device_id :: "string \<Rightarrow> check" where
  "validate_device_id value = check_that (device_id_pattern value) ''invalid device_id''"

fun validate_safe :: "u64 list \<Rightarrow> check" where
  "validate_safe [] = Inr ()"
| "validate_safe (v # vs) =
     (if v > max_safe_integer
      then Inl (invalid_argument ''protobuf uint64 exceeds JavaScript safe integer range'')
      else validate_safe vs)"

definition validate_mutation :: "mutation option \<Rightarrow> string \<Rightarrow> check" where
  "validate_mutation mutation request_device =
     and_then (check_that (mutation \<noteq> None \<and> device_id_pattern (Mutation_GetOpId mutation))
                 ''invalid mutation op_id'')
    (and_then (check_that (has_prefix (Mutation_GetEntityKey mutation) ''stella/v1/''
                           \<and> utf16_length (Mutation_GetEntityKey mutation) \<le> 512)
                 ''invalid mutation entity_key'')
    (and_then (check_that (Mutation_GetDeviceId mutation = request_device)
                 ''mutation device_id mismatch'')
    (and_then (check_that (length (Mutation_GetValueJson mutation) \<le> max_value_json_bytes)
                 ''mutation value is too large'')
    (validate_safe [Mutation_GetBaseVersion mutation, Mutation_GetClientTimeMs mutation,
                    Mutation_GetClientSeq mutation]))))"

definition validate_mutation_wire_numbers :: "mutation option \<Rightarrow> check" where
  "validate_mutation_wire_numbers mutation =
     (case mutation of None \<Rightarrow> Inr ()
      | Some m \<Rightarrow> validate_safe [m_base_version m, m_client_time_ms m, m_client_seq m])"

fun validate_all :: "('a \<Rightarrow> check) \<Rightarrow> 'a list \<Rightarrow> check" where
  "validate_all f [] = Inr ()"
| "validate_all f (x # xs) = and_then (f x) (validate_all f xs)"

definition validate_exchange_request :: "string \<Rightarrow> sync_request option \<Rightarrow> check" where
  "validate_exchange_request owner request =
     (case request of
        None \<Rightarrow> Inl (invalid_argument ''missing sync request'')
      | Some r \<Rightarrow>
          and_then (validate_owner_key owner)
         (and_then (validate_device_id (sr_device_id r))
         (and_then (validate_baseline_id (sr_baseline_id r) ''baseline_id'')
         (and_then (check_that (length (sr_mutations r) \<le> max_mutations) ''too many mutations'')
         (and_then (validate_safe [sr_cursor r, sr_local_version r, sr_local_updated_at_ms r])
         (validate_all validate_mutation_wire_numbers (sr_mutations r)))))))"

definition validate_diff_request :: "string \<Rightarrow> diff_request option \<Rightarrow> check" where
  "validate_diff_request owner request =
     (case request of
        None \<Rightarrow> Inl (invalid_argument ''missing diff request'')
      | Some r \<Rightarrow>
          and_then (validate_owner_key owner)
         (and_then (validate_device_id (dr_device_id r))
         (and_then (validate_baseline_id (dr_baseline_id r) ''baseline_id'')
         (and_then (check_that (length (dr_mutations r) \<le> max_mutations) ''too many mutations'')
         (and_then (validate_safe [dr_local_version r, dr_local_updated_at_ms r])
         (validate_all validate_mutation_wire_numbers (dr_mutations r)))))))"

definition validate_resolve_envelope :: "string \<Rightarrow> resolve_request option \<Rightarrow> check" where
  "validate_resolve_envelope owner request =
     (case request of
        None \<Rightarrow> Inl (invalid_argument ''missing baseline resolution request'')
      | Some r \<Rightarrow>
          and_then (validate_owner_key owner)
         (and_then (validate_device_id (rr_device_id r))
         (and_then (validate_baseline_id (rr_local_baseline_id r) ''local_baseline_id'')
         (and_then (validate_baseline_id (rr_expected_server_baseline_id r)
                      ''expected_server_baseline_id'')
         (and_then (check_that (request_id_pattern (rr_request_id r)) ''invalid request_id'')
         (and_then (check_that (rr_choice r = CHOICE_USE_LOCAL \<or> rr_choice r = CHOICE_USE_SERVER)
                      ''invalid baseline choice'')
         (and_then (check_that (length (rr_local_snapshot r) \<le> max_resolution_records)
                      ''snapshot has too many records'')
         (and_then (validate_safe [rr_expected_server_version r, rr_local_version r,
                                   rr_local_updated_at_ms r])
         (validate_all validate_mutation_wire_numbers (rr_local_snapshot r))))))))))"

text \<open>The loop of \<open>validateLocalSnapshot\<close> with the set \<open>seen\<close> of the keys met so far.\<close>

fun validate_snapshot_loop :: "string \<Rightarrow> string set \<Rightarrow> mutation option list \<Rightarrow> check" where
  "validate_snapshot_loop device seen [] = Inr ()"
| "validate_snapshot_loop device seen (m # ms) =
     and_then (validate_mutation m device)
    (if Mutation_GetEntityKey m \<in> seen
     then Inl (invalid_argument ''snapshot contains duplicate entity_key'')
     else validate_snapshot_loop device (insert (Mutation_GetEntityKey m) seen) ms)"

definition validate_local_snapshot :: "resolve_request \<Rightarrow> check" where
  "validate_local_snapshot r = validate_snapshot_loop (rr_device_id r) {} (rr_local_snapshot r)"

definition normalized_pull_limit :: "u32 \<Rightarrow> nat" where
  "normalized_pull_limit value =
     (let v1 = (if value = 0 then default_pull_limit else value);
          v2 = (if v1 > max_pull_limit then max_pull_limit else v1);
          v3 = (if v2 < 1 then 1 else v2)
      in unat v3)"

section \<open>What is accepted\<close>

lemma validate_safe_ok: "validate_safe vs = Inr u \<longleftrightarrow> (\<forall>v \<in> set vs. v \<le> max_safe_integer)"
  by (induction vs) (auto simp: not_less)

lemma validate_all_ok: "validate_all f xs = Inr u \<longleftrightarrow> (\<forall>x \<in> set xs. f x = Inr ())"
  by (induction xs) auto

lemma validate_mutation_ok:
  "validate_mutation m device = Inr u \<longleftrightarrow>
     (\<exists>x. m = Some x \<and> device_id_pattern (m_op_id x)
        \<and> has_prefix (m_entity_key x) ''stella/v1/'' \<and> utf16_length (m_entity_key x) \<le> 512
        \<and> m_device_id x = device \<and> length (m_value_json x) \<le> max_value_json_bytes
        \<and> m_base_version x \<le> max_safe_integer \<and> m_client_time_ms x \<le> max_safe_integer
        \<and> m_client_seq x \<le> max_safe_integer)"
  by (cases m) (auto simp: validate_mutation_def mutation_getters validate_safe_ok)

lemma validate_snapshot_loop_ok:
  "validate_snapshot_loop device seen ms = Inr u \<longleftrightarrow>
     (\<forall>m \<in> set ms. validate_mutation m device = Inr ())
     \<and> distinct (map Mutation_GetEntityKey ms)
     \<and> Mutation_GetEntityKey ` set ms \<inter> seen = {}"
  by (induction ms arbitrary: seen) auto

lemma validate_local_snapshot_ok:
  "validate_local_snapshot r = Inr u \<longleftrightarrow>
     (\<forall>m \<in> set (rr_local_snapshot r). validate_mutation m (rr_device_id r) = Inr ())
     \<and> distinct (map Mutation_GetEntityKey (rr_local_snapshot r))"
  by (simp add: validate_local_snapshot_def validate_snapshot_loop_ok)

text \<open>Every rejection is an \<open>INVALID_ARGUMENT\<close>, so the HTTP layer answers 400.\<close>

definition rejects_invalid :: "check \<Rightarrow> bool" where
  "rejects_invalid c \<longleftrightarrow> (\<forall>e. c = Inl e \<longrightarrow> (\<exists>message. e = invalid_argument message))"

lemma rejects_ok [simp]: "rejects_invalid (Inr u)"
  by (simp add: rejects_invalid_def)

lemma rejects_and_then [intro]:
  "rejects_invalid a \<Longrightarrow> rejects_invalid b \<Longrightarrow> rejects_invalid (and_then a b)"
  by (auto simp: rejects_invalid_def and_then_err)

lemma rejects_check [intro]: "rejects_invalid (check_that ok message)"
  by (auto simp: rejects_invalid_def check_that_err)

lemma rejects_safe [intro]: "rejects_invalid (validate_safe vs)"
  by (induction vs) (auto simp: rejects_invalid_def)

lemma rejects_wire [intro]: "rejects_invalid (validate_mutation_wire_numbers m)"
  by (cases m) (auto simp: validate_mutation_wire_numbers_def rejects_invalid_def
      dest: rejects_safe [unfolded rejects_invalid_def, rule_format])

lemma rejects_all [intro]: "(\<And>x. rejects_invalid (f x)) \<Longrightarrow> rejects_invalid (validate_all f xs)"
  by (induction xs) auto

lemma rejects_mutation [intro]: "rejects_invalid (validate_mutation m device)"
  unfolding validate_mutation_def by (intro rejects_and_then rejects_check rejects_safe)

lemma rejects_snapshot_loop: "rejects_invalid (validate_snapshot_loop device seen ms)"
proof (induction ms arbitrary: seen)
  case (Cons m ms)
  then have "rejects_invalid (if Mutation_GetEntityKey m \<in> seen
      then Inl (invalid_argument ''snapshot contains duplicate entity_key'')
      else validate_snapshot_loop device (insert (Mutation_GetEntityKey m) seen) ms)"
    by (auto simp: rejects_invalid_def)
  then show ?case by (simp only: validate_snapshot_loop.simps) (rule rejects_and_then [OF rejects_mutation])
qed simp

lemmas validator_defs = validate_exchange_request_def validate_diff_request_def
  validate_resolve_envelope_def validate_owner_key_def validate_device_id_def validate_baseline_id_def

lemma rejects_exchange: "rejects_invalid (validate_exchange_request owner r)"
  by (cases r) (auto simp: validator_defs rejects_invalid_def [of "Inl _"]
      intro!: rejects_and_then rejects_check rejects_safe rejects_all rejects_wire)

lemma rejects_diff: "rejects_invalid (validate_diff_request owner r)"
  by (cases r) (auto simp: validator_defs rejects_invalid_def [of "Inl _"]
      intro!: rejects_and_then rejects_check rejects_safe rejects_all rejects_wire)

lemma rejects_resolve: "rejects_invalid (validate_resolve_envelope owner r)"
  by (cases r) (auto simp: validator_defs rejects_invalid_def [of "Inl _"]
      intro!: rejects_and_then rejects_check rejects_safe rejects_all rejects_wire)

lemma normalized_pull_limit_bounds:
  "1 \<le> normalized_pull_limit v \<and> normalized_pull_limit v \<le> 256"
  by (simp add: normalized_pull_limit_def Let_def default_pull_limit_def max_pull_limit_def
      word_less_nat_alt word_le_nat_alt)

lemma normalized_pull_limit_id: "1 \<le> v \<Longrightarrow> v \<le> 256 \<Longrightarrow> normalized_pull_limit v = unat v"
  by (auto simp: normalized_pull_limit_def Let_def default_pull_limit_def max_pull_limit_def
      word_less_nat_alt word_le_nat_alt)

lemma is_lower_hex_ascii: "is_lower_hex c \<Longrightarrow> of_char c < (128::nat)"
  by (auto simp: is_lower_hex_def in_range_def is_digit_def)

lemma baseline_id_pattern_length: "baseline_id_pattern s \<Longrightarrow> length s = 41"
  by (auto simp: baseline_id_pattern_def has_prefix_def)

end
