(* ===== verification/Encoding.thy ===== *)
theory Encoding
  imports GoStrings Errors
begin

text \<open>
  What the transport code uses of \<open>strconv\<close>, \<open>encoding/base64\<close>, \<open>encoding/json\<close> and
  \<open>strings.EqualFold\<close>, on byte strings: decimal numbers, the standard alphabet with padding and
  its strict decoder, quoted JSON strings, and the round trips between them.
\<close>

section \<open>Package strconv\<close>

text \<open>\<open>FormatUint(n, 10)\<close> and \<open>ParseUint(s, 10, 64)\<close>.\<close>

fun decimal :: "nat \<Rightarrow> string" where
  "decimal n = (if n < 10 then [char_of (48 + n)] else decimal (n div 10) @ [char_of (48 + n mod 10)])"

declare decimal.simps [simp del]

definition format_uint :: "u64 \<Rightarrow> string" where
  "format_uint n = decimal (unat n)"

definition digit_value :: "char \<Rightarrow> nat" where
  "digit_value c = of_char c - 48"

definition decimal_value :: "string \<Rightarrow> nat" where
  "decimal_value s = foldl (\<lambda>n c. 10 * n + digit_value c) 0 s"

definition parse_uint :: "string \<Rightarrow> u64 option" where
  "parse_uint s =
     (if s \<noteq> [] \<and> list_all is_digit s \<and> decimal_value s < 2 ^ 64 then Some (of_nat (decimal_value s))
      else None)"

lemma digit_char:
  assumes "n < 10"
  shows "is_digit (char_of (48 + n))" and "digit_value (char_of (48 + n)) = n"
  using assms by (simp_all add: is_digit_def in_range_def digit_value_def)

lemma decimal_digits: "decimal n \<noteq> [] \<and> list_all is_digit (decimal n) \<and> decimal_value (decimal n) = n"
proof (induction n rule: decimal.induct)
  case (1 n)
  show ?case
  proof (cases "n < 10")
    case True
    then show ?thesis by (simp add: decimal.simps [of n] digit_char decimal_value_def)
  next
    case False
    with 1 digit_char [of "n mod 10"] show ?thesis
      by (simp add: decimal.simps [of n] decimal_value_def)
  qed
qed

lemma parse_format_uint [simp]: "parse_uint (format_uint n) = Some n"
proof -
  have "unat n < 2 ^ LENGTH(64)" by (rule unsigned_less)
  then show ?thesis using decimal_digits [of "unat n"] by (simp add: parse_uint_def format_uint_def)
qed

lemma digit_plain: "is_digit c \<Longrightarrow> c \<noteq> CHR 0x0A \<and> c \<noteq> CHR 0x3A"
  by (auto simp: is_digit_def in_range_def)

section \<open>Package encoding/base64\<close>

definition base64_alphabet :: string where
  "base64_alphabet = ''ABCDEFGHIJKLMNOPQRSTUVWXYZabcdefghijklmnopqrstuvwxyz0123456789+/''"

definition base64_char :: "nat \<Rightarrow> char" where
  "base64_char n = base64_alphabet ! n"

definition base64_value :: "char \<Rightarrow> nat option" where
  "base64_value c = map_of (zip base64_alphabet [0..<64]) c"

definition pad :: char where "pad = CHR 0x3D"

fun base64_encode :: "string \<Rightarrow> string" where
  "base64_encode [] = []"
| "base64_encode [a] =
     (let x = of_char a in [base64_char (x div 4), base64_char (x mod 4 * 16), pad, pad])"
| "base64_encode [a, b] =
     (let x = of_char a; y = of_char b
      in [base64_char (x div 4), base64_char (x mod 4 * 16 + y div 16), base64_char (y mod 16 * 4), pad])"
| "base64_encode (a # b # c # rest) =
     (let x = of_char a; y = of_char b; z = of_char c
      in base64_char (x div 4) # base64_char (x mod 4 * 16 + y div 16)
         # base64_char (y mod 16 * 4 + z div 64) # base64_char (z mod 64) # base64_encode rest)"

text \<open>
  \<open>StdEncoding.Strict().DecodeString\<close>: line breaks are skipped wherever they stand; then groups
  of four, the last one padded; the unused bits of a padded group have to be zero.
\<close>

fun base64_groups :: "string \<Rightarrow> string option" where
  "base64_groups [] = Some []"
| "base64_groups (p # q # r # s # rest) =
     (case (base64_value p, base64_value q) of
        (Some a, Some b) \<Rightarrow>
          if r = pad then
            (if s = pad \<and> rest = [] \<and> b mod 16 = 0 then Some [char_of (a * 4 + b div 16)] else None)
          else (case base64_value r of
             None \<Rightarrow> None
           | Some c \<Rightarrow>
               if s = pad then
                 (if rest = [] \<and> c mod 4 = 0
                  then Some [char_of (a * 4 + b div 16), char_of (b mod 16 * 16 + c div 4)] else None)
               else (case (base64_value s, base64_groups rest) of
                  (Some d, Some bytes) \<Rightarrow>
                    Some (char_of (a * 4 + b div 16) # char_of (b mod 16 * 16 + c div 4)
                          # char_of (c mod 4 * 64 + d) # bytes)
                | _ \<Rightarrow> None))
      | _ \<Rightarrow> None)"
| "base64_groups _ = None"

definition base64_decode :: "string \<Rightarrow> string option" where
  "base64_decode s = base64_groups (filter (\<lambda>c. c \<noteq> CHR 0x0A \<and> c \<noteq> CHR 0x0D) s)"

lemma base64_alphabet_facts: "distinct base64_alphabet \<and> length base64_alphabet = 64
    \<and> list_all (\<lambda>c. c \<noteq> pad \<and> c \<noteq> CHR 0x0A \<and> c \<noteq> CHR 0x0D \<and> (is_id_char c \<or> c = CHR ''+'' \<or> c = CHR ''/'')) base64_alphabet"
  by (simp add: base64_alphabet_def pad_def is_id_char_def in_range_def is_digit_def)

lemma base64_value_char [simp]: "n < 64 \<Longrightarrow> base64_value (base64_char n) = Some n"
  using base64_alphabet_facts map_of_zip_nth [of base64_alphabet "[0..<64]" n]
  by (simp add: base64_value_def base64_char_def)

lemma base64_char_plain:
  assumes "n < 64"
  shows "base64_char n \<noteq> pad" and "base64_char n \<noteq> CHR 0x0A" and "base64_char n \<noteq> CHR 0x0D"
    and "is_id_char (base64_char n) \<or> base64_char n = CHR ''+'' \<or> base64_char n = CHR ''/''"
proof -
  have "base64_char n \<in> set base64_alphabet" using assms base64_alphabet_facts by (simp add: base64_char_def)
  with base64_alphabet_facts
  show "base64_char n \<noteq> pad" and "base64_char n \<noteq> CHR 0x0A" and "base64_char n \<noteq> CHR 0x0D"
    and "is_id_char (base64_char n) \<or> base64_char n = CHR ''+'' \<or> base64_char n = CHR ''/''"
    unfolding list_all_iff by blast+
qed

lemma base64_encode_length: "length (base64_encode s) = (length s + 2) div 3 * 4"
proof (induction s rule: base64_encode.induct)
  case (4 a b c rest)
  have "(5 + length rest) div 3 = Suc (Suc (Suc (length rest)) div 3)" by simp
  with 4 show ?case by (simp add: Let_def)
qed (simp_all add: Let_def)

lemma byte_bound: "(of_char c :: nat) < 256"
  by (metis of_char_mod_256 mod_less_divisor zero_less_numeral)

lemma sextets:
  fixes a b c :: char
  shows
  "of_char a div 4 < (64::nat)" "of_char a mod 4 * 16 < (64::nat)"
  "of_char a mod 4 * 16 + of_char b div 16 < (64::nat)" "of_char b mod 16 * 4 < (64::nat)"
  "of_char b mod 16 * 4 + of_char c div 64 < (64::nat)" "of_char c mod 64 < (64::nat)"
  "of_char b div 16 < (16::nat)" "of_char c div 64 < (4::nat)"
proof -
  define x y z :: nat where "x = of_char a" and "y = of_char b" and "z = of_char c"
  then have b: "x < 256" "y < 256" "z < 256" by (simp_all only: byte_bound)
  then have "x div 4 < 64" "y div 16 < 16" "z div 64 < 4" by simp_all
  moreover have "x mod 4 < 4" "y mod 16 < 16" "z mod 64 < 64" by simp_all
  ultimately show "of_char a div 4 < (64::nat)" "of_char a mod 4 * 16 < (64::nat)"
    "of_char a mod 4 * 16 + of_char b div 16 < (64::nat)" "of_char b mod 16 * 4 < (64::nat)"
    "of_char b mod 16 * 4 + of_char c div 64 < (64::nat)" "of_char c mod 64 < (64::nat)"
    "of_char b div 16 < (16::nat)" "of_char c div 64 < (4::nat)"
    unfolding x_def [symmetric] y_def [symmetric] z_def [symmetric] by linarith+
qed

text \<open>The characters that occur in encoded data; none of them needs escaping or ends a line.\<close>

definition json_plain :: "char \<Rightarrow> bool" where
  "json_plain c \<longleftrightarrow> is_id_char c \<or> c = CHR ''+'' \<or> c = CHR ''/'' \<or> c = pad"

lemma json_plain_char: "n < 64 \<Longrightarrow> json_plain (base64_char n)"
  using base64_char_plain(4) by (auto simp: json_plain_def)

lemma base64_plain: "list_all json_plain (base64_encode s)"
  by (induction s rule: base64_encode.induct)
    (simp_all add: Let_def json_plain_char sextets, simp_all add: json_plain_def)

lemma base64_groups_encode: "base64_groups (base64_encode s) = Some s"
proof (induction s rule: base64_encode.induct)
  case (2 a)
  have "of_char a div 4 * 4 + of_char a mod 4 * 16 div 16 = (of_char a :: nat)" by simp
  then show ?case by (simp add: Let_def sextets)
next
  case (3 a b)
  have "of_char a div 4 * 4 + (of_char a mod 4 * 16 + of_char b div 16) div 16 = (of_char a :: nat)"
    "(of_char a mod 4 * 16 + of_char b div 16) mod 16 * 16 + of_char b mod 16 * 4 div 4 = (of_char b :: nat)"
    by (simp_all add: div_mult_mod_eq sextets)
  then show ?case by (simp add: Let_def base64_char_plain sextets)
next
  case (4 a b c rest)
  have "of_char a div 4 * 4 + (of_char a mod 4 * 16 + of_char b div 16) div 16 = (of_char a :: nat)"
    "(of_char a mod 4 * 16 + of_char b div 16) mod 16 * 16 + (of_char b mod 16 * 4 + of_char c div 64) div 4
      = (of_char b :: nat)"
    "(of_char b mod 16 * 4 + of_char c div 64) mod 4 * 64 + of_char c mod 64 = (of_char c :: nat)"
    by (simp_all add: div_mult_mod_eq sextets)
  with 4 show ?case by (simp add: Let_def base64_char_plain sextets)
qed simp

lemma base64_round_trip [simp]: "base64_decode (base64_encode s) = Some s"
proof -
  have "filter (\<lambda>c. c \<noteq> CHR 0x0A \<and> c \<noteq> CHR 0x0D) (base64_encode s) = base64_encode s"
    using base64_plain [of s]
    by (auto simp: filter_id_conv list_all_iff json_plain_def is_id_char_def in_range_def is_digit_def pad_def)
  then show ?thesis by (simp add: base64_decode_def base64_groups_encode)
qed

section \<open>Package encoding/json\<close>

text \<open>
  A string as \<open>json.Marshal\<close> writes it: quotes, backslashes and control characters are escaped,
  and also the characters that matter in HTML; invalid UTF-8 becomes the replacement character.
\<close>

definition json_u :: "nat \<Rightarrow> string" where
  "json_u n = [CHR 0x5C, CHR ''u'', hex_digit (n div 4096 mod 16), hex_digit (n div 256 mod 16),
     hex_digit (n div 16 mod 16), hex_digit (n mod 16)]"

definition json_rune :: "nat \<times> string \<Rightarrow> string" where
  "json_rune chunk =
     (let (r, bytes) = chunk in
      if r = 34 \<or> r = 92 then CHR 0x5C # bytes
      else if r = 8 then CHR 0x5C # ''b'' else if r = 12 then CHR 0x5C # ''f''
      else if r = 10 then CHR 0x5C # ''n'' else if r = 13 then CHR 0x5C # ''r''
      else if r = 9 then CHR 0x5C # ''t''
      else if r < 32 \<or> r = 60 \<or> r = 62 \<or> r = 38 \<or> r = 8232 \<or> r = 8233 then json_u r
      else if r = rune_error \<and> length bytes = 1 then json_u rune_error
      else bytes)"

definition json_quote :: "string \<Rightarrow> string" where
  "json_quote s = [CHR 0x22] @ concat (map json_rune (rune_chunks s)) @ [CHR 0x22]"

lemma json_quote_plain: "list_all json_plain s \<Longrightarrow> json_quote s = [CHR 0x22] @ s @ [CHR 0x22]"
proof -
  assume plain: "list_all json_plain s"
  have ascii: "list_all (\<lambda>c. of_char c < (128::nat)) s"
    by (rule list.pred_mono_strong [OF plain]) (auto simp: json_plain_def is_id_char_def in_range_def is_digit_def pad_def)
  have "json_rune (of_char c, [c]) = [c]" if "json_plain c" for c
    using that by (auto simp: json_plain_def json_rune_def is_id_char_def in_range_def is_digit_def pad_def rune_error_def)
  then have "map json_rune (rune_chunks s) = map (\<lambda>c. [c]) s"
    using plain by (simp add: rune_chunks_ascii [OF ascii] list_all_iff)
  then show ?thesis by (simp add: json_quote_def)
qed

section \<open>More of package strings\<close>

text \<open>\<open>strings.SplitN(s, sep, 2)[0]\<close> for a one-byte separator: what stands before its first occurrence.\<close>

definition before_first :: "char \<Rightarrow> string \<Rightarrow> string" where
  "before_first d s = takeWhile (\<lambda>c. c \<noteq> d) s"

text \<open>
  \<open>strings.EqualFold(s, t)\<close> for a \<open>t\<close> of ASCII letters: besides the two cases of a letter, simple
  folding identifies the long s (U+017F) and the Kelvin sign (U+212A) with a letter.
\<close>

definition fold_rune :: "nat \<Rightarrow> nat" where
  "fold_rune r = (if 65 \<le> r \<and> r \<le> 90 then r + 32 else if r = 383 then 115 else if r = 8490 then 107 else r)"

definition equal_fold :: "string \<Rightarrow> string \<Rightarrow> bool" where
  "equal_fold s t \<longleftrightarrow> map fold_rune (runes s) = map fold_rune (runes t)"

end
