(* ===== verification/JsonText.thy ===== *)
theory JsonText
  imports Encoding
begin

text \<open>
  Package \<open>encoding/json\<close> as the transport code uses it: the text of a JSON value, read with the
  states of the package's scanner (nesting up to 10000, strings unquoted to UTF-8), and decoding
  into a struct (names match up to case, the last occurrence wins, \<open>null\<close> leaves a field as it is, a
  value of another type is an error). Flat objects that the code writes are read back.
\<close>

datatype jvalue =
    JvNull
  | JvBool bool
  | JvNumber string
  | JvString string
  | JvArray "jvalue list"
  | JvObject "(string \<times> jvalue) list"

section \<open>Strings\<close>

text \<open>\<open>utf8.AppendRune\<close>.\<close>

definition utf8_encode :: "nat \<Rightarrow> string" where
  "utf8_encode r =
     (if r < 128 then [char_of r]
      else if r < 2048 then [char_of (192 + r div 64), char_of (128 + r mod 64)]
      else
        (let v = (if 1114111 < r \<or> (55296 \<le> r \<and> r \<le> 57343) then rune_error else r) in
         if v < 65536 then [char_of (224 + v div 4096), char_of (128 + v div 64 mod 64), char_of (128 + v mod 64)]
         else [char_of (240 + v div 262144), char_of (128 + v div 4096 mod 64), char_of (128 + v div 64 mod 64),
               char_of (128 + v mod 64)]))"

definition hex4 :: "string \<Rightarrow> nat option" where
  "hex4 s =
     (case s of
        a # b # c # d # _ \<Rightarrow>
          if is_hex a \<and> is_hex b \<and> is_hex c \<and> is_hex d
          then Some (((unhex a * 16 + unhex b) * 16 + unhex c) * 16 + unhex d) else None
      | _ \<Rightarrow> None)"

text \<open>How many bytes belong to a character of a string besides its first one; none if it is not allowed.\<close>

definition escape_length :: "char \<Rightarrow> string \<Rightarrow> nat option" where
  "escape_length c cs =
     (if of_char c < (32 :: nat) then None
      else if c = CHR 0x5C then
        (case cs of
           [] \<Rightarrow> None
         | e # rest \<Rightarrow>
             if e = CHR ''u'' then (if hex4 rest = None then None else Some 5)
             else if e \<in> set (CHR 0x22 # CHR 0x5C # ''/bfnrt'') then Some 1 else None)
      else Some 0)"

text \<open>What stands before the closing quote, and what behind it.\<close>

function scan_string :: "string \<Rightarrow> (string \<times> string) option" where
  "scan_string [] = None"
| "scan_string (c # cs) =
     (if c = CHR 0x22 then Some ([], cs)
      else case escape_length c cs of
        None \<Rightarrow> None
      | Some k \<Rightarrow>
          (case scan_string (drop k cs) of
             None \<Rightarrow> None
           | Some (body, rest) \<Rightarrow> Some (c # take k cs @ body, rest)))"
  by pat_completeness auto
termination by (relation "measure length") auto

lemma scan_string_shorter: "scan_string s = Some (body, rest) \<Longrightarrow> length rest < length s"
proof (induction s arbitrary: body rest rule: scan_string.induct)
  case (2 c cs)
  show ?case
  proof (cases "c = CHR 0x22")
    case False
    with 2(2) obtain k b where k: "escape_length c cs = Some k" "scan_string (drop k cs) = Some (b, rest)"
      by (auto split: option.splits)
    from 2(1) [OF False k] show ?thesis by simp
  qed (use 2(2) in simp)
qed simp

definition unescape :: "char \<Rightarrow> char" where
  "unescape e =
     (if e = CHR ''b'' then CHR 0x08 else if e = CHR ''f'' then CHR 0x0C else if e = CHR ''n'' then CHR 0x0A
      else if e = CHR ''r'' then CHR 0x0D else if e = CHR ''t'' then CHR 0x09 else e)"

text \<open>The second half of a surrogate pair, if one follows.\<close>

definition surrogate_pair :: "nat \<Rightarrow> string \<Rightarrow> nat option" where
  "surrogate_pair r s =
     (case s of
        b # u # rest \<Rightarrow>
          if b = CHR 0x5C \<and> u = CHR ''u'' then
            (case hex4 rest of
               Some r2 \<Rightarrow> if r < 56320 \<and> 56320 \<le> r2 \<and> r2 \<le> 57343
                          then Some (65536 + (r - 55296) * 1024 + (r2 - 56320)) else None
             | None \<Rightarrow> None)
          else None
      | _ \<Rightarrow> None)"

function unquote :: "string \<Rightarrow> string" where
  "unquote [] = []"
| "unquote (c # cs) =
     (if c = CHR 0x5C then
        (case cs of
           [] \<Rightarrow> []
         | e # rest \<Rightarrow>
             if e = CHR ''u'' then
               (case hex4 rest of
                  None \<Rightarrow> []
                | Some r \<Rightarrow>
                    if 55296 \<le> r \<and> r \<le> 57343 then
                      (case surrogate_pair r (drop 4 rest) of
                         Some pair \<Rightarrow> utf8_encode pair @ unquote (drop 10 rest)
                       | None \<Rightarrow> utf8_encode rune_error @ unquote (drop 4 rest))
                    else utf8_encode r @ unquote (drop 4 rest))
             else unescape e # unquote rest)
      else if of_char c < (128 :: nat) then c # unquote cs
      else
        (let (r, w) = decode_rune (map of_char (take 4 (c # cs)))
         in utf8_encode r @ unquote (drop (w - 1) cs)))"
  by pat_completeness auto
termination by (relation "measure length") auto

section \<open>Numbers and tokens\<close>

definition span_digits :: "string \<Rightarrow> string \<times> string" where
  "span_digits s = (takeWhile is_digit s, dropWhile is_digit s)"

text \<open>An optional part: the characters of \<open>lead\<close> at its start, then digits.\<close>

definition scan_part :: "string \<Rightarrow> string \<Rightarrow> (string \<times> string) option" where
  "scan_part lead s =
     (let (digits, rest) = span_digits s in if digits = [] then None else Some (lead @ digits, rest))"

definition scan_fraction :: "string \<Rightarrow> (string \<times> string) option" where
  "scan_fraction s = (case s of c # cs \<Rightarrow> if c = CHR ''.'' then scan_part [c] cs else Some ([], s) | [] \<Rightarrow> Some ([], []))"

definition scan_exponent :: "string \<Rightarrow> (string \<times> string) option" where
  "scan_exponent s =
     (case s of
        c # cs \<Rightarrow>
          if c = CHR ''e'' \<or> c = CHR ''E'' then
            (case cs of
               d # ds \<Rightarrow> if d = CHR ''+'' \<or> d = CHR ''-'' then scan_part [c, d] ds else scan_part [c] cs
             | [] \<Rightarrow> None)
          else Some ([], s)
      | [] \<Rightarrow> Some ([], []))"

definition scan_integer :: "string \<Rightarrow> (string \<times> string) option" where
  "scan_integer s =
     (case s of
        c # cs \<Rightarrow> if c = CHR ''0'' then Some ([c], cs) else if is_digit c then scan_part [] s else None
      | [] \<Rightarrow> None)"

definition scan_number :: "string \<Rightarrow> (string \<times> string) option" where
  "scan_number s =
     (let (sign, s1) = (if has_prefix s ''-'' then (''-'', tl s) else ([], s)) in
      case scan_integer s1 of
        None \<Rightarrow> None
      | Some (digits, s2) \<Rightarrow>
          (case scan_fraction s2 of
             None \<Rightarrow> None
           | Some (fraction, s3) \<Rightarrow>
               (case scan_exponent s3 of
                  None \<Rightarrow> None
                | Some (exponent, s4) \<Rightarrow> Some (sign @ digits @ fraction @ exponent, s4))))"

lemma span_digits_length: "length (dropWhile is_digit s) \<le> length s"
  by (rule length_dropWhile_le)

lemma scan_part_shorter: "scan_part lead s = Some (p, rest) \<Longrightarrow> length rest < length s"
proof -
  assume "scan_part lead s = Some (p, rest)"
  then have "takeWhile is_digit s \<noteq> []" "rest = dropWhile is_digit s"
    by (auto simp: scan_part_def span_digits_def split: if_splits)
  then show ?thesis by (metis dropWhile_eq_self_iff length_dropWhile_le nat_less_le not_less takeWhile_eq_Nil_iff
      takeWhile_dropWhile_id length_append length_greater_0_conv less_add_same_cancel2)
qed

lemma scan_number_shorter: "scan_number s = Some (lit, rest) \<Longrightarrow> length rest < length s"
proof -
  have frac: "scan_fraction s = Some (p, r) \<Longrightarrow> length r \<le> length s" for s p r
    by (auto simp: scan_fraction_def split: list.splits if_splits dest: scan_part_shorter)
  have expo: "scan_exponent s = Some (p, r) \<Longrightarrow> length r \<le> length s" for s p r
    by (auto simp: scan_exponent_def split: list.splits if_splits dest: scan_part_shorter)
  have int: "scan_integer s = Some (p, r) \<Longrightarrow> length r < length s" for s p r
    by (auto simp: scan_integer_def split: list.splits if_splits dest: scan_part_shorter)
  assume "scan_number s = Some (lit, rest)"
  then obtain digits s2 f s3 e where "scan_integer (if has_prefix s ''-'' then tl s else s) = Some (digits, s2)"
    "scan_fraction s2 = Some (f, s3)" "scan_exponent s3 = Some (e, rest)"
    by (auto simp: scan_number_def Let_def split: if_splits option.splits)
  with frac expo int show ?thesis by (fastforce split: if_splits)
qed

datatype token = TBeginObject | TEndObject | TBeginArray | TEndArray | TColon | TComma | TString string | TLiteral jvalue

definition is_json_space :: "char \<Rightarrow> bool" where
  "is_json_space c \<longleftrightarrow> c = CHR 0x20 \<or> c = CHR 0x09 \<or> c = CHR 0x0D \<or> c = CHR 0x0A"

definition punctuation :: "char \<Rightarrow> token option" where
  "punctuation c =
     (if c = CHR 0x7B then Some TBeginObject else if c = CHR 0x7D then Some TEndObject
      else if c = CHR 0x5B then Some TBeginArray else if c = CHR 0x5D then Some TEndArray
      else if c = CHR 0x3A then Some TColon else if c = CHR 0x2C then Some TComma else None)"

definition scan_word :: "string \<Rightarrow> (jvalue \<times> string) option" where
  "scan_word s =
     (if has_prefix s ''true'' then Some (JvBool True, drop 4 s)
      else if has_prefix s ''false'' then Some (JvBool False, drop 5 s)
      else if has_prefix s ''null'' then Some (JvNull, drop 4 s) else None)"

definition prepend :: "'a \<Rightarrow> 'a list option \<Rightarrow> 'a list option" where
  "prepend x xs = (case xs of None \<Rightarrow> None | Some l \<Rightarrow> Some (x # l))"

function tokens :: "string \<Rightarrow> token list option" where
  "tokens [] = Some []"
| "tokens (c # cs) =
     (if is_json_space c then tokens cs
      else case punctuation c of
        Some t \<Rightarrow> prepend t (tokens cs)
      | None \<Rightarrow>
          if c = CHR 0x22 then
            (case scan_string cs of
               None \<Rightarrow> None
             | Some (body, rest) \<Rightarrow> prepend (TString (unquote body)) (tokens rest))
          else if c = CHR ''-'' \<or> is_digit c then
            (case scan_number (c # cs) of
               None \<Rightarrow> None
             | Some (lit, rest) \<Rightarrow> prepend (TLiteral (JvNumber lit)) (tokens rest))
          else
            (case scan_word (c # cs) of
               None \<Rightarrow> None
             | Some (v, rest) \<Rightarrow> prepend (TLiteral v) (tokens rest)))"
  by pat_completeness auto
termination
  by (relation "measure length")
    (auto dest: scan_string_shorter scan_number_shorter simp: scan_word_def split: if_splits)

section \<open>Values\<close>

text \<open>
  The scanner's states: what may come next, and the open arrays and objects, with what they hold so
  far in reverse.
\<close>

datatype expect = ExpValue | ExpValueOrEnd | ExpNameOrEnd | ExpName | ExpColon string | ExpMore

datatype frame = InArray "jvalue list" | InObject "(string \<times> jvalue) list" string

definition max_nesting_depth :: nat where "max_nesting_depth = 10000"

text \<open>A value is complete: it goes into what is open, or it is the result.\<close>

fun close_value :: "jvalue \<Rightarrow> frame list \<Rightarrow> frame list + jvalue" where
  "close_value v [] = Inr v"
| "close_value v (InArray vs # fs) = Inl (InArray (v # vs) # fs)"
| "close_value v (InObject ms k # fs) = Inl (InObject ((k, v) # ms) k # fs)"

definition begins_value :: "expect \<Rightarrow> bool" where
  "begins_value e \<longleftrightarrow> e = ExpValue \<or> e = ExpValueOrEnd"

fun parse_tokens :: "token list \<Rightarrow> expect \<Rightarrow> frame list \<Rightarrow> jvalue option" where
  "parse_tokens [] e fs = None"
| "parse_tokens (t # ts) e fs =
     (let finish = (\<lambda>v rest. case close_value v rest of
            Inl fs' \<Rightarrow> parse_tokens ts ExpMore fs'
          | Inr result \<Rightarrow> if ts = [] then Some result else None) in
      case t of
        TLiteral v \<Rightarrow> if begins_value e then finish v fs else None
      | TString s \<Rightarrow>
          if begins_value e then finish (JvString s) fs
          else if e = ExpNameOrEnd \<or> e = ExpName then parse_tokens ts (ExpColon s) fs else None
      | TBeginArray \<Rightarrow>
          if begins_value e \<and> length fs < max_nesting_depth then parse_tokens ts ExpValueOrEnd (InArray [] # fs) else None
      | TBeginObject \<Rightarrow>
          if begins_value e \<and> length fs < max_nesting_depth then parse_tokens ts ExpNameOrEnd (InObject [] [] # fs) else None
      | TEndArray \<Rightarrow>
          (case fs of
             InArray vs # rest \<Rightarrow> if e = ExpMore \<or> e = ExpValueOrEnd then finish (JvArray (rev vs)) rest else None
           | _ \<Rightarrow> None)
      | TEndObject \<Rightarrow>
          (case fs of
             InObject ms k # rest \<Rightarrow> if e = ExpMore \<or> e = ExpNameOrEnd then finish (JvObject (rev ms)) rest else None
           | _ \<Rightarrow> None)
      | TComma \<Rightarrow>
          if e = ExpMore then
            (case fs of
               InArray vs # rest \<Rightarrow> parse_tokens ts ExpValue fs
             | InObject ms k # rest \<Rightarrow> parse_tokens ts ExpName fs
             | [] \<Rightarrow> None)
          else None
      | TColon \<Rightarrow>
          (case e of
             ExpColon k \<Rightarrow>
               (case fs of InObject ms k0 # rest \<Rightarrow> parse_tokens ts ExpValue (InObject ms k # rest) | _ \<Rightarrow> None)
           | _ \<Rightarrow> None))"

definition json_parse :: "string \<Rightarrow> jvalue option" where
  "json_parse s = (case tokens s of None \<Rightarrow> None | Some ts \<Rightarrow> parse_tokens ts ExpValue [])"

section \<open>Structs\<close>

text \<open>
  A struct type is a list of field names with what a value does to the struct; \<^const>\<open>None\<close> is a
  value of the wrong type. The decoder goes on after such an error, and reports it at the end.
\<close>

type_synonym 'r struct = "(string \<times> (jvalue \<Rightarrow> 'r \<Rightarrow> 'r option)) list"

definition field_of :: "'r struct \<Rightarrow> string \<Rightarrow> (jvalue \<Rightarrow> 'r \<Rightarrow> 'r option) option" where
  "field_of fields name =
     (case map_of fields name of
        Some f \<Rightarrow> Some f
      | None \<Rightarrow> (case filter (\<lambda>(n, _). equal_fold name n) fields of [] \<Rightarrow> None | (_, f) # _ \<Rightarrow> Some f))"

fun decode_members :: "'r struct \<Rightarrow> (string \<times> jvalue) list \<Rightarrow> 'r \<Rightarrow> 'r option" where
  "decode_members fields [] r = Some r"
| "decode_members fields ((name, v) # ms) r =
     (case field_of fields name of
        None \<Rightarrow> decode_members fields ms r
      | Some f \<Rightarrow> (case f v r of None \<Rightarrow> None | Some r' \<Rightarrow> decode_members fields ms r'))"

fun decode_struct :: "'r struct \<Rightarrow> jvalue \<Rightarrow> 'r \<Rightarrow> 'r option" where
  "decode_struct fields JvNull r = Some r"
| "decode_struct fields (JvObject ms) r = decode_members fields ms r"
| "decode_struct fields _ r = None"

text \<open>\<open>json.Unmarshal(s, &r)\<close>: \<^const>\<open>None\<close> for an error.\<close>

definition unmarshal :: "'r struct \<Rightarrow> string \<Rightarrow> 'r \<Rightarrow> 'r option" where
  "unmarshal fields s r = (case json_parse s of None \<Rightarrow> None | Some v \<Rightarrow> decode_struct fields v r)"

fun string_field :: "(string \<Rightarrow> 'r \<Rightarrow> 'r) \<Rightarrow> jvalue \<Rightarrow> 'r \<Rightarrow> 'r option" where
  "string_field put (JvString s) r = Some (put s r)"
| "string_field put JvNull r = Some r"
| "string_field put _ r = None"

text \<open>\<open>strconv.ParseInt(s, 10, 64)\<close>, on the literals of JSON.\<close>

definition parse_int :: "string \<Rightarrow> int option" where
  "parse_int s =
     (let (neg, digits) = (if has_prefix s ''-'' then (True, tl s) else (False, s)); n = int (decimal_value digits) in
      if digits = [] \<or> \<not> list_all is_digit digits then None
      else if neg then (if n \<le> 2 ^ 63 then Some (- n) else None)
      else (if n < 2 ^ 63 then Some n else None))"

fun int_field :: "(int \<Rightarrow> 'r \<Rightarrow> 'r) \<Rightarrow> jvalue \<Rightarrow> 'r \<Rightarrow> 'r option" where
  "int_field put (JvNumber s) r = (case parse_int s of None \<Rightarrow> None | Some n \<Rightarrow> Some (put n r))"
| "int_field put JvNull r = Some r"
| "int_field put _ r = None"

fun uint_field :: "(u64 \<Rightarrow> 'r \<Rightarrow> 'r) \<Rightarrow> jvalue \<Rightarrow> 'r \<Rightarrow> 'r option" where
  "uint_field put (JvNumber s) r = (case parse_uint s of None \<Rightarrow> None | Some n \<Rightarrow> Some (put n r))"
| "uint_field put JvNull r = Some r"
| "uint_field put _ r = None"

text \<open>A field of type \<open>*bool\<close>: \<open>null\<close> sets it to nil.\<close>

fun bool_pointer_field :: "(bool option \<Rightarrow> 'r \<Rightarrow> 'r) \<Rightarrow> jvalue \<Rightarrow> 'r \<Rightarrow> 'r option" where
  "bool_pointer_field put (JvBool b) r = Some (put (Some b) r)"
| "bool_pointer_field put JvNull r = Some (put None r)"
| "bool_pointer_field put _ r = None"

section \<open>Writing flat objects\<close>

definition json_member :: "string \<Rightarrow> string \<Rightarrow> string" where
  "json_member name text = json_quote name @ '':'' @ text"

definition json_object :: "string list \<Rightarrow> string" where
  "json_object members = ''{'' @ join_with '','' members @ ''}''"

section \<open>Flat objects are read back\<close>

definition json_safe :: "char \<Rightarrow> bool" where
  "json_safe c \<longleftrightarrow> in_range c 32 126 \<and> c \<notin> set (CHR 0x22 # CHR 0x5C # ''<>&'')"

lemma json_safe_code: "json_safe c \<Longrightarrow> c \<noteq> CHR 0x22 \<and> c \<noteq> CHR 0x5C \<and> \<not> of_char c < (32 :: nat) \<and> of_char c < (128 :: nat)"
  by (auto simp: json_safe_def in_range_def)

lemma json_quote_safe: "list_all json_safe s \<Longrightarrow> json_quote s = [CHR 0x22] @ s @ [CHR 0x22]"
proof -
  assume safe: "list_all json_safe s"
  have ascii: "list_all (\<lambda>c. of_char c < (128::nat)) s"
    by (rule list.pred_mono_strong [OF safe]) (simp add: json_safe_code)
  have rune: "json_rune (of_char c, [c]) = [c]" if "json_safe c" for c
  proof -
    have "of_char c \<noteq> (of_char d :: nat)" if "d \<in> set (CHR 0x22 # CHR 0x5C # ''<>&'')" for d
      using that \<open>json_safe c\<close> unfolding of_char_eq_iff json_safe_def by blast
    from this [of "CHR 0x22"] this [of "CHR 0x5C"] this [of "CHR ''<''"] this [of "CHR ''>''"] this [of "CHR ''&''"]
    have "of_char c \<noteq> (34::nat)" "of_char c \<noteq> (92::nat)" "of_char c \<noteq> (60::nat)" "of_char c \<noteq> (62::nat)"
      "of_char c \<noteq> (38::nat)" by simp_all
    moreover have "(32 :: nat) \<le> of_char c" "of_char c \<le> (126 :: nat)" using that by (simp_all add: json_safe_def in_range_def)
    ultimately show ?thesis by (simp add: json_rune_def rune_error_def)
  qed
  have "map json_rune (rune_chunks s) = map (\<lambda>c. [c]) s"
    using safe rune by (simp add: rune_chunks_ascii [OF ascii] list_all_iff)
  then show ?thesis by (simp add: json_quote_def)
qed

lemma json_plain_safe: "json_plain c \<Longrightarrow> json_safe c"
  by (auto simp: json_plain_def json_safe_def is_id_char_def in_range_def is_digit_def pad_def)

lemma scan_string_safe: "list_all json_safe s \<Longrightarrow> scan_string (s @ CHR 0x22 # rest) = Some (s, rest)"
  by (induction s) (auto simp: escape_length_def dest!: json_safe_code)

lemma unquote_safe: "list_all json_safe s \<Longrightarrow> unquote s = s"
  by (induction s) (auto dest!: json_safe_code)

lemma tokens_string:
  "list_all json_safe s \<Longrightarrow> tokens (json_quote s @ rest) = prepend (TString s) (tokens rest)"
  by (simp add: json_quote_safe scan_string_safe unquote_safe is_json_space_def punctuation_def)

text \<open>Numbers.\<close>

lemma decimal_leading: "0 < n \<Longrightarrow> hd (decimal n) \<noteq> CHR ''0''"
proof (induction n rule: decimal.induct)
  case (1 n)
  show ?case
  proof (cases "n < 10")
    case True
    then have "digit_value (hd (decimal n)) = n" by (simp add: decimal.simps [of n] digit_char)
    with 1(2) show ?thesis by (auto simp: digit_value_def)
  next
    case False
    moreover have "decimal (n div 10) \<noteq> []" using decimal_digits by blast
    ultimately show ?thesis using 1 by (simp add: decimal.simps [of n])
  qed
qed

definition ends_literal :: "string \<Rightarrow> bool" where
  "ends_literal rest \<longleftrightarrow> (case rest of [] \<Rightarrow> False | c # _ \<Rightarrow> c = CHR 0x2C \<or> c = CHR 0x7D)"

lemma scan_digits:
  assumes "list_all is_digit ds" and "ends_literal rest"
  shows "span_digits (ds @ rest) = (ds, rest)"
proof -
  have "takeWhile is_digit rest = []" "dropWhile is_digit rest = rest"
    using assms(2) by (auto simp: ends_literal_def is_digit_def in_range_def split: list.splits)
  moreover have "\<forall>c \<in> set ds. is_digit c" using assms(1) by (simp add: list_all_iff)
  ultimately show ?thesis by (simp add: span_digits_def)
qed

lemma scan_number_decimal:
  assumes "ends_literal rest"
  shows "scan_number (decimal n @ rest) = Some (decimal n, rest)"
proof -
  obtain c cs where d: "decimal n = c # cs" using decimal_digits by (cases "decimal n") blast+
  have digits: "list_all is_digit (c # cs)" using decimal_digits [of n] d by simp
  have sign: "\<not> has_prefix (c # cs @ rest) ''-''" using digits by (auto simp: has_prefix_def is_digit_def in_range_def)
  have tail: "scan_fraction rest = Some ([], rest)" "scan_exponent rest = Some ([], rest)"
    using assms by (auto simp: ends_literal_def scan_fraction_def scan_exponent_def split: list.splits)
  have "scan_integer (c # cs @ rest) = Some (c # cs, rest)"
  proof (cases "n = 0")
    case True
    moreover have "decimal 0 = ''0''" by code_simp
    ultimately have "c # cs = ''0''" using d by simp
    then show ?thesis by (simp add: scan_integer_def)
  next
    case False
    then have "c \<noteq> CHR ''0''" using decimal_leading [of n] d by simp
    with digits scan_digits [OF digits assms] show ?thesis by (simp add: scan_integer_def scan_part_def)
  qed
  with sign tail show ?thesis by (simp add: scan_number_def d)
qed

text \<open>A value as \<open>json.Marshal\<close> writes it; a value is flat when it is neither an array nor an object.\<close>

fun json_text :: "jvalue \<Rightarrow> string" where
  "json_text (JvString s) = json_quote s"
| "json_text (JvNumber s) = s"
| "json_text (JvBool b) = (if b then ''true'' else ''false'')"
| "json_text JvNull = ''null''"
| "json_text (JvArray vs) = ''['' @ join_with '','' (map json_text vs) @ '']''"
| "json_text (JvObject ms) = json_object (map (\<lambda>(k, v). json_member k (json_text v)) ms)"

fun flat_value :: "jvalue \<Rightarrow> bool" where
  "flat_value (JvString s) = list_all json_safe s"
| "flat_value (JvNumber s) = (\<exists>n. s = decimal n)"
| "flat_value (JvArray vs) = False"
| "flat_value (JvObject ms) = False"
| "flat_value _ = True"

fun value_token :: "jvalue \<Rightarrow> token" where
  "value_token (JvString s) = TString s"
| "value_token v = TLiteral v"

lemma digit_token:
  assumes "is_digit c"
  shows "\<not> is_json_space c" and "punctuation c = None" and "c \<noteq> CHR 0x22"
proof -
  have digits: "is_digit d \<longleftrightarrow> 48 \<le> (of_char d :: nat) \<and> of_char d \<le> (57 :: nat)" for d
    by (simp add: is_digit_def in_range_def)
  have ne: "c \<noteq> d" if "\<not> is_digit d" for d using that assms by blast
  have "c \<noteq> CHR 0x20" "c \<noteq> CHR 0x09" "c \<noteq> CHR 0x0D" "c \<noteq> CHR 0x0A" "c \<noteq> CHR 0x22" "c \<noteq> CHR 0x7B" "c \<noteq> CHR 0x7D"
    "c \<noteq> CHR 0x5B" "c \<noteq> CHR 0x5D" "c \<noteq> CHR 0x3A" "c \<noteq> CHR 0x2C"
    by (rule ne, simp add: digits)+
  then show "\<not> is_json_space c" and "punctuation c = None" and "c \<noteq> CHR 0x22"
    by (simp_all add: is_json_space_def punctuation_def)
qed

lemma tokens_value:
  assumes "flat_value v" and "ends_literal rest"
  shows "tokens (json_text v @ rest) = prepend (value_token v) (tokens rest)"
proof (cases v)
  case (JvString s)
  with assms(1) show ?thesis by (simp add: tokens_string)
next
  case (JvNumber s)
  with assms(1) obtain n where n: "s = decimal n" by auto
  obtain c cs where d: "decimal n = c # cs" using decimal_digits by (cases "decimal n") blast+
  have "is_digit c" using decimal_digits [of n] d by simp
  with scan_number_decimal [OF assms(2), of n] show ?thesis
    by (simp add: JvNumber n d digit_token)
next
  case JvNull
  then show ?thesis by (simp add: is_json_space_def punctuation_def is_digit_def in_range_def scan_word_def has_prefix_def)
next
  case (JvBool b)
  then show ?thesis
    by (cases b) (simp_all add: is_json_space_def punctuation_def is_digit_def in_range_def scan_word_def has_prefix_def)
qed (use assms in simp_all)

definition text_member :: "string \<times> jvalue \<Rightarrow> string" where
  "text_member m = json_member (fst m) (json_text (snd m))"

fun member_tokens :: "(string \<times> jvalue) list \<Rightarrow> token list" where
  "member_tokens [] = [TEndObject]"
| "member_tokens [(k, v)] = [TString k, TColon, value_token v, TEndObject]"
| "member_tokens ((k, v) # ms) = TString k # TColon # value_token v # TComma # member_tokens ms"

definition flat_members :: "(string \<times> jvalue) list \<Rightarrow> bool" where
  "flat_members ms \<longleftrightarrow> list_all (\<lambda>(k, v). list_all json_safe k \<and> flat_value v) ms"

lemma tokens_member:
  assumes "list_all json_safe k" and "flat_value v" and "ends_literal rest"
  shows "tokens (text_member (k, v) @ rest) = prepend (TString k) (prepend TColon (prepend (value_token v) (tokens rest)))"
  using assms by (simp add: text_member_def json_member_def tokens_string tokens_value is_json_space_def punctuation_def)

lemma tokens_members:
  assumes "tokens rest = Some []"
  shows "flat_members ms \<Longrightarrow> tokens (join_with '','' (map text_member ms) @ CHR 0x7D # rest) = Some (member_tokens ms)"
proof (induction ms rule: member_tokens.induct)
  case 1
  then show ?case using assms by (simp add: is_json_space_def punctuation_def prepend_def)
next
  case (2 k v)
  then show ?case using assms
    by (simp add: flat_members_def tokens_member ends_literal_def is_json_space_def punctuation_def prepend_def)
next
  case (3 k v m ms)
  then show ?case
    by (simp add: flat_members_def tokens_member ends_literal_def is_json_space_def punctuation_def prepend_def)
qed

lemma parse_members:
  "flat_members ms \<Longrightarrow> ms \<noteq> [] \<Longrightarrow>
     parse_tokens (member_tokens ms) ExpName [InObject acc k] = Some (JvObject (rev acc @ ms))"
proof (induction ms arbitrary: acc k rule: member_tokens.induct)
  case (2 k v)
  then show ?case by (cases v) (simp_all add: begins_value_def flat_members_def)
next
  case (3 k v m ms)
  then show ?case by (cases v) (simp_all add: begins_value_def flat_members_def)
qed simp

text \<open>White space may follow, such as the line break of \<open>json.Encoder\<close>.\<close>

lemma parse_flat_object:
  assumes "flat_members ms" and "tokens rest = Some []"
  shows "json_parse (json_object (map text_member ms) @ rest) = Some (JvObject ms)"
proof -
  have toks: "tokens (json_object (map text_member ms) @ rest) = Some (TBeginObject # member_tokens ms)"
    using tokens_members [OF assms(2,1)] by (simp add: json_object_def is_json_space_def punctuation_def prepend_def)
  have "parse_tokens (member_tokens ms) ExpNameOrEnd [InObject [] []] = Some (JvObject ms)"
  proof (cases ms)
    case (Cons m rest)
    obtain k v where m: "m = (k, v)" by (cases m)
    have "parse_tokens (TString s # ts) ExpNameOrEnd fs = parse_tokens (TString s # ts) ExpName fs" for s ts fs
      by (simp add: begins_value_def)
    then have "parse_tokens (member_tokens ms) ExpNameOrEnd [InObject [] []] = parse_tokens (member_tokens ms) ExpName [InObject [] []]"
      unfolding Cons m by (cases rest) (simp_all only: member_tokens.simps)
    with parse_members [OF assms(1), of "[]" "[]"] Cons show ?thesis by simp
  qed simp
  then show ?thesis by (simp add: json_parse_def toks begins_value_def max_nesting_depth_def)
qed

lemma unmarshal_flat:
  "flat_members ms \<Longrightarrow> unmarshal fields (json_object (map text_member ms)) r = decode_members fields ms r"
  using parse_flat_object [of ms "[]"] by (simp add: unmarshal_def)

lemma unmarshal_flat_line:
  "flat_members ms \<Longrightarrow> unmarshal fields (json_object (map text_member ms) @ [CHR 0x0A]) r = decode_members fields ms r"
  using parse_flat_object [of ms "[CHR 0x0A]"] by (simp add: unmarshal_def is_json_space_def)

lemma decode_members_append:
  "decode_members fields (ms @ ms') r = (case decode_members fields ms r of None \<Rightarrow> None | Some r' \<Rightarrow> decode_members fields ms' r')"
  by (induction fields ms r rule: decode_members.induct) (auto split: option.splits)

text \<open>The members \<open>json.Marshal\<close> writes for a field that is tagged \<open>omitempty\<close>, and what they decode to.\<close>

definition json_uint :: "u64 \<Rightarrow> jvalue" where
  "json_uint n = JvNumber (format_uint n)"

definition omit_string :: "string \<Rightarrow> string \<Rightarrow> (string \<times> jvalue) list" where
  "omit_string name s = (if s = [] then [] else [(name, JvString s)])"

definition omit_uint :: "string \<Rightarrow> u64 \<Rightarrow> (string \<times> jvalue) list" where
  "omit_uint name n = (if n = 0 then [] else [(name, json_uint n)])"

lemma decode_omit_string:
  "field_of fields name = Some (string_field put) \<Longrightarrow> (s = [] \<Longrightarrow> put s r = r) \<Longrightarrow>
     decode_members fields (omit_string name s) r = Some (put s r)"
  by (simp add: omit_string_def)

lemma decode_omit_uint:
  "field_of fields name = Some (uint_field put) \<Longrightarrow> (n = 0 \<Longrightarrow> put n r = r) \<Longrightarrow>
     decode_members fields (omit_uint name n) r = Some (put n r)"
  by (simp add: omit_uint_def json_uint_def)

lemma flat_omit:
  "flat_members []"
  "flat_members ((k, v) # ms) \<longleftrightarrow> list_all json_safe k \<and> flat_value v \<and> flat_members ms"
  "flat_members (ms @ ms') \<longleftrightarrow> flat_members ms \<and> flat_members ms'"
  "list_all json_safe name \<Longrightarrow> list_all json_safe s \<Longrightarrow> flat_members (omit_string name s)"
  "list_all json_safe name \<Longrightarrow> flat_members (omit_uint name n)"
  by (auto simp: flat_members_def omit_string_def omit_uint_def json_uint_def format_uint_def)

end
