(* ===== verification/Progress.thy ===== *)
theory Progress
  imports GoStrings Wire Errors JsonText
begin

text \<open>
  The progress day of an owner (\<open>internal/sync/progress.go\<close>): the greatest date, as a string, that
  the live records contribute. A decoded JSON value is a \<open>json\<close>; numbers are the bits of the
  \<open>float64\<close> that \<open>encoding/json\<close> decodes them to. Reading and printing a float (\<open>strconv.ParseFloat\<close>,
  \<open>fmt.Sprintf("%v", f)\<close>) are the two fields of \<open>go_json\<close>, which the definitions take as an argument;
  nothing is assumed about them.
\<close>

section \<open>JSON values\<close>

datatype json =
    JNull
  | JBool bool
  | JNumber u64
  | JString string
  | JArray "json list"
  | JObject "(string \<times> json) list"

record go_json =
  parse_float :: "string \<Rightarrow> u64 option"  \<comment> \<open>\<^const>\<open>None\<close> when the number is out of range\<close>
  format_float :: "u64 \<Rightarrow> string"

text \<open>
  \<open>json.Unmarshal\<close> into an \<open>any\<close>. Of the members with the same name the last one counts, so they are
  kept in reverse order.
\<close>

fun all_some :: "'a option list \<Rightarrow> 'a list option" where
  "all_some [] = Some []"
| "all_some (None # xs) = None"
| "all_some (Some x # xs) = map_option (Cons x) (all_some xs)"

fun json_of :: "go_json \<Rightarrow> jvalue \<Rightarrow> json option" where
  "json_of J JvNull = Some JNull"
| "json_of J (JvBool b) = Some (JBool b)"
| "json_of J (JvNumber n) = map_option JNumber (parse_float J n)"
| "json_of J (JvString s) = Some (JString s)"
| "json_of J (JvArray vs) = map_option JArray (all_some (map (json_of J) vs))"
| "json_of J (JvObject ms) =
     map_option (JObject \<circ> rev) (all_some (map (\<lambda>(name, v). map_option (Pair name) (json_of J v)) ms))"

definition json_unmarshal :: "go_json \<Rightarrow> string \<Rightarrow> json option" where
  "json_unmarshal J s = (case json_parse s of None \<Rightarrow> None | Some v \<Rightarrow> json_of J v)"

fun object_value :: "json \<Rightarrow> string \<Rightarrow> json" where
  "object_value (JObject kvs) key = (case map_of kvs key of None \<Rightarrow> JNull | Some v \<Rightarrow> v)"
| "object_value _ key = JNull"

fun js_string :: "go_json \<Rightarrow> json \<Rightarrow> string" where
  "js_string J JNull = []"
| "js_string J (JString s) = s"
| "js_string J (JBool b) = (if b then ''true'' else ''false'')"
| "js_string J (JNumber f) = format_float J f"
| "js_string J (JObject _) = ''[object Object]''"
| "js_string J (JArray vs) = join_with '','' (map (js_string J) vs)"

definition object_string :: "go_json \<Rightarrow> json \<Rightarrow> string \<Rightarrow> string" where
  "object_string J value key = js_string J (object_value value key)"

text \<open>A \<open>float64\<close> is zero when all its bits but the sign are.\<close>

definition float_is_zero :: "u64 \<Rightarrow> bool" where
  "float_is_zero f \<longleftrightarrow> f = 0 \<or> f = 2 ^ 63"

fun js_truthy :: "json \<Rightarrow> bool" where
  "js_truthy JNull = False"
| "js_truthy (JBool b) = b"
| "js_truthy (JString s) = (s \<noteq> [])"
| "js_truthy (JNumber f) = (\<not> float_is_zero f)"
| "js_truthy _ = True"

section \<open>Dates of records\<close>

definition campaign_start :: string where
  "campaign_start = ''2026-07-13''"

definition meaningful_day_record :: "go_json \<Rightarrow> string \<Rightarrow> json \<Rightarrow> bool \<Rightarrow> bool" where
  "meaningful_day_record J kind value valid_json =
     (if kind = ''journal'' then trim_space (js_string J value) \<noteq> []
      else if kind = ''goals'' then js_truthy (object_value value ''lockedAt'')
      else if kind = ''blessing'' then js_truthy (object_value value ''liked'')
      else if kind = ''item'' then
        (if trim_space (js_string J (object_value value ''input'')) \<noteq> [] then True
         else if \<not> valid_json then True
         else js_string J (object_value value ''status'') \<noteq> ''pending'')
      else False)"

text \<open>The inner loop: unescape every segment, stop at the first bad escape.\<close>

fun unescape_all :: "string list \<Rightarrow> err + string list" where
  "unescape_all [] = Inr []"
| "unescape_all (p # ps) =
     (case path_unescape p of
        Inl e \<Rightarrow> Inl (EscapeError e)
      | Inr d \<Rightarrow> (case unescape_all ps of Inl e \<Rightarrow> Inl e | Inr ds \<Rightarrow> Inr (d # ds)))"

text \<open>The \<open>switch\<close> on the decoded path segments: the date the record contributes, if any.\<close>

definition segment_date :: "go_json \<Rightarrow> string list \<Rightarrow> json \<Rightarrow> bool \<Rightarrow> string option" where
  "segment_date J segments value valid_json =
     (if 3 \<le> length segments \<and> segments ! 0 = ''day'' \<and> segments ! 1 \<noteq> [] then
        (if meaningful_day_record J (segments ! 2) value valid_json
         then Some (segments ! 1) else None)
      else if 1 \<le> length segments \<and> segments ! 0 = ''quote'' then
        (let date = object_string J value ''date''
         in if date \<noteq> [] then Some date else None)
      else if 1 \<le> length segments \<and> segments ! 0 = ''raffle'' then
        (let draw = object_string J value ''drawDate'';
             date = (if draw = [] then object_string J value ''date'' else draw)
         in if date \<noteq> [] then Some date else None)
      else None)"

text \<open>The body of the loop for one record.\<close>

definition record_date :: "go_json \<Rightarrow> change option \<Rightarrow> err + string option" where
  "record_date J record =
     (if record = None \<or> Change_GetDeleted record then Inr None
      else
        (let parts = split_on (CHR ''/'') (Change_GetEntityKey record)
         in if length parts < 3 then Inr None
            else
              (case unescape_all (drop 2 parts) of
                 Inl e \<Rightarrow> Inl e
               | Inr segments \<Rightarrow>
                   (case json_unmarshal J (Change_GetValueJson record) of
                      Some value \<Rightarrow> Inr (segment_date J segments value True)
                    | None \<Rightarrow> Inr (segment_date J segments JNull False)))))"

fun collect_dates :: "go_json \<Rightarrow> change option list \<Rightarrow> err + string list" where
  "collect_dates J [] = Inr []"
| "collect_dates J (r # rs) =
     (case record_date J r of
        Inl e \<Rightarrow> Inl e
      | Inr d \<Rightarrow>
          (case collect_dates J rs of
             Inl e \<Rightarrow> Inl e
           | Inr ds \<Rightarrow> Inr (case d of None \<Rightarrow> ds | Some x \<Rightarrow> x # ds)))"

definition derive_progress_day :: "go_json \<Rightarrow> change option list \<Rightarrow> err + string" where
  "derive_progress_day J records =
     (case collect_dates J records of
        Inl e \<Rightarrow> Inl e
      | Inr dates \<Rightarrow> if dates = [] then Inr campaign_start else Inr (last (sort dates)))"

section \<open>What is derived\<close>

lemma collect_dates_ok:
  "collect_dates J rs = Inr ds \<Longrightarrow>
     (\<forall>r \<in> set rs. \<exists>d. record_date J r = Inr d)
     \<and> set ds = {d. \<exists>r \<in> set rs. record_date J r = Inr (Some d)}"
proof (induction rs arbitrary: ds)
  case (Cons r rs)
  then show ?case
    by (fastforce split: sum.splits option.splits)
qed simp

lemma collect_dates_total:
  "(\<forall>r \<in> set rs. \<exists>d. record_date J r = Inr d) \<Longrightarrow> \<exists>ds. collect_dates J rs = Inr ds"
  by (induction rs) (auto split: sum.splits)

lemma last_sort_greatest:
  fixes xs :: "'a :: linorder list"
  assumes "xs \<noteq> []"
  shows "last (sort xs) \<in> set xs \<and> (\<forall>x \<in> set xs. x \<le> last (sort xs))"
proof -
  have ne: "sort xs \<noteq> []" using assms by (metis set_empty set_sort)
  have "x \<le> last (sort xs)" if "x \<in> set xs" for x
  proof -
    from ne have "sorted (butlast (sort xs) @ [last (sort xs)])" by simp
    then have "\<forall>y \<in> set (butlast (sort xs)). y \<le> last (sort xs)"
      by (simp add: sorted_append)
    moreover have "x \<in> set (butlast (sort xs) @ [last (sort xs)])" using that ne by simp
    ultimately show ?thesis by (simp only: set_append) auto
  qed
  with ne show ?thesis using last_in_set [OF ne] by simp
qed

lemma derive_progress_day_cases:
  assumes "derive_progress_day J rs = Inr day"
  shows "(\<forall>r \<in> set rs. \<exists>d. record_date J r = Inr d)"
    and "{d. \<exists>r \<in> set rs. record_date J r = Inr (Some d)} = {} \<Longrightarrow> day = campaign_start"
    and "{d. \<exists>r \<in> set rs. record_date J r = Inr (Some d)} \<noteq> {} \<Longrightarrow>
         (\<exists>r \<in> set rs. record_date J r = Inr (Some day))
         \<and> (\<forall>r \<in> set rs. \<forall>d. record_date J r = Inr (Some d) \<longrightarrow> d \<le> day)"
proof -
  from assms obtain ds where ds: "collect_dates J rs = Inr ds"
    and day: "day = (if ds = [] then campaign_start else last (sort ds))"
    by (auto simp: derive_progress_day_def split: sum.splits if_splits)
  note sets = collect_dates_ok [OF ds]
  from sets show "(\<forall>r \<in> set rs. \<exists>d. record_date J r = Inr d)" by blast
  {
    assume "{d. \<exists>r \<in> set rs. record_date J r = Inr (Some d)} = {}"
    with sets have "ds = []" by simp
    with day show "day = campaign_start" by simp
  }
  {
    assume "{d. \<exists>r \<in> set rs. record_date J r = Inr (Some d)} \<noteq> {}"
    with sets have ne: "ds \<noteq> []" by auto
    with day last_sort_greatest [OF ne] have "day \<in> set ds" "\<forall>d \<in> set ds. d \<le> day" by auto
    with sets show "(\<exists>r \<in> set rs. record_date J r = Inr (Some day))
         \<and> (\<forall>r \<in> set rs. \<forall>d. record_date J r = Inr (Some d) \<longrightarrow> d \<le> day)"
      by auto
  }
qed

text \<open>Only the set of records matters, not the order in which the store lists them.\<close>

lemma derive_progress_day_set:
  assumes "set rs = set rs'" and "derive_progress_day J rs = Inr day"
  shows "derive_progress_day J rs' = Inr day"
proof -
  from derive_progress_day_cases(1) [OF assms(2)] assms(1)
  obtain ds where ds: "collect_dates J rs' = Inr ds"
    using collect_dates_total by metis
  then obtain day' where day': "derive_progress_day J rs' = Inr day'"
    by (cases "ds = []") (auto simp: derive_progress_day_def)
  note a = derive_progress_day_cases(2,3) [OF assms(2)]
  note b = derive_progress_day_cases(2,3) [OF day']
  have "day' = day"
  proof (cases "{d. \<exists>r \<in> set rs. record_date J r = Inr (Some d)} = {}")
    case True
    with a(1) b(1) assms(1) show ?thesis by simp
  next
    case False
    with a(2) have A: "\<exists>r \<in> set rs. record_date J r = Inr (Some day)"
      "\<forall>r \<in> set rs. \<forall>d. record_date J r = Inr (Some d) \<longrightarrow> d \<le> day" by auto
    from False b(2) assms(1) have B: "\<exists>r \<in> set rs. record_date J r = Inr (Some day')"
      "\<forall>r \<in> set rs. \<forall>d. record_date J r = Inr (Some d) \<longrightarrow> d \<le> day'" by auto
    from A B have "day \<le> day'" "day' \<le> day" by blast+
    then show ?thesis by simp
  qed
  with day' show ?thesis by simp
qed

end
