(* ===== verification/SqlTable.thy ===== *)
theory SqlTable
  imports Errors GoStrings
begin

text \<open>
  The tables of the schema (\<open>migrations/001_sync_core.up.sql\<close>) are lists of rows in insertion
  order, and the statements of the store are the functions below: \<open>SELECT ... WHERE\<close> is a
  filter, a \<open>QueryRow\<close> takes the first row or fails with \<open>sql.ErrNoRows\<close>, \<open>INSERT\<close> checks the
  unique keys and the foreign key, \<open>INSERT ... ON DUPLICATE KEY UPDATE\<close> rewrites the row that
  holds the key, \<open>UPDATE\<close> and \<open>DELETE\<close> act on the rows of their \<open>WHERE\<close> clause. Also here: what
  the column types add, the trailing blanks that a \<open>PAD SPACE\<close> collation ignores and the length
  of a \<open>VARCHAR\<close> under strict mode. The locale \<open>keyed_table\<close> is the contract of a table with
  a unique key, with the facts its clients use.
\<close>

section \<open>Statements\<close>

definition query_row :: "'r list \<Rightarrow> err + 'r" where
  "query_row rows = (case rows of [] \<Rightarrow> Inl ErrNoRows | r # _ \<Rightarrow> Inr r)"

text \<open>\<open>if errors.Is(err, sql.ErrNoRows) { return ErrNotFound }\<close>\<close>

definition no_rows_is_not_found :: "err + 'a \<Rightarrow> err + 'a" where
  "no_rows_is_not_found r = (case r of Inl ErrNoRows \<Rightarrow> Inl ErrNotFound | _ \<Rightarrow> r)"

definition row_lookup :: "('r \<Rightarrow> 'k) \<Rightarrow> 'r list \<Rightarrow> 'k \<Rightarrow> 'r option" where
  "row_lookup key rows k = find (\<lambda>r. key r = k) rows"

definition insert_row :: "('r \<Rightarrow> 'k) \<Rightarrow> 'r \<Rightarrow> 'r list \<Rightarrow> sql_error + 'r list" where
  "insert_row key row rows =
     (if \<exists>r \<in> set rows. key r = key row then Inl DuplicateEntry else Inr (rows @ [row]))"

definition upsert_row :: "('r \<Rightarrow> 'k) \<Rightarrow> ('r \<Rightarrow> 'r \<Rightarrow> 'r) \<Rightarrow> 'r \<Rightarrow> 'r list \<Rightarrow> 'r list" where
  "upsert_row key on_duplicate row rows =
     (if \<exists>r \<in> set rows. key r = key row
      then map (\<lambda>r. if key r = key row then on_duplicate r row else r) rows
      else rows @ [row])"

definition insert_ignore_row :: "('r \<Rightarrow> 'k) \<Rightarrow> 'r \<Rightarrow> 'r list \<Rightarrow> 'r list" where
  "insert_ignore_row key row rows =
     (if \<exists>r \<in> set rows. key r = key row then rows else rows @ [row])"

definition delete_rows :: "('r \<Rightarrow> bool) \<Rightarrow> 'r list \<Rightarrow> 'r list" where
  "delete_rows P rows = filter (\<lambda>r. \<not> P r) rows"

text \<open>An \<open>UPDATE\<close> whose assignments may fail on a row: the statement then fails.\<close>

fun update_rows :: "('r \<Rightarrow> bool) \<Rightarrow> ('r \<Rightarrow> sql_error + 'r) \<Rightarrow> 'r list \<Rightarrow> sql_error + 'r list" where
  "update_rows P f [] = Inr []"
| "update_rows P f (r # rs) =
     (case (if P r then f r else Inr r) of
        Inl e \<Rightarrow> Inl e
      | Inr r' \<Rightarrow> (case update_rows P f rs of Inl e \<Rightarrow> Inl e | Inr rs' \<Rightarrow> Inr (r' # rs')))"

text \<open>\<open>ORDER BY\<close> with an order given as a relation (insertion sort, stable).\<close>

fun insert_ordered :: "('r \<Rightarrow> 'r \<Rightarrow> bool) \<Rightarrow> 'r \<Rightarrow> 'r list \<Rightarrow> 'r list" where
  "insert_ordered le x [] = [x]"
| "insert_ordered le x (y # ys) = (if le x y then x # y # ys else y # insert_ordered le x ys)"

definition order_by :: "('r \<Rightarrow> 'r \<Rightarrow> bool) \<Rightarrow> 'r list \<Rightarrow> 'r list" where
  "order_by le rows = foldr (insert_ordered le) rows []"

lemma set_insert_ordered [simp]: "set (insert_ordered le x ys) = insert x (set ys)"
  by (induction ys) auto

lemma set_order_by [simp]: "set (order_by le rows) = set rows"
  by (induction rows) (auto simp: order_by_def)

lemma length_insert_ordered [simp]: "length (insert_ordered le x ys) = Suc (length ys)"
  by (induction ys) auto

lemma length_order_by [simp]: "length (order_by le rows) = length rows"
  by (induction rows) (auto simp: order_by_def)

lemma query_row_Inr [simp]: "query_row rows = Inr r \<longleftrightarrow> (\<exists>rest. rows = r # rest)"
  by (cases rows) (auto simp: query_row_def)

lemma query_row_Inl [simp]: "query_row rows = Inl e \<longleftrightarrow> rows = [] \<and> e = ErrNoRows"
  by (cases rows) (auto simp: query_row_def)

lemma no_rows_Inr [simp]: "no_rows_is_not_found r = Inr a \<longleftrightarrow> r = Inr a"
  by (auto simp: no_rows_is_not_found_def split: sum.splits err.splits)

lemma no_rows_query [simp]:
  "no_rows_is_not_found (query_row rows) = (case rows of [] \<Rightarrow> Inl ErrNotFound | r # _ \<Rightarrow> Inr r)"
  by (cases rows) (auto simp: no_rows_is_not_found_def query_row_def)

lemma filter_find: "(case filter P rows of [] \<Rightarrow> None | r # _ \<Rightarrow> Some r) = find P rows"
  by (induction rows) auto

lemma filter_head_find: "(\<exists>rest. filter P rows = r # rest) \<longleftrightarrow> find P rows = Some r"
  using filter_find [of P rows] by (cases "filter P rows") auto

lemma filter_empty_find: "filter P rows = [] \<longleftrightarrow> find P rows = None"
  by (auto simp: find_None_iff filter_empty_conv)

lemma row_lookup_append:
  "row_lookup key (rows @ [row]) k =
     (case row_lookup key rows k of Some r \<Rightarrow> Some r | None \<Rightarrow> if key row = k then Some row else None)"
  by (simp add: row_lookup_def find_append split: option.splits)

lemma row_lookup_None: "row_lookup key rows k = None \<longleftrightarrow> (\<forall>r \<in> set rows. key r \<noteq> k)"
  by (auto simp: row_lookup_def find_None_iff)

lemma row_lookup_Some: "row_lookup key rows k = Some r \<Longrightarrow> r \<in> set rows \<and> key r = k"
  by (auto simp: row_lookup_def find_Some_iff)

lemma row_lookup_mem:
  "distinct (map key rows) \<Longrightarrow> r \<in> set rows \<Longrightarrow> row_lookup key rows (key r) = Some r"
proof (induction rows)
  case (Cons x rows)
  then show ?case by (auto simp: row_lookup_def image_iff)
qed simp

lemma row_lookup_map_pres:
  assumes "\<And>r. key (f r) = key r"
  shows "row_lookup key (map f rows) k = map_option f (row_lookup key rows k)"
  by (induction rows) (auto simp: row_lookup_def assms)

lemma row_lookup_delete:
  assumes "\<And>r. key r = k \<Longrightarrow> \<not> P r"
  shows "row_lookup key (delete_rows P rows) k = row_lookup key rows k"
  by (induction rows) (auto simp: row_lookup_def delete_rows_def assms)

lemma row_lookup_delete_hit:
  assumes "\<And>r. key r = k \<Longrightarrow> P r"
  shows "row_lookup key (delete_rows P rows) k = None"
  by (induction rows) (auto simp: row_lookup_def delete_rows_def assms)

lemma insert_row_Inr:
  "insert_row key row rows = Inr rows' \<longleftrightarrow>
     row_lookup key rows (key row) = None \<and> rows' = rows @ [row]"
  by (auto simp: insert_row_def row_lookup_None)

lemma insert_row_Inl:
  "insert_row key row rows = Inl e \<longleftrightarrow> row_lookup key rows (key row) \<noteq> None \<and> e = DuplicateEntry"
  by (auto simp: insert_row_def row_lookup_None)

lemma row_lookup_insert:
  "insert_row key row rows = Inr rows' \<Longrightarrow> row_lookup key rows' = (row_lookup key rows)(key row \<mapsto> row)"
  by (auto simp: insert_row_Inr row_lookup_append fun_eq_iff split: option.splits)

lemma row_lookup_upsert:
  assumes "\<And>r row. key r = key row \<Longrightarrow> key (f r row) = key row"
  shows "row_lookup key (upsert_row key f row rows) =
    (row_lookup key rows)(key row \<mapsto>
       (case row_lookup key rows (key row) of None \<Rightarrow> row | Some r \<Rightarrow> f r row))"
proof (cases "\<exists>r \<in> set rows. key r = key row")
  case True
  have "row_lookup key (map (\<lambda>r. if key r = key row then f r row else r) rows) k =
      map_option (\<lambda>r. if key r = key row then f r row else r) (row_lookup key rows k)" for k
    by (rule row_lookup_map_pres) (simp add: assms)
  moreover obtain r where "row_lookup key rows (key row) = Some r"
    using True row_lookup_None [of key rows "key row"] by auto
  ultimately show ?thesis using True
    by (auto simp: upsert_row_def fun_eq_iff map_option_case dest: row_lookup_Some split: option.splits)
next
  case False
  then have none: "row_lookup key rows (key row) = None" by (auto simp: row_lookup_None)
  with False show ?thesis
    by (auto simp: upsert_row_def fun_eq_iff row_lookup_append split: option.splits)
qed

lemma distinct_insert_row:
  "distinct (map key rows) \<Longrightarrow> insert_row key row rows = Inr rows' \<Longrightarrow> distinct (map key rows')"
  by (auto simp: insert_row_Inr row_lookup_None image_iff)

lemma distinct_insert_ignore: "distinct (map key rows) \<Longrightarrow> distinct (map key (insert_ignore_row key row rows))"
  by (auto simp: insert_ignore_row_def image_iff)

lemma distinct_upsert_row:
  assumes "\<And>r row. key r = key row \<Longrightarrow> key (f r row) = key row" and "distinct (map key rows)"
  shows "distinct (map key (upsert_row key f row rows))"
proof -
  have "map key (map (\<lambda>r. if key r = key row then f r row else r) rows) = map key rows"
    by (induction rows) (auto simp: assms(1))
  with assms(2) show ?thesis by (auto simp: upsert_row_def image_iff simp del: map_map)
qed

lemma distinct_delete_rows: "distinct (map key rows) \<Longrightarrow> distinct (map key (delete_rows P rows))"
  by (simp add: delete_rows_def distinct_map_filter)

lemma update_rows_Inr:
  "update_rows P f rows = Inr rows' \<Longrightarrow>
     rows' = map (\<lambda>r. if P r then (case f r of Inr r' \<Rightarrow> r' | Inl _ \<Rightarrow> r) else r) rows
     \<and> (\<forall>r \<in> set rows. P r \<longrightarrow> (\<exists>r'. f r = Inr r'))"
  by (induction rows arbitrary: rows') (auto split: sum.splits if_splits)

lemma update_rows_ok:
  "(\<And>r. r \<in> set rows \<Longrightarrow> P r \<Longrightarrow> f r = Inr (g r)) \<Longrightarrow>
     update_rows P f rows = Inr (map (\<lambda>r. if P r then g r else r) rows)"
  by (induction rows) auto

section \<open>A table with a unique key\<close>

text \<open>
  What a client of a table relies on: an insertion is refused exactly when the key is held, and
  otherwise adds that one row; deletion and insertion keep the key unique.
\<close>

locale keyed_table =
  fixes key :: "'r \<Rightarrow> 'k"
    and lookup :: "'t \<Rightarrow> 'k \<Rightarrow> 'r option"
    and ins :: "'r \<Rightarrow> 't \<Rightarrow> sql_error + 't"
  assumes lookup_ins: "ins row t = Inr t' \<Longrightarrow> lookup t' = (lookup t)(key row \<mapsto> row)"
    and ins_refused: "ins row t = Inl e \<longleftrightarrow> lookup t (key row) \<noteq> None \<and> e = DuplicateEntry"
begin

lemma ins_fresh: "lookup t (key row) = None \<Longrightarrow> \<exists>t'. ins row t = Inr t'"
  using ins_refused [of row t] by (cases "ins row t") auto

lemma ins_ok_fresh: "ins row t = Inr t' \<Longrightarrow> lookup t (key row) = None"
  using ins_refused [of row t DuplicateEntry] by auto

text \<open>A row, once there, is never changed by an insertion: insert-only tables are immutable.\<close>

lemma ins_extends: "ins row t = Inr t' \<Longrightarrow> lookup t \<subseteq>\<^sub>m lookup t'"
  using ins_ok_fresh by (auto simp: lookup_ins map_le_def)

lemma ins_twice_refused:
  "ins row t = Inr t' \<Longrightarrow> key row' = key row \<Longrightarrow> ins row' t' = Inl DuplicateEntry"
  by (simp add: ins_refused lookup_ins)

lemma ins_dom: "ins row t = Inr t' \<Longrightarrow> dom (lookup t') = insert (key row) (dom (lookup t))"
  by (auto simp: lookup_ins)

end

section \<open>Column types\<close>

text \<open>
  \<open>utf8mb4_bin\<close> and \<open>ascii_bin\<close> are \<open>PAD SPACE\<close> collations: a comparison, and so a unique key,
  ignores trailing blanks. Two strings are equal for the database when their \<open>pad_key\<close>s are.
\<close>

definition pad_key :: "string \<Rightarrow> string" where
  "pad_key s = rev (dropWhile (\<lambda>c. c = CHR 0x20) (rev s))"

lemma pad_key_idem [simp]: "pad_key (pad_key s) = pad_key s"
proof -
  have "dropWhile P (dropWhile P xs) = dropWhile P xs" for P and xs :: string
    by (induction xs) auto
  then show ?thesis by (simp add: pad_key_def)
qed

definition unpadded :: "string \<Rightarrow> bool" where
  "unpadded s \<longleftrightarrow> pad_key s = s"

text \<open>The order of the collation: bytes, the shorter string filled up with blanks.\<close>

fun pad_le :: "string \<Rightarrow> string \<Rightarrow> bool" where
  "pad_le [] [] = True"
| "pad_le [] (y # ys) = (if y = CHR 0x20 then pad_le [] ys else (32::nat) < of_char y)"
| "pad_le (x # xs) [] = (if x = CHR 0x20 then pad_le xs [] else of_char x < (32::nat))"
| "pad_le (x # xs) (y # ys) = (if x = y then pad_le xs ys else of_char x < (of_char y :: nat))"

text \<open>
  Storing a string in \<open>VARCHAR(n)\<close> under strict mode: \<open>n\<close> counts characters; excess characters
  are an error unless they are blanks, which are cut off.
\<close>

definition varchar :: "nat \<Rightarrow> string \<Rightarrow> sql_error + string" where
  "varchar n s =
     (if rune_count s \<le> n then Inr s
      else if list_all (\<lambda>(r, _). r = 32) (drop n (rune_chunks s))
      then Inr (concat (map snd (take n (rune_chunks s))))
      else Inl DataTooLong)"

text \<open>A \<open>VARCHAR\<close> in \<open>utf8mb4\<close> refuses bytes that are no characters.\<close>

definition text_column :: "nat \<Rightarrow> string \<Rightarrow> sql_error + string" where
  "text_column n s = (if valid_utf8 s then varchar n s else Inl IncorrectString)"

lemma text_column_valid: "text_column n s = Inr t \<Longrightarrow> valid_utf8 t"
  by (auto simp: text_column_def varchar_def valid_utf8_take split: if_splits)

lemma text_column_ascii:
  "list_all (\<lambda>c. of_char c < (128::nat)) s \<Longrightarrow> length s \<le> n \<Longrightarrow> text_column n s = Inr s"
  by (simp add: text_column_def varchar_def valid_utf8_ascii rune_count_ascii)

text \<open>\<open>BIGINT UNSIGNED\<close> addition of one.\<close>

definition bigint_succ :: "u64 \<Rightarrow> sql_error + u64" where
  "bigint_succ v = (if v = - 1 then Inl ValueOutOfRange else Inr (v + 1))"

end
