(* ===== verification/Store.thy ===== *)
theory Store
  imports SqlTable Wire Progress
begin

text \<open>
  The MySQL store (\<open>internal/store/mysql/store.go\<close>) and the types of its interface
  (\<open>internal/sync/store.go\<close>). The state is the record \<open>db\<close>, one list of rows per table of
  \<open>migrations/001_sync_core.up.sql\<close>. Every method of \<open>ownerTx\<close> is one definition, a program over
  \<open>db\<close> that takes the owner key the Go receiver holds; \<open>with_owner_transaction\<close> and
  \<open>read_feed_snapshot\<close> are the two methods of \<open>Store\<close>. What the database server decides on its own
  (whether \<open>BEGIN\<close> works, what becomes of \<open>COMMIT\<close>) and the clock are the record \<open>tx_env\<close>.
\<close>

section \<open>Types of the store interface\<close>

record lineage =
  ln_baseline_id :: string
  ln_version :: u64
  ln_updated_at_ms :: u64
  ln_progress_day :: string

record feed_snapshot =
  fs_lineage :: lineage
  fs_head_cursor :: u64
  fs_changes :: "change list"

record receipt =
  rc_op_id :: string
  rc_server_cursor :: u64
  rc_conflict :: bool
  rc_applied :: bool

record resolution_receipt =
  rs_request_id :: string
  rs_local_baseline_id :: string
  rs_expected_server_baseline_id :: string
  rs_expected_server_version :: u64
  rs_choice :: baseline_choice
  rs_result_baseline_id :: string
  rs_result_cursor :: u64
  rs_result_version :: u64
  rs_result_updated_at_ms :: u64

record archive_head =
  ah_cursor :: u64
  ah_version :: u64
  ah_updated_at_ms :: u64

record realtime_event =
  ev_type :: string
  ev_baseline_id :: string
  ev_server_cursor :: u64
  ev_server_version :: u64
  ev_origin_connection_id :: string
  ev_created_at_ms :: u64

section \<open>Tables\<close>

text \<open>\<open>sync_heads\<close>: \<open>baseline_id\<close> is \<^const>\<open>None\<close> for NULL.\<close>

record head_row =
  hd_owner :: string
  hd_cursor :: u64
  hd_baseline :: "string option"
  hd_version :: u64
  hd_updated_at_ms :: u64
  hd_progress_day :: string

text \<open>\<open>sync_operations\<close> and \<open>sync_records\<close>: the owner key and the columns of a change.\<close>

record change_row =
  cr_owner :: string
  cr_change :: change

record receipt_row =
  rcr_owner :: string
  rcr_receipt :: receipt

record resolution_row =
  rsr_owner :: string
  rsr_resolution :: resolution_receipt

record archive_row =
  ar_owner :: string
  ar_baseline :: string
  ar_change :: change
  ar_server_version :: u64
  ar_archived_at_ms :: u64

record archive_head_row =
  ahr_owner :: string
  ahr_baseline :: string
  ahr_head :: archive_head

record outbox_row =
  ob_id :: nat
  ob_owner :: string
  ob_event_type :: string
  ob_baseline_id :: string
  ob_server_cursor :: u64
  ob_server_version :: u64
  ob_origin :: "string option"
  ob_created_at_ms :: u64
  ob_published_at_ms :: "u64 option"
  ob_publish_attempts :: nat
  ob_last_error :: "string option"

text \<open>\<open>db_next_event\<close> is the \<open>AUTO_INCREMENT\<close> counter of \<open>realtime_outbox\<close>.\<close>

record db =
  db_owners :: "(string \<times> u64) list"
  db_heads :: "head_row list"
  db_records :: "change_row list"
  db_operations :: "change_row list"
  db_receipts :: "receipt_row list"
  db_resolutions :: "resolution_row list"
  db_archive :: "archive_row list"
  db_archive_heads :: "archive_head_row list"
  db_outbox :: "outbox_row list"
  db_next_event :: nat

definition empty_db :: db where
  "empty_db = \<lparr>db_owners = [], db_heads = [], db_records = [], db_operations = [], db_receipts = [],
     db_resolutions = [], db_archive = [], db_archive_heads = [], db_outbox = [], db_next_event = 1\<rparr>"

text \<open>The primary and unique keys. Entity keys are compared without trailing blanks.\<close>

definition operation_key :: "change_row \<Rightarrow> string \<times> u64" where
  "operation_key r = (cr_owner r, c_cursor (cr_change r))"

definition operation_op_key :: "change_row \<Rightarrow> string \<times> string" where
  "operation_op_key r = (cr_owner r, c_op_id (cr_change r))"

definition record_key :: "change_row \<Rightarrow> string \<times> string" where
  "record_key r = (cr_owner r, pad_key (c_entity_key (cr_change r)))"

definition receipt_key :: "receipt_row \<Rightarrow> string \<times> string" where
  "receipt_key r = (rcr_owner r, rc_op_id (rcr_receipt r))"

definition resolution_key :: "resolution_row \<Rightarrow> string \<times> string" where
  "resolution_key r = (rsr_owner r, rs_request_id (rsr_resolution r))"

definition archive_key :: "archive_row \<Rightarrow> string \<times> string \<times> u64" where
  "archive_key r = (ar_owner r, ar_baseline r, c_cursor (ar_change r))"

definition archive_head_key :: "archive_head_row \<Rightarrow> string \<times> string" where
  "archive_head_key r = (ahr_owner r, ahr_baseline r)"

lemmas key_defs = operation_key_def operation_op_key_def record_key_def receipt_key_def
  resolution_key_def archive_key_def archive_head_key_def

section \<open>The methods of a transaction\<close>

type_synonym 'a dbtx = "(db, err, 'a) tx"

text \<open>The foreign key of every table: the owner row exists.\<close>

definition owner_exists :: "string \<Rightarrow> db \<Rightarrow> bool" where
  "owner_exists ow s \<longleftrightarrow> (\<exists>r \<in> set (db_owners s). fst r = ow)"

definition owned :: "string \<Rightarrow> unit dbtx" where
  "owned ow = (\<lambda>s. if owner_exists ow s then Inr ((), s) else Inl (SqlError ForeignKeyMissing))"

definition sql :: "sql_error + 'a \<Rightarrow> err + 'a" where
  "sql r = (case r of Inl e \<Rightarrow> Inl (SqlError e) | Inr a \<Rightarrow> Inr a)"

lemma sql_Inr [simp]: "sql r = Inr a \<longleftrightarrow> r = Inr a"
  by (auto simp: sql_def split: sum.splits)

lemma sql_Inl [simp]: "sql r = Inl e \<longleftrightarrow> (\<exists>e'. r = Inl e' \<and> e = SqlError e')"
  by (auto simp: sql_def split: sum.splits)

text \<open>Run a statement that computes a new table, and store it.\<close>

definition exec_sql :: "(db \<Rightarrow> sql_error + 't) \<Rightarrow> ('t \<Rightarrow> db \<Rightarrow> db) \<Rightarrow> unit dbtx" where
  "exec_sql f put = (\<lambda>s. case sql (f s) of Inl e \<Rightarrow> Inl e | Inr t \<Rightarrow> Inr ((), put t s))"

lemma exec_sql_Inr [tx_simps]:
  "exec_sql f put s = Inr (u, s') \<longleftrightarrow> (\<exists>t. f s = Inr t \<and> s' = put t s)"
  by (auto simp: exec_sql_def split: sum.splits)

lemma exec_sql_Inl [tx_simps]: "exec_sql f put s = Inl e \<longleftrightarrow> (\<exists>e'. f s = Inl e' \<and> e = SqlError e')"
  by (auto simp: exec_sql_def split: sum.splits)

lemma owned_Inr [tx_simps]: "owned ow s = Inr (u, s') \<longleftrightarrow> owner_exists ow s \<and> s' = s"
  by (auto simp: owned_def)

lemma owned_Inl [tx_simps]: "owned ow s = Inl e \<longleftrightarrow> \<not> owner_exists ow s \<and> e = SqlError ForeignKeyMissing"
  by (auto simp: owned_def)

definition head_rows :: "string \<Rightarrow> db \<Rightarrow> head_row list" where
  "head_rows ow s = filter (\<lambda>r. hd_owner r = ow) (db_heads s)"

definition current_cursor :: "string \<Rightarrow> u64 dbtx" where
  "current_cursor ow = tx_read (\<lambda>s.
     case query_row (head_rows ow s) of Inl e \<Rightarrow> Inl e | Inr r \<Rightarrow> Inr (hd_cursor r))"

definition next_cursor :: "string \<Rightarrow> u64 dbtx" where
  "next_cursor ow =
     tx_bind (exec_sql (\<lambda>s. update_rows (\<lambda>r. hd_owner r = ow)
                          (\<lambda>r. case bigint_succ (hd_cursor r) of
                                 Inl e \<Rightarrow> Inl e | Inr c \<Rightarrow> Inr (r\<lparr>hd_cursor := c\<rparr>)) (db_heads s))
                       (\<lambda>t s. s\<lparr>db_heads := t\<rparr>))
     (\<lambda>_. current_cursor ow)"

definition row_lineage :: "head_row \<Rightarrow> lineage" where
  "row_lineage r = \<lparr>ln_baseline_id = (case hd_baseline r of None \<Rightarrow> [] | Some b \<Rightarrow> b),
     ln_version = hd_version r, ln_updated_at_ms = hd_updated_at_ms r,
     ln_progress_day = hd_progress_day r\<rparr>"

definition get_lineage :: "string \<Rightarrow> lineage dbtx" where
  "get_lineage ow = tx_read (\<lambda>s.
     case no_rows_is_not_found (query_row
            (filter (\<lambda>r. hd_owner r = ow \<and> hd_baseline r \<noteq> None) (db_heads s))) of
       Inl e \<Rightarrow> Inl e
     | Inr r \<Rightarrow> Inr (row_lineage r))"

definition write_lineage :: "string \<Rightarrow> lineage \<Rightarrow> unit dbtx" where
  "write_lineage ow l =
     exec_sql (\<lambda>s. update_rows (\<lambda>r. hd_owner r = ow)
                 (\<lambda>r. case text_column 64 (ln_progress_day l) of
                        Inl e \<Rightarrow> Inl e
                      | Inr day \<Rightarrow> Inr (r\<lparr>hd_baseline := Some (ln_baseline_id l),
                          hd_version := ln_version l, hd_updated_at_ms := ln_updated_at_ms l,
                          hd_progress_day := day\<rparr>)) (db_heads s))
              (\<lambda>t s. s\<lparr>db_heads := t\<rparr>)"

definition insert_lineage :: "string \<Rightarrow> lineage \<Rightarrow> unit dbtx" where
  "insert_lineage ow l = write_lineage ow l"

definition set_lineage :: "string \<Rightarrow> lineage \<Rightarrow> unit dbtx" where
  "set_lineage ow l = write_lineage ow l"

definition increment_lineage :: "string \<Rightarrow> u64 \<Rightarrow> string \<Rightarrow> lineage dbtx" where
  "increment_lineage ow updated_at_ms progress_day =
     tx_bind (exec_sql (\<lambda>s. update_rows (\<lambda>r. hd_owner r = ow \<and> hd_baseline r \<noteq> None)
                 (\<lambda>r. case bigint_succ (hd_version r) of
                        Inl e \<Rightarrow> Inl e
                      | Inr v \<Rightarrow>
                          (case text_column 64 progress_day of
                             Inl e \<Rightarrow> Inl e
                           | Inr day \<Rightarrow> Inr (r\<lparr>hd_version := v, hd_updated_at_ms := updated_at_ms,
                               hd_progress_day := day\<rparr>))) (db_heads s))
              (\<lambda>t s. s\<lparr>db_heads := t\<rparr>))
     (\<lambda>_. get_lineage ow)"

definition get_record :: "string \<Rightarrow> string \<Rightarrow> change dbtx" where
  "get_record ow entity_key = tx_read (\<lambda>s.
     case no_rows_is_not_found (query_row
            (filter (\<lambda>r. record_key r = (ow, pad_key entity_key)) (db_records s))) of
       Inl e \<Rightarrow> Inl e
     | Inr r \<Rightarrow> Inr (cr_change r))"

definition list_records :: "string \<Rightarrow> change list dbtx" where
  "list_records ow = tx_read (\<lambda>s. Inr (map cr_change
     (order_by (\<lambda>a b. pad_le (c_entity_key (cr_change a)) (c_entity_key (cr_change b)))
        (filter (\<lambda>r. cr_owner r = ow) (db_records s)))))"

definition get_operation :: "string \<Rightarrow> u64 \<Rightarrow> change dbtx" where
  "get_operation ow cursor = tx_read (\<lambda>s.
     case no_rows_is_not_found (query_row
            (filter (\<lambda>r. operation_key r = (ow, cursor)) (db_operations s))) of
       Inl e \<Rightarrow> Inl e
     | Inr r \<Rightarrow> Inr (cr_change r))"

text \<open>The \<open>SELECT\<close> that \<open>PullOperations\<close> and \<open>ReadFeedSnapshot\<close> share.\<close>

definition operations_after :: "string \<Rightarrow> u64 \<Rightarrow> nat \<Rightarrow> db \<Rightarrow> change list" where
  "operations_after ow after limit s =
     take limit (sort_key c_cursor (map cr_change
       (filter (\<lambda>r. cr_owner r = ow \<and> c_cursor (cr_change r) > after) (db_operations s))))"

definition pull_operations :: "string \<Rightarrow> u64 \<Rightarrow> nat \<Rightarrow> change list dbtx" where
  "pull_operations ow after limit = tx_read (\<lambda>s. Inr (operations_after ow after limit s))"

definition append_operation :: "string \<Rightarrow> change \<Rightarrow> unit dbtx" where
  "append_operation ow ch =
     tx_bind (owned ow) (\<lambda>_.
       exec_sql (\<lambda>s. let row = \<lparr>cr_owner = ow, cr_change = ch\<rparr> in
                   case insert_row operation_op_key row (db_operations s) of
                     Inl e \<Rightarrow> Inl e
                   | Inr _ \<Rightarrow> insert_row operation_key row (db_operations s))
                (\<lambda>t s. s\<lparr>db_operations := t\<rparr>))"

text \<open>\<open>ON DUPLICATE KEY UPDATE\<close> sets every column but the key's own.\<close>

definition overwrite_record :: "change_row \<Rightarrow> change_row \<Rightarrow> change_row" where
  "overwrite_record old new =
     old\<lparr>cr_change := (cr_change new)\<lparr>c_entity_key := c_entity_key (cr_change old)\<rparr>\<rparr>"

definition upsert_record :: "string \<Rightarrow> change \<Rightarrow> unit dbtx" where
  "upsert_record ow ch =
     tx_bind (owned ow) (\<lambda>_.
       exec_sql (\<lambda>s. Inr (upsert_row record_key overwrite_record \<lparr>cr_owner = ow, cr_change = ch\<rparr>
                            (db_records s)))
                (\<lambda>t s. s\<lparr>db_records := t\<rparr>))"

definition get_receipt :: "string \<Rightarrow> string \<Rightarrow> receipt dbtx" where
  "get_receipt ow op_id = tx_read (\<lambda>s.
     case no_rows_is_not_found (query_row
            (filter (\<lambda>r. receipt_key r = (ow, op_id)) (db_receipts s))) of
       Inl e \<Rightarrow> Inl e
     | Inr r \<Rightarrow> Inr (rcr_receipt r))"

definition insert_receipt :: "string \<Rightarrow> receipt \<Rightarrow> unit dbtx" where
  "insert_receipt ow rc =
     tx_bind (owned ow) (\<lambda>_.
       exec_sql (\<lambda>s. insert_row receipt_key \<lparr>rcr_owner = ow, rcr_receipt = rc\<rparr> (db_receipts s))
                (\<lambda>t s. s\<lparr>db_receipts := t\<rparr>))"

definition get_resolution_receipt :: "string \<Rightarrow> string \<Rightarrow> resolution_receipt dbtx" where
  "get_resolution_receipt ow request_id = tx_read (\<lambda>s.
     case no_rows_is_not_found (query_row
            (filter (\<lambda>r. resolution_key r = (ow, request_id)) (db_resolutions s))) of
       Inl e \<Rightarrow> Inl e
     | Inr r \<Rightarrow> Inr (rsr_resolution r))"

definition insert_resolution_receipt :: "string \<Rightarrow> resolution_receipt \<Rightarrow> unit dbtx" where
  "insert_resolution_receipt ow rs =
     tx_bind (owned ow) (\<lambda>_.
       exec_sql (\<lambda>s. insert_row resolution_key \<lparr>rsr_owner = ow, rsr_resolution = rs\<rparr>
                       (db_resolutions s))
                (\<lambda>t s. s\<lparr>db_resolutions := t\<rparr>))"

text \<open>The five statements of \<open>ClearCurrentBaseline\<close>, in order.\<close>

definition clear_current_baseline :: "string \<Rightarrow> unit dbtx" where
  "clear_current_baseline ow =
     tx_bind (exec_sql (\<lambda>s. Inr (delete_rows (\<lambda>r. rcr_owner r = ow) (db_receipts s)))
                (\<lambda>t s. s\<lparr>db_receipts := t\<rparr>)) (\<lambda>_.
     tx_bind (exec_sql (\<lambda>s. Inr (delete_rows (\<lambda>r. cr_owner r = ow) (db_operations s)))
                (\<lambda>t s. s\<lparr>db_operations := t\<rparr>)) (\<lambda>_.
     tx_bind (exec_sql (\<lambda>s. Inr (delete_rows (\<lambda>r. cr_owner r = ow) (db_records s)))
                (\<lambda>t s. s\<lparr>db_records := t\<rparr>)) (\<lambda>_.
     tx_bind (exec_sql (\<lambda>s. Inr (delete_rows (\<lambda>r. rsr_owner r = ow) (db_resolutions s)))
                (\<lambda>t s. s\<lparr>db_resolutions := t\<rparr>)) (\<lambda>_.
     exec_sql (\<lambda>s. update_rows (\<lambda>r. hd_owner r = ow) (\<lambda>r. Inr (r\<lparr>hd_cursor := 0\<rparr>)) (db_heads s))
              (\<lambda>t s. s\<lparr>db_heads := t\<rparr>)))))"

definition get_archive_head :: "string \<Rightarrow> string \<Rightarrow> archive_head dbtx" where
  "get_archive_head ow baseline_id = tx_read (\<lambda>s.
     case no_rows_is_not_found (query_row
            (filter (\<lambda>r. archive_head_key r = (ow, baseline_id)) (db_archive_heads s))) of
       Inl e \<Rightarrow> Inl e
     | Inr r \<Rightarrow> Inr (ahr_head r))"

definition archive_change :: "string \<Rightarrow> string \<Rightarrow> u64 \<Rightarrow> u64 \<Rightarrow> change \<Rightarrow> unit dbtx" where
  "archive_change ow baseline_id server_version archived_at_ms ch =
     tx_bind (owned ow) (\<lambda>_.
       exec_sql (\<lambda>s. insert_row archive_key
                   \<lparr>ar_owner = ow, ar_baseline = baseline_id, ar_change = ch,
                    ar_server_version = server_version, ar_archived_at_ms = archived_at_ms\<rparr>
                   (db_archive s))
                (\<lambda>t s. s\<lparr>db_archive := t\<rparr>))"

definition upsert_archive_head :: "string \<Rightarrow> string \<Rightarrow> u64 \<Rightarrow> u64 \<Rightarrow> u64 \<Rightarrow> unit dbtx" where
  "upsert_archive_head ow baseline_id cursor server_version updated_at_ms =
     tx_bind (owned ow) (\<lambda>_.
       exec_sql (\<lambda>s. Inr (upsert_row archive_head_key (\<lambda>old new. old\<lparr>ahr_head := ahr_head new\<rparr>)
                   \<lparr>ahr_owner = ow, ahr_baseline = baseline_id,
                    ahr_head = \<lparr>ah_cursor = cursor, ah_version = server_version,
                                ah_updated_at_ms = updated_at_ms\<rparr>\<rparr>
                   (db_archive_heads s)))
                (\<lambda>t s. s\<lparr>db_archive_heads := t\<rparr>))"

definition outbox_row_of :: "string \<Rightarrow> realtime_event \<Rightarrow> nat \<Rightarrow> outbox_row" where
  "outbox_row_of ow ev n =
     \<lparr>ob_id = n, ob_owner = ow, ob_event_type = ev_type ev, ob_baseline_id = ev_baseline_id ev,
      ob_server_cursor = ev_server_cursor ev, ob_server_version = ev_server_version ev,
      ob_origin = (if ev_origin_connection_id ev \<noteq> [] then Some (ev_origin_connection_id ev) else None),
      ob_created_at_ms = ev_created_at_ms ev, ob_published_at_ms = None, ob_publish_attempts = 0,
      ob_last_error = None\<rparr>"

definition insert_realtime_event :: "string \<Rightarrow> realtime_event \<Rightarrow> unit dbtx" where
  "insert_realtime_event ow ev =
     tx_bind (owned ow) (\<lambda>_.
       exec_sql (\<lambda>s. Inr (db_outbox s @ [outbox_row_of ow ev (db_next_event s)]))
                (\<lambda>t s. s\<lparr>db_outbox := t, db_next_event := Suc (db_next_event s)\<rparr>))"

section \<open>Transactions\<close>

text \<open>
  What becomes of \<open>COMMIT\<close>: it succeeds; the server refuses it and rolls back; or it succeeds and
  the acknowledgement is lost, so that the client sees an error.
\<close>

datatype commit_outcome = Committed | CommitRefused err | CommitUnacknowledged err

record tx_env =
  env_begin_error :: "err option"
  env_now :: u64
  env_commit :: commit_outcome

definition ensure_owner :: "string \<Rightarrow> u64 \<Rightarrow> unit dbtx" where
  "ensure_owner ow now =
     exec_sql (\<lambda>s. Inr (insert_ignore_row fst (ow, now) (db_owners s))) (\<lambda>t s. s\<lparr>db_owners := t\<rparr>)"

definition lock_owner :: "string \<Rightarrow> (string \<times> u64) dbtx" where
  "lock_owner ow = tx_read (\<lambda>s. query_row (filter (\<lambda>r. fst r = ow) (db_owners s)))"

definition fresh_head :: "string \<Rightarrow> head_row" where
  "fresh_head ow = \<lparr>hd_owner = ow, hd_cursor = 0, hd_baseline = None, hd_version = 0,
     hd_updated_at_ms = 0, hd_progress_day = campaign_start\<rparr>"

definition ensure_head :: "string \<Rightarrow> unit dbtx" where
  "ensure_head ow =
     tx_bind (owned ow) (\<lambda>_.
       exec_sql (\<lambda>s. Inr (insert_ignore_row hd_owner (fresh_head ow) (db_heads s)))
                (\<lambda>t s. s\<lparr>db_heads := t\<rparr>))"

definition owner_transaction :: "string \<Rightarrow> u64 \<Rightarrow> 'a dbtx \<Rightarrow> 'a dbtx" where
  "owner_transaction ow now fn =
     tx_bind (ensure_owner ow now) (\<lambda>_.
     tx_bind (lock_owner ow) (\<lambda>_.
     tx_bind (ensure_head ow) (\<lambda>_. fn)))"

definition with_owner_transaction :: "tx_env \<Rightarrow> string \<Rightarrow> 'a dbtx \<Rightarrow> db \<Rightarrow> (err + 'a) \<times> db" where
  "with_owner_transaction env ow fn s =
     (case env_begin_error env of
        Some e \<Rightarrow> (Inl e, s)
      | None \<Rightarrow>
          (case owner_transaction ow (env_now env) fn s of
             Inl e \<Rightarrow> (Inl e, s)
           | Inr (a, s') \<Rightarrow>
               (case env_commit env of
                  Committed \<Rightarrow> (Inr a, s')
                | CommitRefused e \<Rightarrow> (Inl e, s)
                | CommitUnacknowledged e \<Rightarrow> (Inl e, s'))))"

text \<open>
  \<open>ReadFeedSnapshot\<close> reads one consistent snapshot, so it is a function of one state. The result
  of the commit of the read-only transaction is part of \<open>tx_env\<close> as well.
\<close>

definition read_feed_snapshot :: "tx_env \<Rightarrow> string \<Rightarrow> u64 \<Rightarrow> nat \<Rightarrow> db \<Rightarrow> err + feed_snapshot" where
  "read_feed_snapshot env ow after limit s =
     (case env_begin_error env of
        Some e \<Rightarrow> Inl e
      | None \<Rightarrow>
          (let committed = (\<lambda>result. case env_commit env of
                              Committed \<Rightarrow> result
                            | CommitRefused e \<Rightarrow> Inl e
                            | CommitUnacknowledged e \<Rightarrow> Inl e)
           in (case query_row (filter (\<lambda>r. hd_owner r = ow \<and> hd_baseline r \<noteq> None) (db_heads s)) of
                 Inl e \<Rightarrow> committed (if e = ErrNoRows then Inl ErrNotFound else Inl e)
               | Inr r \<Rightarrow> committed (Inr \<lparr>fs_lineage = row_lineage r, fs_head_cursor = hd_cursor r,
                            fs_changes = operations_after ow after limit s\<rparr>))))"

end
