(* ===== verification/StoreSpec.thy ===== *)
theory StoreSpec
  imports Store
begin

text \<open>
  What the store promises. \<open>abs_owner\<close> maps the tables to the state of one owner, a record of
  maps, and for each method there is a lemma that says what it does to that state (its
  refinement), when it succeeds, and that it leaves every other owner's state alone (its frame).
  \<open>db_ok\<close> says that the unique keys are unique; every method keeps it.
\<close>

section \<open>The state of one owner\<close>

record owner_state =
  a_owned :: bool
  a_head :: "head_row option"
  a_ops :: "u64 \<Rightarrow> change option"
  a_recs :: "string \<Rightarrow> change option"
  a_receipts :: "string \<Rightarrow> receipt option"
  a_resolutions :: "string \<Rightarrow> resolution_receipt option"
  a_archive :: "string \<times> u64 \<Rightarrow> change option"
  a_archive_heads :: "string \<Rightarrow> archive_head option"
  a_events :: "outbox_row list"

definition abs_owner :: "string \<Rightarrow> db \<Rightarrow> owner_state" where
  "abs_owner ow s =
     \<lparr>a_owned = owner_exists ow s,
      a_head = row_lookup hd_owner (db_heads s) ow,
      a_ops = (\<lambda>c. map_option cr_change (row_lookup operation_key (db_operations s) (ow, c))),
      a_recs = (\<lambda>k. map_option cr_change (row_lookup record_key (db_records s) (ow, k))),
      a_receipts = (\<lambda>i. map_option rcr_receipt (row_lookup receipt_key (db_receipts s) (ow, i))),
      a_resolutions =
        (\<lambda>i. map_option rsr_resolution (row_lookup resolution_key (db_resolutions s) (ow, i))),
      a_archive =
        (\<lambda>(b, c). map_option ar_change (row_lookup archive_key (db_archive s) (ow, b, c))),
      a_archive_heads =
        (\<lambda>b. map_option ahr_head (row_lookup archive_head_key (db_archive_heads s) (ow, b))),
      a_events = filter (\<lambda>r. ob_owner r = ow) (db_outbox s)\<rparr>"

definition a_cursor :: "owner_state \<Rightarrow> u64" where
  "a_cursor A = (case a_head A of None \<Rightarrow> 0 | Some h \<Rightarrow> hd_cursor h)"

definition a_baseline :: "owner_state \<Rightarrow> string option" where
  "a_baseline A = (case a_head A of None \<Rightarrow> None | Some h \<Rightarrow> hd_baseline h)"

definition db_ok :: "db \<Rightarrow> bool" where
  "db_ok s \<longleftrightarrow> distinct (map hd_owner (db_heads s)) \<and> distinct (map operation_key (db_operations s))
     \<and> distinct (map operation_op_key (db_operations s)) \<and> distinct (map record_key (db_records s))
     \<and> distinct (map receipt_key (db_receipts s)) \<and> distinct (map resolution_key (db_resolutions s))
     \<and> distinct (map archive_key (db_archive s))
     \<and> distinct (map archive_head_key (db_archive_heads s))
     \<and> distinct (map fst (db_owners s)) \<and> distinct (map ob_id (db_outbox s))
     \<and> (\<forall>r \<in> set (db_outbox s). ob_id r < db_next_event s)"

lemma db_ok_empty: "db_ok empty_db"
  by (simp add: db_ok_def empty_db_def)

section \<open>The insert-only tables keep their promises\<close>

lemma row_table_keyed: "keyed_table key (row_lookup key) (insert_row key)"
  by unfold_locales (auto simp: row_lookup_insert insert_row_Inl)

interpretation receipts: keyed_table receipt_key "row_lookup receipt_key" "insert_row receipt_key"
  by (rule row_table_keyed)

interpretation resolutions: keyed_table resolution_key "row_lookup resolution_key" "insert_row resolution_key"
  by (rule row_table_keyed)

interpretation operations: keyed_table operation_key "row_lookup operation_key" "insert_row operation_key"
  by (rule row_table_keyed)

interpretation archive: keyed_table archive_key "row_lookup archive_key" "insert_row archive_key"
  by (rule row_table_keyed)

section \<open>Reads\<close>

lemma abs_sel [simp]:
  "a_owned (abs_owner ow s) = owner_exists ow s"
  "a_head (abs_owner ow s) = row_lookup hd_owner (db_heads s) ow"
  "a_ops (abs_owner ow s) c = map_option cr_change (row_lookup operation_key (db_operations s) (ow, c))"
  "a_recs (abs_owner ow s) k = map_option cr_change (row_lookup record_key (db_records s) (ow, k))"
  "a_receipts (abs_owner ow s) i = map_option rcr_receipt (row_lookup receipt_key (db_receipts s) (ow, i))"
  "a_resolutions (abs_owner ow s) i =
     map_option rsr_resolution (row_lookup resolution_key (db_resolutions s) (ow, i))"
  "a_archive (abs_owner ow s) (b, c) =
     map_option ar_change (row_lookup archive_key (db_archive s) (ow, b, c))"
  "a_archive_heads (abs_owner ow s) b =
     map_option ahr_head (row_lookup archive_head_key (db_archive_heads s) (ow, b))"
  "a_events (abs_owner ow s) = filter (\<lambda>r. ob_owner r = ow) (db_outbox s)"
  by (simp_all add: abs_owner_def)

text \<open>The common shape of the single-row reads.\<close>

lemma lookup_read:
  "(case no_rows_is_not_found (query_row (filter (\<lambda>r. key r = k) rows)) of
      Inl e \<Rightarrow> Inl e | Inr r \<Rightarrow> Inr (f r)) =
   (case map_option f (row_lookup key rows k) of None \<Rightarrow> Inl ErrNotFound | Some x \<Rightarrow> Inr x)"
proof (cases "filter (\<lambda>r. key r = k) rows")
  case Nil
  then have "row_lookup key rows k = None" by (auto simp: row_lookup_def filter_empty_find)
  with Nil show ?thesis by simp
next
  case (Cons r rest)
  then have "row_lookup key rows k = Some r"
    using filter_head_find [of "\<lambda>r. key r = k" rows r] by (auto simp: row_lookup_def)
  with Cons show ?thesis by simp
qed

lemma get_operation_abs:
  "get_operation ow c = tx_read (\<lambda>s. case a_ops (abs_owner ow s) c of
     None \<Rightarrow> Inl ErrNotFound | Some ch \<Rightarrow> Inr ch)"
  by (simp only: get_operation_def lookup_read abs_sel)

lemma get_record_abs:
  "get_record ow k = tx_read (\<lambda>s. case a_recs (abs_owner ow s) (pad_key k) of
     None \<Rightarrow> Inl ErrNotFound | Some ch \<Rightarrow> Inr ch)"
  by (simp only: get_record_def lookup_read abs_sel)

lemma get_receipt_abs:
  "get_receipt ow i = tx_read (\<lambda>s. case a_receipts (abs_owner ow s) i of
     None \<Rightarrow> Inl ErrNotFound | Some rc \<Rightarrow> Inr rc)"
  by (simp only: get_receipt_def lookup_read abs_sel)

lemma get_resolution_receipt_abs:
  "get_resolution_receipt ow i = tx_read (\<lambda>s. case a_resolutions (abs_owner ow s) i of
     None \<Rightarrow> Inl ErrNotFound | Some rs \<Rightarrow> Inr rs)"
  by (simp only: get_resolution_receipt_def lookup_read abs_sel)

lemma get_archive_head_abs:
  "get_archive_head ow b = tx_read (\<lambda>s. case a_archive_heads (abs_owner ow s) b of
     None \<Rightarrow> Inl ErrNotFound | Some h \<Rightarrow> Inr h)"
  by (simp only: get_archive_head_def lookup_read abs_sel)

lemma current_cursor_abs:
  "current_cursor ow = tx_read (\<lambda>s. case a_head (abs_owner ow s) of
     None \<Rightarrow> Inl ErrNoRows | Some h \<Rightarrow> Inr (hd_cursor h))"
proof -
  have "(case query_row (head_rows ow s) of Inl e \<Rightarrow> Inl e | Inr r \<Rightarrow> Inr (hd_cursor r)) =
    (case row_lookup hd_owner (db_heads s) ow of None \<Rightarrow> Inl ErrNoRows | Some h \<Rightarrow> Inr (hd_cursor h))" for s
    using filter_find [of "\<lambda>r. hd_owner r = ow" "db_heads s", symmetric]
    by (cases "filter (\<lambda>r. hd_owner r = ow) (db_heads s)")
      (simp_all add: head_rows_def row_lookup_def query_row_def)
  then show ?thesis by (simp add: current_cursor_def)
qed

text \<open>At most one head row per owner, so the lineage read is the head's, if it has a baseline.\<close>

lemma lineage_filter:
  assumes "db_ok s"
  shows "filter (\<lambda>r. hd_owner r = ow \<and> hd_baseline r \<noteq> None) (db_heads s) =
    (case a_head (abs_owner ow s) of
       None \<Rightarrow> [] | Some h \<Rightarrow> if hd_baseline h = None then [] else [h])"
proof -
  have split: "filter (\<lambda>r. hd_owner r = ow \<and> hd_baseline r \<noteq> None) rs =
      filter (\<lambda>r. hd_baseline r \<noteq> None) (filter (\<lambda>r. hd_owner r = ow) rs)" for rs
    by (simp add: conj_commute)
  have d: "distinct (map hd_owner (db_heads s))" using assms by (simp add: db_ok_def)
  show ?thesis
  proof (cases "row_lookup hd_owner (db_heads s) ow")
    case None
    then have "filter (\<lambda>r. hd_owner r = ow) (db_heads s) = []"
      by (simp add: row_lookup_def filter_empty_find)
    with None show ?thesis by (simp only: split) simp
  next
    case (Some h)
    then have "filter (\<lambda>r. hd_owner r = ow) (db_heads s) = [h]"
      using filter_singleton_find [OF d] by (simp add: row_lookup_def)
    with Some show ?thesis by (simp only: split) simp
  qed
qed

definition head_lineage :: "head_row option \<Rightarrow> lineage option" where
  "head_lineage h = (case h of None \<Rightarrow> None
     | Some r \<Rightarrow> if hd_baseline r = None then None else Some (row_lineage r))"

lemma get_lineage_abs:
  assumes "db_ok s"
  shows "get_lineage ow s = (case head_lineage (a_head (abs_owner ow s)) of
     None \<Rightarrow> Inl ErrNotFound | Some l \<Rightarrow> Inr (l, s))"
  using lineage_filter [OF assms, of ow]
  by (auto simp: get_lineage_def tx_read_def head_lineage_def split: option.splits)

section \<open>Frames\<close>

text \<open>
  A program of one owner leaves the state of every other owner as it is, and keeps the unique
  keys unique.
\<close>

definition only_owner :: "string \<Rightarrow> db \<Rightarrow> db \<Rightarrow> bool" where
  "only_owner ow s s' \<longleftrightarrow> (\<forall>p. p \<noteq> ow \<longrightarrow> abs_owner p s' = abs_owner p s) \<and> (db_ok s \<longrightarrow> db_ok s')"

interpretation frame: tx_preorder "only_owner ow" for ow
  by unfold_locales (auto simp: only_owner_def)

lemma owner_state_eqI:
  assumes "a_owned A = a_owned B" "a_head A = a_head B" "\<And>c. a_ops A c = a_ops B c"
    "\<And>k. a_recs A k = a_recs B k" "\<And>i. a_receipts A i = a_receipts B i"
    "\<And>i. a_resolutions A i = a_resolutions B i" "\<And>b c. a_archive A (b, c) = a_archive B (b, c)"
    "\<And>b. a_archive_heads A b = a_archive_heads B b" "a_events A = a_events B"
  shows "A = (B :: owner_state)"
proof -
  have "a_ops A = a_ops B" "a_recs A = a_recs B" "a_receipts A = a_receipts B"
    "a_resolutions A = a_resolutions B" "a_archive A = a_archive B"
    "a_archive_heads A = a_archive_heads B"
    using assms by (auto simp: fun_eq_iff)
  with assms(1,2,9) show ?thesis by (cases A; cases B) simp
qed

text \<open>Replacing the head row of one owner.\<close>

definition put_head :: "string \<Rightarrow> head_row \<Rightarrow> db \<Rightarrow> db" where
  "put_head ow h s = s\<lparr>db_heads := map (\<lambda>r. if hd_owner r = ow then h else r) (db_heads s)\<rparr>"

lemma lookup_put_head:
  assumes "hd_owner h = ow"
  shows "row_lookup hd_owner (map (\<lambda>r. if hd_owner r = ow then h else r) rs) p =
    (if p = ow then map_option (\<lambda>_. h) (row_lookup hd_owner rs p) else row_lookup hd_owner rs p)"
proof -
  have "row_lookup hd_owner (map (\<lambda>r. if hd_owner r = ow then h else r) rs) p =
      map_option (\<lambda>r. if hd_owner r = ow then h else r) (row_lookup hd_owner rs p)"
    using assms by (intro row_lookup_map_pres) auto
  then show ?thesis by (auto simp: map_option_case dest: row_lookup_Some split: option.splits)
qed

lemma put_head_abs:
  assumes "hd_owner h = ow"
  shows "abs_owner p (put_head ow h s) =
    (if p = ow then (abs_owner p s)\<lparr>a_head := map_option (\<lambda>_. h) (a_head (abs_owner p s))\<rparr>
     else abs_owner p s)"
  using lookup_put_head [OF assms]
  by (auto simp: put_head_def owner_exists_def intro!: owner_state_eqI)

lemma put_head_ok: "db_ok s \<Longrightarrow> hd_owner h = ow \<Longrightarrow> db_ok (put_head ow h s)"
proof -
  assume ok: "db_ok s" and h: "hd_owner h = ow"
  have "map hd_owner (map (\<lambda>r. if hd_owner r = ow then h else r) (db_heads s)) = map hd_owner (db_heads s)"
    using h by (induction "db_heads s") auto
  with ok show ?thesis by (simp add: db_ok_def put_head_def del: map_map)
qed

lemma put_head_only: "hd_owner h = ow \<Longrightarrow> only_owner ow s (put_head ow h s)"
  by (simp add: only_owner_def put_head_abs put_head_ok)

text \<open>An \<open>UPDATE sync_heads ... WHERE owner_key = ?\<close> acts on the owner's head row alone.\<close>

lemma update_heads:
  assumes "distinct (map hd_owner rs)"
  shows "update_rows (\<lambda>r. hd_owner r = ow \<and> Q r) f rs =
    (case row_lookup hd_owner rs ow of
       None \<Rightarrow> Inr rs
     | Some h \<Rightarrow> if Q h then (case f h of Inl e \<Rightarrow> Inl e
                 | Inr h' \<Rightarrow> Inr (map (\<lambda>r. if hd_owner r = ow then h' else r) rs))
                 else Inr rs)"
  using assms
proof (induction rs)
  case (Cons r rs)
  show ?case
  proof (cases "hd_owner r = ow")
    case True
    with Cons.prems have "\<forall>x \<in> set rs. hd_owner x \<noteq> ow" by (force simp: image_iff)
    then have "row_lookup hd_owner rs ow = None"
      and "map (\<lambda>r. if hd_owner r = ow then h' else r) rs = rs" for h'
      by (auto simp: row_lookup_None intro: map_idI)
    with Cons True show ?thesis by (auto simp: row_lookup_def split: sum.splits)
  next
    case False
    with Cons show ?thesis by (auto simp: row_lookup_def split: sum.splits option.splits)
  qed
qed (simp add: row_lookup_def)

lemmas update_own_head = update_heads [where Q = "\<lambda>_. True", simplified]

lemma db_ok_heads: "db_ok s \<Longrightarrow> distinct (map hd_owner (db_heads s))"
  by (simp add: db_ok_def)

section \<open>Effects of the methods\<close>

text \<open>
  Each statement that succeeds has changed the owner's state in the way the lemma says. The
  lemmas are equivalences, so they also say exactly when the statement succeeds.
\<close>

lemma head_owner: "row_lookup hd_owner rs ow = Some h \<Longrightarrow> hd_owner h = ow"
  by (auto dest: row_lookup_Some)

lemma next_cursor_Inr:
  assumes "db_ok s"
  shows "next_cursor ow s = Inr (c, s') \<longleftrightarrow>
    (\<exists>h. a_head (abs_owner ow s) = Some h \<and> hd_cursor h \<noteq> - 1 \<and> c = hd_cursor h + 1
       \<and> s' = put_head ow (h\<lparr>hd_cursor := c\<rparr>) s)"
proof (cases "row_lookup hd_owner (db_heads s) ow")
  case None
  with db_ok_heads [OF assms] show ?thesis
    by (simp add: next_cursor_def tx_bind_Inr exec_sql_Inr update_own_head current_cursor_abs)
next
  case (Some h)
  note own = head_owner [OF Some]
  have "a_head (abs_owner ow (put_head ow (h\<lparr>hd_cursor := v\<rparr>) s)) = Some (h\<lparr>hd_cursor := v\<rparr>)" for v
    using Some own by (subst put_head_abs) auto
  then show ?thesis using Some db_ok_heads [OF assms]
    by (auto simp: next_cursor_def tx_bind_Inr exec_sql_Inr update_own_head current_cursor_abs
        bigint_succ_def put_head_def split: if_splits)
qed

lemma write_lineage_Inr:
  assumes "db_ok s" and "a_head (abs_owner ow s) = Some h"
  shows "write_lineage ow l s = Inr (u, s') \<longleftrightarrow>
    (\<exists>day. text_column 64 (ln_progress_day l) = Inr day \<and>
       s' = put_head ow (h\<lparr>hd_baseline := Some (ln_baseline_id l), hd_version := ln_version l,
              hd_updated_at_ms := ln_updated_at_ms l, hd_progress_day := day\<rparr>) s)"
  using assms db_ok_heads [OF assms(1)]
  by (auto simp: write_lineage_def exec_sql_Inr update_own_head put_head_def split: sum.splits)

lemma increment_lineage_Inr:
  assumes "db_ok s" and "a_head (abs_owner ow s) = Some h" and "hd_baseline h = Some b"
  shows "increment_lineage ow t d s = Inr (l, s') \<longleftrightarrow>
    (\<exists>day. hd_version h \<noteq> - 1 \<and> text_column 64 d = Inr day
       \<and> l = \<lparr>ln_baseline_id = b, ln_version = hd_version h + 1, ln_updated_at_ms = t,
              ln_progress_day = day\<rparr>
       \<and> s' = put_head ow (h\<lparr>hd_version := hd_version h + 1, hd_updated_at_ms := t,
                hd_progress_day := day\<rparr>) s)"
proof -
  have own: "hd_owner h = ow" using assms(2) by (auto dest: head_owner)
  define h' where "h' day = h\<lparr>hd_version := hd_version h + 1, hd_updated_at_ms := t, hd_progress_day := day\<rparr>" for day
  have "get_lineage ow (put_head ow (h' day) s) = Inr (row_lineage (h' day), put_head ow (h' day) s)" for day
    using assms own by (simp add: get_lineage_abs put_head_ok h'_def put_head_abs head_lineage_def)
  then show ?thesis using assms db_ok_heads [OF assms(1)]
    by (auto simp: increment_lineage_def tx_bind_Inr exec_sql_Inr update_heads bigint_succ_def
        put_head_def h'_def row_lineage_def split: if_splits sum.splits)
qed

text \<open>A row of the map is a row of the table, and the other way round while keys are unique.\<close>

lemma ops_row:
  assumes "db_ok s" and "r \<in> set (db_operations s)"
  shows "a_ops (abs_owner (cr_owner r) s) (c_cursor (cr_change r)) = Some (cr_change r)"
  using assms row_lookup_mem [of operation_key "db_operations s" r]
  by (simp add: db_ok_def operation_key_def)

lemma ops_Some:
  "a_ops (abs_owner ow s) c = Some ch \<Longrightarrow>
     (\<exists>r \<in> set (db_operations s). cr_owner r = ow \<and> cr_change r = ch) \<and> c_cursor ch = c"
  by (auto simp: operation_key_def dest!: row_lookup_Some)

lemma op_id_used:
  assumes "db_ok s"
  shows "row_lookup operation_op_key (db_operations s) (ow, i) = None \<longleftrightarrow>
    (\<forall>c ch. a_ops (abs_owner ow s) c = Some ch \<longrightarrow> c_op_id ch \<noteq> i)"
proof
  assume "row_lookup operation_op_key (db_operations s) (ow, i) = None"
  then show "\<forall>c ch. a_ops (abs_owner ow s) c = Some ch \<longrightarrow> c_op_id ch \<noteq> i"
    by (fastforce simp: row_lookup_None operation_op_key_def simp del: abs_sel dest: ops_Some)
next
  assume "\<forall>c ch. a_ops (abs_owner ow s) c = Some ch \<longrightarrow> c_op_id ch \<noteq> i"
  with ops_row [OF assms] show "row_lookup operation_op_key (db_operations s) (ow, i) = None"
    by (fastforce simp: row_lookup_None operation_op_key_def simp del: abs_sel)
qed

lemma append_operation_Inr:
  assumes "db_ok s"
  shows "append_operation ow ch s = Inr (u, s') \<longleftrightarrow>
    a_owned (abs_owner ow s) \<and> a_ops (abs_owner ow s) (c_cursor ch) = None
    \<and> (\<forall>c x. a_ops (abs_owner ow s) c = Some x \<longrightarrow> c_op_id x \<noteq> c_op_id ch)
    \<and> s' = s\<lparr>db_operations := db_operations s @ [\<lparr>cr_owner = ow, cr_change = ch\<rparr>]\<rparr>"
  unfolding op_id_used [OF assms, symmetric]
  by (auto simp: append_operation_def tx_bind_Inr owned_Inr exec_sql_Inr insert_row_Inr Let_def
      insert_row_Inl operation_key_def operation_op_key_def split: sum.splits)

lemma append_operation_abs:
  assumes "append_operation ow ch s = Inr (u, s')"
  shows "abs_owner ow s' = (abs_owner ow s)\<lparr>a_ops := (a_ops (abs_owner ow s))(c_cursor ch \<mapsto> ch)\<rparr>"
  using assms
  by (auto simp: append_operation_def tx_bind_Inr owned_Inr exec_sql_Inr insert_row_Inr Let_def
      row_lookup_append operation_key_def owner_exists_def
      split: sum.splits option.splits intro!: owner_state_eqI)

lemma upsert_record_Inr:
  "upsert_record ow ch s = Inr (u, s') \<longleftrightarrow> a_owned (abs_owner ow s)
    \<and> s' = s\<lparr>db_records := upsert_row record_key overwrite_record \<lparr>cr_owner = ow, cr_change = ch\<rparr>
               (db_records s)\<rparr>"
  by (auto simp: upsert_record_def tx_bind_Inr owned_Inr exec_sql_Inr)

lemma overwrite_record_key: "record_key r = record_key row \<Longrightarrow> record_key (overwrite_record r row) = record_key row"
  by (auto simp: record_key_def overwrite_record_def)

text \<open>The row that a record becomes: the new columns, under the entity key first stored.\<close>

definition stored_record :: "change option \<Rightarrow> change \<Rightarrow> change" where
  "stored_record old ch = (case old of None \<Rightarrow> ch | Some x \<Rightarrow> ch\<lparr>c_entity_key := c_entity_key x\<rparr>)"

lemma lookup_upsert_record:
  "row_lookup record_key (upsert_row record_key overwrite_record row rows) =
    (row_lookup record_key rows)(record_key row \<mapsto>
       (case row_lookup record_key rows (record_key row) of None \<Rightarrow> row | Some r \<Rightarrow> overwrite_record r row))"
  by (rule row_lookup_upsert) (rule overwrite_record_key)

lemma upsert_record_abs:
  assumes "upsert_record ow ch s = Inr (u, s')"
  shows "abs_owner ow s' = (abs_owner ow s)\<lparr>a_recs := (a_recs (abs_owner ow s))
    (pad_key (c_entity_key ch) \<mapsto>
       stored_record (a_recs (abs_owner ow s) (pad_key (c_entity_key ch))) ch)\<rparr>"
  using assms
  by (auto simp: upsert_record_Inr lookup_upsert_record record_key_def
      overwrite_record_def stored_record_def owner_exists_def split: option.splits
      intro!: owner_state_eqI)

lemma insert_receipt_Inr:
  "insert_receipt ow rc s = Inr (u, s') \<longleftrightarrow> a_owned (abs_owner ow s)
    \<and> a_receipts (abs_owner ow s) (rc_op_id rc) = None
    \<and> s' = s\<lparr>db_receipts := db_receipts s @ [\<lparr>rcr_owner = ow, rcr_receipt = rc\<rparr>]\<rparr>"
  by (auto simp: insert_receipt_def tx_bind_Inr owned_Inr exec_sql_Inr insert_row_Inr receipt_key_def)

lemma insert_receipt_abs:
  assumes "insert_receipt ow rc s = Inr (u, s')"
  shows "abs_owner ow s' =
    (abs_owner ow s)\<lparr>a_receipts := (a_receipts (abs_owner ow s))(rc_op_id rc \<mapsto> rc)\<rparr>"
  using assms
  by (auto simp: insert_receipt_Inr row_lookup_append receipt_key_def owner_exists_def
      split: option.splits intro!: owner_state_eqI)

lemma insert_resolution_receipt_Inr:
  "insert_resolution_receipt ow rs s = Inr (u, s') \<longleftrightarrow> a_owned (abs_owner ow s)
    \<and> a_resolutions (abs_owner ow s) (rs_request_id rs) = None
    \<and> s' = s\<lparr>db_resolutions := db_resolutions s @ [\<lparr>rsr_owner = ow, rsr_resolution = rs\<rparr>]\<rparr>"
  by (auto simp: insert_resolution_receipt_def tx_bind_Inr owned_Inr exec_sql_Inr insert_row_Inr
      resolution_key_def)

lemma insert_resolution_receipt_abs:
  assumes "insert_resolution_receipt ow rs s = Inr (u, s')"
  shows "abs_owner ow s' =
    (abs_owner ow s)\<lparr>a_resolutions := (a_resolutions (abs_owner ow s))(rs_request_id rs \<mapsto> rs)\<rparr>"
  using assms
  by (auto simp: insert_resolution_receipt_Inr row_lookup_append resolution_key_def owner_exists_def
      split: option.splits intro!: owner_state_eqI)

lemma archive_change_Inr:
  "archive_change ow b v t ch s = Inr (u, s') \<longleftrightarrow> a_owned (abs_owner ow s)
    \<and> a_archive (abs_owner ow s) (b, c_cursor ch) = None
    \<and> s' = s\<lparr>db_archive := db_archive s @ [\<lparr>ar_owner = ow, ar_baseline = b, ar_change = ch,
                ar_server_version = v, ar_archived_at_ms = t\<rparr>]\<rparr>"
  by (auto simp: archive_change_def tx_bind_Inr owned_Inr exec_sql_Inr insert_row_Inr archive_key_def)

lemma archive_change_abs:
  assumes "archive_change ow b v t ch s = Inr (u, s')"
  shows "abs_owner ow s' =
    (abs_owner ow s)\<lparr>a_archive := (a_archive (abs_owner ow s))((b, c_cursor ch) \<mapsto> ch)\<rparr>"
  using assms
  by (auto simp: archive_change_Inr row_lookup_append archive_key_def owner_exists_def
      split: option.splits intro!: owner_state_eqI)

lemma upsert_archive_head_Inr:
  "upsert_archive_head ow b c v t s = Inr (u, s') \<longleftrightarrow> a_owned (abs_owner ow s)
    \<and> s' = s\<lparr>db_archive_heads := upsert_row archive_head_key (\<lambda>old new. old\<lparr>ahr_head := ahr_head new\<rparr>)
        \<lparr>ahr_owner = ow, ahr_baseline = b,
         ahr_head = \<lparr>ah_cursor = c, ah_version = v, ah_updated_at_ms = t\<rparr>\<rparr> (db_archive_heads s)\<rparr>"
  by (auto simp: upsert_archive_head_def tx_bind_Inr owned_Inr exec_sql_Inr)

lemma lookup_upsert_archive_head:
  "row_lookup archive_head_key
     (upsert_row archive_head_key (\<lambda>old new. old\<lparr>ahr_head := ahr_head new\<rparr>) row rows) =
    (row_lookup archive_head_key rows)(archive_head_key row \<mapsto>
       (case row_lookup archive_head_key rows (archive_head_key row) of
          None \<Rightarrow> row | Some r \<Rightarrow> r\<lparr>ahr_head := ahr_head row\<rparr>))"
  by (rule row_lookup_upsert) (simp add: archive_head_key_def)

lemma upsert_archive_head_abs:
  assumes "upsert_archive_head ow b c v t s = Inr (u, s')"
  shows "abs_owner ow s' = (abs_owner ow s)\<lparr>a_archive_heads := (a_archive_heads (abs_owner ow s))
    (b \<mapsto> \<lparr>ah_cursor = c, ah_version = v, ah_updated_at_ms = t\<rparr>)\<rparr>"
  using assms
  by (auto simp: upsert_archive_head_Inr lookup_upsert_archive_head archive_head_key_def owner_exists_def
      split: option.splits intro!: owner_state_eqI)

lemma insert_realtime_event_Inr:
  "insert_realtime_event ow ev s = Inr (u, s') \<longleftrightarrow> a_owned (abs_owner ow s)
    \<and> s' = s\<lparr>db_outbox := db_outbox s @ [outbox_row_of ow ev (db_next_event s)],
             db_next_event := Suc (db_next_event s)\<rparr>"
  by (auto simp: insert_realtime_event_def tx_bind_Inr owned_Inr exec_sql_Inr)

lemma insert_realtime_event_abs:
  assumes "insert_realtime_event ow ev s = Inr (u, s')"
  shows "abs_owner ow s' = (abs_owner ow s)\<lparr>a_events := a_events (abs_owner ow s) @
    [outbox_row_of ow ev (db_next_event s)]\<rparr>"
  using assms
  by (auto simp: insert_realtime_event_Inr outbox_row_of_def owner_exists_def
      intro!: owner_state_eqI)

lemma clear_current_baseline_abs:
  assumes "clear_current_baseline ow s = Inr (u, s')" and "db_ok s"
  shows "abs_owner ow s' = (abs_owner ow s)\<lparr>
      a_head := map_option (\<lambda>h. h\<lparr>hd_cursor := 0\<rparr>) (a_head (abs_owner ow s)),
      a_ops := Map.empty, a_recs := Map.empty, a_receipts := Map.empty, a_resolutions := Map.empty\<rparr>"
proof -
  obtain t where t: "update_rows (\<lambda>r. hd_owner r = ow) (\<lambda>r. Inr (r\<lparr>hd_cursor := 0\<rparr>)) (db_heads s) = Inr t"
    and s': "s' = s\<lparr>db_receipts := delete_rows (\<lambda>r. rcr_owner r = ow) (db_receipts s),
      db_operations := delete_rows (\<lambda>r. cr_owner r = ow) (db_operations s),
      db_records := delete_rows (\<lambda>r. cr_owner r = ow) (db_records s),
      db_resolutions := delete_rows (\<lambda>r. rsr_owner r = ow) (db_resolutions s), db_heads := t\<rparr>"
    using assms(1) by (auto simp: clear_current_baseline_def tx_bind_Inr exec_sql_Inr)
  have heads: "row_lookup hd_owner t ow = map_option (\<lambda>h. h\<lparr>hd_cursor := 0\<rparr>) (row_lookup hd_owner (db_heads s) ow)"
  proof (cases "row_lookup hd_owner (db_heads s) ow")
    case None
    with t db_ok_heads [OF assms(2)] show ?thesis by (simp add: update_own_head)
  next
    case (Some h)
    with t db_ok_heads [OF assms(2)] have "t = map (\<lambda>r. if hd_owner r = ow then h\<lparr>hd_cursor := 0\<rparr> else r) (db_heads s)"
      by (simp add: update_own_head)
    with Some lookup_put_head [of "h\<lparr>hd_cursor := 0\<rparr>" ow "db_heads s" ow] head_owner [OF Some]
    show ?thesis by simp
  qed
  show ?thesis
    by (intro owner_state_eqI)
      (simp_all add: s' heads owner_exists_def key_defs row_lookup_None delete_rows_def)
qed

section \<open>Every method is framed\<close>

lemma exec_sql_only:
  assumes "\<And>s t. f s = Inr t \<Longrightarrow> only_owner ow s (put t s)"
  shows "tx_rel (only_owner ow) (exec_sql f put)"
  by (rule tx_relI) (auto simp: exec_sql_Inr assms)

lemma owned_only: "tx_rel (only_owner ow) (owned p)"
  by (rule tx_relI) (auto simp: owned_Inr frame.refl)

lemma update_rows_other:
  assumes "update_rows P f rs = Inr rs'" and "\<And>r. P r \<Longrightarrow> hd_owner r = ow"
    and "\<And>r r'. f r = Inr r' \<Longrightarrow> hd_owner r' = hd_owner r"
  shows "map hd_owner rs' = map hd_owner rs"
    and "p \<noteq> ow \<Longrightarrow> row_lookup hd_owner rs' p = row_lookup hd_owner rs p"
  using assms(1)
proof (induction rs arbitrary: rs')
  case (Cons r rs)
  {
    case 1
    with Cons assms(3) show ?case by (auto split: sum.splits if_splits)
  next
    case 2
    with Cons assms(2,3) show ?case
      by (auto simp: row_lookup_def split: sum.splits if_splits)
  }
qed simp_all

lemma update_heads_only:
  assumes "\<And>r. P r \<Longrightarrow> hd_owner r = ow"
    and "\<And>r r'. f r = Inr r' \<Longrightarrow> hd_owner r' = hd_owner r"
  shows "tx_rel (only_owner ow) (exec_sql (\<lambda>s. update_rows P f (db_heads s)) (\<lambda>t s. s\<lparr>db_heads := t\<rparr>))"
proof (rule exec_sql_only)
  fix s :: db and t assume upd: "update_rows P f (db_heads s) = Inr t"
  note other = update_rows_other [of P f _ _ ow, OF upd assms]
  show "only_owner ow s (s\<lparr>db_heads := t\<rparr>)"
    by (auto simp: only_owner_def db_ok_def other owner_exists_def intro!: owner_state_eqI)
qed

text \<open>Adding or replacing rows of one owner, and deleting them.\<close>

lemma insert_rows_only:
  "insert_row operation_key \<lparr>cr_owner = ow, cr_change = ch\<rparr> (db_operations s) = Inr ops \<Longrightarrow>
   insert_row operation_op_key \<lparr>cr_owner = ow, cr_change = ch\<rparr> (db_operations s) = Inr ops \<Longrightarrow>
     only_owner ow s (s\<lparr>db_operations := ops\<rparr>)"
  "insert_row receipt_key \<lparr>rcr_owner = ow, rcr_receipt = rc\<rparr> (db_receipts s) = Inr rcs \<Longrightarrow>
     only_owner ow s (s\<lparr>db_receipts := rcs\<rparr>)"
  "insert_row resolution_key \<lparr>rsr_owner = ow, rsr_resolution = rs\<rparr> (db_resolutions s) = Inr rss \<Longrightarrow>
     only_owner ow s (s\<lparr>db_resolutions := rss\<rparr>)"
  "insert_row archive_key \<lparr>ar_owner = ow, ar_baseline = b, ar_change = ch, ar_server_version = v,
       ar_archived_at_ms = t\<rparr> (db_archive s) = Inr ars \<Longrightarrow>
     only_owner ow s (s\<lparr>db_archive := ars\<rparr>)"
  by (auto simp: only_owner_def db_ok_def owner_exists_def row_lookup_insert
      operation_key_def receipt_key_def resolution_key_def archive_key_def
      dest: distinct_insert_row intro!: owner_state_eqI)

lemma upsert_rows_only:
  "only_owner ow s (s\<lparr>db_records := upsert_row record_key overwrite_record
       \<lparr>cr_owner = ow, cr_change = ch\<rparr> (db_records s)\<rparr>)"
  "only_owner ow s (s\<lparr>db_archive_heads :=
       upsert_row archive_head_key (\<lambda>old new. old\<lparr>ahr_head := ahr_head new\<rparr>)
         \<lparr>ahr_owner = ow, ahr_baseline = b, ahr_head = head\<rparr> (db_archive_heads s)\<rparr>)"
proof -
  have "distinct (map record_key rows) \<Longrightarrow>
      distinct (map record_key (upsert_row record_key overwrite_record row rows))" for row rows
    by (rule distinct_upsert_row) (rule overwrite_record_key)
  then show "only_owner ow s (s\<lparr>db_records := upsert_row record_key overwrite_record
       \<lparr>cr_owner = ow, cr_change = ch\<rparr> (db_records s)\<rparr>)"
    by (auto simp: only_owner_def db_ok_def owner_exists_def lookup_upsert_record record_key_def
        intro!: owner_state_eqI)
  have "distinct (map archive_head_key rows) \<Longrightarrow> distinct (map archive_head_key
      (upsert_row archive_head_key (\<lambda>old new. old\<lparr>ahr_head := ahr_head new\<rparr>) row rows))" for row rows
    by (rule distinct_upsert_row) (simp add: archive_head_key_def)
  then show "only_owner ow s (s\<lparr>db_archive_heads :=
       upsert_row archive_head_key (\<lambda>old new. old\<lparr>ahr_head := ahr_head new\<rparr>)
         \<lparr>ahr_owner = ow, ahr_baseline = b, ahr_head = head\<rparr> (db_archive_heads s)\<rparr>)"
    by (auto simp: only_owner_def db_ok_def owner_exists_def lookup_upsert_archive_head
        archive_head_key_def intro!: owner_state_eqI)
qed

lemma lookup_deleted:
  "p \<noteq> ow \<Longrightarrow> row_lookup receipt_key (delete_rows (\<lambda>r. rcr_owner r = ow) t1) (p, i) =
     row_lookup receipt_key t1 (p, i)"
  "p \<noteq> ow \<Longrightarrow> row_lookup operation_key (delete_rows (\<lambda>r. cr_owner r = ow) t2) (p, c) =
     row_lookup operation_key t2 (p, c)"
  "p \<noteq> ow \<Longrightarrow> row_lookup record_key (delete_rows (\<lambda>r. cr_owner r = ow) t2) (p, k) =
     row_lookup record_key t2 (p, k)"
  "p \<noteq> ow \<Longrightarrow> row_lookup resolution_key (delete_rows (\<lambda>r. rsr_owner r = ow) t3) (p, i) =
     row_lookup resolution_key t3 (p, i)"
  by (rule row_lookup_delete; simp add: key_defs)+

lemma delete_rows_only:
  "only_owner ow s (s\<lparr>db_receipts := delete_rows (\<lambda>r. rcr_owner r = ow) (db_receipts s)\<rparr>)"
  "only_owner ow s (s\<lparr>db_operations := delete_rows (\<lambda>r. cr_owner r = ow) (db_operations s)\<rparr>)"
  "only_owner ow s (s\<lparr>db_records := delete_rows (\<lambda>r. cr_owner r = ow) (db_records s)\<rparr>)"
  "only_owner ow s (s\<lparr>db_resolutions := delete_rows (\<lambda>r. rsr_owner r = ow) (db_resolutions s)\<rparr>)"
  by (auto simp: only_owner_def db_ok_def owner_exists_def distinct_delete_rows lookup_deleted
      intro!: owner_state_eqI)

lemma append_operation_only: "tx_rel (only_owner ow) (append_operation ow ch)"
  unfolding append_operation_def
proof (intro frame.bind owned_only exec_sql_only)
  fix s :: db and ops
  assume "(let row = \<lparr>cr_owner = ow, cr_change = ch\<rparr> in
      case insert_row operation_op_key row (db_operations s) of
        Inl e \<Rightarrow> Inl e | Inr _ \<Rightarrow> insert_row operation_key row (db_operations s)) = Inr ops"
  then have "insert_row operation_key \<lparr>cr_owner = ow, cr_change = ch\<rparr> (db_operations s) = Inr ops"
    and "insert_row operation_op_key \<lparr>cr_owner = ow, cr_change = ch\<rparr> (db_operations s) = Inr ops"
    by (auto simp: Let_def insert_row_Inr split: sum.splits)
  then show "only_owner ow s (s\<lparr>db_operations := ops\<rparr>)" by (rule insert_rows_only)
qed

lemma insert_receipt_only: "tx_rel (only_owner ow) (insert_receipt ow rc)"
  unfolding insert_receipt_def by (intro frame.bind owned_only exec_sql_only insert_rows_only)

lemma insert_resolution_receipt_only: "tx_rel (only_owner ow) (insert_resolution_receipt ow rs)"
  unfolding insert_resolution_receipt_def by (intro frame.bind owned_only exec_sql_only insert_rows_only)

lemma archive_change_only: "tx_rel (only_owner ow) (archive_change ow b v t ch)"
  unfolding archive_change_def by (intro frame.bind owned_only exec_sql_only insert_rows_only)

lemma upsert_record_only: "tx_rel (only_owner ow) (upsert_record ow ch)"
  unfolding upsert_record_def
  by (intro frame.bind owned_only exec_sql_only) (auto simp: upsert_rows_only)

lemma upsert_archive_head_only: "tx_rel (only_owner ow) (upsert_archive_head ow b c v t)"
  unfolding upsert_archive_head_def
  by (intro frame.bind owned_only exec_sql_only) (auto simp: upsert_rows_only)

lemma insert_realtime_event_only: "tx_rel (only_owner ow) (insert_realtime_event ow ev)"
  by (rule tx_relI) (auto simp: insert_realtime_event_Inr only_owner_def db_ok_def owner_exists_def
      outbox_row_of_def intro!: owner_state_eqI)

lemma current_cursor_only: "tx_rel (only_owner ow) (current_cursor ow)"
  unfolding current_cursor_def by (rule frame.read)

lemma get_lineage_only: "tx_rel (only_owner ow) (get_lineage ow)"
  unfolding get_lineage_def by (rule frame.read)

lemma next_cursor_only: "tx_rel (only_owner ow) (next_cursor ow)"
  unfolding next_cursor_def
  by (intro frame.bind current_cursor_only update_heads_only) (auto split: sum.splits)

lemma write_lineage_only: "tx_rel (only_owner ow) (write_lineage ow l)"
  unfolding write_lineage_def by (intro update_heads_only) (auto split: sum.splits)

lemma increment_lineage_only: "tx_rel (only_owner ow) (increment_lineage ow t d)"
  unfolding increment_lineage_def
  by (intro frame.bind get_lineage_only update_heads_only) (auto split: sum.splits)

lemma clear_current_baseline_only: "tx_rel (only_owner ow) (clear_current_baseline ow)"
  unfolding clear_current_baseline_def
  by (intro frame.bind update_heads_only exec_sql_only) (auto simp: delete_rows_only)

lemmas read_defs = get_record_def list_records_def get_operation_def pull_operations_def
  get_receipt_def get_resolution_receipt_def get_archive_head_def

lemma reads_only:
  "tx_rel (only_owner ow) (get_record ow k)" "tx_rel (only_owner ow) (list_records ow)"
  "tx_rel (only_owner ow) (get_operation ow c)" "tx_rel (only_owner ow) (pull_operations ow c n)"
  "tx_rel (only_owner ow) (get_receipt ow i)" "tx_rel (only_owner ow) (get_resolution_receipt ow i)"
  "tx_rel (only_owner ow) (get_archive_head ow b)"
  by (simp_all add: read_defs frame.read)

lemmas methods_only = append_operation_only insert_receipt_only insert_resolution_receipt_only
  archive_change_only upsert_record_only upsert_archive_head_only insert_realtime_event_only
  current_cursor_only get_lineage_only next_cursor_only write_lineage_only increment_lineage_only
  clear_current_baseline_only reads_only

section \<open>The transaction wrapper\<close>

lemma ensure_owner_only: "tx_rel (only_owner ow) (ensure_owner ow now)"
  by (rule tx_relI) (auto simp: ensure_owner_def exec_sql_Inr only_owner_def db_ok_def
      owner_exists_def insert_ignore_row_def intro!: owner_state_eqI)

lemma ensure_head_only: "tx_rel (only_owner ow) (ensure_head ow)"
proof -
  have look: "p \<noteq> ow \<Longrightarrow> row_lookup hd_owner (insert_ignore_row hd_owner (fresh_head ow) rs) p =
      row_lookup hd_owner rs p" for p rs
    by (auto simp: insert_ignore_row_def row_lookup_append fresh_head_def split: option.splits)
  have "only_owner ow s (s\<lparr>db_heads := insert_ignore_row hd_owner (fresh_head ow) (db_heads s)\<rparr>)" for s
    by (auto simp: only_owner_def look db_ok_def distinct_insert_ignore owner_exists_def
        intro!: owner_state_eqI)
  then show ?thesis
    unfolding ensure_head_def by (intro frame.bind owned_only exec_sql_only) auto
qed

lemma lock_owner_only: "tx_rel (only_owner ow) (lock_owner ow)"
  unfolding lock_owner_def by (rule frame.read)

lemma owner_transaction_only:
  "tx_rel (only_owner ow) fn \<Longrightarrow> tx_rel (only_owner ow) (owner_transaction ow now fn)"
  unfolding owner_transaction_def
  by (intro frame.bind ensure_owner_only lock_owner_only ensure_head_only)

text \<open>The state in which the body of a transaction starts: the owner and its head exist.\<close>

definition start_head :: "string \<Rightarrow> owner_state \<Rightarrow> owner_state" where
  "start_head ow A = A\<lparr>a_owned := True,
     a_head := Some (case a_head A of None \<Rightarrow> fresh_head ow | Some h \<Rightarrow> h)\<rparr>"

definition started :: "string \<Rightarrow> u64 \<Rightarrow> db \<Rightarrow> db" where
  "started ow now s =
     s\<lparr>db_owners := insert_ignore_row fst (ow, now) (db_owners s),
       db_heads := insert_ignore_row hd_owner (fresh_head ow) (db_heads s)\<rparr>"

lemma started_abs: "abs_owner ow (started ow now s) = start_head ow (abs_owner ow s)"
proof -
  have h: "row_lookup hd_owner (insert_ignore_row hd_owner (fresh_head ow) (db_heads s)) ow =
      Some (case row_lookup hd_owner (db_heads s) ow of None \<Rightarrow> fresh_head ow | Some h \<Rightarrow> h)"
  proof (cases "row_lookup hd_owner (db_heads s) ow")
    case None
    then have "\<forall>r \<in> set (db_heads s). hd_owner r \<noteq> ow" by (simp add: row_lookup_None)
    with None show ?thesis
      by (simp add: insert_ignore_row_def row_lookup_append fresh_head_def)
  next
    case (Some h)
    then have "\<exists>r \<in> set (db_heads s). hd_owner r = hd_owner (fresh_head ow)"
      by (auto simp: fresh_head_def dest: row_lookup_Some)
    then have "insert_ignore_row hd_owner (fresh_head ow) (db_heads s) = db_heads s"
      unfolding insert_ignore_row_def by (rule if_P)
    with Some show ?thesis by simp
  qed
  have "\<exists>r \<in> set (insert_ignore_row fst (ow, now) (db_owners s)). fst r = ow"
    by (auto simp: insert_ignore_row_def)
  then show ?thesis
    by (intro owner_state_eqI) (simp_all add: started_def start_head_def h owner_exists_def)
qed

lemma owner_transaction_run: "owner_transaction ow now fn s = fn (started ow now s)"
proof -
  have ex: "\<exists>r \<in> set (insert_ignore_row fst (ow, now) (db_owners s)). fst r = ow"
    by (auto simp: insert_ignore_row_def)
  then obtain r rest where
    "filter (\<lambda>r. fst r = ow) (insert_ignore_row fst (ow, now) (db_owners s)) = r # rest"
    by (cases "filter (\<lambda>r. fst r = ow) (insert_ignore_row fst (ow, now) (db_owners s))")
      (auto simp: filter_empty_conv)
  with ex show ?thesis
    by (simp add: owner_transaction_def tx_bind_def ensure_owner_def exec_sql_def sql_def
        lock_owner_def tx_read_def query_row_def ensure_head_def owned_def owner_exists_def
        started_def)
qed

lemma started_only: "only_owner ow s (started ow now s)"
  using owner_transaction_only [OF frame.return, of ow now "()"]
  by (rule tx_relD) (simp add: owner_transaction_run)

text \<open>A started owner is not changed by starting again.\<close>

lemma started_again:
  assumes "owner_exists ow s" and "a_head (abs_owner ow s) \<noteq> None"
  shows "started ow now s = s"
proof -
  have "\<exists>r \<in> set (db_heads s). hd_owner r = ow"
    using assms(2) row_lookup_None [of hd_owner "db_heads s" ow] by auto
  with assms(1) show ?thesis
    by (simp add: started_def insert_ignore_row_def owner_exists_def fresh_head_def)
qed

lemma with_owner_transaction_cases:
  assumes "with_owner_transaction env ow fn s = (r, s')"
  shows "s' = s \<or> (\<exists>a. fn (started ow (env_now env) s) = Inr (a, s'))"
  using assms
  by (auto simp: with_owner_transaction_def owner_transaction_run
      split: option.splits sum.splits commit_outcome.splits)

lemma with_owner_transaction_Inr:
  "with_owner_transaction env ow fn s = (Inr a, s') \<longleftrightarrow>
     env_begin_error env = None \<and> env_commit env = Committed
     \<and> fn (started ow (env_now env) s) = Inr (a, s')"
  by (auto simp: with_owner_transaction_def owner_transaction_run
      split: option.splits sum.splits commit_outcome.splits)

lemma with_owner_transaction_error:
  "fn (started ow (env_now env) s) = Inl e \<Longrightarrow>
     snd (with_owner_transaction env ow fn s) = s"
  by (auto simp: with_owner_transaction_def owner_transaction_run split: option.splits)

end
