(* ===== verification/Service.thy ===== *)
theory Service
  imports StoreSpec Validation
begin

text \<open>
  The synchronisation service (\<open>internal/sync/service.go\<close>), written over the store's methods:
  \<open>ensure_lineage\<close>, \<open>apply_mutations\<close>, \<open>finalize_mutation_batch\<close> and the four operations
  \<open>exchange\<close>, \<open>diff\<close>, \<open>read_feed_page\<close> and \<open>resolve_baseline\<close>. Each operation validates its
  request, then runs one owner transaction. The fields of \<open>service\<close> are what the Go \<open>Service\<close> is
  configured with: the clock's reading in milliseconds, the result of the baseline id generator
  at each of its two call sites, the JSON decoder, and the protobuf runtime's deterministic
  encoding of a \<open>DiffResponse\<close>.
\<close>

section \<open>Types\<close>

record command_metadata =
  md_owner_key :: string
  md_origin_connection_id :: string

record exchange_result =
  er_response :: sync_response
  er_state_changed :: bool
  er_device_id :: string
  er_baseline_id :: string
  er_server_cursor :: u64
  er_server_version :: u64

record diff_result =
  df_response :: diff_response
  df_state_changed :: bool
  df_device_id :: string
  df_baseline_id :: string
  df_server_cursor :: u64
  df_server_version :: u64

record feed_page =
  fp_changes :: "change list"
  fp_next_cursor :: u64
  fp_has_more :: bool
  fp_baseline_id :: string
  fp_head_cursor :: u64
  fp_server_version :: u64
  fp_server_updated_at_ms :: u64
  fp_server_progress_day :: string
  fp_baseline_mismatch :: bool
  fp_reset_required :: bool

record resolve_result =
  rl_response :: resolve_response
  rl_state_changed :: bool
  rl_device_id :: string
  rl_baseline_id :: string
  rl_server_cursor :: u64
  rl_server_version :: u64

record service =
  sv_now :: u64
  sv_lineage_baseline_id :: "err + string"
  sv_fork_baseline_id :: "err + string"
  sv_json :: go_json
  sv_marshal_diff :: "diff_response \<Rightarrow> err + string"

definition max_future_skew_ms :: u64 where "max_future_skew_ms = 300000"
definition max_diff_response_bytes :: nat where "max_diff_response_bytes = 512 * 1024"

section \<open>Helpers\<close>

definition mutation_change :: "mutation option \<Rightarrow> u64 \<Rightarrow> u64 \<Rightarrow> change" where
  "mutation_change m cursor client_time_ms =
     \<lparr>c_cursor = cursor, c_entity_key = Mutation_GetEntityKey m, c_value_json = Mutation_GetValueJson m,
      c_deleted = Mutation_GetDeleted m, c_device_id = Mutation_GetDeviceId m,
      c_client_time_ms = client_time_ms, c_op_id = Mutation_GetOpId m\<rparr>"

text \<open>The sum wraps around, as \<open>uint64\<close> does.\<close>

definition clamp_client_time :: "u64 \<Rightarrow> u64 \<Rightarrow> u64" where
  "clamp_client_time value now =
     (if value < 1 then 1
      else if value > now + max_future_skew_ms then now + max_future_skew_ms
      else value)"

definition receipt_ack :: "receipt \<Rightarrow> mutation_ack" where
  "receipt_ack rc = \<lparr>ack_op_id = rc_op_id rc, ack_server_cursor = rc_server_cursor rc,
     ack_conflict = rc_conflict rc, ack_applied = rc_applied rc\<rparr>"

text \<open>
  \<open>fmt.Sprintf("%d:%s", cursor, entityKey)\<close>: the decimal cursor has no colon, so the string
  determines both parts; it is modelled as the pair.
\<close>

definition change_identity :: "change \<Rightarrow> u64 \<times> string" where
  "change_identity ch = (c_cursor ch, c_entity_key ch)"

definition same_resolution_request :: "resolution_receipt \<Rightarrow> resolve_request \<Rightarrow> bool" where
  "same_resolution_request rs r \<longleftrightarrow>
     rs_local_baseline_id rs = rr_local_baseline_id r
     \<and> rs_expected_server_baseline_id rs = rr_expected_server_baseline_id r
     \<and> rs_expected_server_version rs = rr_expected_server_version r
     \<and> rs_choice rs = rr_choice r"

definition new_resolution_receipt :: "resolve_request \<Rightarrow> lineage \<Rightarrow> u64 \<Rightarrow> resolution_receipt" where
  "new_resolution_receipt r l cursor =
     \<lparr>rs_request_id = rr_request_id r, rs_local_baseline_id = rr_local_baseline_id r,
      rs_expected_server_baseline_id = rr_expected_server_baseline_id r,
      rs_expected_server_version = rr_expected_server_version r, rs_choice = rr_choice r,
      rs_result_baseline_id = ln_baseline_id l, rs_result_cursor = cursor,
      rs_result_version = ln_version l, rs_result_updated_at_ms = ln_updated_at_ms l\<rparr>"

definition resolve_result_of ::
  "string \<Rightarrow> lineage \<Rightarrow> u64 \<Rightarrow> change list \<Rightarrow> bool \<Rightarrow> bool \<Rightarrow> resolve_result" where
  "resolve_result_of device l cursor records stale state_changed =
     \<lparr>rl_response = \<lparr>rp_baseline_id = ln_baseline_id l, rp_server_version = ln_version l,
        rp_server_updated_at_ms = ln_updated_at_ms l, rp_server_progress_day = ln_progress_day l,
        rp_records = records, rp_stale = stale, rp_server_cursor = cursor\<rparr>,
      rl_state_changed = state_changed, rl_device_id = device, rl_baseline_id = ln_baseline_id l,
      rl_server_cursor = cursor, rl_server_version = ln_version l\<rparr>"

definition random_baseline_id :: "err + 8 word list \<Rightarrow> err + string" where
  "random_baseline_id random =
     (case random of Inl e \<Rightarrow> Inl e | Inr bytes \<Rightarrow> Inr (''baseline_'' @ hex_encode bytes))"

definition normalized_feed_limit :: "int \<Rightarrow> int" where
  "normalized_feed_limit value =
     (if value = 0 then int (unat default_pull_limit)
      else if value > int (unat max_pull_limit) then int (unat max_pull_limit)
      else value)"

definition validate_diff_response_size :: "service \<Rightarrow> diff_response \<Rightarrow> check" where
  "validate_diff_response_size sv response =
     (case sv_marshal_diff sv response of
        Inl e \<Rightarrow> Inl e
      | Inr encoded \<Rightarrow>
          if length encoded > max_diff_response_bytes then Inl ErrResponseTooLarge else Inr ())"

section \<open>Lineage\<close>

definition ensure_lineage :: "service \<Rightarrow> string \<Rightarrow> string \<Rightarrow> lineage dbtx" where
  "ensure_lineage sv ow requested =
     tx_bind (tx_found (get_lineage ow)) (\<lambda>found.
     case found of
       Some l \<Rightarrow> tx_return l
     | None \<Rightarrow>
         tx_bind (current_cursor ow) (\<lambda>cursor.
         tx_bind
           (if cursor > 0 then
              tx_bind (tx_lift (sv_lineage_baseline_id sv)) (\<lambda>b.
              tx_bind (list_records ow) (\<lambda>records.
              tx_bind (tx_lift (derive_progress_day (sv_json sv) (map Some records))) (\<lambda>day.
              tx_return \<lparr>ln_baseline_id = b, ln_version = 0, ln_updated_at_ms = sv_now sv,
                         ln_progress_day = day\<rparr>)))
            else
              tx_return \<lparr>ln_baseline_id = requested, ln_version = 0, ln_updated_at_ms = 0,
                         ln_progress_day = campaign_start\<rparr>)
           (\<lambda>l. tx_bind (insert_lineage ow l) (\<lambda>_. tx_return l))))"

section \<open>Applying a batch of mutations\<close>

record mutation_batch =
  mb_acks :: "mutation_ack list"
  mb_canonical :: "change list"
  mb_forced :: "change list"
  mb_archive :: "change list"
  mb_applied :: nat

definition empty_batch :: mutation_batch where
  "empty_batch = \<lparr>mb_acks = [], mb_canonical = [], mb_forced = [], mb_archive = [], mb_applied = 0\<rparr>"

text \<open>The receipt of a decided mutation and its two entries in the answer.\<close>

definition settle ::
  "string \<Rightarrow> mutation_batch \<Rightarrow> receipt \<Rightarrow> change \<Rightarrow> mutation_batch dbtx" where
  "settle ow b rc canonical =
     tx_bind (insert_receipt ow rc) (\<lambda>_.
     tx_return (b\<lparr>mb_acks := mb_acks b @ [receipt_ack rc],
                  mb_canonical := mb_canonical b @ [canonical]\<rparr>))"

text \<open>One iteration of the loop of \<open>applyMutations\<close>.\<close>

definition apply_mutation ::
  "string \<Rightarrow> string \<Rightarrow> u64 \<Rightarrow> mutation_batch \<Rightarrow> mutation option \<Rightarrow> mutation_batch dbtx" where
  "apply_mutation ow device now b m =
     tx_bind (tx_lift (validate_mutation m device)) (\<lambda>_.
     tx_bind (tx_found (get_receipt ow (Mutation_GetOpId m))) (\<lambda>receipt.
     case receipt of
       Some rc \<Rightarrow>
         tx_bind (get_operation ow (rc_server_cursor rc)) (\<lambda>canonical.
         tx_return (b\<lparr>mb_acks := mb_acks b @ [receipt_ack rc],
                      mb_canonical := mb_canonical b @ [canonical]\<rparr>))
     | None \<Rightarrow>
         tx_bind (tx_found (get_record ow (Mutation_GetEntityKey m))) (\<lambda>existing.
         let conflict = (case existing of None \<Rightarrow> False
                         | Some e \<Rightarrow> c_cursor e > Mutation_GetBaseVersion m);
             applied = (case existing of None \<Rightarrow> True
                        | Some e \<Rightarrow> c_cursor e \<le> Mutation_GetBaseVersion m)
         in if applied then
              tx_bind (next_cursor ow) (\<lambda>cursor.
              let canonical = mutation_change m cursor
                                (clamp_client_time (Mutation_GetClientTimeMs m) now)
              in tx_bind (append_operation ow canonical) (\<lambda>_.
                 tx_bind (upsert_record ow canonical) (\<lambda>_.
                 settle ow (b\<lparr>mb_archive := mb_archive b @ [canonical],
                              mb_applied := mb_applied b + 1\<rparr>)
                   \<lparr>rc_op_id = Mutation_GetOpId m, rc_server_cursor = cursor,
                    rc_conflict = conflict, rc_applied = applied\<rparr> canonical)))
            else
              (case existing of
                 None \<Rightarrow> tx_fail (ErrExternal ''unreachable'')
               | Some e \<Rightarrow>
                   settle ow (b\<lparr>mb_forced := mb_forced b @ [e]\<rparr>)
                     \<lparr>rc_op_id = Mutation_GetOpId m, rc_server_cursor = c_cursor e,
                      rc_conflict = conflict, rc_applied = applied\<rparr> e))))"

fun apply_mutations_from ::
  "string \<Rightarrow> string \<Rightarrow> u64 \<Rightarrow> mutation_batch \<Rightarrow> mutation option list \<Rightarrow> mutation_batch dbtx" where
  "apply_mutations_from ow device now b [] = tx_return b"
| "apply_mutations_from ow device now b (m # ms) =
     tx_bind (apply_mutation ow device now b m) (\<lambda>b'. apply_mutations_from ow device now b' ms)"

definition apply_mutations ::
  "string \<Rightarrow> string \<Rightarrow> mutation option list \<Rightarrow> u64 \<Rightarrow> mutation_batch dbtx" where
  "apply_mutations ow device ms now = apply_mutations_from ow device now empty_batch ms"

definition sync_hint :: "command_metadata \<Rightarrow> lineage \<Rightarrow> u64 \<Rightarrow> u64 \<Rightarrow> realtime_event" where
  "sync_hint md l cursor now =
     \<lparr>ev_type = ''sync_hint'', ev_baseline_id = ln_baseline_id l, ev_server_cursor = cursor,
      ev_server_version = ln_version l, ev_origin_connection_id = md_origin_connection_id md,
      ev_created_at_ms = now\<rparr>"

definition finalize_mutation_batch ::
  "service \<Rightarrow> command_metadata \<Rightarrow> string \<Rightarrow> lineage \<Rightarrow> mutation_batch \<Rightarrow> (lineage \<times> u64) dbtx" where
  "finalize_mutation_batch sv md ow l b =
     tx_bind
       (if mb_applied b > 0 then
          tx_bind (list_records ow) (\<lambda>records.
          tx_bind (tx_lift (derive_progress_day (sv_json sv) (map Some records))) (\<lambda>day.
          increment_lineage ow (sv_now sv) day))
        else tx_return l)
       (\<lambda>l'.
        tx_bind (current_cursor ow) (\<lambda>head.
        if mb_applied b = 0 then tx_return (l', head)
        else
          tx_bind (tx_foreach (archive_change ow (ln_baseline_id l') (ln_version l') (sv_now sv))
                     (mb_archive b)) (\<lambda>_.
          tx_bind (upsert_archive_head ow (ln_baseline_id l') head (ln_version l') (sv_now sv)) (\<lambda>_.
          tx_bind (insert_realtime_event ow (sync_hint md l' head (sv_now sv))) (\<lambda>_.
          tx_return (l', head))))))"

section \<open>Exchange\<close>

text \<open>The page as it is answered: the pulled rows, then the forced changes that the page lacks.\<close>

definition merge_changes :: "change list \<Rightarrow> change list \<Rightarrow> change list" where
  "merge_changes page forced =
     (let seen = change_identity ` set page
      in sort_key c_cursor (page @ filter (\<lambda>ch. change_identity ch \<notin> seen) forced))"

text \<open>The two results that the transaction of \<open>Exchange\<close> can build.\<close>

definition exchange_mismatch :: "sync_request \<Rightarrow> lineage \<Rightarrow> u64 \<Rightarrow> exchange_result" where
  "exchange_mismatch r l head =
     \<lparr>er_response =
        \<lparr>sp_next_cursor = sr_cursor r, sp_acks = [], sp_changes = [], sp_has_more = False,
         sp_reset_required = False, sp_baseline_id = ln_baseline_id l,
         sp_server_version = ln_version l, sp_server_updated_at_ms = ln_updated_at_ms l,
         sp_server_progress_day = ln_progress_day l, sp_baseline_mismatch = True\<rparr>,
      er_state_changed = False, er_device_id = sr_device_id r,
      er_baseline_id = ln_baseline_id l, er_server_cursor = head,
      er_server_version = ln_version l\<rparr>"

definition exchange_answer ::
  "sync_request \<Rightarrow> mutation_batch \<Rightarrow> lineage \<Rightarrow> u64 \<Rightarrow> change list \<Rightarrow> exchange_result" where
  "exchange_answer r b l head rows =
     (let limit = normalized_pull_limit (sr_pull_limit r);
          has_more = length rows > limit;
          page = (if has_more then take limit rows else rows);
          next = (if page \<noteq> [] then c_cursor (last page) else sr_cursor r)
      in \<lparr>er_response =
            \<lparr>sp_next_cursor = next, sp_acks = mb_acks b,
             sp_changes = merge_changes page (mb_forced b), sp_has_more = has_more,
             sp_reset_required = sr_cursor r > head, sp_baseline_id = ln_baseline_id l,
             sp_server_version = ln_version l, sp_server_updated_at_ms = ln_updated_at_ms l,
             sp_server_progress_day = ln_progress_day l, sp_baseline_mismatch = False\<rparr>,
          er_state_changed = mb_applied b > 0, er_device_id = sr_device_id r,
          er_baseline_id = ln_baseline_id l, er_server_cursor = head,
          er_server_version = ln_version l\<rparr>)"

definition exchange_tx ::
  "service \<Rightarrow> command_metadata \<Rightarrow> sync_request \<Rightarrow> exchange_result dbtx" where
  "exchange_tx sv md r =
     (let ow = md_owner_key md in
      tx_bind (ensure_lineage sv ow (sr_baseline_id r)) (\<lambda>l.
      tx_bind (current_cursor ow) (\<lambda>head0.
      if ln_baseline_id l \<noteq> sr_baseline_id r then tx_return (exchange_mismatch r l head0)
      else
        tx_bind (apply_mutations ow (sr_device_id r) (sr_mutations r) (sv_now sv)) (\<lambda>b.
        tx_bind (finalize_mutation_batch sv md ow l b) (\<lambda>(l', head).
        tx_bind (pull_operations ow (sr_cursor r) (normalized_pull_limit (sr_pull_limit r) + 1)) (\<lambda>rows.
        tx_return (exchange_answer r b l' head rows)))))))"

text \<open>
  The Go method also returns the result it computed when the commit fails; every caller looks at
  the error first, so the model returns the error alone.
\<close>

definition exchange ::
  "tx_env \<Rightarrow> service \<Rightarrow> command_metadata \<Rightarrow> sync_request option \<Rightarrow> db \<Rightarrow> (err + exchange_result) \<times> db" where
  "exchange env sv md request s =
     (case validate_exchange_request (md_owner_key md) request of
        Inl e \<Rightarrow> (Inl e, s)
      | Inr _ \<Rightarrow>
          (case request of
             None \<Rightarrow> (Inl (ErrExternal ''unreachable''), s)
           | Some r \<Rightarrow> with_owner_transaction env (md_owner_key md) (exchange_tx sv md r) s))"

section \<open>Diff\<close>

definition diff_mismatch :: "lineage \<Rightarrow> u64 \<Rightarrow> diff_response" where
  "diff_mismatch l head =
     \<lparr>dp_acks = [], dp_canonical_changes = [], dp_baseline_id = ln_baseline_id l,
      dp_server_cursor = head, dp_server_version = ln_version l,
      dp_server_updated_at_ms = ln_updated_at_ms l,
      dp_server_progress_day = ln_progress_day l, dp_baseline_mismatch = True\<rparr>"

definition diff_answer :: "mutation_batch \<Rightarrow> lineage \<Rightarrow> u64 \<Rightarrow> diff_response" where
  "diff_answer b l head =
     \<lparr>dp_acks = mb_acks b, dp_canonical_changes = mb_canonical b,
      dp_baseline_id = ln_baseline_id l, dp_server_cursor = head,
      dp_server_version = ln_version l, dp_server_updated_at_ms = ln_updated_at_ms l,
      dp_server_progress_day = ln_progress_day l, dp_baseline_mismatch = False\<rparr>"

definition diff_result_of :: "diff_request \<Rightarrow> diff_response \<Rightarrow> bool \<Rightarrow> lineage \<Rightarrow> u64 \<Rightarrow> diff_result" where
  "diff_result_of r response state_changed l head =
     \<lparr>df_response = response, df_state_changed = state_changed, df_device_id = dr_device_id r,
      df_baseline_id = ln_baseline_id l, df_server_cursor = head, df_server_version = ln_version l\<rparr>"

definition diff_tx ::
  "service \<Rightarrow> command_metadata \<Rightarrow> diff_request \<Rightarrow> diff_result dbtx" where
  "diff_tx sv md r =
     (let ow = md_owner_key md in
      tx_bind (ensure_lineage sv ow (dr_baseline_id r)) (\<lambda>l.
      tx_bind (current_cursor ow) (\<lambda>head0.
      if ln_baseline_id l \<noteq> dr_baseline_id r then
        let response = diff_mismatch l head0
        in tx_bind (tx_lift (validate_diff_response_size sv response)) (\<lambda>_.
           tx_return (diff_result_of r response False l head0))
      else
        tx_bind (apply_mutations ow (dr_device_id r) (dr_mutations r) (sv_now sv)) (\<lambda>b.
        tx_bind (finalize_mutation_batch sv md ow l b) (\<lambda>(l', head).
        let response = diff_answer b l' head
        in tx_bind (tx_lift (validate_diff_response_size sv response)) (\<lambda>_.
           tx_return (diff_result_of r response (mb_applied b > 0) l' head)))))))"

definition diff ::
  "tx_env \<Rightarrow> service \<Rightarrow> command_metadata \<Rightarrow> diff_request option \<Rightarrow> db \<Rightarrow> (err + diff_result) \<times> db" where
  "diff env sv md request s =
     (case validate_diff_request (md_owner_key md) request of
        Inl e \<Rightarrow> (Inl e, s)
      | Inr _ \<Rightarrow>
          (case request of
             None \<Rightarrow> (Inl (ErrExternal ''unreachable''), s)
           | Some r \<Rightarrow> with_owner_transaction env (md_owner_key md) (diff_tx sv md r) s))"

section \<open>Feed\<close>

definition read_feed_page ::
  "tx_env \<Rightarrow> string \<Rightarrow> string \<Rightarrow> u64 \<Rightarrow> int \<Rightarrow> db \<Rightarrow> err + feed_page" where
  "read_feed_page env ow baseline_id cursor limit s =
     (case and_then (validate_owner_key ow)
          (and_then (validate_baseline_id baseline_id ''baseline_id'')
          (and_then (validate_safe [cursor])
          (check_that (\<not> limit < 0) ''invalid feed limit''))) of
        Inl e \<Rightarrow> Inl e
      | Inr _ \<Rightarrow>
          (let feed_limit = nat (normalized_feed_limit limit) in
           case read_feed_snapshot env ow cursor (feed_limit + 1) s of
             Inl e \<Rightarrow>
               if e = ErrNotFound then
                 Inr \<lparr>fp_changes = [], fp_next_cursor = cursor, fp_has_more = False,
                   fp_baseline_id = baseline_id, fp_head_cursor = 0, fp_server_version = 0,
                   fp_server_updated_at_ms = 0, fp_server_progress_day = campaign_start,
                   fp_baseline_mismatch = False, fp_reset_required = cursor > 0\<rparr>
               else Inl e
           | Inr snapshot \<Rightarrow>
               let l = fs_lineage snapshot;
                   page = \<lparr>fp_changes = [], fp_next_cursor = cursor, fp_has_more = False,
                     fp_baseline_id = ln_baseline_id l, fp_head_cursor = fs_head_cursor snapshot,
                     fp_server_version = ln_version l, fp_server_updated_at_ms = ln_updated_at_ms l,
                     fp_server_progress_day = ln_progress_day l,
                     fp_baseline_mismatch = ln_baseline_id l \<noteq> baseline_id,
                     fp_reset_required = cursor > fs_head_cursor snapshot\<rparr>
               in if fp_baseline_mismatch page \<or> fp_reset_required page then Inr page
                  else
                    let has_more = length (fs_changes snapshot) > feed_limit;
                        changes = (if has_more then take feed_limit (fs_changes snapshot)
                                   else fs_changes snapshot)
                    in Inr (page\<lparr>fp_has_more := has_more, fp_changes := changes,
                              fp_next_cursor := (if changes \<noteq> [] then c_cursor (last changes)
                                                 else cursor)\<rparr>)))"

section \<open>Baseline resolution\<close>

text \<open>The loop that writes the snapshot, and the changes it leaves for the archive.\<close>

fun write_snapshot :: "string \<Rightarrow> u64 \<Rightarrow> mutation option list \<Rightarrow> change list dbtx" where
  "write_snapshot ow now [] = tx_return []"
| "write_snapshot ow now (m # ms) =
     tx_bind (next_cursor ow) (\<lambda>cursor.
     let ch = mutation_change m cursor now in
     tx_bind (append_operation ow ch) (\<lambda>_.
     tx_bind (upsert_record ow ch) (\<lambda>_.
     tx_bind (write_snapshot ow now ms) (\<lambda>rest.
     tx_return (ch # rest)))))"

text \<open>
  \<open>sort.Slice\<close> is not stable, but the keys of a validated snapshot are distinct, so there is one
  sorted order.
\<close>

definition sort_snapshot :: "mutation option list \<Rightarrow> mutation option list" where
  "sort_snapshot ms = sort_key Mutation_GetEntityKey ms"

text \<open>The branch \<open>BASELINE_CHOICE_USE_LOCAL\<close>.\<close>

definition use_local ::
  "service \<Rightarrow> command_metadata \<Rightarrow> string \<Rightarrow> resolve_request \<Rightarrow> resolve_result dbtx" where
  "use_local sv md ow r =
     tx_bind (tx_lift (validate_local_snapshot r)) (\<lambda>_.
     tx_bind (tx_found (get_archive_head ow (rr_local_baseline_id r))) (\<lambda>used.
     tx_bind (case used of
                Some _ \<Rightarrow> tx_lift (sv_fork_baseline_id sv)
              | None \<Rightarrow> tx_return (rr_local_baseline_id r)) (\<lambda>result_baseline.
     tx_bind (clear_current_baseline ow) (\<lambda>_.
     let snapshot = sort_snapshot (rr_local_snapshot r) in
     tx_bind (write_snapshot ow (sv_now sv) snapshot) (\<lambda>archive_changes.
     tx_bind (current_cursor ow) (\<lambda>head.
     tx_bind (list_records ow) (\<lambda>records.
     tx_bind (tx_lift (derive_progress_day (sv_json sv) (map Some records))) (\<lambda>day.
     let l = \<lparr>ln_baseline_id = result_baseline,
              ln_version = (if length snapshot > 0 then 1 else 0),
              ln_updated_at_ms = sv_now sv, ln_progress_day = day\<rparr> in
     tx_bind (set_lineage ow l) (\<lambda>_.
     tx_bind (insert_resolution_receipt ow (new_resolution_receipt r l head)) (\<lambda>_.
     tx_bind (tx_foreach (archive_change ow (ln_baseline_id l) (ln_version l) (sv_now sv))
                archive_changes) (\<lambda>_.
     tx_bind (upsert_archive_head ow (ln_baseline_id l) head (ln_version l) (sv_now sv)) (\<lambda>_.
     tx_bind (insert_realtime_event ow (sync_hint md l head (sv_now sv))) (\<lambda>_.
     tx_return (resolve_result_of (rr_device_id r) l head records False True))))))))))))))"

definition resolve_tx ::
  "service \<Rightarrow> command_metadata \<Rightarrow> resolve_request \<Rightarrow> resolve_result dbtx" where
  "resolve_tx sv md r =
     (let ow = md_owner_key md in
      tx_bind (ensure_lineage sv ow (rr_local_baseline_id r)) (\<lambda>l.
      tx_bind (current_cursor ow) (\<lambda>head.
      tx_bind (tx_found (get_resolution_receipt ow (rr_request_id r))) (\<lambda>receipt.
      case receipt of
        Some rs \<Rightarrow>
          if \<not> same_resolution_request rs r then
            tx_fail (failed_precondition ''resolution request_id was reused with different data'')
          else
            let current = (ln_baseline_id l = rs_result_baseline_id rs
                           \<and> ln_version l = rs_result_version rs) in
            tx_bind (if current then list_records ow else tx_return []) (\<lambda>records.
            tx_return (resolve_result_of (rr_device_id r) l head records (\<not> current) False))
      | None \<Rightarrow>
          if ln_baseline_id l \<noteq> rr_expected_server_baseline_id r
             \<or> ln_version l \<noteq> rr_expected_server_version r then
            tx_return (resolve_result_of (rr_device_id r) l head [] True False)
          else if rr_choice r = CHOICE_USE_LOCAL then use_local sv md ow r
          else
            tx_bind (insert_resolution_receipt ow (new_resolution_receipt r l head)) (\<lambda>_.
            tx_bind (list_records ow) (\<lambda>records.
            tx_return (resolve_result_of (rr_device_id r) l head records False False)))))))"

definition resolve_baseline ::
  "tx_env \<Rightarrow> service \<Rightarrow> command_metadata \<Rightarrow> resolve_request option \<Rightarrow> db \<Rightarrow> (err + resolve_result) \<times> db" where
  "resolve_baseline env sv md request s =
     (case validate_resolve_envelope (md_owner_key md) request of
        Inl e \<Rightarrow> (Inl e, s)
      | Inr _ \<Rightarrow>
          (case request of
             None \<Rightarrow> (Inl (ErrExternal ''unreachable''), s)
           | Some r \<Rightarrow> with_owner_transaction env (md_owner_key md) (resolve_tx sv md r) s))"

end
