(* ===== verification/ServiceSpec.thy ===== *)
theory ServiceSpec
  imports Service
begin

text \<open>
  What the service promises about one owner, in terms of the owner's state \<open>abs_owner\<close>: the step
  relation \<open>decides\<close> is the specification of one mutation (replayed, accepted or superseded),
  \<open>decide_all\<close> of a batch; the code's loop refines them. Also here: every operation leaves the
  other owners alone, and the archive and the outbox only grow.
\<close>

declare abs_sel [simp del]

section \<open>Append-only tables\<close>

text \<open>Rows that are appended to the outbox get new ids, in order, and are not published yet.\<close>

definition new_events :: "nat \<Rightarrow> nat \<Rightarrow> outbox_row list \<Rightarrow> bool" where
  "new_events n n' rows \<longleftrightarrow> n \<le> n' \<and> sorted_wrt (<) (map ob_id rows)
     \<and> (\<forall>r \<in> set rows. n \<le> ob_id r \<and> ob_id r < n' \<and> ob_published_at_ms r = None \<and> ob_publish_attempts r = 0)"

definition logs_grow :: "db \<Rightarrow> db \<Rightarrow> bool" where
  "logs_grow s s' \<longleftrightarrow> (\<exists>xs. db_archive s' = db_archive s @ xs)
     \<and> (\<exists>ys. db_outbox s' = db_outbox s @ ys \<and> new_events (db_next_event s) (db_next_event s') ys)"

lemma new_events_Nil [simp]: "new_events n n' [] \<longleftrightarrow> n \<le> n'"
  by (simp add: new_events_def)

lemma new_events_append: "new_events n n1 xs \<Longrightarrow> new_events n1 n2 ys \<Longrightarrow> new_events n n2 (xs @ ys)"
  by (fastforce simp: new_events_def sorted_wrt_append)

interpretation logs: tx_preorder logs_grow
proof
  show "logs_grow s s" for s by (simp add: logs_grow_def)
  fix s t u assume "logs_grow s t" and "logs_grow t u"
  then show "logs_grow s u" unfolding logs_grow_def by (metis append.assoc new_events_append)
qed

lemma exec_sql_logs:
  assumes "\<And>s t. f s = Inr t \<Longrightarrow> logs_grow s (put t s)"
  shows "tx_rel logs_grow (exec_sql f put)"
  by (rule tx_relI) (auto simp: exec_sql_Inr assms)

lemma owned_logs: "tx_rel logs_grow (owned ow)"
  by (rule tx_relI) (auto simp: owned_Inr logs.refl)

lemmas write_method_defs = next_cursor_def write_lineage_def insert_lineage_def set_lineage_def
  increment_lineage_def append_operation_def upsert_record_def insert_receipt_def
  insert_resolution_receipt_def clear_current_baseline_def archive_change_def
  upsert_archive_head_def insert_realtime_event_def

lemma get_lineage_logs: "tx_rel logs_grow (get_lineage ow)"
  by (simp add: get_lineage_def logs.read)

lemma current_cursor_logs: "tx_rel logs_grow (current_cursor ow)"
  by (simp add: current_cursor_def logs.read)

lemma reads_logs:
  "tx_rel logs_grow (get_record ow k)" "tx_rel logs_grow (list_records ow)"
  "tx_rel logs_grow (get_operation ow c)" "tx_rel logs_grow (pull_operations ow c n)"
  "tx_rel logs_grow (get_receipt ow i)" "tx_rel logs_grow (get_resolution_receipt ow i)"
  "tx_rel logs_grow (get_archive_head ow b)"
  by (simp_all add: read_defs logs.read)

lemma writes_logs:
  "tx_rel logs_grow (next_cursor ow)" "tx_rel logs_grow (write_lineage ow l)"
  "tx_rel logs_grow (insert_lineage ow l)" "tx_rel logs_grow (set_lineage ow l)"
  "tx_rel logs_grow (increment_lineage ow t d)" "tx_rel logs_grow (append_operation ow ch)"
  "tx_rel logs_grow (upsert_record ow ch)" "tx_rel logs_grow (insert_receipt ow rc)"
  "tx_rel logs_grow (insert_resolution_receipt ow rs)" "tx_rel logs_grow (clear_current_baseline ow)"
  "tx_rel logs_grow (archive_change ow b v t ch)" "tx_rel logs_grow (upsert_archive_head ow b c v t)"
  "tx_rel logs_grow (insert_realtime_event ow ev)"
  unfolding write_method_defs
  by (intro logs.bind owned_logs exec_sql_logs current_cursor_logs get_lineage_logs;
      auto simp: logs_grow_def insert_row_Inr new_events_def outbox_row_of_def)+

lemmas methods_logs = reads_logs writes_logs current_cursor_logs get_lineage_logs

section \<open>Every operation is framed\<close>

lemma insert_lineage_only: "tx_rel (only_owner ow) (insert_lineage ow l)"
  by (simp add: insert_lineage_def methods_only)

lemma set_lineage_only: "tx_rel (only_owner ow) (set_lineage ow l)"
  by (simp add: set_lineage_def methods_only)

text \<open>
  The programs of the service respect every preorder on states that the methods of the store
  respect for the owner they act on.
\<close>

locale owner_methods = tx_preorder R for R :: "db \<Rightarrow> db \<Rightarrow> bool" +
  fixes ow :: string
  assumes reads: "tx_rel R (get_lineage ow)" "tx_rel R (current_cursor ow)"
      "tx_rel R (get_record ow k)" "tx_rel R (list_records ow)" "tx_rel R (get_operation ow c)"
      "tx_rel R (pull_operations ow c n)" "tx_rel R (get_receipt ow i)"
      "tx_rel R (get_resolution_receipt ow i)" "tx_rel R (get_archive_head ow b)"
    and writes: "tx_rel R (next_cursor ow)" "tx_rel R (insert_lineage ow l)"
      "tx_rel R (set_lineage ow l)" "tx_rel R (increment_lineage ow t d)"
      "tx_rel R (append_operation ow ch)" "tx_rel R (upsert_record ow ch)"
      "tx_rel R (insert_receipt ow rc)" "tx_rel R (insert_resolution_receipt ow rs)"
      "tx_rel R (clear_current_baseline ow)" "tx_rel R (archive_change ow b v t ch)"
      "tx_rel R (upsert_archive_head ow b c v t)" "tx_rel R (insert_realtime_event ow ev)"
begin

lemmas steps = bind if_then case_opt let_in return fail lift found reads writes foreach

lemma ensure_lineage: "tx_rel R (ensure_lineage sv ow requested)"
  unfolding ensure_lineage_def by (intro steps)

lemma apply_mutation: "tx_rel R (apply_mutation ow device now b m)"
  unfolding apply_mutation_def settle_def by (intro steps)

lemma apply_mutations: "tx_rel R (apply_mutations ow device ms now)"
proof -
  have "tx_rel R (apply_mutations_from ow device now b ms)" for b
    by (induction ms arbitrary: b) (auto intro: return bind apply_mutation)
  then show ?thesis by (simp add: apply_mutations_def)
qed

lemma finalize_mutation_batch: "tx_rel R (finalize_mutation_batch sv md ow l b)"
  unfolding finalize_mutation_batch_def by (intro steps)

lemma write_snapshot: "tx_rel R (write_snapshot ow now ms)"
  by (induction ms) (auto simp: Let_def intro!: steps)

lemma use_local: "tx_rel R (use_local sv md ow r)"
  unfolding use_local_def by (intro steps write_snapshot)

end

lemma split_pair_rel: "(\<And>x y. tx_rel R (f x y)) \<Longrightarrow> tx_rel R (case p of (x, y) \<Rightarrow> f x y)"
  by (cases p) simp

context owner_methods
begin

lemma exchange_tx: "md_owner_key md = ow \<Longrightarrow> tx_rel R (exchange_tx sv md r)"
  unfolding exchange_tx_def Let_def
  by (simp, intro steps split_pair_rel ensure_lineage)
    (simp_all add: apply_mutations finalize_mutation_batch reads)

lemma diff_tx: "md_owner_key md = ow \<Longrightarrow> tx_rel R (diff_tx sv md r)"
  unfolding diff_tx_def Let_def
  by (simp, intro steps split_pair_rel ensure_lineage)
    (simp_all add: apply_mutations finalize_mutation_batch reads)

lemma resolve_tx: "md_owner_key md = ow \<Longrightarrow> tx_rel R (resolve_tx sv md r)"
  unfolding resolve_tx_def Let_def
  by (simp, intro steps ensure_lineage) (simp_all add: use_local reads writes)

end

interpretation framed: owner_methods "only_owner ow" ow for ow
  by unfold_locales (rule methods_only insert_lineage_only set_lineage_only)+

interpretation logged: owner_methods logs_grow ow for ow
  by unfold_locales (rule methods_logs)+

text \<open>The same for the three operations, whatever the outcome.\<close>

lemma started_logs: "logs_grow s (started ow now s)"
  by (simp add: started_def logs_grow_def)

lemma with_owner_transaction_rel:
  assumes "with_owner_transaction env ow fn s = (r, s')" and "tx_rel R fn"
    and "\<And>s. R s s" and "\<And>s t u. R s t \<Longrightarrow> R t u \<Longrightarrow> R s u" and "\<And>s. R s (started ow (env_now env) s)"
  shows "R s s'"
  using with_owner_transaction_cases [OF assms(1)] assms(2-5) by (metis tx_relD)

lemma validated_rel:
  assumes "(case v of Inl e \<Rightarrow> (Inl e, s) | Inr _ \<Rightarrow>
      (case request of None \<Rightarrow> (Inl e0, s)
       | Some r \<Rightarrow> with_owner_transaction env ow (fn r) s)) = (res, s')"
    and "\<And>r. tx_rel R (fn r)" and "\<And>s. R s s" and "\<And>s t u. R s t \<Longrightarrow> R t u \<Longrightarrow> R s u"
    and "\<And>s. R s (started ow (env_now env) s)"
  shows "R s s'"
  using assms(1) with_owner_transaction_rel [where R = R, OF _ assms(2-5)] assms(3)
  by (auto split: sum.splits option.splits)

lemma operations_only:
  "exchange env sv md xr s = (xres, s') \<Longrightarrow> only_owner (md_owner_key md) s s'"
  "diff env sv md dr s = (dres, s') \<Longrightarrow> only_owner (md_owner_key md) s s'"
  "resolve_baseline env sv md rr s = (rres, s') \<Longrightarrow> only_owner (md_owner_key md) s s'"
  unfolding exchange_def diff_def resolve_baseline_def
  by (erule validated_rel; (intro framed.exchange_tx framed.diff_tx framed.resolve_tx)?;
      auto intro: frame.refl frame.trans started_only)+

lemma operations_logs:
  "exchange env sv md xr s = (xres, s') \<Longrightarrow> logs_grow s s'"
  "diff env sv md dr s = (dres, s') \<Longrightarrow> logs_grow s s'"
  "resolve_baseline env sv md rr s = (rres, s') \<Longrightarrow> logs_grow s s'"
  unfolding exchange_def diff_def resolve_baseline_def
  by (erule validated_rel; (rule logged.exchange_tx logged.diff_tx logged.resolve_tx)?;
      auto intro: logs.refl logs.trans started_logs)+

section \<open>What one mutation does: the specification\<close>

datatype verdict = Replayed | Accepted | Superseded

record decision =
  d_verdict :: verdict
  d_receipt :: receipt
  d_change :: change

text \<open>The owner's state after a change is accepted under a receipt.\<close>

definition accept_change :: "owner_state \<Rightarrow> change \<Rightarrow> receipt \<Rightarrow> owner_state" where
  "accept_change A ch rc = A\<lparr>
     a_head := map_option (\<lambda>h. h\<lparr>hd_cursor := c_cursor ch\<rparr>) (a_head A),
     a_ops := (a_ops A)(c_cursor ch \<mapsto> ch),
     a_recs := (a_recs A)(pad_key (c_entity_key ch) \<mapsto>
       stored_record (a_recs A (pad_key (c_entity_key ch))) ch),
     a_receipts := (a_receipts A)(rc_op_id rc \<mapsto> rc)\<rparr>"

definition note_receipt :: "owner_state \<Rightarrow> receipt \<Rightarrow> owner_state" where
  "note_receipt A rc = A\<lparr>a_receipts := (a_receipts A)(rc_op_id rc \<mapsto> rc)\<rparr>"

text \<open>
  A mutation whose \<open>op_id\<close> has a receipt is answered from it. Otherwise it is accepted when the
  server has no record under its key, or none newer than the version the client had seen, and
  superseded by that record when there is a newer one.
\<close>

inductive decides :: "string \<Rightarrow> u64 \<Rightarrow> owner_state \<Rightarrow> mutation option \<Rightarrow> decision \<Rightarrow> owner_state \<Rightarrow> bool"
  for device now A m where
  replayed: "decides device now A m \<lparr>d_verdict = Replayed, d_receipt = rc, d_change = ch\<rparr> A"
  if "validate_mutation m device = Inr ()"
    and "a_receipts A (Mutation_GetOpId m) = Some rc" and "a_ops A (rc_server_cursor rc) = Some ch"
| accepted: "decides device now A m \<lparr>d_verdict = Accepted, d_receipt = rc, d_change = ch\<rparr>
    (accept_change A ch rc)"
  if "validate_mutation m device = Inr ()" and "a_receipts A (Mutation_GetOpId m) = None"
    and "\<And>e. a_recs A (pad_key (Mutation_GetEntityKey m)) = Some e \<Longrightarrow>
           c_cursor e \<le> Mutation_GetBaseVersion m"
    and "a_cursor A \<noteq> - 1"
    and "ch = mutation_change m (a_cursor A + 1) (clamp_client_time (Mutation_GetClientTimeMs m) now)"
    and "a_ops A (a_cursor A + 1) = None"
    and "\<And>c x. a_ops A c = Some x \<Longrightarrow> c_op_id x \<noteq> Mutation_GetOpId m"
    and "rc = \<lparr>rc_op_id = Mutation_GetOpId m, rc_server_cursor = a_cursor A + 1,
               rc_conflict = False, rc_applied = True\<rparr>"
| superseded: "decides device now A m \<lparr>d_verdict = Superseded, d_receipt = rc, d_change = e\<rparr>
    (note_receipt A rc)"
  if "validate_mutation m device = Inr ()" and "a_receipts A (Mutation_GetOpId m) = None"
    and "a_recs A (pad_key (Mutation_GetEntityKey m)) = Some e"
    and "c_cursor e > Mutation_GetBaseVersion m"
    and "rc = \<lparr>rc_op_id = Mutation_GetOpId m, rc_server_cursor = c_cursor e,
               rc_conflict = True, rc_applied = False\<rparr>"

inductive decide_all ::
  "string \<Rightarrow> u64 \<Rightarrow> owner_state \<Rightarrow> mutation option list \<Rightarrow> decision list \<Rightarrow> owner_state \<Rightarrow> bool"
  for device now where
  none: "decide_all device now A [] [] A"
| more: "decides device now A m d A1 \<Longrightarrow> decide_all device now A1 ms ds A2 \<Longrightarrow>
    decide_all device now A (m # ms) (d # ds) A2"

inductive_cases decide_all_NilE: "decide_all device now A [] ds A'"
inductive_cases decide_all_ConsE: "decide_all device now A (m # ms) ds A'"

text \<open>What a batch of decisions amounts to in the answer and in the archive.\<close>

definition note_decision :: "mutation_batch \<Rightarrow> decision \<Rightarrow> mutation_batch" where
  "note_decision b d = \<lparr>
     mb_acks = mb_acks b @ [receipt_ack (d_receipt d)],
     mb_canonical = mb_canonical b @ [d_change d],
     mb_forced = mb_forced b @ (if d_verdict d = Superseded then [d_change d] else []),
     mb_archive = mb_archive b @ (if d_verdict d = Accepted then [d_change d] else []),
     mb_applied = mb_applied b + (if d_verdict d = Accepted then 1 else 0)\<rparr>"

definition accepted_changes :: "decision list \<Rightarrow> change list" where
  "accepted_changes ds = map d_change (filter (\<lambda>d. d_verdict d = Accepted) ds)"

lemma accepted_changes_simps [simp]:
  "accepted_changes [] = []"
  "accepted_changes (d # ds) = (if d_verdict d = Accepted then [d_change d] else []) @ accepted_changes ds"
  by (simp_all add: accepted_changes_def)

definition batch_of :: "decision list \<Rightarrow> mutation_batch" where
  "batch_of ds = \<lparr>
     mb_acks = map (receipt_ack \<circ> d_receipt) ds,
     mb_canonical = map d_change ds,
     mb_forced = map d_change (filter (\<lambda>d. d_verdict d = Superseded) ds),
     mb_archive = accepted_changes ds,
     mb_applied = length (accepted_changes ds)\<rparr>"

lemma batch_of_foldl: "foldl note_decision empty_batch ds = batch_of ds"
proof (induction ds rule: rev_induct)
  case Nil
  show ?case by (simp add: empty_batch_def batch_of_def)
next
  case (snoc d ds)
  then show ?case by (simp add: note_decision_def batch_of_def accepted_changes_def)
qed

section \<open>The loop refines the specification\<close>

lemma a_cursor_abs: "current_cursor ow s = Inr (c, s') \<longleftrightarrow>
    a_head (abs_owner ow s) \<noteq> None \<and> c = a_cursor (abs_owner ow s) \<and> s' = s"
  by (auto simp: current_cursor_abs a_cursor_def split: option.splits)

lemma next_cursor_abs:
  assumes "next_cursor ow s = Inr (c, s')" and "db_ok s"
  shows "c = a_cursor (abs_owner ow s) + 1" and "a_cursor (abs_owner ow s) \<noteq> - 1"
    and "abs_owner ow s' = (abs_owner ow s)\<lparr>a_head := map_option (\<lambda>h. h\<lparr>hd_cursor := c\<rparr>)
           (a_head (abs_owner ow s))\<rparr>" and "db_ok s'"
proof -
  obtain h where h: "a_head (abs_owner ow s) = Some h" and n: "hd_cursor h \<noteq> - 1"
    and c: "c = hd_cursor h + 1" and s': "s' = put_head ow (h\<lparr>hd_cursor := c\<rparr>) s"
    using assms next_cursor_Inr [OF assms(2)] by blast
  have own: "hd_owner (h\<lparr>hd_cursor := c\<rparr>) = ow"
    using h by (simp add: abs_sel head_owner)
  from h n c show "c = a_cursor (abs_owner ow s) + 1" "a_cursor (abs_owner ow s) \<noteq> - 1"
    by (simp_all add: a_cursor_def)
  show "abs_owner ow s' = (abs_owner ow s)\<lparr>a_head := map_option (\<lambda>h. h\<lparr>hd_cursor := c\<rparr>)
      (a_head (abs_owner ow s))\<rparr>"
    using h by (simp add: s' put_head_abs [OF own])
  show "db_ok s'" using assms(2) own by (simp add: s' put_head_ok)
qed

lemma append_operation_ok: "append_operation ow ch s = Inr (u, s') \<Longrightarrow> db_ok s \<Longrightarrow> db_ok s'"
  using append_operation_only [THEN tx_relD] by (simp add: only_owner_def)

lemma found_record: "tx_found (get_record ow k) s = Inr (r, s') \<longleftrightarrow>
    s' = s \<and> r = a_recs (abs_owner ow s) (pad_key k)"
  by (auto simp: tx_found_Inr get_record_abs split: option.splits)

lemma found_receipt: "tx_found (get_receipt ow i) s = Inr (r, s') \<longleftrightarrow>
    s' = s \<and> r = a_receipts (abs_owner ow s) i"
  by (auto simp: tx_found_Inr get_receipt_abs split: option.splits)

lemma found_resolution: "tx_found (get_resolution_receipt ow i) s = Inr (r, s') \<longleftrightarrow>
    s' = s \<and> r = a_resolutions (abs_owner ow s) i"
  by (auto simp: tx_found_Inr get_resolution_receipt_abs split: option.splits)

lemma found_archive_head: "tx_found (get_archive_head ow b) s = Inr (r, s') \<longleftrightarrow>
    s' = s \<and> r = a_archive_heads (abs_owner ow s) b"
  by (auto simp: tx_found_Inr get_archive_head_abs split: option.splits)

lemma settle_abs:
  assumes "settle ow b rc ch s = Inr (b', s')"
  shows "abs_owner ow s' = note_receipt (abs_owner ow s) rc"
    and "a_receipts (abs_owner ow s) (rc_op_id rc) = None"
    and "b' = b\<lparr>mb_acks := mb_acks b @ [receipt_ack rc], mb_canonical := mb_canonical b @ [ch]\<rparr>"
proof -
  obtain u where i: "insert_receipt ow rc s = Inr (u, s')"
    and b': "b' = b\<lparr>mb_acks := mb_acks b @ [receipt_ack rc], mb_canonical := mb_canonical b @ [ch]\<rparr>"
    using assms by (auto simp: settle_def tx_bind_Inr)
  from insert_receipt_abs [OF i] show "abs_owner ow s' = note_receipt (abs_owner ow s) rc"
    by (simp add: note_receipt_def)
  from i show "a_receipts (abs_owner ow s) (rc_op_id rc) = None" by (simp add: insert_receipt_Inr)
  show "b' = b\<lparr>mb_acks := mb_acks b @ [receipt_ack rc], mb_canonical := mb_canonical b @ [ch]\<rparr>"
    by (rule b')
qed

text \<open>One iteration of the loop is one step of the specification.\<close>

lemma apply_mutation_refines:
  assumes run: "apply_mutation ow device now b m s = Inr (b', s')" and ok: "db_ok s"
  shows "\<exists>d. decides device now (abs_owner ow s) m d (abs_owner ow s') \<and> b' = note_decision b d"
proof -
  let ?A = "abs_owner ow s"
  have v: "validate_mutation m device = Inr ()" using run by (auto simp: apply_mutation_def tx_bind_Inr)
  show ?thesis
  proof (cases "a_receipts ?A (Mutation_GetOpId m)")
    case (Some rc)
    with run v obtain ch where "a_ops ?A (rc_server_cursor rc) = Some ch" and "s' = s"
      and "b' = b\<lparr>mb_acks := mb_acks b @ [receipt_ack rc], mb_canonical := mb_canonical b @ [ch]\<rparr>"
      by (auto simp: apply_mutation_def tx_bind_Inr found_receipt get_operation_abs split: option.splits)
    with decides.replayed [OF v Some, of ch now] show ?thesis
      by (intro exI conjI) (auto simp: note_decision_def)
  next
    case no_receipt: None
    let ?e = "a_recs ?A (pad_key (Mutation_GetEntityKey m))"
    show ?thesis
    proof (cases "\<exists>e. ?e = Some e \<and> c_cursor e > Mutation_GetBaseVersion m")
      case True
      then obtain e where e: "?e = Some e" "c_cursor e > Mutation_GetBaseVersion m" by blast
      define rc where "rc = \<lparr>rc_op_id = Mutation_GetOpId m, rc_server_cursor = c_cursor e,
        rc_conflict = True, rc_applied = False\<rparr>"
      have flags: "(c_cursor e > Mutation_GetBaseVersion m) = True"
        "(c_cursor e \<le> Mutation_GetBaseVersion m) = False" using e(2) by (simp_all add: not_le)
      have "tx_lift (validate_mutation m device) s = Inr ((), s)"
        "tx_found (get_receipt ow (Mutation_GetOpId m)) s = Inr (None, s)"
        "tx_found (get_record ow (Mutation_GetEntityKey m)) s = Inr (Some e, s)"
        using v no_receipt e(1) by (simp_all add: found_receipt found_record)
      with run have "settle ow (b\<lparr>mb_forced := mb_forced b @ [e]\<rparr>) rc e s = Inr (b', s')"
        by (simp add: apply_mutation_def flags rc_def)
      note settle_abs [OF this]
      with decides.superseded [OF v no_receipt e rc_def, of now] show ?thesis
        by (intro exI conjI) (auto simp: note_decision_def)
    next
      case False
      define base where "base = b"
      define c where "c = a_cursor ?A + 1"
      define ch where "ch = mutation_change m c (clamp_client_time (Mutation_GetClientTimeMs m) now)"
      define rc where "rc = \<lparr>rc_op_id = Mutation_GetOpId m, rc_server_cursor = c,
        rc_conflict = False, rc_applied = True\<rparr>"
      have flags: "(case ?e of None \<Rightarrow> False | Some e \<Rightarrow> c_cursor e > Mutation_GetBaseVersion m) = False"
        "(case ?e of None \<Rightarrow> True | Some e \<Rightarrow> c_cursor e \<le> Mutation_GetBaseVersion m) = True"
        using False by (auto split: option.splits)
      obtain s1 s2 s3 u1 u2 where n: "next_cursor ow s = Inr (c, s1)"
        and a: "append_operation ow ch s1 = Inr (u1, s2)" and up: "upsert_record ow ch s2 = Inr (u2, s3)"
        and st: "settle ow (b\<lparr>mb_archive := mb_archive b @ [ch], mb_applied := mb_applied b + 1\<rparr>) rc ch s3
          = Inr (b', s')"
      proof -
        have "tx_lift (validate_mutation m device) s = Inr ((), s)"
          "tx_found (get_receipt ow (Mutation_GetOpId m)) s = Inr (None, s)"
          "tx_found (get_record ow (Mutation_GetEntityKey m)) s = Inr (?e, s)"
          using v no_receipt by (simp_all add: found_receipt found_record)
        note run' = run [unfolded apply_mutation_def, simplified this tx_bind_run option.case,
            unfolded flags Let_def if_True]
        from run' obtain c' s1 where n: "next_cursor ow s = Inr (c', s1)" by (rule tx_bind_InrE)
        then have "c' = c" using next_cursor_abs(1) [OF n ok] by (simp add: c_def)
        with run' n that show thesis
          by (auto simp: tx_bind_Inr ch_def [symmetric] rc_def [symmetric])
      qed
      note n' = next_cursor_abs [OF n ok]
      note a' = append_operation_Inr [OF n'(4), THEN iffD1, OF a] append_operation_abs [OF a]
      have key: "c_cursor ch = c" "c_op_id ch = Mutation_GetOpId m" by (simp_all add: ch_def mutation_change_def)
      have abs: "abs_owner ow s' = accept_change ?A ch rc"
        using n'(3) a'(2) upsert_record_abs [OF up] settle_abs(1) [OF st]
        by (simp add: accept_change_def note_receipt_def key rc_def)
      have fresh: "a_ops ?A (a_cursor ?A + 1) = None"
        "\<And>c x. a_ops ?A c = Some x \<Longrightarrow> c_op_id x \<noteq> Mutation_GetOpId m"
        using a'(1) n'(3) key by (auto simp: c_def)
      have "decides device now ?A m \<lparr>d_verdict = Accepted, d_receipt = rc, d_change = ch\<rparr> (abs_owner ow s')"
        unfolding abs by (rule decides.accepted [OF v no_receipt _ n'(2) _ fresh])
          (use False in \<open>auto simp: ch_def c_def rc_def not_less\<close>)
      moreover have "b' = note_decision b \<lparr>d_verdict = Accepted, d_receipt = rc, d_change = ch\<rparr>"
        using settle_abs(3) [OF st] by (simp add: note_decision_def)
      ultimately show ?thesis by blast
    qed
  qed
qed

lemma apply_mutation_ok: "apply_mutation ow device now b m s = Inr (b', s') \<Longrightarrow> db_ok s \<Longrightarrow> db_ok s'"
  using framed.apply_mutation [THEN tx_relD] by (simp add: only_owner_def)

lemma apply_mutations_from_refines:
  assumes "apply_mutations_from ow device now b ms s = Inr (b', s')" and "db_ok s"
  shows "\<exists>ds. decide_all device now (abs_owner ow s) ms ds (abs_owner ow s') \<and> b' = foldl note_decision b ds"
  using assms
proof (induction ms arbitrary: b s)
  case Nil
  then show ?case by (auto intro!: exI [of _ "[]"] decide_all.none)
next
  case (Cons m ms)
  then obtain b1 s1 where r1: "apply_mutation ow device now b m s = Inr (b1, s1)"
    and r2: "apply_mutations_from ow device now b1 ms s1 = Inr (b', s')" by (auto elim: tx_bind_InrE)
  from apply_mutation_refines [OF r1 Cons.prems(2)] obtain d
    where "decides device now (abs_owner ow s) m d (abs_owner ow s1)" "b1 = note_decision b d" by blast
  moreover from Cons.IH [OF r2] apply_mutation_ok [OF r1 Cons.prems(2)] obtain ds
    where "decide_all device now (abs_owner ow s1) ms ds (abs_owner ow s')"
      "b' = foldl note_decision b1 ds" by blast
  ultimately show ?case by (intro exI [of _ "d # ds"]) (auto intro: decide_all.more)
qed

lemma apply_mutations_refines:
  assumes "apply_mutations ow device ms now s = Inr (b, s')" and "db_ok s"
  shows "\<exists>ds. decide_all device now (abs_owner ow s) ms ds (abs_owner ow s') \<and> b = batch_of ds"
  using apply_mutations_from_refines [of ow device now empty_batch ms s b s'] assms
  by (simp add: apply_mutations_def batch_of_foldl)

section \<open>Closing a batch\<close>

text \<open>The rows that a list of changes adds to the archive of a baseline.\<close>

definition archived :: "string \<Rightarrow> change list \<Rightarrow> string \<times> u64 \<Rightarrow> change option" where
  "archived b chs = (\<lambda>(b', c). if b' = b then map_of (map (\<lambda>ch. (c_cursor ch, ch)) chs) c else None)"

lemma archived_Nil [simp]: "archived b [] = Map.empty"
  by (auto simp: archived_def fun_eq_iff)

lemma archive_changes_abs:
  assumes "tx_foreach (archive_change ow b v t) chs s = Inr (u, s')"
  shows "abs_owner ow s' =
      (abs_owner ow s)\<lparr>a_archive := a_archive (abs_owner ow s) ++ archived b chs\<rparr> \<and>
    (\<forall>ch \<in> set chs. a_archive (abs_owner ow s) (b, c_cursor ch) = None)"
  using assms
proof (induction chs arbitrary: s)
  case (Cons ch chs)
  then obtain s1 where r1: "archive_change ow b v t ch s = Inr ((), s1)"
    and r2: "tx_foreach (archive_change ow b v t) chs s1 = Inr (u, s')" by (auto elim: tx_bind_InrE)
  let ?A = "a_archive (abs_owner ow s)"
  note a1 = archive_change_abs [OF r1] and a2 = Cons.IH [OF r2]
  have fresh: "?A (b, c_cursor ch) = None" using r1 by (simp add: archive_change_Inr)
  have later: "\<forall>x \<in> set chs. c_cursor x \<noteq> c_cursor ch \<and> ?A (b, c_cursor x) = None"
    using a1 a2 by (auto split: if_splits)
  then have "map_of (map (\<lambda>ch. (c_cursor ch, ch)) chs) (c_cursor ch) = None"
    by (force simp: map_of_eq_None_iff)
  then have "?A((b, c_cursor ch) \<mapsto> ch) ++ archived b chs = ?A ++ archived b (ch # chs)"
    by (auto simp: fun_eq_iff map_add_def archived_def split: option.splits)
  with a1 a2 fresh later show ?case by (simp add: fun_upd_def)
qed simp

definition publish_batch :: "owner_state \<Rightarrow> lineage \<Rightarrow> change list \<Rightarrow> outbox_row \<Rightarrow> owner_state" where
  "publish_batch A l chs ev = A\<lparr>
     a_head := map_option (\<lambda>h. h\<lparr>hd_version := ln_version l, hd_updated_at_ms := ln_updated_at_ms l,
                 hd_progress_day := ln_progress_day l\<rparr>) (a_head A),
     a_archive := a_archive A ++ archived (ln_baseline_id l) chs,
     a_archive_heads := (a_archive_heads A)(ln_baseline_id l \<mapsto>
       \<lparr>ah_cursor = a_cursor A, ah_version = ln_version l, ah_updated_at_ms = ln_updated_at_ms l\<rparr>),
     a_events := a_events A @ [ev]\<rparr>"

text \<open>The records of an owner, read as a list.\<close>

lemma list_records_set:
  assumes "db_ok s" and "list_records ow s = Inr (rs, s')"
  shows "s' = s" and "set rs = ran (a_recs (abs_owner ow s))"
proof -
  show "s' = s" using assms(2) by (simp add: list_records_def)
  have rs: "set rs = cr_change ` {r \<in> set (db_records s). cr_owner r = ow}"
    using assms(2) by (auto simp: list_records_def)
  have d: "distinct (map record_key (db_records s))" using assms(1) by (simp add: db_ok_def)
  show "set rs = ran (a_recs (abs_owner ow s))"
  proof
    show "set rs \<subseteq> ran (a_recs (abs_owner ow s))"
      unfolding rs using row_lookup_mem [OF d]
      by (auto simp: ran_def abs_sel record_key_def intro!: exI [of _ "pad_key (c_entity_key (cr_change _))"])
    show "ran (a_recs (abs_owner ow s)) \<subseteq> set rs"
      unfolding rs by (auto simp: ran_def abs_sel record_key_def dest!: row_lookup_Some)
  qed
qed

lemma list_records_total: "\<exists>rs. list_records ow s = Inr (rs, s)"
  by (simp add: list_records_def)

lemma finalize_refines:
  assumes run: "finalize_mutation_batch sv md ow l (batch_of ds) s = Inr ((l', head), s')"
    and ok: "db_ok s" and h: "a_head (abs_owner ow s) = Some h" and b: "hd_baseline h = Some b"
  shows "head = hd_cursor h \<and>
    (if accepted_changes ds = [] then s' = s \<and> l' = l
     else \<exists>rs day d. hd_version h \<noteq> - 1 \<and> list_records ow s = Inr (rs, s)
       \<and> derive_progress_day (sv_json sv) (map Some rs) = Inr d \<and> text_column 64 d = Inr day
       \<and> l' = \<lparr>ln_baseline_id = b, ln_version = hd_version h + 1, ln_updated_at_ms = sv_now sv,
              ln_progress_day = day\<rparr>
       \<and> (\<forall>ch \<in> set (accepted_changes ds). a_archive (abs_owner ow s) (b, c_cursor ch) = None)
       \<and> abs_owner ow s' = publish_batch (abs_owner ow s) l' (accepted_changes ds)
           (outbox_row_of ow (sync_hint md l' head (sv_now sv)) (db_next_event s)))"
proof (cases "accepted_changes ds = []")
  case True
  with run show ?thesis
    by (auto simp: finalize_mutation_batch_def batch_of_def tx_bind_Inr a_cursor_abs h a_cursor_def)
next
  case False
  let ?A = "abs_owner ow s"
  from run False obtain rs d s1 s2 s3 s4 where rs: "list_records ow s = Inr (rs, s)"
    and d: "derive_progress_day (sv_json sv) (map Some rs) = Inr d"
    and i: "increment_lineage ow (sv_now sv) d s = Inr (l', s1)"
    and c: "current_cursor ow s1 = Inr (head, s1)"
    and a: "tx_foreach (archive_change ow (ln_baseline_id l') (ln_version l') (sv_now sv))
              (accepted_changes ds) s1 = Inr ((), s2)"
    and u: "upsert_archive_head ow (ln_baseline_id l') head (ln_version l') (sv_now sv) s2 = Inr ((), s3)"
    and e: "insert_realtime_event ow (sync_hint md l' head (sv_now sv)) s3 = Inr ((), s')"
    by (auto simp: finalize_mutation_batch_def batch_of_def tx_bind_Inr list_records_def
        current_cursor_def)
  from increment_lineage_Inr [OF ok h b, THEN iffD1, OF i] obtain day where day: "text_column 64 d = Inr day"
    and v: "hd_version h \<noteq> - 1"
    and l': "l' = \<lparr>ln_baseline_id = b, ln_version = hd_version h + 1, ln_updated_at_ms = sv_now sv,
              ln_progress_day = day\<rparr>"
    and s1: "s1 = put_head ow (h\<lparr>hd_version := hd_version h + 1, hd_updated_at_ms := sv_now sv,
                hd_progress_day := day\<rparr>) s" by blast
  have own: "hd_owner h = ow" using h by (simp add: abs_sel head_owner)
  have A1: "abs_owner ow s1 = ?A\<lparr>a_head := Some (h\<lparr>hd_version := hd_version h + 1,
      hd_updated_at_ms := sv_now sv, hd_progress_day := day\<rparr>)\<rparr>"
    using h own by (simp add: s1 put_head_abs)
  have hc: "head = hd_cursor h" using c by (simp add: a_cursor_abs a_cursor_def A1)
  note A2 = archive_changes_abs [OF a] and A3 = upsert_archive_head_abs [OF u]
    and A4 = insert_realtime_event_abs [OF e]
  have "db_next_event s3 = db_next_event s"
  proof -
    have "tx_rel (\<lambda>s s'. db_next_event s' = db_next_event s) (tx_foreach (archive_change ow b' v' t') chs)"
      for b' v' t' chs
    proof (induction chs)
      case (Cons ch chs)
      then show ?case by (auto simp: tx_rel_def tx_bind_Inr archive_change_Inr)
    qed (simp add: tx_rel_def)
    from tx_relD [OF this a] have "db_next_event s2 = db_next_event s1" .
    with u show ?thesis by (auto simp: upsert_archive_head_Inr s1 put_head_def)
  qed
  with A1 A2 A3 A4 h have "abs_owner ow s' = publish_batch ?A l' (accepted_changes ds)
      (outbox_row_of ow (sync_hint md l' head (sv_now sv)) (db_next_event s))"
    by (simp add: publish_batch_def l' a_cursor_def hc)
  moreover have "\<forall>ch \<in> set (accepted_changes ds). a_archive ?A (b, c_cursor ch) = None"
    using A1 A2 by (simp add: l')
  ultimately show ?thesis using False rs d day v l' hc by auto
qed

section \<open>The lineage of an owner\<close>

lemma text_column_campaign_start: "text_column 64 campaign_start = Inr campaign_start"
  by (rule text_column_ascii) (simp_all add: campaign_start_def)

lemma ensure_lineage_refines:
  assumes run: "ensure_lineage sv ow requested s = Inr (l, s1)" and ok: "db_ok s"
    and h: "a_head (abs_owner ow s) = Some h"
  shows "case hd_baseline h of
      Some b \<Rightarrow> s1 = s \<and> l = row_lineage h
    | None \<Rightarrow> ln_version l = 0 \<and> (hd_cursor h = 0 \<longrightarrow> ln_baseline_id l = requested \<and> ln_progress_day l = campaign_start)
        \<and> (\<exists>day. text_column 64 (ln_progress_day l) = Inr day
             \<and> abs_owner ow s1 = (abs_owner ow s)\<lparr>a_head := Some (h\<lparr>hd_baseline := Some (ln_baseline_id l),
               hd_version := 0, hd_updated_at_ms := ln_updated_at_ms l, hd_progress_day := day\<rparr>)\<rparr>)"
proof (cases "hd_baseline h")
  case (Some b)
  with run show ?thesis
    by (auto simp: ensure_lineage_def tx_bind_Inr tx_found_Inr get_lineage_abs [OF ok] h head_lineage_def
        split: option.splits)
next
  case None
  note w = write_lineage_Inr [OF ok h]
  have own: "hd_owner h = ow" using h by (simp add: abs_sel head_owner)
  have start: "tx_found (get_lineage ow) s = Inr (None, s)"
    using None by (simp add: tx_found_Inr get_lineage_abs [OF ok] h head_lineage_def)
  have cur: "current_cursor ow s = Inr (hd_cursor h, s)" by (simp add: a_cursor_abs h a_cursor_def)
  from run have "write_lineage ow l s = Inr ((), s1) \<and> ln_version l = 0
      \<and> (hd_cursor h = 0 \<longrightarrow> ln_baseline_id l = requested \<and> ln_progress_day l = campaign_start)"
    by (auto simp: ensure_lineage_def start cur tx_bind_Inr list_records_def insert_lineage_def
        word_gt_0 split: if_splits)
  then show ?thesis using None h own
    by (auto simp: w put_head_abs)
qed

section \<open>Replacing the baseline by a snapshot\<close>

definition cleared :: "owner_state \<Rightarrow> owner_state" where
  "cleared A = A\<lparr>a_head := map_option (\<lambda>h. h\<lparr>hd_cursor := 0\<rparr>) (a_head A), a_ops := Map.empty,
     a_recs := Map.empty, a_receipts := Map.empty, a_resolutions := Map.empty\<rparr>"

definition place_change :: "owner_state \<Rightarrow> change \<Rightarrow> owner_state" where
  "place_change A ch = A\<lparr>
     a_head := map_option (\<lambda>h. h\<lparr>hd_cursor := c_cursor ch\<rparr>) (a_head A),
     a_ops := (a_ops A)(c_cursor ch \<mapsto> ch),
     a_recs := (a_recs A)(pad_key (c_entity_key ch) \<mapsto>
       stored_record (a_recs A (pad_key (c_entity_key ch))) ch)\<rparr>"

text \<open>The changes that a snapshot becomes, numbered from the cursor after \<open>c\<close>.\<close>

fun number_snapshot :: "u64 \<Rightarrow> u64 \<Rightarrow> mutation option list \<Rightarrow> change list" where
  "number_snapshot now c [] = []"
| "number_snapshot now c (m # ms) = mutation_change m (c + 1) now # number_snapshot now (c + 1) ms"

lemma length_number_snapshot [simp]: "length (number_snapshot now c ms) = length ms"
  by (induction ms arbitrary: c) auto

definition replace_baseline ::
  "owner_state \<Rightarrow> lineage \<Rightarrow> change list \<Rightarrow> resolution_receipt \<Rightarrow> outbox_row \<Rightarrow> owner_state" where
  "replace_baseline A l chs rs ev =
     (let B = foldl place_change (cleared A) chs in
      B\<lparr>a_head := map_option (\<lambda>h. h\<lparr>hd_baseline := Some (ln_baseline_id l), hd_version := ln_version l,
            hd_updated_at_ms := ln_updated_at_ms l, hd_progress_day := ln_progress_day l\<rparr>) (a_head B),
        a_resolutions := (a_resolutions B)(rs_request_id rs \<mapsto> rs),
        a_archive := a_archive A ++ archived (ln_baseline_id l) chs,
        a_archive_heads := (a_archive_heads A)(ln_baseline_id l \<mapsto> \<lparr>ah_cursor = rs_result_cursor rs,
          ah_version = ln_version l, ah_updated_at_ms = ln_updated_at_ms l\<rparr>),
        a_events := a_events A @ [ev]\<rparr>)"

lemma methods_ok:
  assumes "tx_rel (only_owner ow) m" and "m s = Inr (a, s')" and "db_ok s"
  shows "db_ok s'"
  using tx_relD [OF assms(1,2)] assms(3) by (simp add: only_owner_def)

lemma write_snapshot_refines:
  assumes "write_snapshot ow now ms s = Inr (chs, s')" and "db_ok s" and "a_head (abs_owner ow s) \<noteq> None"
  shows "chs = number_snapshot now (a_cursor (abs_owner ow s)) ms
    \<and> abs_owner ow s' = foldl place_change (abs_owner ow s) chs
    \<and> unat (a_cursor (abs_owner ow s')) = unat (a_cursor (abs_owner ow s)) + length chs
    \<and> db_next_event s' = db_next_event s"
  using assms
proof (induction ms arbitrary: s chs)
  case (Cons m ms)
  obtain c s1 ch s2 s3 rest where n: "next_cursor ow s = Inr (c, s1)" and ch: "ch = mutation_change m c now"
    and a: "append_operation ow ch s1 = Inr ((), s2)" and u: "upsert_record ow ch s2 = Inr ((), s3)"
    and w: "write_snapshot ow now ms s3 = Inr (rest, s')" and chs: "chs = ch # rest"
    using Cons.prems(1) by (auto simp: tx_bind_Inr Let_def)
  note n' = next_cursor_abs [OF n Cons.prems(2)]
  have key: "c_cursor ch = c" by (simp add: ch mutation_change_def)
  have abs: "abs_owner ow s3 = place_change (abs_owner ow s) ch"
    using n'(3) append_operation_abs [OF a] upsert_record_abs [OF u] by (simp add: place_change_def key)
  have ok3: "db_ok s3"
    using methods_ok [OF upsert_record_only u methods_ok [OF append_operation_only a n'(4)]] .
  have head3: "a_head (abs_owner ow s3) \<noteq> None" and c3: "a_cursor (abs_owner ow s3) = c"
    using Cons.prems(3) by (auto simp: abs place_change_def a_cursor_def key)
  have "db_next_event s3 = db_next_event s"
    using n a u
    by (auto simp: next_cursor_Inr [OF Cons.prems(2)] append_operation_Inr [OF n'(4)] upsert_record_Inr
        put_head_def)
  moreover note IH = Cons.IH [OF w ok3 head3, unfolded c3 n'(1)]
  moreover have "unat (a_cursor (abs_owner ow s')) = unat (a_cursor (abs_owner ow s)) + length chs"
    using IH [THEN conjunct2, THEN conjunct2, THEN conjunct1] unat_Suc_word [OF n'(2)] by (simp add: chs)
  ultimately show ?case by (simp add: chs abs [unfolded ch n'(1)] ch n'(1))
qed simp

text \<open>Only the insertion of an event moves the event counter.\<close>

interpretation counter: tx_preorder "\<lambda>s s'. db_next_event s' = db_next_event s"
  by unfold_locales auto

lemma counter_kept:
  "tx_rel (\<lambda>s s'. db_next_event s' = db_next_event s) (clear_current_baseline ow)"
  "tx_rel (\<lambda>s s'. db_next_event s' = db_next_event s) (set_lineage ow l)"
  "tx_rel (\<lambda>s s'. db_next_event s' = db_next_event s) (insert_resolution_receipt ow rs)"
  "tx_rel (\<lambda>s s'. db_next_event s' = db_next_event s) (archive_change ow b v t ch)"
  "tx_rel (\<lambda>s s'. db_next_event s' = db_next_event s) (upsert_archive_head ow b c v t)"
  unfolding write_method_defs
  by ((intro counter.bind)?; auto simp: tx_rel_def exec_sql_Inr owned_Inr)+

lemma set_lineage_abs:
  assumes "set_lineage ow l s = Inr (u, s')" and "db_ok s" and "a_head (abs_owner ow s) \<noteq> None"
  shows "\<exists>day. text_column 64 (ln_progress_day l) = Inr day \<and> abs_owner ow s' = (abs_owner ow s)\<lparr>a_head :=
    map_option (\<lambda>h. h\<lparr>hd_baseline := Some (ln_baseline_id l), hd_version := ln_version l,
      hd_updated_at_ms := ln_updated_at_ms l, hd_progress_day := day\<rparr>) (a_head (abs_owner ow s))\<rparr>"
proof -
  obtain h where h: "a_head (abs_owner ow s) = Some h" using assms(3) by blast
  then have "hd_owner h = ow" by (simp add: abs_sel head_owner)
  with assms(1) h show ?thesis
    by (auto simp: set_lineage_def write_lineage_Inr [OF assms(2) h] put_head_abs)
qed

lemma use_local_refines:
  assumes run: "use_local sv md ow r s = Inr (res, s')" and ok: "db_ok s"
    and h: "a_head (abs_owner ow s) \<noteq> None"
  shows "\<exists>rb chs l day rs ev records. validate_local_snapshot r = Inr ()
    \<and> (case a_archive_heads (abs_owner ow s) (rr_local_baseline_id r) of
         None \<Rightarrow> rb = rr_local_baseline_id r | Some _ \<Rightarrow> sv_fork_baseline_id sv = Inr rb)
    \<and> chs = number_snapshot (sv_now sv) 0 (sort_snapshot (rr_local_snapshot r))
    \<and> l = \<lparr>ln_baseline_id = rb, ln_version = (if chs = [] then 0 else 1), ln_updated_at_ms = sv_now sv,
           ln_progress_day = day\<rparr>
    \<and> set records = ran (a_recs (foldl place_change (cleared (abs_owner ow s)) chs))
    \<and> derive_progress_day (sv_json sv) (map Some records) = Inr day
    \<and> (\<exists>stored. text_column 64 day = Inr stored
         \<and> abs_owner ow s' = replace_baseline (abs_owner ow s) (l\<lparr>ln_progress_day := stored\<rparr>) chs rs ev)
    \<and> rs = new_resolution_receipt r l (of_nat (length chs)) \<and> length chs < 2 ^ 64
    \<and> (\<forall>ch \<in> set chs. a_archive (abs_owner ow s) (rb, c_cursor ch) = None)
    \<and> ev = outbox_row_of ow (sync_hint md l (of_nat (length chs)) (sv_now sv)) (db_next_event s)
    \<and> res = resolve_result_of (rr_device_id r) l (of_nat (length chs)) records False True"
proof -
  let ?A = "abs_owner ow s"
  let ?snap = "sort_snapshot (rr_local_snapshot r)"
  obtain used rb where v: "validate_local_snapshot r = Inr ()"
    and used: "used = a_archive_heads ?A (rr_local_baseline_id r)"
    and rb: "case used of None \<Rightarrow> rb = rr_local_baseline_id r | Some _ \<Rightarrow> sv_fork_baseline_id sv = Inr rb"
    using run by (auto simp: use_local_def tx_bind_Inr found_archive_head split: option.splits)
  have fork: "(case used of None \<Rightarrow> tx_return (rr_local_baseline_id r)
      | Some _ \<Rightarrow> tx_lift (sv_fork_baseline_id sv)) s = Inr (rb, s)"
    using rb by (auto split: option.splits)
  have pre: "tx_lift (validate_local_snapshot r) s = Inr ((), s)"
    "tx_found (get_archive_head ow (rr_local_baseline_id r)) s = Inr (used, s)"
    using v used by (simp_all add: found_archive_head)
  from run obtain s1 where c: "clear_current_baseline ow s = Inr ((), s1)"
    by (auto simp: use_local_def pre fork tx_bind_Inr)
  from run obtain chs s2 where w: "write_snapshot ow (sv_now sv) ?snap s1 = Inr (chs, s2)"
    by (auto simp: use_local_def pre fork c tx_bind_Inr Let_def)
  note ok1 = methods_ok [OF clear_current_baseline_only c ok]
  have A1: "abs_owner ow s1 = cleared ?A"
    using clear_current_baseline_abs [OF c ok] by (simp add: cleared_def)
  have h1: "a_head (abs_owner ow s1) \<noteq> None" and c1: "a_cursor (abs_owner ow s1) = 0"
    using h by (auto simp: A1 cleared_def a_cursor_def)
  note W = write_snapshot_refines [OF w ok1 h1, unfolded c1, unfolded A1]
  have chs: "chs = number_snapshot (sv_now sv) 0 ?snap" using W by (rule conjunct1)
  have n: "unat (a_cursor (abs_owner ow s2)) = length chs"
    using W [THEN conjunct2, THEN conjunct2, THEN conjunct1] by simp
  then have head: "a_cursor (abs_owner ow s2) = of_nat (length chs)"
    by (metis of_nat_unat ucast_id)
  have "unat (a_cursor (abs_owner ow s2)) < 2 ^ LENGTH(64)" by (rule unsigned_less)
  then have small: "length chs < 2 ^ 64" by (simp add: n)
  have len: "(length ?snap > 0) = (chs \<noteq> [])" 
    using length_number_snapshot [of "sv_now sv" 0 ?snap] chs by fastforce
  have ok2: "db_ok s2" using methods_ok [OF framed.write_snapshot w ok1] .
  have h2: "a_head (abs_owner ow s2) \<noteq> None"
  proof -
    have "a_head (foldl place_change B xs) \<noteq> None" if "a_head B \<noteq> None" for B xs
      using that by (induction xs arbitrary: B) (auto simp: place_change_def)
    with h show ?thesis using W [THEN conjunct2] by (simp add: cleared_def)
  qed
  have cur: "current_cursor ow s2 = Inr (of_nat (length chs), s2)" by (simp add: a_cursor_abs h2 head)
  from list_records_total obtain records where rec: "list_records ow s2 = Inr (records, s2)" by blast
  from run obtain day where day: "derive_progress_day (sv_json sv) (map Some records) = Inr day"
    by (auto simp: use_local_def pre fork c w cur rec tx_bind_Inr Let_def)
  define l where "l = \<lparr>ln_baseline_id = rb, ln_version = (if chs = [] then 0 else 1),
    ln_updated_at_ms = sv_now sv, ln_progress_day = day\<rparr>"
  have l': "\<lparr>ln_baseline_id = rb, ln_version = (if length ?snap > 0 then 1 else 0),
    ln_updated_at_ms = sv_now sv, ln_progress_day = day\<rparr> = l"
    by (simp only: l_def len if_not_P not_not split: if_splits) simp
  have lsel: "ln_baseline_id l = rb" "ln_version l = (if length ?snap > 0 then 1 else 0)"
    by (simp_all only: l'[symmetric] lineage.simps)
  define rs where "rs = new_resolution_receipt r l (of_nat (length chs))"
  have day': "tx_lift (derive_progress_day (sv_json sv) (map Some records)) s2 = Inr (day, s2)"
    by (simp add: day)
  from run have "tx_bind (set_lineage ow l) (\<lambda>_.
     tx_bind (insert_resolution_receipt ow (new_resolution_receipt r l (of_nat (length chs)))) (\<lambda>_.
     tx_bind (tx_foreach (archive_change ow (ln_baseline_id l) (ln_version l) (sv_now sv)) chs) (\<lambda>_.
     tx_bind (upsert_archive_head ow (ln_baseline_id l) (of_nat (length chs)) (ln_version l) (sv_now sv)) (\<lambda>_.
     tx_bind (insert_realtime_event ow (sync_hint md l (of_nat (length chs)) (sv_now sv))) (\<lambda>_.
     tx_return (resolve_result_of (rr_device_id r) l (of_nat (length chs)) records False True)))))) s2
     = Inr (res, s')"
    by (simp add: use_local_def pre fork c w cur rec day' Let_def l' lsel del: length_greater_0_conv)
  then obtain s3 s4 s5 s6 where sl: "set_lineage ow l s2 = Inr ((), s3)"
    and ir: "insert_resolution_receipt ow rs s3 = Inr ((), s4)"
    and ac: "tx_foreach (archive_change ow (ln_baseline_id l) (ln_version l) (sv_now sv)) chs s4 = Inr ((), s5)"
    and ua: "upsert_archive_head ow (ln_baseline_id l) (of_nat (length chs)) (ln_version l) (sv_now sv) s5
        = Inr ((), s6)"
    and ie: "insert_realtime_event ow (sync_hint md l (of_nat (length chs)) (sv_now sv)) s6 = Inr ((), s')"
    and res: "res = resolve_result_of (rr_device_id r) l (of_nat (length chs)) records False True"
    by (auto simp: tx_bind_Inr rs_def)
  have ev: "db_next_event s6 = db_next_event s"
    using tx_relD [OF counter_kept(1) c] W tx_relD [OF counter_kept(2) sl]
      tx_relD [OF counter_kept(3) ir] tx_relD [OF counter.foreach [OF counter_kept(4)] ac]
      tx_relD [OF counter_kept(5) ua] by simp
  obtain stored where stored: "text_column 64 day = Inr stored" and A3: "abs_owner ow s3 = (abs_owner ow s2)\<lparr>a_head :=
      map_option (\<lambda>h. h\<lparr>hd_baseline := Some rb, hd_version := ln_version l,
        hd_updated_at_ms := ln_updated_at_ms l, hd_progress_day := stored\<rparr>) (a_head (abs_owner ow s2))\<rparr>"
    using set_lineage_abs [OF sl ok2 h2] by (auto simp: l_def)
  have B: "abs_owner ow s2 = foldl place_change (cleared ?A) chs"
    using W [THEN conjunct2] by (rule conjunct1)
  have keep: "a_archive (foldl place_change B xs) = a_archive B
      \<and> a_archive_heads (foldl place_change B xs) = a_archive_heads B
      \<and> a_events (foldl place_change B xs) = a_events B" for B xs
    by (induction xs arbitrary: B) (auto simp: place_change_def)
  note A4 = insert_resolution_receipt_abs [OF ir] and A5 = archive_changes_abs [OF ac]
    and A6 = upsert_archive_head_abs [OF ua] and A7 = insert_realtime_event_abs [OF ie]
  have final: "abs_owner ow s' = replace_baseline ?A (l\<lparr>ln_progress_day := stored\<rparr>) chs rs
      (outbox_row_of ow (sync_hint md l (of_nat (length chs)) (sv_now sv)) (db_next_event s))"
    using A3 A4 A5 A6 A7 keep [of "cleared ?A" chs]
    by (simp add: replace_baseline_def Let_def B ev l_def rs_def new_resolution_receipt_def cleared_def)
  have unarchived: "\<forall>ch \<in> set chs. a_archive ?A (rb, c_cursor ch) = None"
    using A3 A4 A5 keep [of "cleared ?A" chs] by (simp add: B l_def cleared_def)
  show ?thesis
    by (rule exI [of _ rb], rule exI [of _ chs], rule exI [of _ l], rule exI [of _ day],
        rule exI [of _ rs],
        rule exI [of _ "outbox_row_of ow (sync_hint md l (of_nat (length chs)) (sv_now sv)) (db_next_event s)"],
        rule exI [of _ records])
      (intro conjI exI [of _ stored] v rb [unfolded used] chs l_def list_records_set(2) [OF ok2 rec, unfolded B]
        day stored final rs_def small unarchived refl res)
qed

end
