(* ===== verification/Invariant.thy ===== *)
theory Invariant
  imports ServiceSpec
begin

text \<open>
  The invariant of an owner's state. The operations of the current baseline are numbered from 1
  to the head cursor without a gap; a record is the latest operation on its key; a receipt points
  to the operation it acknowledges; the archive holds the same operations up to a watermark,
  which is the head cursor outside of a batch; the archive head and the version agree with it; a
  resolution receipt belongs to the current baseline. Every operation of the service keeps it.
\<close>

section \<open>The invariant\<close>

definition a_version :: "owner_state \<Rightarrow> u64" where
  "a_version A = (case a_head A of None \<Rightarrow> 0 | Some h \<Rightarrow> hd_version h)"

definition log_ok :: "owner_state \<Rightarrow> bool" where
  "log_ok A \<longleftrightarrow> (\<forall>c. a_ops A c \<noteq> None \<longleftrightarrow> 0 < c \<and> c \<le> a_cursor A)
     \<and> (\<forall>c ch. a_ops A c = Some ch \<longrightarrow> c_cursor ch = c)"

text \<open>The record of a key is its latest operation, but for trailing blanks of the key.\<close>

definition latest :: "owner_state \<Rightarrow> string \<Rightarrow> change \<Rightarrow> bool" where
  "latest A k e \<longleftrightarrow> pad_key (c_entity_key e) = k
     \<and> (\<exists>ch. a_ops A (c_cursor e) = Some ch \<and> pad_key (c_entity_key ch) = k
          \<and> e = ch\<lparr>c_entity_key := c_entity_key e\<rparr>)
     \<and> (\<forall>c ch. a_ops A c = Some ch \<and> pad_key (c_entity_key ch) = k \<longrightarrow> c \<le> c_cursor e)"

definition records_ok :: "owner_state \<Rightarrow> bool" where
  "records_ok A \<longleftrightarrow> (\<forall>k e. a_recs A k = Some e \<longrightarrow> latest A k e)
     \<and> (\<forall>c ch. a_ops A c = Some ch \<longrightarrow> a_recs A (pad_key (c_entity_key ch)) \<noteq> None)"

definition receipts_ok :: "owner_state \<Rightarrow> bool" where
  "receipts_ok A \<longleftrightarrow> (\<forall>i rc. a_receipts A i = Some rc \<longrightarrow>
     rc_op_id rc = i \<and> rc_conflict rc = (\<not> rc_applied rc)
     \<and> (\<exists>ch. a_ops A (rc_server_cursor rc) = Some ch \<and> (rc_applied rc \<longrightarrow> c_op_id ch = i)))"

definition archive_ok :: "u64 \<Rightarrow> owner_state \<Rightarrow> bool" where
  "archive_ok w A \<longleftrightarrow> (\<forall>b c. a_baseline A = Some b \<longrightarrow>
       a_archive A (b, c) = (if c \<le> w then a_ops A c else None))
     \<and> (\<forall>b c. a_archive A (b, c) \<noteq> None \<longrightarrow> a_archive_heads A b \<noteq> None)"

definition heads_ok :: "u64 \<Rightarrow> owner_state \<Rightarrow> bool" where
  "heads_ok w A \<longleftrightarrow> (\<forall>b. a_baseline A = Some b \<longrightarrow>
       (a_archive_heads A b = None \<longrightarrow> w = 0)
       \<and> (\<forall>ah. a_archive_heads A b = Some ah \<longrightarrow> ah_cursor ah = w \<and> ah_version ah = a_version A))
     \<and> a_version A \<le> w \<and> (a_version A = 0 \<longleftrightarrow> w = 0)"

definition blank_ok :: "owner_state \<Rightarrow> bool" where
  "blank_ok A \<longleftrightarrow> (a_baseline A = None \<longrightarrow>
     a_cursor A = 0 \<and> a_version A = 0 \<and> a_archive A = Map.empty \<and> a_archive_heads A = Map.empty
     \<and> a_resolutions A = Map.empty)"

definition resolutions_ok :: "owner_state \<Rightarrow> bool" where
  "resolutions_ok A \<longleftrightarrow> (\<forall>i rs. a_resolutions A i = Some rs \<longrightarrow> rs_request_id rs = i
     \<and> a_baseline A = Some (rs_result_baseline_id rs) \<and> rs_result_version rs \<le> a_version A)"

definition inv_upto :: "u64 \<Rightarrow> owner_state \<Rightarrow> bool" where
  "inv_upto w A \<longleftrightarrow> w \<le> a_cursor A \<and> log_ok A \<and> records_ok A \<and> receipts_ok A \<and> archive_ok w A
     \<and> heads_ok w A \<and> blank_ok A \<and> resolutions_ok A"

definition owner_inv :: "owner_state \<Rightarrow> bool" where
  "owner_inv A \<longleftrightarrow> inv_upto (a_cursor A) A"

lemmas inv_defs = log_ok_def records_ok_def receipts_ok_def archive_ok_def heads_ok_def blank_ok_def
  resolutions_ok_def

lemmas head_defs = a_cursor_def a_baseline_def a_version_def

lemma log_ok_bound: "log_ok A \<Longrightarrow> a_ops A c = Some ch \<Longrightarrow> 0 < c \<and> c \<le> a_cursor A \<and> c_cursor ch = c"
  by (metis log_ok_def option.distinct(1))

lemma log_ok_next: "log_ok A \<Longrightarrow> a_cursor A \<noteq> - 1 \<Longrightarrow> a_ops A (a_cursor A + 1) = None"
  using word_less_Suc [of "a_cursor A"] by (metis log_ok_def not_le)

lemma log_ok_zero: "log_ok A \<Longrightarrow> a_ops A 0 = None"
  by (metis log_ok_def less_irrefl)

lemma latest_op: "latest A k e \<Longrightarrow> \<exists>ch. a_ops A (c_cursor e) = Some ch"
  by (auto simp: latest_def)

section \<open>Starting a transaction, and the first lineage\<close>

text \<open>Only these parts of a state matter to the invariant.\<close>

lemma inv_upto_cong:
  assumes "a_cursor A = a_cursor B" "a_baseline A = a_baseline B" "a_version A = a_version B"
    "a_ops A = a_ops B" "a_recs A = a_recs B" "a_receipts A = a_receipts B"
    "a_resolutions A = a_resolutions B" "a_archive A = a_archive B"
    "a_archive_heads A = a_archive_heads B"
  shows "inv_upto w A = inv_upto w B"
  by (simp add: inv_upto_def inv_defs latest_def assms)

lemma start_head_sel [simp]:
  "a_cursor (start_head ow A) = a_cursor A" "a_baseline (start_head ow A) = a_baseline A"
  "a_version (start_head ow A) = a_version A"
  by (simp_all add: start_head_def head_defs fresh_head_def split: option.splits)

lemma owner_inv_start: "owner_inv (start_head ow A) = owner_inv A"
  unfolding owner_inv_def start_head_sel
  by (rule inv_upto_cong) (simp_all, simp_all add: start_head_def)

lemma owner_inv_first_lineage:
  assumes inv: "owner_inv A" and h: "a_head A = Some h" "hd_baseline h = None"
  shows "owner_inv (A\<lparr>a_head := Some (h\<lparr>hd_baseline := Some b, hd_version := 0,
    hd_updated_at_ms := t, hd_progress_day := d\<rparr>)\<rparr>)"
proof -
  have "hd_cursor h = 0" "a_archive A = Map.empty" "a_archive_heads A = Map.empty" "a_resolutions A = Map.empty"
    using inv h by (simp_all add: owner_inv_def inv_upto_def blank_ok_def head_defs)
  with inv h log_ok_zero [of A] show ?thesis
    by (simp add: owner_inv_def inv_upto_def inv_defs head_defs latest_def)
qed

section \<open>One mutation\<close>

lemma inv_upto_receipt:
  assumes inv: "inv_upto w A" and e: "a_recs A k = Some e"
    and rc: "rc = \<lparr>rc_op_id = i, rc_server_cursor = c_cursor e, rc_conflict = True, rc_applied = False\<rparr>"
  shows "inv_upto w (note_receipt A rc)"
proof -
  have "\<exists>ch. a_ops A (c_cursor e) = Some ch"
    using inv e by (intro latest_op [of A k]) (simp add: inv_upto_def records_ok_def)
  with inv show ?thesis
    by (auto simp: inv_upto_def inv_defs latest_def note_receipt_def head_defs rc)
qed

text \<open>Accepting the change with the next cursor.\<close>

lemma accept_change_sel [simp]:
  "a_baseline (accept_change A ch rc) = a_baseline A" "a_version (accept_change A ch rc) = a_version A"
  "a_archive (accept_change A ch rc) = a_archive A" "a_resolutions (accept_change A ch rc) = a_resolutions A"
  "a_archive_heads (accept_change A ch rc) = a_archive_heads A"
  "a_ops (accept_change A ch rc) = (a_ops A)(c_cursor ch \<mapsto> ch)"
  "a_head (accept_change A ch rc) = None \<longleftrightarrow> a_head A = None"
  "a_head A \<noteq> None \<Longrightarrow> a_cursor (accept_change A ch rc) = c_cursor ch"
  by (auto simp: accept_change_def head_defs split: option.splits)

lemma log_ok_accept:
  assumes "log_ok A" "c_cursor ch = a_cursor A + 1" "a_cursor A \<noteq> - 1" "a_head A \<noteq> None"
  shows "log_ok (accept_change A ch rc)"
  using assms word_le_Suc_iff [OF assms(3)] unat_Suc_word [OF assms(3)]
  by (auto simp: log_ok_def word_gt_0 unat_eq_0)

lemma records_ok_accept:
  assumes rec: "records_ok A" and log: "log_ok A" and c: "c_cursor ch = a_cursor A + 1"
    and n: "a_cursor A \<noteq> - 1"
  shows "records_ok (accept_change A ch rc)"
proof -
  let ?k = "pad_key (c_entity_key ch)" and ?B = "accept_change A ch rc"
  have below: "a_ops A d = Some x \<Longrightarrow> d \<le> a_cursor A \<and> d \<noteq> a_cursor A + 1" for d x
    using log_ok_bound [OF log] word_less_Suc [OF n] by (metis not_le)
  have recs: "a_recs ?B = (a_recs A)(?k \<mapsto> stored_record (a_recs A ?k) ch)"
    by (simp add: accept_change_def)
  have key: "pad_key (c_entity_key (stored_record (a_recs A ?k) ch)) = ?k"
    using rec by (auto simp: stored_record_def records_ok_def latest_def split: option.splits)
  have "latest ?B k e" if "a_recs ?B k = Some e" for k e
  proof (cases "k = ?k")
    case True
    then have e: "e = stored_record (a_recs A ?k) ch" using that by (simp add: recs)
    then have "c_cursor e = c_cursor ch" "e = ch\<lparr>c_entity_key := c_entity_key e\<rparr>"
      by (auto simp: stored_record_def split: option.splits)
    with True key e below c word_le_Suc_iff [OF n] show ?thesis
      by (auto simp: latest_def)
  next
    case False
    with that have "latest A k e" using rec by (simp add: recs records_ok_def)
    with False below c show ?thesis by (auto simp: latest_def)
  qed
  moreover have "a_recs ?B (pad_key (c_entity_key x)) \<noteq> None" if "a_ops ?B d = Some x" for d x
    using that rec by (auto simp: recs records_ok_def split: if_splits)
  ultimately show ?thesis by (auto simp: records_ok_def)
qed

lemma receipts_ok_accept:
  assumes "receipts_ok A" "log_ok A" "c_cursor ch = a_cursor A + 1" "a_cursor A \<noteq> - 1"
    and "rc = \<lparr>rc_op_id = c_op_id ch, rc_server_cursor = c_cursor ch, rc_conflict = False, rc_applied = True\<rparr>"
  shows "receipts_ok (accept_change A ch rc)"
proof -
  have "a_ops A (c_cursor ch) = None"
    using log_ok_next [OF assms(2,4)] assms(3) by simp
  have "rc_op_id r = i \<and> rc_conflict r = (\<not> rc_applied r) \<and>
      (\<exists>x. a_ops (accept_change A ch rc) (rc_server_cursor r) = Some x \<and> (rc_applied r \<longrightarrow> c_op_id x = i))"
    if r: "a_receipts (accept_change A ch rc) i = Some r" for i r
  proof (cases "i = rc_op_id rc")
    case True
    with r have "r = rc" by (simp add: accept_change_def)
    with True show ?thesis by (simp add: assms(5))
  next
    case False
    with r have "a_receipts A i = Some r" by (simp add: accept_change_def)
    with assms(1) obtain x where "rc_op_id r = i" "rc_conflict r = (\<not> rc_applied r)"
      "a_ops A (rc_server_cursor r) = Some x" "rc_applied r \<longrightarrow> c_op_id x = i"
      unfolding receipts_ok_def by blast
    moreover from this \<open>a_ops A (c_cursor ch) = None\<close> have "rc_server_cursor r \<noteq> c_cursor ch" by auto
    ultimately show ?thesis by simp
  qed
  then show ?thesis by (simp add: receipts_ok_def)
qed

lemma inv_upto_accept:
  assumes inv: "inv_upto w A" and c: "c_cursor ch = a_cursor A + 1" and n: "a_cursor A \<noteq> - 1"
    and h: "a_head A \<noteq> None" and b: "a_baseline A \<noteq> None"
    and rc: "rc = \<lparr>rc_op_id = c_op_id ch, rc_server_cursor = c_cursor ch, rc_conflict = False, rc_applied = True\<rparr>"
  shows "inv_upto w (accept_change A ch rc)"
proof -
  have "w \<le> c_cursor ch" "\<not> c_cursor ch \<le> w"
    using inv word_less_Suc [OF n] c by (auto simp: inv_upto_def)
  with inv h show ?thesis
    using log_ok_accept [OF _ c n h] records_ok_accept [OF _ _ c n] receipts_ok_accept [OF _ _ c n rc] b
    by (auto simp: inv_upto_def archive_ok_def heads_ok_def blank_ok_def resolutions_ok_def)
qed

lemma decides_inv:
  assumes "decides device now A m d A'" and "inv_upto w A" and "a_head A \<noteq> None" and "a_baseline A \<noteq> None"
  shows "inv_upto w A' \<and> a_head A' \<noteq> None \<and> a_baseline A' = a_baseline A \<and> a_version A' = a_version A"
  using assms
proof cases
  case (replayed rc ch)
  with assms show ?thesis by simp
next
  case (accepted ch rc)
  then have "inv_upto w (accept_change A ch rc)"
    using assms by (intro inv_upto_accept) (simp_all add: mutation_change_def)
  with accepted assms(3) show ?thesis by (simp add: accept_change_def head_defs split: option.splits)
next
  case (superseded e rc)
  with inv_upto_receipt [OF assms(2) superseded(5) superseded(7)] assms(3) show ?thesis
    by (simp add: note_receipt_def head_defs)
qed

lemma decide_all_inv:
  assumes "decide_all device now A ms ds A'" and "inv_upto w A" and "a_head A \<noteq> None" and "a_baseline A \<noteq> None"
  shows "inv_upto w A' \<and> a_head A' \<noteq> None \<and> a_baseline A' = a_baseline A \<and> a_version A' = a_version A"
  using assms
proof (induction rule: decide_all.induct)
  case (more A m d A1 ms ds A2)
  from decides_inv [OF more.hyps(1) more.prems] more.prems more.IH show ?case by simp
qed simp

section \<open>Closing a batch\<close>

text \<open>The accepted changes of a batch are the operations it appended.\<close>

lemma decides_ops:
  assumes "decides device now A m d A'" and "log_ok A" and "a_head A \<noteq> None"
  shows "log_ok A' \<and> a_cursor A \<le> a_cursor A' \<and> a_head A' \<noteq> None
    \<and> (\<forall>c. a_ops A' c = (if d_verdict d = Accepted \<and> c = c_cursor (d_change d) then Some (d_change d) else a_ops A c))
    \<and> (d_verdict d = Accepted \<longrightarrow> c_cursor (d_change d) = a_cursor A' \<and> a_cursor A' = a_cursor A + 1
         \<and> a_cursor A \<noteq> - 1)
    \<and> (d_verdict d \<noteq> Accepted \<longrightarrow> a_cursor A' = a_cursor A)"
  using assms
proof cases
  case (replayed rc ch)
  with assms show ?thesis by simp
next
  case (accepted ch rc)
  then have c: "c_cursor ch = a_cursor A + 1" by (simp add: mutation_change_def)
  from c assms(3) log_ok_accept [OF assms(2) c accepted(6) assms(3), of rc]
    word_less_Suc [OF accepted(6)]
  show ?thesis by (simp add: accepted(1,2,6))
next
  case (superseded e rc)
  with assms show ?thesis by (simp add: note_receipt_def log_ok_def head_defs)
qed

lemma decide_all_ops:
  assumes "decide_all device now A ms ds A'" and "log_ok A" and "a_head A \<noteq> None"
  shows "log_ok A' \<and> a_cursor A \<le> a_cursor A' \<and> a_head A' \<noteq> None
    \<and> unat (a_cursor A') = unat (a_cursor A) + length (accepted_changes ds)
    \<and> (\<forall>ch \<in> set (accepted_changes ds). a_cursor A < c_cursor ch)
    \<and> (\<forall>c. a_ops A' c = (if c \<le> a_cursor A then a_ops A c
           else map_of (map (\<lambda>ch. (c_cursor ch, ch)) (accepted_changes ds)) c))"
  using assms
proof (induction rule: decide_all.induct)
  case (none A)
  then show ?case using log_ok_bound [of A] by (auto simp: not_le) (metis not_None_eq not_le)
next
  case (more A m d A1 ms ds A2)
  note one = decides_ops [OF more.hyps(1) more.prems]
  note rest = more.IH [OF one [THEN conjunct1]]
  show ?case
  proof (cases "d_verdict d = Accepted")
    case True
    let ?ch = "d_change d"
    have c: "c_cursor ?ch = a_cursor A + 1" "a_cursor A1 = a_cursor A + 1" and n: "a_cursor A \<noteq> - 1"
      using one True by simp_all
    have "a_ops A2 x = (if x \<le> a_cursor A then a_ops A x
        else map_of (map (\<lambda>ch. (c_cursor ch, ch)) (accepted_changes (d # ds))) x)" for x
      using one rest True c n word_le_Suc_iff [OF n, of x] word_less_Suc [OF n] by auto
    then show ?thesis using one rest True c n unat_Suc_word [OF n] word_less_Suc [OF n]
      by (auto intro: less_trans)
  next
    case False
    with one rest show ?thesis by auto
  qed
qed

lemma publish_batch_sel [simp]:
  "a_ops (publish_batch A l chs ev) = a_ops A" "a_recs (publish_batch A l chs ev) = a_recs A"
  "a_receipts (publish_batch A l chs ev) = a_receipts A"
  "a_resolutions (publish_batch A l chs ev) = a_resolutions A"
  "a_archive (publish_batch A l chs ev) = a_archive A ++ archived (ln_baseline_id l) chs"
  "a_archive_heads (publish_batch A l chs ev) = (a_archive_heads A)(ln_baseline_id l \<mapsto>
       \<lparr>ah_cursor = a_cursor A, ah_version = ln_version l, ah_updated_at_ms = ln_updated_at_ms l\<rparr>)"
  "a_events (publish_batch A l chs ev) = a_events A @ [ev]"
  "a_cursor (publish_batch A l chs ev) = a_cursor A"
  "a_baseline (publish_batch A l chs ev) = a_baseline A"
  "a_head A \<noteq> None \<Longrightarrow> a_version (publish_batch A l chs ev) = ln_version l"
  by (auto simp: publish_batch_def head_defs split: option.splits)

lemma publish_batch_inv:
  assumes inv: "inv_upto w A" and b: "a_baseline A = Some b" and l: "ln_baseline_id l = b"
    "ln_version l = a_version A + 1" and v: "a_version A \<noteq> - 1" and w: "w < a_cursor A"
    and ops: "\<And>c. a_ops A c = (if c \<le> w then a_ops A c
        else map_of (map (\<lambda>ch. (c_cursor ch, ch)) chs) c)"
    and below: "\<And>ch. ch \<in> set chs \<Longrightarrow> w < c_cursor ch"
  shows "owner_inv (publish_batch A l chs ev)"
proof -
  let ?B = "publish_batch A l chs ev"
  have h: "a_head A \<noteq> None" using b by (auto simp: a_baseline_def split: option.splits)
  have parts: "log_ok A" "records_ok A" "receipts_ok A" "archive_ok w A" "heads_ok w A" "resolutions_ok A"
    using inv by (simp_all add: inv_upto_def)
  have le: "c \<le> a_cursor A" if "a_ops A c \<noteq> None" for c using that parts(1) by (simp add: log_ok_def)
  have arch: "a_archive ?B (b, c) = (if c \<le> a_cursor A then a_ops A c else None)" for c
  proof (cases "c \<le> w")
    case True
    then have "map_of (map (\<lambda>ch. (c_cursor ch, ch)) chs) c = None"
      using below by (force simp: map_of_eq_None_iff)
    with True parts(4) b w show ?thesis by (auto simp: archive_ok_def archived_def map_add_def l)
  next
    case False
    then have "a_archive A (b, c) = None" using parts(4) b by (simp add: archive_ok_def)
    moreover have "a_ops A c = map_of (map (\<lambda>ch. (c_cursor ch, ch)) chs) c" using ops [of c] False by simp
    ultimately show ?thesis using le [of c]
      by (auto simp: archived_def map_add_def l split: option.splits)
  qed
  have other: "a_archive ?B (b', c) = a_archive A (b', c)" if "b' \<noteq> b" for b' c
    using that by (simp add: archived_def map_add_def l)
  have "archive_ok (a_cursor A) ?B"
    using arch other parts(4) b by (auto simp: archive_ok_def l simp del: publish_batch_sel(5))
  moreover have "heads_ok (a_cursor A) ?B"
    using parts(5) b l v w h word_le_Suc_iff [OF v] word_less_Suc [OF v] unat_Suc_word [OF v]
    by (auto simp: heads_ok_def word_less_nat_alt word_le_nat_alt unat_eq_0 [symmetric])
  moreover have "resolutions_ok ?B"
    using parts(6) h l(2) by (auto simp: resolutions_ok_def word_le_Suc_iff [OF v])
  moreover have "log_ok ?B \<and> records_ok ?B \<and> receipts_ok ?B"
    using parts(1-3) by (simp add: log_ok_def records_ok_def latest_def receipts_ok_def)
  ultimately show ?thesis using b by (simp add: owner_inv_def inv_upto_def blank_ok_def)
qed

section \<open>A new baseline from a snapshot\<close>

lemma accept_place: "accept_change A ch rc = note_receipt (place_change A ch) rc"
  by (simp add: accept_change_def note_receipt_def place_change_def)

lemma note_receipt_ok [simp]:
  "log_ok (note_receipt A rc) = log_ok A" "records_ok (note_receipt A rc) = records_ok A"
  by (simp_all add: note_receipt_def log_ok_def records_ok_def latest_def head_defs)

lemma place_change_ok:
  assumes "log_ok A" "records_ok A" "a_head A \<noteq> None" "a_cursor A \<noteq> - 1" "c_cursor ch = a_cursor A + 1"
  shows "log_ok (place_change A ch)" "records_ok (place_change A ch)"
  using log_ok_accept [OF assms(1,5,4,3)] records_ok_accept [OF assms(2,1,5,4)] by (simp_all add: accept_place)

lemma place_change_sel [simp]:
  "a_ops (place_change A ch) = (a_ops A)(c_cursor ch \<mapsto> ch)"
  "a_receipts (place_change A ch) = a_receipts A" "a_resolutions (place_change A ch) = a_resolutions A"
  "a_head (place_change A ch) = None \<longleftrightarrow> a_head A = None"
  "a_head A \<noteq> None \<Longrightarrow> a_cursor (place_change A ch) = c_cursor ch"
  by (auto simp: place_change_def head_defs split: option.splits)

lemma unat_max_u64: "unat (- 1 :: u64) = 2 ^ 64 - 1"
  by (simp add: unsigned_minus_1_eq_mask mask_eq_exp_minus_1)

lemma fits_not_max: "unat c + length (m # ms) < 2 ^ 64 \<Longrightarrow> c \<noteq> (- 1 :: u64)"
  using unat_max_u64 by auto

lemma number_snapshot_above:
  "unat c + length ms < 2 ^ 64 \<Longrightarrow> ch \<in> set (number_snapshot now c ms) \<Longrightarrow> c < c_cursor ch"
proof (induction ms arbitrary: c)
  case (Cons m ms)
  note n = fits_not_max [OF Cons.prems(1)]
  with Cons.IH [of "c + 1"] Cons.prems word_less_Suc [OF n] show ?case
    by (auto simp: mutation_change_def unat_Suc_word intro: less_trans)
qed simp

lemma place_all_ok:
  assumes "log_ok A" "records_ok A" "a_head A \<noteq> None"
    and "unat (a_cursor A) + length ms < 2 ^ 64"
  shows "log_ok (foldl place_change A (number_snapshot now (a_cursor A) ms))
    \<and> records_ok (foldl place_change A (number_snapshot now (a_cursor A) ms))
    \<and> a_head (foldl place_change A (number_snapshot now (a_cursor A) ms)) \<noteq> None
    \<and> unat (a_cursor (foldl place_change A (number_snapshot now (a_cursor A) ms)))
        = unat (a_cursor A) + length ms
    \<and> a_receipts (foldl place_change A (number_snapshot now (a_cursor A) ms)) = a_receipts A
    \<and> a_resolutions (foldl place_change A (number_snapshot now (a_cursor A) ms)) = a_resolutions A
    \<and> (\<forall>c. a_ops (foldl place_change A (number_snapshot now (a_cursor A) ms)) c =
        (if c \<le> a_cursor A then a_ops A c
         else map_of (map (\<lambda>ch. (c_cursor ch, ch)) (number_snapshot now (a_cursor A) ms)) c))"
  using assms
proof (induction ms arbitrary: A)
  case Nil
  then show ?case using log_ok_bound [of A] by (auto simp: not_le) (metis not_None_eq not_le)
next
  case (Cons m ms)
  define ch where "ch = mutation_change m (a_cursor A + 1) now"
  define B where "B = place_change A ch"
  note n = fits_not_max [OF Cons.prems(4)]
  have c: "c_cursor ch = a_cursor A + 1" by (simp add: ch_def mutation_change_def)
  have Bc: "a_cursor B = a_cursor A + 1" using Cons.prems(3) by (simp add: B_def c)
  have fits: "unat (a_cursor B) + length ms < 2 ^ 64" using Cons.prems(4) by (simp add: Bc unat_Suc_word [OF n])
  have B: "log_ok B" "records_ok B" "a_head B \<noteq> None"
    using place_change_ok [OF Cons.prems(1-3) n c] Cons.prems(3) by (simp_all add: B_def)
  note IH = Cons.IH [OF B fits, unfolded Bc]
  have step: "foldl place_change A (number_snapshot now (a_cursor A) (m # ms)) =
      foldl place_change B (number_snapshot now (a_cursor A + 1) ms)"
    by (simp add: B_def ch_def)
  have "(if x \<le> a_cursor A + 1 then a_ops B x
         else map_of (map (\<lambda>ch. (c_cursor ch, ch)) (number_snapshot now (a_cursor A + 1) ms)) x)
      = (if x \<le> a_cursor A then a_ops A x
         else map_of (map (\<lambda>ch. (c_cursor ch, ch)) (number_snapshot now (a_cursor A) (m # ms))) x)" for x
    using word_le_Suc_iff [OF n, of x] word_less_Suc [OF n] c by (auto simp: B_def simp flip: ch_def)
  then have ops: "\<forall>x. a_ops (foldl place_change B (number_snapshot now (a_cursor A + 1) ms)) x =
      (if x \<le> a_cursor A then a_ops A x
       else map_of (map (\<lambda>ch. (c_cursor ch, ch)) (number_snapshot now (a_cursor A) (m # ms))) x)"
    using IH by simp
  have "a_receipts B = a_receipts A" "a_resolutions B = a_resolutions A" by (simp_all add: B_def)
  with IH show ?case unfolding step using ops unat_Suc_word [OF n] by (intro conjI) simp_all
qed

text \<open>An invariant state is free of archived rows for a baseline without an archive head.\<close>

lemma cleared_ok:
  assumes "a_head A \<noteq> None"
  shows "log_ok (cleared A)" "records_ok (cleared A)" "a_head (cleared A) \<noteq> None" "a_cursor (cleared A) = 0"
    "a_ops (cleared A) = Map.empty" "a_receipts (cleared A) = Map.empty" "a_resolutions (cleared A) = Map.empty"
proof -
  show "a_ops (cleared A) = Map.empty" "a_receipts (cleared A) = Map.empty"
    "a_resolutions (cleared A) = Map.empty" by (simp_all add: cleared_def)
  show c: "a_cursor (cleared A) = 0" using assms by (auto simp: cleared_def a_cursor_def)
  show "log_ok (cleared A)" by (auto simp: log_ok_def c) (simp_all add: cleared_def)
  show "records_ok (cleared A)" by (simp add: records_ok_def cleared_def)
  show "a_head (cleared A) \<noteq> None" using assms by (auto simp: cleared_def)
qed

lemma replace_baseline_sel:
  assumes "a_head A \<noteq> None" and "length ms < 2 ^ 64" and "chs = number_snapshot now 0 ms"
    and B_def: "B = replace_baseline A l chs rs ev"
  shows "log_ok B" "records_ok B" "a_cursor B = of_nat (length ms)" "a_head B \<noteq> None"
    "a_baseline B = Some (ln_baseline_id l)" "a_version B = ln_version l"
    "a_receipts B = Map.empty" "a_resolutions B = [rs_request_id rs \<mapsto> rs]"
    "a_ops B = map_of (map (\<lambda>ch. (c_cursor ch, ch)) chs)"
    "a_archive B = a_archive A ++ archived (ln_baseline_id l) chs"
    "a_archive_heads B = (a_archive_heads A)(ln_baseline_id l \<mapsto> \<lparr>ah_cursor = rs_result_cursor rs,
          ah_version = ln_version l, ah_updated_at_ms = ln_updated_at_ms l\<rparr>)"
    "a_events B = a_events A @ [ev]"
    "a_recs B = a_recs (foldl place_change (cleared A) chs)"
proof -
  define C where "C = foldl place_change (cleared A) chs"
  note clr = cleared_ok [OF assms(1)]
  have P: "log_ok C" "records_ok C" "a_head C \<noteq> None" "unat (a_cursor C) = length ms"
    "a_receipts C = Map.empty" "a_resolutions C = Map.empty"
    and Pops: "a_ops C c = (if c \<le> 0 then None else map_of (map (\<lambda>ch. (c_cursor ch, ch)) chs) c)" for c
    using place_all_ok [OF clr(1-3), of ms now, unfolded clr(4), folded assms(3), folded C_def] assms(2)
    by (simp_all add: clr)
  then obtain hC where hC: "a_head C = Some hC" by blast
  then have hB: "a_head B = Some (hC\<lparr>hd_baseline := Some (ln_baseline_id l), hd_version := ln_version l,
            hd_updated_at_ms := ln_updated_at_ms l, hd_progress_day := ln_progress_day l\<rparr>)"
    by (simp add: B_def replace_baseline_def Let_def flip: C_def)
  have same: "a_ops B = a_ops C" "a_recs B = a_recs C" "a_receipts B = a_receipts C"
    "a_resolutions B = (a_resolutions C)(rs_request_id rs \<mapsto> rs)"
    by (simp_all add: B_def replace_baseline_def Let_def flip: C_def)
  have cur: "a_cursor B = a_cursor C" by (simp add: a_cursor_def hB hC)
  show "a_cursor B = of_nat (length ms)" using P(4) by (metis cur of_nat_unat ucast_id)
  show "log_ok B" using P(1) by (simp add: log_ok_def same cur)
  show "records_ok B" using P(2) by (simp add: records_ok_def latest_def same)
  show "a_head B \<noteq> None" "a_baseline B = Some (ln_baseline_id l)" "a_version B = ln_version l"
    by (simp_all add: hB a_baseline_def a_version_def)
  show "a_receipts B = Map.empty" "a_resolutions B = [rs_request_id rs \<mapsto> rs]" using P(5,6) by (simp_all add: same)
  have "c_cursor ch \<noteq> 0" if "ch \<in> set chs" for ch
    using number_snapshot_above [of 0 ms ch now] assms(2,3) that by auto
  then have "map_of (map (\<lambda>ch. (c_cursor ch, ch)) chs) 0 = None" by (force simp: map_of_eq_None_iff)
  then have "a_ops C c = map_of (map (\<lambda>ch. (c_cursor ch, ch)) chs) c" for c
    using Pops [of c] by (cases "c = 0") simp_all
  then show "a_ops B = map_of (map (\<lambda>ch. (c_cursor ch, ch)) chs)" by (simp add: same fun_eq_iff)
  show "a_archive B = a_archive A ++ archived (ln_baseline_id l) chs"
    "a_archive_heads B = (a_archive_heads A)(ln_baseline_id l \<mapsto> \<lparr>ah_cursor = rs_result_cursor rs,
          ah_version = ln_version l, ah_updated_at_ms = ln_updated_at_ms l\<rparr>)"
    "a_events B = a_events A @ [ev]" "a_recs B = a_recs (foldl place_change (cleared A) chs)"
    by (simp_all add: B_def replace_baseline_def Let_def)
qed

lemma replace_baseline_inv:
  assumes inv: "owner_inv A" and h: "a_head A \<noteq> None" and small: "length ms < 2 ^ 64"
    and chs: "chs = number_snapshot now 0 ms"
    and fresh: "a_archive_heads A (ln_baseline_id l) = None"
    and l: "ln_version l = (if chs = [] then 0 else 1)"
    and rs: "rs_result_baseline_id rs = ln_baseline_id l" "rs_result_version rs = ln_version l"
      "rs_result_cursor rs = of_nat (length ms)"
  shows "owner_inv (replace_baseline A l chs rs ev)"
proof -
  let ?B = "replace_baseline A l chs rs ev"
  note sel = replace_baseline_sel [OF h small chs refl, of l rs ev]
  have arch: "archive_ok (a_cursor A) A" using inv by (simp add: owner_inv_def inv_upto_def)
  then have none: "a_archive A (ln_baseline_id l, c) = None" for c
    using fresh unfolding archive_ok_def by blast
  have le: "c \<le> a_cursor ?B" if "a_ops ?B c = Some x" for c x
    using log_ok_bound [OF sel(1) that] by simp
  have mine: "a_archive ?B (ln_baseline_id l, c) = (if c \<le> a_cursor ?B then a_ops ?B c else None)" for c
    using none le [of c] by (cases "a_ops ?B c") (auto simp: sel(10) archived_def map_add_def sel(9))
  have "archive_ok (a_cursor ?B) ?B"
    unfolding archive_ok_def
  proof (intro conjI allI impI)
    fix b c assume "a_baseline ?B = Some b"
    with mine show "a_archive ?B (b, c) = (if c \<le> a_cursor ?B then a_ops ?B c else None)" by (simp add: sel(5))
  next
    fix b c assume "a_archive ?B (b, c) \<noteq> None"
    then show "a_archive_heads ?B b \<noteq> None"
      using arch [unfolded archive_ok_def, THEN conjunct2, rule_format, of b c]
      by (cases "b = ln_baseline_id l") (auto simp: sel(10,11) archived_def map_add_def)
  qed
  moreover have "heads_ok (a_cursor ?B) ?B"
  proof -
    have "of_nat (length ms) = (0 :: u64) \<longleftrightarrow> ms = []"
      using small by (auto simp: word_of_nat_eq_0_iff dest: dvd_imp_le)
    moreover have "chs = [] \<longleftrightarrow> ms = []" by (cases ms) (simp_all add: chs)
    moreover have "of_nat (length ms) \<noteq> (0 :: u64) \<Longrightarrow> 1 \<le> (of_nat (length ms) :: u64)"
      by (simp add: word_le_nat_alt) (metis One_nat_def Suc_leI neq0_conv unat_eq_zero)
    ultimately show ?thesis by (auto simp: heads_ok_def sel l rs)
  qed
  ultimately show ?thesis using sel(1,2)
    by (simp add: owner_inv_def inv_upto_def receipts_ok_def blank_ok_def resolutions_ok_def sel(5-8) rs)
qed

section \<open>The transactions keep the invariant\<close>

text \<open>A state of the tables in which a transaction on an owner with a baseline can go on.\<close>

definition tx_ok :: "string \<Rightarrow> db \<Rightarrow> bool" where
  "tx_ok ow s \<longleftrightarrow> db_ok s \<and> owner_inv (abs_owner ow s) \<and> a_head (abs_owner ow s) \<noteq> None"

lemma tx_ok_start: "db_ok s \<Longrightarrow> owner_inv (abs_owner ow s) \<Longrightarrow> tx_ok ow (started ow now s)"
  using started_only [of ow s now]
  by (simp add: tx_ok_def started_abs owner_inv_start only_owner_def) (simp add: start_head_def)

lemma ensure_lineage_inv:
  assumes run: "ensure_lineage sv ow requested s = Inr (l, s1)" and ok: "tx_ok ow s"
  shows "tx_ok ow s1" "a_baseline (abs_owner ow s1) = Some (ln_baseline_id l)"
    "a_version (abs_owner ow s1) = ln_version l" "a_cursor (abs_owner ow s1) = a_cursor (abs_owner ow s)"
    "a_baseline (abs_owner ow s) \<noteq> None \<Longrightarrow> s1 = s"
    "a_baseline (abs_owner ow s) = None \<Longrightarrow> ln_baseline_id l = requested"
    "a_archive_heads (abs_owner ow s1) = a_archive_heads (abs_owner ow s)"
    "a_ops (abs_owner ow s1) = a_ops (abs_owner ow s)" "a_recs (abs_owner ow s1) = a_recs (abs_owner ow s)"
    "a_receipts (abs_owner ow s1) = a_receipts (abs_owner ow s)"
    "a_resolutions (abs_owner ow s1) = a_resolutions (abs_owner ow s)"
proof -
  have dbok: "db_ok s" and inv: "owner_inv (abs_owner ow s)" using ok by (simp_all add: tx_ok_def)
  obtain h where h: "a_head (abs_owner ow s) = Some h" using ok by (auto simp: tx_ok_def)
  note E = ensure_lineage_refines [OF run dbok h]
  have ok1: "db_ok s1" using methods_ok [OF framed.ensure_lineage run dbok] .
  have "tx_ok ow s1 \<and> a_baseline (abs_owner ow s1) = Some (ln_baseline_id l)
    \<and> a_version (abs_owner ow s1) = ln_version l \<and> a_cursor (abs_owner ow s1) = a_cursor (abs_owner ow s)
    \<and> (a_baseline (abs_owner ow s) \<noteq> None \<longrightarrow> s1 = s)
    \<and> (a_baseline (abs_owner ow s) = None \<longrightarrow> ln_baseline_id l = requested)
    \<and> (\<exists>h'. abs_owner ow s1 = (abs_owner ow s)\<lparr>a_head := Some h'\<rparr>)"
  proof (cases "hd_baseline h")
    case (Some b)
    have "abs_owner ow s = (abs_owner ow s)\<lparr>a_head := Some h\<rparr>" using h by simp
    then have "\<exists>h'. abs_owner ow s = (abs_owner ow s)\<lparr>a_head := Some h'\<rparr>" by (rule exI)
    moreover have "s1 = s" "l = row_lineage h" using E Some by simp_all
    ultimately show ?thesis using ok h Some by (simp add: head_defs row_lineage_def)
  next
    case None
    have c: "hd_cursor h = 0" "hd_version h = 0"
      using inv None h by (simp_all add: owner_inv_def inv_upto_def blank_ok_def head_defs)
    from E None c obtain day where s1: "abs_owner ow s1 = (abs_owner ow s)\<lparr>a_head :=
        Some (h\<lparr>hd_baseline := Some (ln_baseline_id l), hd_version := 0,
          hd_updated_at_ms := ln_updated_at_ms l, hd_progress_day := day\<rparr>)\<rparr>"
      and l: "ln_version l = 0" "ln_baseline_id l = requested" by auto
    from s1 have "\<exists>h'. abs_owner ow s1 = (abs_owner ow s)\<lparr>a_head := Some h'\<rparr>" by (rule exI)
    moreover have "tx_ok ow s1" "a_cursor (abs_owner ow s1) = a_cursor (abs_owner ow s)"
      using owner_inv_first_lineage [OF inv h None] ok1 h by (simp_all add: tx_ok_def s1 a_cursor_def)
    ultimately show ?thesis using l h None by (simp add: s1 a_baseline_def a_version_def)
  qed
  then show "tx_ok ow s1" "a_baseline (abs_owner ow s1) = Some (ln_baseline_id l)"
    "a_version (abs_owner ow s1) = ln_version l" "a_cursor (abs_owner ow s1) = a_cursor (abs_owner ow s)"
    "a_baseline (abs_owner ow s) \<noteq> None \<Longrightarrow> s1 = s"
    "a_baseline (abs_owner ow s) = None \<Longrightarrow> ln_baseline_id l = requested"
    "a_archive_heads (abs_owner ow s1) = a_archive_heads (abs_owner ow s)"
    "a_ops (abs_owner ow s1) = a_ops (abs_owner ow s)" "a_recs (abs_owner ow s1) = a_recs (abs_owner ow s)"
    "a_receipts (abs_owner ow s1) = a_receipts (abs_owner ow s)"
    "a_resolutions (abs_owner ow s1) = a_resolutions (abs_owner ow s)"
    by auto
qed

text \<open>A whole batch, applied and closed.\<close>

lemma batch_refines:
  assumes a: "apply_mutations ow device ms (sv_now sv) s = Inr (b, s1)"
    and f: "finalize_mutation_batch sv md ow l b s1 = Inr ((l', head), s2)"
    and ok: "tx_ok ow s" and base: "a_baseline (abs_owner ow s) = Some (ln_baseline_id l)"
    and ver: "a_version (abs_owner ow s) = ln_version l"
  shows "\<exists>ds. decide_all device (sv_now sv) (abs_owner ow s) ms ds (abs_owner ow s1) \<and> b = batch_of ds
    \<and> head = a_cursor (abs_owner ow s1)
    \<and> (if accepted_changes ds = [] then s2 = s1 \<and> l' = l
       else \<exists>rs day d. set rs = ran (a_recs (abs_owner ow s1))
         \<and> derive_progress_day (sv_json sv) (map Some rs) = Inr d \<and> text_column 64 d = Inr day
         \<and> ln_version l \<noteq> - 1
         \<and> l' = \<lparr>ln_baseline_id = ln_baseline_id l, ln_version = ln_version l + 1,
                ln_updated_at_ms = sv_now sv, ln_progress_day = day\<rparr>
         \<and> abs_owner ow s2 = publish_batch (abs_owner ow s1) l' (accepted_changes ds)
             (outbox_row_of ow (sync_hint md l' head (sv_now sv)) (db_next_event s1)))"
proof -
  have dbok: "db_ok s" using ok by (simp add: tx_ok_def)
  from apply_mutations_refines [OF a dbok] obtain ds where
    ds: "decide_all device (sv_now sv) (abs_owner ow s) ms ds (abs_owner ow s1)" "b = batch_of ds" by blast
  have ok1: "db_ok s1" using methods_ok [OF framed.apply_mutations a dbok] .
  note D = decide_all_inv [OF ds(1), of "a_cursor (abs_owner ow s)"]
  have "a_head (abs_owner ow s1) \<noteq> None" and b1: "a_baseline (abs_owner ow s1) = Some (ln_baseline_id l)"
    and v1: "a_version (abs_owner ow s1) = ln_version l"
    using D ok base ver by (simp_all add: tx_ok_def owner_inv_def)
  then obtain h where h: "a_head (abs_owner ow s1) = Some h" by blast
  have hb: "hd_baseline h = Some (ln_baseline_id l)" and hv: "hd_version h = ln_version l"
    using b1 v1 h by (simp_all add: head_defs)
  note F = finalize_refines [OF f [unfolded ds(2)] ok1 h hb]
  have "head = a_cursor (abs_owner ow s1)" using F h by (simp add: a_cursor_def)
  with F ds show ?thesis
    by (intro exI [of _ ds] conjI) (auto simp: hv dest: list_records_set(2) [OF ok1] split: if_splits)
qed

lemma batch_inv:
  assumes a: "apply_mutations ow device ms (sv_now sv) s = Inr (b, s1)"
    and f: "finalize_mutation_batch sv md ow l b s1 = Inr ((l', head), s2)"
    and ok: "tx_ok ow s" and base: "a_baseline (abs_owner ow s) = Some (ln_baseline_id l)"
    and ver: "a_version (abs_owner ow s) = ln_version l"
  shows "tx_ok ow s2"
proof -
  let ?A = "abs_owner ow s" and ?A1 = "abs_owner ow s1"
  from batch_refines [OF assms] obtain ds where ds: "decide_all device (sv_now sv) ?A ms ds ?A1"
    and F: "(if accepted_changes ds = [] then s2 = s1 \<and> l' = l
       else \<exists>rs day d. set rs = ran (a_recs (abs_owner ow s1))
         \<and> derive_progress_day (sv_json sv) (map Some rs) = Inr d \<and> text_column 64 d = Inr day
         \<and> ln_version l \<noteq> - 1
         \<and> l' = \<lparr>ln_baseline_id = ln_baseline_id l, ln_version = ln_version l + 1,
                ln_updated_at_ms = sv_now sv, ln_progress_day = day\<rparr>
         \<and> abs_owner ow s2 = publish_batch (abs_owner ow s1) l' (accepted_changes ds)
             (outbox_row_of ow (sync_hint md l' head (sv_now sv)) (db_next_event s1)))"
    by blast
  then have F: "if accepted_changes ds = [] then s2 = s1 \<and> l' = l
       else ln_version l \<noteq> - 1 \<and> ln_baseline_id l' = ln_baseline_id l \<and> ln_version l' = ln_version l + 1
         \<and> (\<exists>ev. abs_owner ow s2 = publish_batch ?A1 l' (accepted_changes ds) ev)"
    by (cases "accepted_changes ds = []") auto
  have dbok: "db_ok s" and inv: "inv_upto (a_cursor ?A) ?A" and h: "a_head ?A \<noteq> None"
    using ok by (simp_all add: tx_ok_def owner_inv_def)
  have ok1: "db_ok s1" using methods_ok [OF framed.apply_mutations a dbok] .
  have ok2: "db_ok s2" using methods_ok [OF framed.finalize_mutation_batch f ok1] .
  note D = decide_all_inv [OF ds inv h]
  have inv1: "inv_upto (a_cursor ?A) ?A1" and h1: "a_head ?A1 \<noteq> None"
    and b1: "a_baseline ?A1 = Some (ln_baseline_id l)" and v1: "a_version ?A1 = ln_version l"
    using D base ver by simp_all
  have "log_ok ?A" using inv by (simp add: inv_upto_def)
  note O = decide_all_ops [OF ds this h]
  show ?thesis
  proof (cases "accepted_changes ds = []")
    case True
    then have "unat (a_cursor ?A1) = unat (a_cursor ?A)" using O by simp
    then have "a_cursor ?A1 = a_cursor ?A" by (simp add: word_unat_eq_iff)
    with F True inv1 h1 ok1 show ?thesis by (simp add: tx_ok_def owner_inv_def)
  next
    case False
    with F obtain ev where A2: "abs_owner ow s2 = publish_batch ?A1 l' (accepted_changes ds) ev"
      and l': "ln_version l \<noteq> - 1" "ln_baseline_id l' = ln_baseline_id l" "ln_version l' = ln_version l + 1" by auto
    have "0 < length (accepted_changes ds)" using False by simp
    then have "unat (a_cursor ?A) < unat (a_cursor ?A1)" using O by linarith
    then have w: "a_cursor ?A < a_cursor ?A1" by (simp add: word_less_nat_alt)
    have "owner_inv (abs_owner ow s2)"
      unfolding A2
      by (rule publish_batch_inv [OF inv1 b1 l'(2) _ _ w]) (use O v1 l' in simp_all)
    moreover have "a_head (abs_owner ow s2) \<noteq> None" using h1 by (simp add: A2 publish_batch_def)
    ultimately show ?thesis using ok2 by (simp add: tx_ok_def)
  qed
qed

section \<open>Runs of the three transactions\<close>

lemma exchange_tx_run:
  assumes run: "exchange_tx sv md r s = Inr (res, s')" and ok: "tx_ok (md_owner_key md) s"
  obtains (mismatch) l where "ensure_lineage sv (md_owner_key md) (sr_baseline_id r) s = Inr (l, s')"
      "s' = s" "ln_baseline_id l \<noteq> sr_baseline_id r"
      "res = exchange_mismatch r l (a_cursor (abs_owner (md_owner_key md) s))"
  | (batch) l s1 b s2 l' head where
      "ensure_lineage sv (md_owner_key md) (sr_baseline_id r) s = Inr (l, s1)"
      "ln_baseline_id l = sr_baseline_id r"
      "apply_mutations (md_owner_key md) (sr_device_id r) (sr_mutations r) (sv_now sv) s1 = Inr (b, s2)"
      "finalize_mutation_batch sv md (md_owner_key md) l b s2 = Inr ((l', head), s')"
      "res = exchange_answer r b l' head (operations_after (md_owner_key md) (sr_cursor r)
               (normalized_pull_limit (sr_pull_limit r) + 1) s')"
proof -
  obtain l s1 where l: "ensure_lineage sv (md_owner_key md) (sr_baseline_id r) s = Inr (l, s1)"
    using run by (auto simp: exchange_tx_def Let_def elim: tx_bind_InrE)
  note E = ensure_lineage_inv [OF l ok]
  show thesis
  proof (cases "ln_baseline_id l = sr_baseline_id r")
    case False
    then have "s1 = s" using E(5,6) by blast
    with run l False mismatch [of l] show thesis
      by (auto simp: exchange_tx_def Let_def a_cursor_abs tx_bind_Inr)
  next
    case True
    with run l batch show thesis
      by (auto simp: exchange_tx_def Let_def a_cursor_abs tx_bind_Inr pull_operations_def)
  qed
qed

lemma diff_tx_run:
  assumes run: "diff_tx sv md r s = Inr (res, s')" and ok: "tx_ok (md_owner_key md) s"
  obtains (mismatch) l where "ensure_lineage sv (md_owner_key md) (dr_baseline_id r) s = Inr (l, s')"
      "s' = s" "ln_baseline_id l \<noteq> dr_baseline_id r"
      "res = diff_result_of r (diff_mismatch l (a_cursor (abs_owner (md_owner_key md) s))) False l
               (a_cursor (abs_owner (md_owner_key md) s))"
  | (batch) l s1 b s2 l' head where
      "ensure_lineage sv (md_owner_key md) (dr_baseline_id r) s = Inr (l, s1)"
      "ln_baseline_id l = dr_baseline_id r"
      "apply_mutations (md_owner_key md) (dr_device_id r) (dr_mutations r) (sv_now sv) s1 = Inr (b, s2)"
      "finalize_mutation_batch sv md (md_owner_key md) l b s2 = Inr ((l', head), s')"
      "validate_diff_response_size sv (diff_answer b l' head) = Inr ()"
      "res = diff_result_of r (diff_answer b l' head) (mb_applied b > 0) l' head"
proof -
  obtain l s1 where l: "ensure_lineage sv (md_owner_key md) (dr_baseline_id r) s = Inr (l, s1)"
    using run by (auto simp: diff_tx_def Let_def elim: tx_bind_InrE)
  note E = ensure_lineage_inv [OF l ok]
  show thesis
  proof (cases "ln_baseline_id l = dr_baseline_id r")
    case False
    then have "s1 = s" using E(5,6) by blast
    with run l False mismatch [of l] show thesis
      by (auto simp: diff_tx_def Let_def a_cursor_abs tx_bind_Inr)
  next
    case True
    with run l batch show thesis
      by (auto simp: diff_tx_def Let_def a_cursor_abs tx_bind_Inr)
  qed
qed

lemma exchange_tx_inv:
  assumes "exchange_tx sv md r s = Inr (res, s')" and ok: "tx_ok (md_owner_key md) s"
  shows "tx_ok (md_owner_key md) s'"
proof (cases rule: exchange_tx_run [OF assms, case_names mismatch batch])
  case (mismatch l)
  with ok show ?thesis by simp
next
  case (batch l s1 b s2 l' head)
  note E = ensure_lineage_inv [OF batch(1) ok]
  from batch_inv [OF batch(3,4) E(1-3)] show ?thesis .
qed

lemma diff_tx_inv:
  assumes "diff_tx sv md r s = Inr (res, s')" and ok: "tx_ok (md_owner_key md) s"
  shows "tx_ok (md_owner_key md) s'"
proof (cases rule: diff_tx_run [OF assms, case_names mismatch batch])
  case (mismatch l)
  with ok show ?thesis by simp
next
  case (batch l s1 b s2 l' head)
  note E = ensure_lineage_inv [OF batch(1) ok]
  from batch_inv [OF batch(3,4) E(1-3)] show ?thesis .
qed

text \<open>The fork id is unused: it is drawn from 128 random bits, so the code takes it to be new.\<close>

definition fork_unused :: "service \<Rightarrow> owner_state \<Rightarrow> bool" where
  "fork_unused sv A \<longleftrightarrow> (case sv_fork_baseline_id sv of
     Inl _ \<Rightarrow> True | Inr b \<Rightarrow> a_archive_heads A b = None)"

lemma use_local_inv:
  assumes run: "use_local sv md ow r s = Inr (res, s')" and ok: "tx_ok ow s"
    and fork: "fork_unused sv (abs_owner ow s)"
  shows "tx_ok ow s'"
proof -
  let ?A = "abs_owner ow s"
  have dbok: "db_ok s" and inv: "owner_inv ?A" and h: "a_head ?A \<noteq> None"
    using ok by (simp_all add: tx_ok_def)
  from use_local_refines [OF run dbok h] obtain rb chs l day rs ev stored where
    rb: "case a_archive_heads ?A (rr_local_baseline_id r) of
         None \<Rightarrow> rb = rr_local_baseline_id r | Some _ \<Rightarrow> sv_fork_baseline_id sv = Inr rb"
    and chs: "chs = number_snapshot (sv_now sv) 0 (sort_snapshot (rr_local_snapshot r))"
    and l: "l = \<lparr>ln_baseline_id = rb, ln_version = (if chs = [] then 0 else 1), ln_updated_at_ms = sv_now sv,
           ln_progress_day = day\<rparr>"
    and rs: "rs = new_resolution_receipt r l (of_nat (length chs))" and small: "length chs < 2 ^ 64"
    and s': "abs_owner ow s' = replace_baseline ?A (l\<lparr>ln_progress_day := stored\<rparr>) chs rs ev"
    by blast
  have fresh: "a_archive_heads ?A rb = None"
    using rb fork by (auto simp: fork_unused_def split: option.splits)
  have small': "length (sort_snapshot (rr_local_snapshot r)) < 2 ^ 64" using small by (simp add: chs)
  have "owner_inv (abs_owner ow s')"
    unfolding s' by (rule replace_baseline_inv [OF inv h small' chs])
      (simp_all add: l rs new_resolution_receipt_def fresh chs)
  moreover have "a_head (abs_owner ow s') \<noteq> None"
    unfolding s' by (rule replace_baseline_sel(4) [OF h small' chs refl])
  ultimately show ?thesis using methods_ok [OF framed.use_local run dbok] by (simp add: tx_ok_def)
qed

lemma insert_resolution_inv:
  assumes i: "insert_resolution_receipt ow rs s = Inr (u, s')" and ok: "tx_ok ow s"
    and b: "a_baseline (abs_owner ow s) = Some (rs_result_baseline_id rs)"
    and v: "rs_result_version rs \<le> a_version (abs_owner ow s)"
  shows "tx_ok ow s'"
  using insert_resolution_receipt_abs [OF i] methods_ok [OF insert_resolution_receipt_only i] ok b v
  by (auto simp: tx_ok_def owner_inv_def inv_upto_def inv_defs head_defs latest_def)

lemma resolve_tx_run:
  assumes run: "resolve_tx sv md r s = Inr (res, s')" and ok: "tx_ok (md_owner_key md) s"
  obtains (replay) l rs records current where
      "ensure_lineage sv (md_owner_key md) (rr_local_baseline_id r) s = Inr (l, s')"
      "a_resolutions (abs_owner (md_owner_key md) s') (rr_request_id r) = Some rs"
      "same_resolution_request rs r"
      "current \<longleftrightarrow> ln_baseline_id l = rs_result_baseline_id rs \<and> ln_version l = rs_result_version rs"
      "if current then list_records (md_owner_key md) s' = Inr (records, s') else records = []"
      "res = resolve_result_of (rr_device_id r) l (a_cursor (abs_owner (md_owner_key md) s')) records (\<not> current) False"
  | (stale) l where
      "ensure_lineage sv (md_owner_key md) (rr_local_baseline_id r) s = Inr (l, s')"
      "a_resolutions (abs_owner (md_owner_key md) s') (rr_request_id r) = None"
      "ln_baseline_id l \<noteq> rr_expected_server_baseline_id r \<or> ln_version l \<noteq> rr_expected_server_version r"
      "res = resolve_result_of (rr_device_id r) l (a_cursor (abs_owner (md_owner_key md) s')) [] True False"
  | (local) l s1 where
      "ensure_lineage sv (md_owner_key md) (rr_local_baseline_id r) s = Inr (l, s1)"
      "a_resolutions (abs_owner (md_owner_key md) s1) (rr_request_id r) = None"
      "ln_baseline_id l = rr_expected_server_baseline_id r" "ln_version l = rr_expected_server_version r"
      "rr_choice r = CHOICE_USE_LOCAL" "use_local sv md (md_owner_key md) r s1 = Inr (res, s')"
  | (server) l s1 rs records where
      "ensure_lineage sv (md_owner_key md) (rr_local_baseline_id r) s = Inr (l, s1)"
      "a_resolutions (abs_owner (md_owner_key md) s1) (rr_request_id r) = None"
      "ln_baseline_id l = rr_expected_server_baseline_id r" "ln_version l = rr_expected_server_version r"
      "rr_choice r \<noteq> CHOICE_USE_LOCAL"
      "rs = new_resolution_receipt r l (a_cursor (abs_owner (md_owner_key md) s1))"
      "insert_resolution_receipt (md_owner_key md) rs s1 = Inr ((), s')"
      "list_records (md_owner_key md) s' = Inr (records, s')"
      "res = resolve_result_of (rr_device_id r) l (a_cursor (abs_owner (md_owner_key md) s1)) records False False"
proof -
  let ?ow = "md_owner_key md"
  obtain l s1 where l: "ensure_lineage sv ?ow (rr_local_baseline_id r) s = Inr (l, s1)"
    using run by (auto simp: resolve_tx_def Let_def elim: tx_bind_InrE)
  note E = ensure_lineage_inv [OF l ok]
  have cur: "current_cursor ?ow s1 = Inr (a_cursor (abs_owner ?ow s1), s1)"
    using E(1) by (simp add: a_cursor_abs tx_ok_def)
  have found: "tx_found (get_resolution_receipt ?ow (rr_request_id r)) s1 =
      Inr (a_resolutions (abs_owner ?ow s1) (rr_request_id r), s1)" by (simp add: found_resolution)
  have records: "\<exists>rs. list_records ?ow t = Inr (rs, t)" for t by (rule list_records_total)
  note run' = run [unfolded resolve_tx_def Let_def]
  show thesis
  proof (cases "a_resolutions (abs_owner ?ow s1) (rr_request_id r)")
    case (Some rs)
    with run' l cur found replay [of l rs] show thesis
      by (auto simp: tx_bind_Inr list_records_def split: if_splits)
  next
    case None
    show thesis
    proof (cases "ln_baseline_id l = rr_expected_server_baseline_id r \<and> ln_version l = rr_expected_server_version r")
      case False
      with run' l cur found None stale [of l] show thesis by (auto simp: tx_bind_Inr)
    next
      case True
      with run' l cur found None local [of l s1] server [of l s1] show thesis
        by (cases "rr_choice r = CHOICE_USE_LOCAL") (auto simp: tx_bind_Inr list_records_def)
    qed
  qed
qed

lemma resolve_tx_inv:
  assumes "resolve_tx sv md r s = Inr (res, s')" and ok: "tx_ok (md_owner_key md) s"
    and fork: "fork_unused sv (abs_owner (md_owner_key md) s)"
  shows "tx_ok (md_owner_key md) s'"
proof (cases rule: resolve_tx_run [OF assms(1,2), case_names replay stale local server])
  case (replay l rs records current)
  from ensure_lineage_inv(1) [OF replay(1) ok] show ?thesis .
next
  case (stale l)
  from ensure_lineage_inv(1) [OF stale(1) ok] show ?thesis .
next
  case (local l s1)
  note E = ensure_lineage_inv [OF local(1) ok]
  have "fork_unused sv (abs_owner (md_owner_key md) s1)"
    using fork by (simp add: fork_unused_def E(7) split: sum.splits)
  from use_local_inv [OF local(6) E(1) this] show ?thesis .
next
  case (server l s1 rs records)
  note E = ensure_lineage_inv [OF server(1) ok]
  show ?thesis
    by (rule insert_resolution_inv [OF server(7) E(1)])
      (simp_all add: server(6) new_resolution_receipt_def E(2,3))
qed

section \<open>The calls of the service\<close>

text \<open>
  A step is a call of one of the three operations, by any user, with any request and any outcome of
  the database; reads do not change the state. The id that a fork of a baseline gets from the
  generator is taken to be unused. The histories of such steps, with the rounds of the publishers
  between them, are \<open>backend_reachable\<close> of \<open>OutboxSpec\<close>.
\<close>

inductive service_step :: "db \<Rightarrow> db \<Rightarrow> bool" where
  step_exchange: "exchange env sv md r s = (res, s') \<Longrightarrow> service_step s s'"
| step_diff: "diff env sv md r s = (res, s') \<Longrightarrow> service_step s s'"
| step_resolve: "resolve_baseline env sv md r s = (res, s') \<Longrightarrow>
    fork_unused sv (abs_owner (md_owner_key md) s) \<Longrightarrow> service_step s s'"

definition db_inv :: "db \<Rightarrow> bool" where
  "db_inv s \<longleftrightarrow> db_ok s \<and> (\<forall>ow. owner_inv (abs_owner ow s))"

lemma db_inv_tx: "db_inv s \<Longrightarrow> tx_ok ow (started ow now s)"
  by (simp add: db_inv_def tx_ok_start)

text \<open>An operation that only touches one owner keeps the whole invariant if it keeps that owner's.\<close>

lemma db_inv_step:
  assumes "db_inv s" and "only_owner ow s s'" and "s' = s \<or> tx_ok ow s'"
  shows "db_inv s'"
  using assms unfolding db_inv_def only_owner_def tx_ok_def by metis

lemma validated_run:
  assumes "(case v of Inl e \<Rightarrow> (Inl e, s) | Inr _ \<Rightarrow>
      (case request of None \<Rightarrow> (Inl e0, s)
       | Some r \<Rightarrow> with_owner_transaction env ow (fn r) s)) = (res, s')"
  shows "s' = s \<or> (\<exists>r a. request = Some r \<and> fn r (started ow (env_now env) s) = Inr (a, s'))"
  using assms with_owner_transaction_cases by (fastforce split: sum.splits option.splits)

lemma fork_unused_started: "fork_unused sv (abs_owner ow (started ow now s)) = fork_unused sv (abs_owner ow s)"
  by (simp add: fork_unused_def started_abs start_head_def split: sum.splits)

lemma service_step_inv:
  assumes "service_step s s'" and inv: "db_inv s"
  shows "db_inv s'"
  using assms(1)
proof cases
  case (step_exchange env sv md r res)
  from validated_run [OF this [unfolded exchange_def]]
  have "s' = s \<or> tx_ok (md_owner_key md) s'" using exchange_tx_inv db_inv_tx [OF inv] by blast
  with db_inv_step [OF inv operations_only(1) [OF step_exchange]] show ?thesis .
next
  case (step_diff env sv md r res)
  from validated_run [OF this [unfolded diff_def]]
  have "s' = s \<or> tx_ok (md_owner_key md) s'" using diff_tx_inv db_inv_tx [OF inv] by blast
  with db_inv_step [OF inv operations_only(2) [OF step_diff]] show ?thesis .
next
  case (step_resolve env sv md r res)
  from validated_run [OF step_resolve(1) [unfolded resolve_baseline_def]]
  have "s' = s \<or> tx_ok (md_owner_key md) s'"
    using resolve_tx_inv db_inv_tx [OF inv] fork_unused_started step_resolve(2) by metis
  with db_inv_step [OF inv operations_only(3) [OF step_resolve(1)]] show ?thesis .
qed

lemma db_inv_empty: "db_inv empty_db"
proof -
  have "owner_inv (abs_owner ow empty_db)" for ow
    by (auto simp: owner_inv_def inv_upto_def inv_defs head_defs abs_owner_def empty_db_def
        row_lookup_def fun_eq_iff)
  then show ?thesis by (simp add: db_inv_def db_ok_empty)
qed

end
