(* ===== verification/Completeness.thy ===== *)
theory Completeness
  imports Invariant "HOL-Library.Multiset"
begin

text \<open>
  The other half of the refinement: whenever the specification allows a step, the code takes it.
  So a batch fails only for the reasons the specification names (an invalid mutation, an
  operation id that an operation already has, an exhausted cursor) or because the progress day of
  the resulting records cannot be derived or stored.
\<close>

section \<open>The loop\<close>

lemma next_cursor_total:
  assumes "db_ok s" and "a_head (abs_owner ow s) \<noteq> None" and "a_cursor (abs_owner ow s) \<noteq> - 1"
  shows "\<exists>s'. next_cursor ow s = Inr (a_cursor (abs_owner ow s) + 1, s')"
  using assms by (auto simp: next_cursor_Inr a_cursor_def)

lemma append_operation_total:
  assumes "db_ok s" and "a_owned (abs_owner ow s)" and "a_ops (abs_owner ow s) (c_cursor ch) = None"
    and "\<And>c x. a_ops (abs_owner ow s) c = Some x \<Longrightarrow> c_op_id x \<noteq> c_op_id ch"
  shows "\<exists>s'. append_operation ow ch s = Inr ((), s')"
  using assms by (auto simp: append_operation_Inr)

lemma upsert_record_total: "a_owned (abs_owner ow s) \<Longrightarrow> \<exists>s'. upsert_record ow ch s = Inr ((), s')"
  by (simp add: upsert_record_Inr)

lemma settle_total:
  assumes "a_owned (abs_owner ow s)" and "a_receipts (abs_owner ow s) (rc_op_id rc) = None"
  shows "\<exists>s'. settle ow b rc ch s =
    Inr (b\<lparr>mb_acks := mb_acks b @ [receipt_ack rc], mb_canonical := mb_canonical b @ [ch]\<rparr>, s')"
  using assms by (simp add: settle_def tx_bind_Inr insert_receipt_Inr)

lemma decides_owned: "decides device now A m d A' \<Longrightarrow> a_owned A' = a_owned A \<and> (a_head A' = None \<longleftrightarrow> a_head A = None)"
  by (erule decides.cases) (auto simp: accept_change_def note_receipt_def)

lemma apply_mutation_complete:
  assumes d: "decides device now (abs_owner ow s) m d A'" and ok: "db_ok s"
    and own: "a_owned (abs_owner ow s)" and h: "a_head (abs_owner ow s) \<noteq> None"
  shows "\<exists>s'. apply_mutation ow device now b m s = Inr (note_decision b d, s') \<and> abs_owner ow s' = A'"
proof -
  let ?A = "abs_owner ow s"
  have v: "validate_mutation m device = Inr ()" using d by cases
  have pre: "tx_lift (validate_mutation m device) s = Inr ((), s)"
    "tx_found (get_receipt ow (Mutation_GetOpId m)) s = Inr (a_receipts ?A (Mutation_GetOpId m), s)"
    "tx_found (get_record ow (Mutation_GetEntityKey m)) s = Inr (a_recs ?A (pad_key (Mutation_GetEntityKey m)), s)"
    using v by (simp_all add: found_receipt found_record)
  have "\<exists>b' s'. apply_mutation ow device now b m s = Inr (b', s')"
    using d
  proof cases
    case (replayed rc ch)
    then show ?thesis by (auto simp: apply_mutation_def pre get_operation_abs tx_bind_Inr)
  next
    case (superseded e rc)
    have flags: "(c_cursor e > Mutation_GetBaseVersion m) = True"
      "(c_cursor e \<le> Mutation_GetBaseVersion m) = False" using superseded(6) by (simp_all add: not_le)
    have "rc_op_id rc = Mutation_GetOpId m" by (simp add: superseded(7))
    then show ?thesis
      using settle_total [OF own, of rc "b\<lparr>mb_forced := mb_forced b @ [e]\<rparr>" e] superseded(4)
      by (auto simp: apply_mutation_def pre superseded(4,5) flags superseded(7))
  next
    case (accepted ch rc)
    let ?e = "a_recs ?A (pad_key (Mutation_GetEntityKey m))"
    have flags: "(case ?e of None \<Rightarrow> False | Some e \<Rightarrow> c_cursor e > Mutation_GetBaseVersion m) = False"
      "(case ?e of None \<Rightarrow> True | Some e \<Rightarrow> c_cursor e \<le> Mutation_GetBaseVersion m) = True"
      using accepted(5) by (auto simp: not_less split: option.splits)
    obtain s1 where n: "next_cursor ow s = Inr (a_cursor ?A + 1, s1)"
      using next_cursor_total [OF ok h accepted(6)] by blast
    note n' = next_cursor_abs [OF n ok]
    have key: "c_cursor ch = a_cursor ?A + 1" "c_op_id ch = Mutation_GetOpId m"
      by (simp_all add: accepted(7) mutation_change_def)
    obtain s2 where a: "append_operation ow ch s1 = Inr ((), s2)"
      using append_operation_total [OF n'(4), of ow ch] accepted(8,9) own n'(3) key by auto
    note A2 = append_operation_abs [OF a]
    obtain s3 where u: "upsert_record ow ch s2 = Inr ((), s3)"
      using upsert_record_total [of ow s2 ch] own n'(3) A2 by auto
    note A3 = upsert_record_abs [OF u]
    have "rc_op_id rc = Mutation_GetOpId m" by (simp add: accepted(10))
    then have "a_owned (abs_owner ow s3)" "a_receipts (abs_owner ow s3) (rc_op_id rc) = None"
      using own accepted(4) n'(3) A2 A3 by simp_all
    from settle_total [OF this] obtain s4 b4 where
      st: "settle ow (b\<lparr>mb_archive := mb_archive b @ [ch], mb_applied := mb_applied b + 1\<rparr>) rc ch s3
        = Inr (b4, s4)" by blast
    show ?thesis
      using n a u st
      by (simp add: apply_mutation_def pre accepted(4) flags Let_def flip: accepted(7,10))
  qed
  then obtain b' s' where run: "apply_mutation ow device now b m s = Inr (b', s')" by blast
  from apply_mutation_refines [OF run ok] obtain d'
    where d': "decides device now ?A m d' (abs_owner ow s')" "b' = note_decision b d'" by blast
  have "d' = d \<and> abs_owner ow s' = A'"
    using d d'(1) by (auto elim!: decides.cases simp: not_le)
  with run d'(2) show ?thesis by blast
qed

lemma decide_all_owned:
  "decide_all device now A ms ds A' \<Longrightarrow> a_owned A' = a_owned A \<and> (a_head A' = None \<longleftrightarrow> a_head A = None)"
  by (induction rule: decide_all.induct) (auto dest: decides_owned)

lemma apply_mutations_complete:
  assumes "decide_all device now (abs_owner ow s) ms ds A'" and "db_ok s"
    and "a_owned (abs_owner ow s)" and "a_head (abs_owner ow s) \<noteq> None"
  shows "\<exists>s'. apply_mutations ow device ms now s = Inr (batch_of ds, s') \<and> abs_owner ow s' = A'"
proof -
  have "\<exists>s'. apply_mutations_from ow device now b ms s = Inr (foldl note_decision b ds, s') \<and> abs_owner ow s' = A'"
    if "decide_all device now A ms ds A'" "abs_owner ow s = A" "db_ok s" "a_owned A" "a_head A \<noteq> None" for A b s
    using that
  proof (induction arbitrary: b s rule: decide_all.induct)
    case (more A m d A1 ms ds A2)
    have "decides device now (abs_owner ow s) m d A1" using more.hyps(1) more.prems(1) by simp
    from apply_mutation_complete [OF this more.prems(2), of b] more.prems obtain s1 where
      s1: "apply_mutation ow device now b m s = Inr (note_decision b d, s1)" "abs_owner ow s1 = A1" by auto
    have "a_owned A1" "a_head A1 \<noteq> None" using decides_owned [OF more.hyps(1)] more.prems by simp_all
    from more.IH [OF s1(2) apply_mutation_ok [OF s1(1) more.prems(2)] this] s1(1) show ?case by auto
  qed simp
  from this [OF assms(1) refl assms(2-4), of empty_batch] show ?thesis
    by (simp add: apply_mutations_def batch_of_foldl)
qed

section \<open>Closing the batch\<close>

definition day_derivable :: "go_json \<Rightarrow> owner_state \<Rightarrow> bool" where
  "day_derivable J A \<longleftrightarrow> (\<exists>rs d day. set rs = ran (a_recs A)
     \<and> derive_progress_day J (map Some rs) = Inr d \<and> text_column 64 d = Inr day)"

lemma day_derivable_list:
  assumes "day_derivable J A" and "set rs = ran (a_recs A)"
  shows "\<exists>d day. derive_progress_day J (map Some rs) = Inr d \<and> text_column 64 d = Inr day"
proof -
  obtain rs' d day where d: "set rs' = ran (a_recs A)" "derive_progress_day J (map Some rs') = Inr d"
    "text_column 64 d = Inr day" using assms(1) by (auto simp: day_derivable_def)
  have "set (map Some rs') = set (map Some rs)" using d(1) assms(2) by simp
  from derive_progress_day_set [OF this d(2)] d(3) show ?thesis by blast
qed

lemma archive_changes_total:
  assumes "a_owned (abs_owner ow s)" and "distinct (map c_cursor chs)"
    and "\<And>ch. ch \<in> set chs \<Longrightarrow> a_archive (abs_owner ow s) (b, c_cursor ch) = None"
  shows "\<exists>s'. tx_foreach (archive_change ow b v t) chs s = Inr ((), s')"
  using assms
proof (induction chs arbitrary: s)
  case Nil
  show ?case by simp
next
  case (Cons ch chs)
  have "a_archive (abs_owner ow s) (b, c_cursor ch) = None" using Cons.prems(3) by simp
  then obtain s1 where a: "archive_change ow b v t ch s = Inr ((), s1)"
    using Cons.prems(1) by (auto simp: archive_change_Inr)
  note A = archive_change_abs [OF a]
  have "a_archive (abs_owner ow s1) (b, c_cursor x) = None" if "x \<in> set chs" for x
    using that Cons.prems(2) Cons.prems(3) [of x] A by (auto simp: image_iff)
  with Cons.IH [of s1] Cons.prems(1,2) A a show ?case by (auto simp: tx_bind_Inr)
qed

lemma decide_all_distinct:
  assumes "decide_all device now A ms ds A'" and "log_ok A" and "a_head A \<noteq> None"
  shows "distinct (map c_cursor (accepted_changes ds))"
  using assms
proof (induction rule: decide_all.induct)
  case (more A m d A1 ms ds A2)
  note one = decides_ops [OF more.hyps(1) more.prems]
  have ok1: "log_ok A1" "a_head A1 \<noteq> None" using one by simp_all
  note rest = decide_all_ops [OF more.hyps(2) ok1]
  show ?case
  proof (cases "d_verdict d = Accepted")
    case True
    then have "c_cursor (d_change d) \<notin> set (map c_cursor (accepted_changes ds))"
      using one rest by (auto simp del: map_map)
    with True more.IH [OF ok1] show ?thesis by simp
  next
    case False
    with more.IH [OF ok1] show ?thesis by simp
  qed
qed simp

lemma increment_lineage_total:
  assumes "db_ok s" and "a_head (abs_owner ow s) = Some h" and "hd_baseline h = Some b"
    and "hd_version h \<noteq> - 1" and "text_column 64 d = Inr day"
  shows "\<exists>l' s'. increment_lineage ow t d s = Inr (l', s')"
  using increment_lineage_Inr [OF assms(1-3)] assms(4,5) by blast

lemma finalize_complete:
  assumes ok: "db_ok s" and own: "a_owned (abs_owner ow s)" and h: "a_head (abs_owner ow s) = Some h"
    and b: "hd_baseline h = Some b" and v: "hd_version h \<noteq> - 1"
    and dist: "distinct (map c_cursor (accepted_changes ds))"
    and free: "\<And>ch. ch \<in> set (accepted_changes ds) \<Longrightarrow> a_archive (abs_owner ow s) (b, c_cursor ch) = None"
    and day: "accepted_changes ds = [] \<or> day_derivable (sv_json sv) (abs_owner ow s)"
  shows "\<exists>r s'. finalize_mutation_batch sv md ow l (batch_of ds) s = Inr (r, s')"
proof (cases "accepted_changes ds = []")
  case True
  then show ?thesis by (simp add: finalize_mutation_batch_def batch_of_def tx_bind_Inr a_cursor_abs h)
next
  case False
  obtain rs where rs: "list_records ow s = Inr (rs, s)" using list_records_total by blast
  from day_derivable_list [OF _ list_records_set(2) [OF ok rs]] day False obtain d dd where
    d: "derive_progress_day (sv_json sv) (map Some rs) = Inr d" "text_column 64 d = Inr dd" by blast
  obtain l' s1 where i: "increment_lineage ow (sv_now sv) d s = Inr (l', s1)"
    using increment_lineage_total [OF ok h b v d(2)] by blast
  from increment_lineage_Inr [OF ok h b, THEN iffD1, OF i] obtain day where
    l': "l' = \<lparr>ln_baseline_id = b, ln_version = hd_version h + 1, ln_updated_at_ms = sv_now sv,
              ln_progress_day = day\<rparr>"
    and s1: "s1 = put_head ow (h\<lparr>hd_version := hd_version h + 1, hd_updated_at_ms := sv_now sv,
                hd_progress_day := day\<rparr>) s" by blast
  have hown: "hd_owner h = ow" using h by (simp add: abs_sel head_owner)
  have A1: "abs_owner ow s1 = (abs_owner ow s)\<lparr>a_head := Some (h\<lparr>hd_version := hd_version h + 1,
      hd_updated_at_ms := sv_now sv, hd_progress_day := day\<rparr>)\<rparr>"
    using h hown by (simp add: s1 put_head_abs)
  have cur: "current_cursor ow s1 = Inr (hd_cursor h, s1)" by (simp add: a_cursor_abs A1 a_cursor_def)
  obtain s2 where a: "tx_foreach (archive_change ow (ln_baseline_id l') (ln_version l') (sv_now sv))
      (accepted_changes ds) s1 = Inr ((), s2)"
  proof -
    have "a_owned (abs_owner ow s1)" using own by (simp add: A1)
    moreover have "a_archive (abs_owner ow s1) (ln_baseline_id l', c_cursor ch) = None"
      if "ch \<in> set (accepted_changes ds)" for ch using free [OF that] by (simp add: A1 l')
    ultimately show thesis using archive_changes_total dist that by blast
  qed
  have own2: "a_owned (abs_owner ow s2)" using archive_changes_abs [OF a] own by (simp add: A1)
  obtain s3 where u: "upsert_archive_head ow (ln_baseline_id l') (hd_cursor h) (ln_version l') (sv_now sv) s2
      = Inr ((), s3)" using own2 by (simp add: upsert_archive_head_Inr)
  have "a_owned (abs_owner ow s3)" using upsert_archive_head_abs [OF u] own2 by simp
  then obtain s4 where e: "insert_realtime_event ow (sync_hint md l' (hd_cursor h) (sv_now sv)) s3 = Inr ((), s4)"
    by (simp add: insert_realtime_event_Inr)
  have lift: "tx_lift (derive_progress_day (sv_json sv) (map Some rs)) s = Inr (d, s)" using d by simp
  show ?thesis
    using False by (simp add: finalize_mutation_batch_def batch_of_def rs lift i cur a u e tx_bind_Inr)
qed

section \<open>Whole operations\<close>

text \<open>The state in which a batch starts: an owner without a lineage takes the requested one.\<close>

definition with_lineage :: "owner_state \<Rightarrow> string \<Rightarrow> owner_state" where
  "with_lineage A b = (case a_head A of
     Some h \<Rightarrow> if hd_baseline h = None
       then A\<lparr>a_head := Some (h\<lparr>hd_baseline := Some b, hd_version := 0, hd_updated_at_ms := 0,
              hd_progress_day := campaign_start\<rparr>)\<rparr> else A
   | None \<Rightarrow> A)"

lemma ensure_lineage_complete:
  assumes ok: "tx_ok ow s"
  shows "\<exists>l s1. ensure_lineage sv ow requested s = Inr (l, s1)
    \<and> abs_owner ow s1 = with_lineage (abs_owner ow s) requested
    \<and> ln_baseline_id l = (case a_baseline (abs_owner ow s) of None \<Rightarrow> requested | Some b \<Rightarrow> b)"
proof -
  have dbok: "db_ok s" and inv: "owner_inv (abs_owner ow s)" using ok by (simp_all add: tx_ok_def)
  obtain h where h: "a_head (abs_owner ow s) = Some h" using ok by (auto simp: tx_ok_def)
  show ?thesis
  proof (cases "hd_baseline h")
    case (Some b)
    then have "tx_found (get_lineage ow) s = Inr (Some (row_lineage h), s)"
      by (simp add: tx_found_Inr get_lineage_abs [OF dbok] h head_lineage_def)
    with Some h show ?thesis
      by (auto simp: ensure_lineage_def a_baseline_def row_lineage_def with_lineage_def)
  next
    case None
    have "hd_cursor h = 0" using inv None h by (simp add: owner_inv_def inv_upto_def blank_ok_def head_defs)
    then have pre: "tx_found (get_lineage ow) s = Inr (None, s)" "current_cursor ow s = Inr (0, s)"
      using None by (simp_all add: tx_found_Inr get_lineage_abs [OF dbok] h head_lineage_def a_cursor_abs a_cursor_def)
    have hown: "hd_owner h = ow" using h by (simp add: abs_sel head_owner)
    obtain s1 where w: "insert_lineage ow \<lparr>ln_baseline_id = requested, ln_version = 0, ln_updated_at_ms = 0,
        ln_progress_day = campaign_start\<rparr> s = Inr ((), s1)"
      using write_lineage_Inr [OF dbok h] text_column_campaign_start by (auto simp: insert_lineage_def)
    then have "abs_owner ow s1 = with_lineage (abs_owner ow s) requested"
      using hown h None text_column_campaign_start
      by (auto simp: insert_lineage_def write_lineage_Inr [OF dbok h] put_head_abs with_lineage_def)
    with None h w show ?thesis by (auto simp: ensure_lineage_def pre tx_bind_Inr a_baseline_def)
  qed
qed

text \<open>Every run of \<open>ensure_lineage\<close> ends in that state.\<close>

lemma ensure_lineage_state:
  "ensure_lineage sv ow requested s = Inr (l, s1) \<Longrightarrow> tx_ok ow s \<Longrightarrow>
     abs_owner ow s1 = with_lineage (abs_owner ow s) requested"
  using ensure_lineage_complete [of ow s sv requested] by auto

lemma batch_complete:
  assumes ok: "tx_ok ow s" and own: "a_owned (abs_owner ow s)"
    and base: "a_baseline (abs_owner ow s) = Some (ln_baseline_id l)"
    and ds: "decide_all device (sv_now sv) (abs_owner ow s) ms ds A'"
    and day: "accepted_changes ds = [] \<or> day_derivable (sv_json sv) A'"
  shows "\<exists>s1 r s2. apply_mutations ow device ms (sv_now sv) s = Inr (batch_of ds, s1)
    \<and> finalize_mutation_batch sv md ow l (batch_of ds) s1 = Inr (r, s2)"
proof -
  let ?A = "abs_owner ow s"
  have dbok: "db_ok s" and inv: "inv_upto (a_cursor ?A) ?A" and h: "a_head ?A \<noteq> None"
    using ok by (simp_all add: tx_ok_def owner_inv_def)
  obtain s1 where a: "apply_mutations ow device ms (sv_now sv) s = Inr (batch_of ds, s1)"
    and A1: "abs_owner ow s1 = A'" using apply_mutations_complete [OF ds dbok own h] by blast
  have ok1: "db_ok s1" using methods_ok [OF framed.apply_mutations a dbok] .
  have log: "log_ok ?A" using inv by (simp add: inv_upto_def)
  note D = decide_all_inv [OF ds inv h] and O = decide_all_ops [OF ds log h] and own1 = decide_all_owned [OF ds]
  have inv1: "inv_upto (a_cursor ?A) A'" "a_baseline A' = Some (ln_baseline_id l)" "a_head A' \<noteq> None"
    using D base by simp_all
  then obtain h1 where h1: "a_head (abs_owner ow s1) = Some h1" "hd_baseline h1 = Some (ln_baseline_id l)"
    by (auto simp: A1 a_baseline_def)
  have "a_version A' \<le> a_cursor ?A" using inv1(1) by (simp add: inv_upto_def heads_ok_def)
  have dist: "distinct (map c_cursor (accepted_changes ds))" by (rule decide_all_distinct [OF ds log h])
  have free: "a_archive (abs_owner ow s1) (ln_baseline_id l, c_cursor ch) = None"
    if "ch \<in> set (accepted_changes ds)" for ch
  proof -
    have "\<not> c_cursor ch \<le> a_cursor ?A" using O that by (simp add: not_le)
    with inv1(1,2) show ?thesis by (simp add: A1 inv_upto_def archive_ok_def)
  qed
  have "\<exists>r s2. finalize_mutation_batch sv md ow l (batch_of ds) s1 = Inr (r, s2)"
  proof (cases "accepted_changes ds = []")
    case True
    then show ?thesis by (simp add: finalize_mutation_batch_def batch_of_def tx_bind_Inr a_cursor_abs h1)
  next
    case False
    then have "0 < length (accepted_changes ds)" by simp
    then have "unat (a_cursor ?A) < unat (a_cursor A')" using O by linarith
    moreover have "unat (a_cursor A') < 2 ^ LENGTH(64)" by (rule unsigned_less)
    ultimately have "a_cursor ?A \<noteq> - 1" using unat_max_u64 by auto
    then have "hd_version h1 \<noteq> - 1" using \<open>a_version A' \<le> a_cursor ?A\<close> h1
      by (auto simp: A1 a_version_def dest: word_order.extremum_uniqueI)
    then show ?thesis
      using finalize_complete [OF ok1 _ h1 _ dist free] day own own1 by (simp add: A1)
  qed
  with a show ?thesis by blast
qed

text \<open>
  A valid request is answered: the mutations are those the specification decides, and the batch
  is closed, provided the day of the resulting records can be derived and stored.
\<close>

definition ready :: "tx_env \<Rightarrow> bool" where
  "ready env \<longleftrightarrow> env_begin_error env = None \<and> env_commit env = Committed"

lemma with_lineage_sel [simp]:
  "a_owned (with_lineage A b) = a_owned A" "a_ops (with_lineage A b) = a_ops A"
  "a_recs (with_lineage A b) = a_recs A" "a_receipts (with_lineage A b) = a_receipts A"
  "a_resolutions (with_lineage A b) = a_resolutions A" "a_archive (with_lineage A b) = a_archive A"
  "a_archive_heads (with_lineage A b) = a_archive_heads A" "a_events (with_lineage A b) = a_events A"
  by (auto simp: with_lineage_def split: option.splits)

text \<open>The state of the owner in which the mutations of a request meet the records.\<close>

definition batch_start :: "string \<Rightarrow> string \<Rightarrow> db \<Rightarrow> owner_state" where
  "batch_start ow b s = with_lineage (start_head ow (abs_owner ow s)) b"

lemma exchange_complete:
  assumes inv: "db_inv s" and env: "ready env"
    and valid: "validate_exchange_request (md_owner_key md) (Some r) = Inr ()"
    and base: "a_baseline (abs_owner (md_owner_key md) s) \<in> {None, Some (sr_baseline_id r)}"
    and ds: "decide_all (sr_device_id r) (sv_now sv) (batch_start (md_owner_key md) (sr_baseline_id r) s)
      (sr_mutations r) ds A'"
    and day: "accepted_changes ds = [] \<or> day_derivable (sv_json sv) A'"
  shows "\<exists>res s'. exchange env sv md (Some r) s = (Inr res, s')"
proof -
  let ?ow = "md_owner_key md" and ?s0 = "started (md_owner_key md) (env_now env) s"
  have ok: "tx_ok ?ow ?s0" by (rule db_inv_tx [OF inv])
  obtain l s1 where l: "ensure_lineage sv ?ow (sr_baseline_id r) ?s0 = Inr (l, s1)"
    and A: "abs_owner ?ow s1 = batch_start ?ow (sr_baseline_id r) s"
    and lb: "ln_baseline_id l = sr_baseline_id r"
    using ensure_lineage_complete [OF ok, of sv "sr_baseline_id r"] base
    by (auto simp: started_abs batch_start_def)
  note E = ensure_lineage_inv [OF l ok]
  have own: "a_owned (abs_owner ?ow s1)" by (simp add: A batch_start_def start_head_def)
  from batch_complete [OF E(1) own E(2) _ day, of "sr_device_id r" "sr_mutations r" md] ds obtain s2 r' s3 where
    a: "apply_mutations ?ow (sr_device_id r) (sr_mutations r) (sv_now sv) s1 = Inr (batch_of ds, s2)"
    and f: "finalize_mutation_batch sv md ?ow l (batch_of ds) s2 = Inr (r', s3)" by (auto simp: A)
  have "current_cursor ?ow s1 = Inr (a_cursor (abs_owner ?ow s1), s1)"
    using E(1) by (simp add: a_cursor_abs tx_ok_def)
  with l lb a f have "\<exists>res. exchange_tx sv md r ?s0 = Inr (res, s3)"
    by (cases r') (simp add: exchange_tx_def Let_def tx_bind_Inr pull_operations_def)
  then obtain res where "exchange_tx sv md r ?s0 = Inr (res, s3)" by blast
  then have "with_owner_transaction env ?ow (exchange_tx sv md r) s = (Inr res, s3)"
    using env by (simp add: with_owner_transaction_Inr ready_def)
  with valid show ?thesis by (simp add: exchange_def)
qed

lemma diff_complete:
  assumes inv: "db_inv s" and env: "ready env"
    and valid: "validate_diff_request (md_owner_key md) (Some r) = Inr ()"
    and base: "a_baseline (abs_owner (md_owner_key md) s) \<in> {None, Some (dr_baseline_id r)}"
    and ds: "decide_all (dr_device_id r) (sv_now sv) (batch_start (md_owner_key md) (dr_baseline_id r) s)
      (dr_mutations r) ds A'"
    and day: "accepted_changes ds = [] \<or> day_derivable (sv_json sv) A'"
    and size: "\<And>response. dp_acks response = map (receipt_ack \<circ> d_receipt) ds \<Longrightarrow>
      dp_canonical_changes response = map d_change ds \<Longrightarrow>
      validate_diff_response_size sv response = Inr ()"
  shows "\<exists>res s'. diff env sv md (Some r) s = (Inr res, s')"
proof -
  let ?ow = "md_owner_key md" and ?s0 = "started (md_owner_key md) (env_now env) s"
  have ok: "tx_ok ?ow ?s0" by (rule db_inv_tx [OF inv])
  obtain l s1 where l: "ensure_lineage sv ?ow (dr_baseline_id r) ?s0 = Inr (l, s1)"
    and A: "abs_owner ?ow s1 = batch_start ?ow (dr_baseline_id r) s"
    and lb: "ln_baseline_id l = dr_baseline_id r"
    using ensure_lineage_complete [OF ok, of sv "dr_baseline_id r"] base
    by (auto simp: started_abs batch_start_def)
  note E = ensure_lineage_inv [OF l ok]
  have own: "a_owned (abs_owner ?ow s1)" by (simp add: A batch_start_def start_head_def)
  from batch_complete [OF E(1) own E(2) _ day, of "dr_device_id r" "dr_mutations r" md] ds obtain s2 l' head s3 where
    a: "apply_mutations ?ow (dr_device_id r) (dr_mutations r) (sv_now sv) s1 = Inr (batch_of ds, s2)"
    and f: "finalize_mutation_batch sv md ?ow l (batch_of ds) s2 = Inr ((l', head), s3)" by (auto simp: A)
  have cur: "current_cursor ?ow s1 = Inr (a_cursor (abs_owner ?ow s1), s1)"
    using E(1) by (simp add: a_cursor_abs tx_ok_def)
  have "validate_diff_response_size sv (diff_answer (batch_of ds) l' head) = Inr ()"
    by (rule size) (simp_all add: diff_answer_def batch_of_def)
  with l lb a f cur have "\<exists>res. diff_tx sv md r ?s0 = Inr (res, s3)"
    by (simp add: diff_tx_def Let_def tx_bind_Inr)
  then obtain res where "diff_tx sv md r ?s0 = Inr (res, s3)" by blast
  then have "with_owner_transaction env ?ow (diff_tx sv md r) s = (Inr res, s3)"
    using env by (simp add: with_owner_transaction_Inr ready_def)
  with valid show ?thesis by (simp add: diff_def)
qed

section \<open>Resolutions\<close>

lemma write_snapshot_total:
  assumes "db_ok s" and "a_owned (abs_owner ow s)" and "a_head (abs_owner ow s) \<noteq> None"
    and "log_ok (abs_owner ow s)" and "unat (a_cursor (abs_owner ow s)) + length ms < 2 ^ 64"
    and "distinct (map Mutation_GetOpId ms)"
    and "\<And>c x. a_ops (abs_owner ow s) c = Some x \<Longrightarrow> c_op_id x \<notin> Mutation_GetOpId ` set ms"
  shows "\<exists>chs s'. write_snapshot ow now ms s = Inr (chs, s')"
  using assms
proof (induction ms arbitrary: s)
  case (Cons m ms)
  let ?A = "abs_owner ow s"
  note n = fits_not_max [OF Cons.prems(5)]
  obtain s1 where nc: "next_cursor ow s = Inr (a_cursor ?A + 1, s1)"
    using next_cursor_total [OF Cons.prems(1,3) n] by blast
  note n' = next_cursor_abs [OF nc Cons.prems(1)]
  define ch where "ch = mutation_change m (a_cursor ?A + 1) now"
  have key: "c_cursor ch = a_cursor ?A + 1" "c_op_id ch = Mutation_GetOpId m" by (simp_all add: ch_def mutation_change_def)
  obtain s2 where a: "append_operation ow ch s1 = Inr ((), s2)"
    using append_operation_total [OF n'(4), of ow ch] Cons.prems(2,7) log_ok_next [OF Cons.prems(4) n] n'(3) key by auto
  note A2 = append_operation_abs [OF a]
  obtain s3 where u: "upsert_record ow ch s2 = Inr ((), s3)"
    using upsert_record_total [of ow s2 ch] Cons.prems(2) n'(3) A2 by auto
  have abs: "abs_owner ow s3 = place_change ?A ch"
    using n'(3) A2 upsert_record_abs [OF u] by (simp add: place_change_def key)
  have ok3: "db_ok s3"
    using methods_ok [OF upsert_record_only u methods_ok [OF append_operation_only a n'(4)]] .
  have "\<exists>chs s'. write_snapshot ow now ms s3 = Inr (chs, s')"
  proof (rule Cons.IH [OF ok3])
    show "a_owned (abs_owner ow s3)" using Cons.prems(2) by (simp add: abs place_change_def)
    show "a_head (abs_owner ow s3) \<noteq> None" using Cons.prems(3) by (simp add: abs)
    show "log_ok (abs_owner ow s3)"
      using log_ok_accept [OF Cons.prems(4) key(1) n Cons.prems(3)] by (simp add: abs accept_place)
    show "unat (a_cursor (abs_owner ow s3)) + length ms < 2 ^ 64"
      using Cons.prems(3,5) by (simp add: abs key unat_Suc_word [OF n])
    show "distinct (map Mutation_GetOpId ms)" using Cons.prems(6) by simp
    show "c_op_id x \<notin> Mutation_GetOpId ` set ms" if "a_ops (abs_owner ow s3) c = Some x" for c x
    proof (cases "c = c_cursor ch")
      case True
      then have "c_op_id x = Mutation_GetOpId m" using that key(2) by (simp add: abs)
      then show ?thesis using Cons.prems(6) by simp
    next
      case False
      then show ?thesis using that Cons.prems(7) [of c x] by (simp add: abs)
    qed
  qed
  then show ?case using nc a u by (auto simp: tx_bind_Inr Let_def simp flip: ch_def)
qed simp

lemma clear_current_baseline_total:
  "\<exists>s'. clear_current_baseline ow s = Inr ((), s')"
proof -
  have "\<exists>t. update_rows (\<lambda>r. hd_owner r = ow) (\<lambda>r. Inr (r\<lparr>hd_cursor := 0\<rparr>)) rs = Inr t" for rs
    using update_rows_ok [of rs "\<lambda>r. hd_owner r = ow" "\<lambda>r. Inr (r\<lparr>hd_cursor := 0\<rparr>)"] by blast
  then show ?thesis by (auto simp: clear_current_baseline_def tx_bind_Inr exec_sql_Inr)
qed

lemma sort_snapshot_perm [simp]:
  "length (sort_snapshot ms) = length ms" "set (sort_snapshot ms) = set ms"
  "distinct (map Mutation_GetOpId (sort_snapshot ms)) = distinct (map Mutation_GetOpId ms)"
proof -
  show "length (sort_snapshot ms) = length ms" "set (sort_snapshot ms) = set ms" by (simp_all add: sort_snapshot_def)
  have "mset (map Mutation_GetOpId (sort_snapshot ms)) = mset (map Mutation_GetOpId ms)"
    by (simp add: sort_snapshot_def)
  then show "distinct (map Mutation_GetOpId (sort_snapshot ms)) = distinct (map Mutation_GetOpId ms)"
    by (rule mset_eq_imp_distinct_iff)
qed

text \<open>The state that the snapshot of a request becomes.\<close>

definition snapshot_state :: "service \<Rightarrow> resolve_request \<Rightarrow> owner_state \<Rightarrow> owner_state" where
  "snapshot_state sv r A = foldl place_change (cleared A)
     (number_snapshot (sv_now sv) 0 (sort_snapshot (rr_local_snapshot r)))"

lemma distinct_number_snapshot:
  "unat x + length ms < 2 ^ 64 \<Longrightarrow> distinct (map c_cursor (number_snapshot now x ms))"
proof (induction ms arbitrary: x)
  case (Cons m ms)
  note n = fits_not_max [OF Cons.prems]
  have fits: "unat (x + 1) + length ms < 2 ^ 64" using Cons.prems by (simp add: unat_Suc_word [OF n])
  have "x + 1 \<notin> c_cursor ` set (number_snapshot now (x + 1) ms)"
    using number_snapshot_above [OF fits] by (metis imageE less_irrefl)
  with Cons.IH [OF fits] show ?case by (simp add: mutation_change_def)
qed simp

lemma use_local_complete:
  assumes ok: "tx_ok ow s" and own: "a_owned (abs_owner ow s)"
    and valid: "validate_local_snapshot r = Inr ()"
    and ids: "distinct (map Mutation_GetOpId (rr_local_snapshot r))"
    and len: "length (rr_local_snapshot r) < 2 ^ 64"
    and fork: "a_archive_heads (abs_owner ow s) (rr_local_baseline_id r) = None
      \<or> (\<exists>b. sv_fork_baseline_id sv = Inr b \<and> a_archive_heads (abs_owner ow s) b = None)"
    and day: "day_derivable (sv_json sv) (snapshot_state sv r (abs_owner ow s))"
  shows "\<exists>res s'. use_local sv md ow r s = Inr (res, s')"
proof -
  let ?A = "abs_owner ow s" and ?snap = "sort_snapshot (rr_local_snapshot r)"
  have dbok: "db_ok s" and inv: "owner_inv ?A" and h: "a_head ?A \<noteq> None" using ok by (simp_all add: tx_ok_def)
  note clr = cleared_ok [OF h]
  define used where "used = a_archive_heads ?A (rr_local_baseline_id r)"
  obtain rb where rb: "(case used of None \<Rightarrow> tx_return (rr_local_baseline_id r)
      | Some _ \<Rightarrow> tx_lift (sv_fork_baseline_id sv)) s = Inr (rb, s)" and fresh: "a_archive_heads ?A rb = None"
    using fork by (cases used) (auto simp: used_def)
  have pre: "tx_lift (validate_local_snapshot r) s = Inr ((), s)"
    "tx_found (get_archive_head ow (rr_local_baseline_id r)) s = Inr (used, s)"
    using valid by (simp_all add: found_archive_head used_def)
  obtain s1 where c: "clear_current_baseline ow s = Inr ((), s1)" using clear_current_baseline_total by blast
  note ok1 = methods_ok [OF clear_current_baseline_only c dbok]
  have A1: "abs_owner ow s1 = cleared ?A" using clear_current_baseline_abs [OF c dbok] by (simp add: cleared_def)
  have own1: "a_owned (abs_owner ow s1)" using own by (simp add: A1 cleared_def)
  obtain chs s2 where w: "write_snapshot ow (sv_now sv) ?snap s1 = Inr (chs, s2)"
  proof -
    have "\<exists>chs s2. write_snapshot ow (sv_now sv) ?snap s1 = Inr (chs, s2)"
      by (rule write_snapshot_total [OF ok1 own1]) (use clr ids len in \<open>auto simp: A1\<close>)
    with that show thesis by blast
  qed
  have h1: "a_head (abs_owner ow s1) \<noteq> None" using clr by (simp add: A1)
  note W = write_snapshot_refines [OF w ok1 h1, unfolded A1 clr(4)]
  have chs: "chs = number_snapshot (sv_now sv) 0 ?snap" using W by (rule conjunct1)
  have B: "abs_owner ow s2 = snapshot_state sv r ?A" using W unfolding chs by (simp add: snapshot_state_def)
  have ok2: "db_ok s2" using methods_ok [OF framed.write_snapshot w ok1] .
  have keep: "a_archive (foldl place_change X xs) = a_archive X \<and> a_owned (foldl place_change X xs) = a_owned X
      \<and> (a_head (foldl place_change X xs) = None \<longleftrightarrow> a_head X = None)" for X xs
    by (induction xs arbitrary: X) (auto simp: place_change_def)
  have B': "a_archive (abs_owner ow s2) = a_archive ?A" "a_owned (abs_owner ow s2)"
    "a_head (abs_owner ow s2) \<noteq> None" "a_resolutions (abs_owner ow s2) = Map.empty"
    using keep [of "cleared ?A" chs] own clr(3) place_all_ok [OF clr(1-3), of ?snap "sv_now sv"] len clr(4,7)
    by (simp_all add: B snapshot_state_def chs) (simp_all add: cleared_def)
  then obtain h2 where h2: "a_head (abs_owner ow s2) = Some h2" by blast
  have cur: "current_cursor ow s2 = Inr (hd_cursor h2, s2)" by (simp add: a_cursor_abs h2 a_cursor_def)
  obtain records where rec: "list_records ow s2 = Inr (records, s2)" using list_records_total by blast
  obtain d dd where d: "derive_progress_day (sv_json sv) (map Some records) = Inr d" "text_column 64 d = Inr dd"
    using day_derivable_list [OF day, of records] list_records_set(2) [OF ok2 rec] unfolding B by blast
  then have lift: "tx_lift (derive_progress_day (sv_json sv) (map Some records)) s2 = Inr (d, s2)" by simp
  define v where "v = (if length ?snap > 0 then (1::u64) else 0)"
  define l where "l = \<lparr>ln_baseline_id = rb, ln_version = v, ln_updated_at_ms = sv_now sv, ln_progress_day = d\<rparr>"
  have sel: "ln_baseline_id l = rb" "ln_version l = v" by (simp_all add: l_def)
  obtain s3 where sl: "set_lineage ow l s2 = Inr ((), s3)"
    using write_lineage_Inr [OF ok2 h2] d(2) by (auto simp: set_lineage_def l_def)
  note A3 = set_lineage_abs [OF sl ok2 B'(3)]
  define rs where "rs = new_resolution_receipt r l (hd_cursor h2)"
  obtain s4 where ir: "insert_resolution_receipt ow rs s3 = Inr ((), s4)"
    using A3 B' by (auto simp: insert_resolution_receipt_Inr)
  note A4 = insert_resolution_receipt_abs [OF ir]
  have arch: "archive_ok (a_cursor ?A) ?A" using inv by (simp add: owner_inv_def inv_upto_def)
  have none: "a_archive ?A (rb, x) = None" for x using arch fresh unfolding archive_ok_def by blast
  have log2: "log_ok (cleared ?A)" "a_head (cleared ?A) \<noteq> None" by (rule clr)+
  have dist: "distinct (map c_cursor chs)"
    using distinct_number_snapshot [of 0 ?snap "sv_now sv"] len by (simp add: chs)
  obtain s5 where ac: "tx_foreach (archive_change ow (ln_baseline_id l) (ln_version l) (sv_now sv)) chs s4 = Inr ((), s5)"
  proof -
    have "a_owned (abs_owner ow s4)" using A3 A4 B' by auto
    moreover have "a_archive (abs_owner ow s4) (ln_baseline_id l, c_cursor ch) = None" for ch
      using A3 A4 B' none by (auto simp: l_def)
    ultimately show thesis using archive_changes_total dist that by blast
  qed
  have own5: "a_owned (abs_owner ow s5)" using archive_changes_abs [OF ac] A3 A4 B' by auto
  obtain s6 where ua: "upsert_archive_head ow (ln_baseline_id l) (hd_cursor h2) (ln_version l) (sv_now sv) s5 = Inr ((), s6)"
    using own5 by (simp add: upsert_archive_head_Inr)
  have "a_owned (abs_owner ow s6)" using upsert_archive_head_abs [OF ua] own5 by simp
  then obtain s7 where ie: "insert_realtime_event ow (sync_hint md l (hd_cursor h2) (sv_now sv)) s6 = Inr ((), s7)"
    by (simp add: insert_realtime_event_Inr)
  have "use_local sv md ow r s = Inr (resolve_result_of (rr_device_id r) l (hd_cursor h2) records False True, s7)"
    by (simp add: use_local_def pre rb c w cur rec lift Let_def del: sort_snapshot_perm length_greater_0_conv
        flip: v_def l_def)
      (simp add: sl ir [unfolded rs_def] ac [unfolded sel] ua [unfolded sel] ie sel)
  then show ?thesis by blast
qed

text \<open>
  A valid resolution request is answered when its id is new and either the client's expectation
  is stale, or it keeps the server's records, or its snapshot can be stored.
\<close>

lemma resolve_complete:
  assumes inv: "db_inv s" and env: "ready env"
    and valid: "validate_resolve_envelope (md_owner_key md) (Some r) = Inr ()"
    and new: "a_resolutions (abs_owner (md_owner_key md) s) (rr_request_id r) = None"
  defines "S \<equiv> batch_start (md_owner_key md) (rr_local_baseline_id r) s"
  assumes loc: "a_baseline S = Some (rr_expected_server_baseline_id r) \<Longrightarrow>
      a_version S = rr_expected_server_version r \<Longrightarrow> rr_choice r = CHOICE_USE_LOCAL \<Longrightarrow>
      validate_local_snapshot r = Inr () \<and> distinct (map Mutation_GetOpId (rr_local_snapshot r))
      \<and> length (rr_local_snapshot r) < 2 ^ 64
      \<and> (a_archive_heads S (rr_local_baseline_id r) = None
         \<or> (\<exists>b. sv_fork_baseline_id sv = Inr b \<and> a_archive_heads S b = None))
      \<and> day_derivable (sv_json sv) (snapshot_state sv r S)"
  shows "\<exists>res s'. resolve_baseline env sv md (Some r) s = (Inr res, s')"
proof -
  let ?ow = "md_owner_key md" and ?s0 = "started (md_owner_key md) (env_now env) s"
  have ok: "tx_ok ?ow ?s0" by (rule db_inv_tx [OF inv])
  obtain l s1 where l: "ensure_lineage sv ?ow (rr_local_baseline_id r) ?s0 = Inr (l, s1)"
    using ensure_lineage_complete [OF ok, of sv "rr_local_baseline_id r"] by blast
  have A: "abs_owner ?ow s1 = S"
    using ensure_lineage_state [OF l ok] by (simp add: started_abs S_def batch_start_def)
  note E = ensure_lineage_inv [OF l ok]
  have own: "a_owned (abs_owner ?ow s1)" by (simp add: A S_def batch_start_def start_head_def)
  have cur: "current_cursor ?ow s1 = Inr (a_cursor (abs_owner ?ow s1), s1)"
    using E(1) by (simp add: a_cursor_abs tx_ok_def)
  have "a_resolutions (abs_owner ?ow s1) (rr_request_id r) = None"
    using new E(11) by (simp add: started_abs start_head_def)
  then have found: "tx_found (get_resolution_receipt ?ow (rr_request_id r)) s1 = Inr (None, s1)"
    by (simp add: found_resolution)
  have "\<exists>res s'. resolve_tx sv md r ?s0 = Inr (res, s')"
  proof (cases "ln_baseline_id l \<noteq> rr_expected_server_baseline_id r \<or> ln_version l \<noteq> rr_expected_server_version r")
    case True
    with l cur found show ?thesis by (simp add: resolve_tx_def Let_def)
  next
    case False
    show ?thesis
    proof (cases "rr_choice r = CHOICE_USE_LOCAL")
      case True
      have "\<exists>res s'. use_local sv md ?ow r s1 = Inr (res, s')"
        using loc False True E(2,3) by (intro use_local_complete [OF E(1) own]) (simp_all add: A)
      with False True l cur found show ?thesis by (auto simp: resolve_tx_def Let_def)
    next
      case other: False
      define rs where "rs = new_resolution_receipt r l (a_cursor (abs_owner ?ow s1))"
      have "rs_request_id rs = rr_request_id r" by (simp add: rs_def new_resolution_receipt_def)
      then obtain s2 where i: "insert_resolution_receipt ?ow rs s1 = Inr ((), s2)"
        using own \<open>a_resolutions (abs_owner ?ow s1) (rr_request_id r) = None\<close>
        by (auto simp: insert_resolution_receipt_Inr)
      obtain records where "list_records ?ow s2 = Inr (records, s2)" using list_records_total by blast
      with False other l cur found i show ?thesis by (simp add: resolve_tx_def Let_def rs_def)
    qed
  qed
  then obtain res s' where "resolve_tx sv md r ?s0 = Inr (res, s')" by blast
  then have "with_owner_transaction env ?ow (resolve_tx sv md r) s = (Inr res, s')"
    using env by (simp add: with_owner_transaction_Inr ready_def)
  with valid show ?thesis by (simp add: resolve_baseline_def)
qed

end
