(* ===== verification/Examples.thy ===== *)
theory Examples
  imports Completeness
begin

text \<open>
  Concrete requests, environments and states, at which the properties are applied: one user with
  one device, JSON without numbers of interest, and a response encoder whose output has the
  acknowledged ids. The batch of three mutations meets the three cases: a new
  entry is accepted, an edit of it that has not seen it is superseded, and the first operation
  sent again is replayed.
\<close>

section \<open>Configuration\<close>

definition ex_owner :: string where "ex_owner = replicate 64 (CHR ''a'')"
definition ex_other :: string where "ex_other = replicate 64 (CHR ''c'')"
definition ex_baseline :: string where "ex_baseline = ''baseline_'' @ replicate 32 (CHR ''b'')"
definition ex_local_baseline :: string where "ex_local_baseline = ''baseline_'' @ replicate 32 (CHR ''d'')"
definition ex_fork_baseline :: string where "ex_fork_baseline = ''baseline_'' @ replicate 32 (CHR ''e'')"
definition ex_device :: string where "ex_device = ''device-1''"

definition ex_json :: go_json where
  "ex_json = \<lparr>parse_float = (\<lambda>_. Some 0), format_float = (\<lambda>_. ''0'')\<rparr>"

definition ex_service :: service where
  "ex_service = \<lparr>sv_now = 1000000, sv_lineage_baseline_id = Inr ex_fork_baseline,
     sv_fork_baseline_id = Inr ex_fork_baseline, sv_json = ex_json,
     sv_marshal_diff = (\<lambda>r. Inr (concat (map ack_op_id (dp_acks r))))\<rparr>"

definition ex_meta :: command_metadata where
  "ex_meta = \<lparr>md_owner_key = ex_owner, md_origin_connection_id = ''tab-1''\<rparr>"

definition ex_env :: tx_env where
  "ex_env = \<lparr>env_begin_error = None, env_now = 1000000, env_commit = Committed\<rparr>"

section \<open>Requests\<close>

definition ex_key :: string where "ex_key = ''stella/v1/day/2026-07-20/journal''"

definition ex_value :: string where "ex_value = [CHR 0x22, CHR ''x'', CHR 0x22]"

definition ex_mutation :: "string \<Rightarrow> mutation option" where
  "ex_mutation op = Some \<lparr>m_op_id = op, m_entity_key = ex_key, m_base_version = 0,
     m_client_time_ms = 900000, m_value_json = ex_value, m_deleted = False, m_device_id = ex_device,
     m_client_seq = 1\<rparr>"

definition ex_mutations :: "mutation option list" where
  "ex_mutations = [ex_mutation ''op-00001'', ex_mutation ''op-00002'', ex_mutation ''op-00001'']"

definition ex_exchange :: sync_request where
  "ex_exchange = \<lparr>sr_device_id = ex_device, sr_cursor = 0, sr_mutations = ex_mutations,
     sr_pull_limit = 0, sr_baseline_id = ex_baseline, sr_local_version = 0,
     sr_local_updated_at_ms = 0, sr_local_progress_day = []\<rparr>"

text \<open>An exchange of one mutation.\<close>

definition ex_single :: sync_request where
  "ex_single = ex_exchange\<lparr>sr_mutations := [ex_mutation ''op-00001'']\<rparr>"

definition ex_diff :: diff_request where
  "ex_diff = \<lparr>dr_device_id = ex_device, dr_mutations = ex_mutations, dr_baseline_id = ex_baseline,
     dr_local_version = 0, dr_local_updated_at_ms = 0, dr_local_progress_day = []\<rparr>"

lemma ex_mutation_sel [simp]:
  "Mutation_GetOpId (ex_mutation op) = op" "Mutation_GetEntityKey (ex_mutation op) = ex_key"
  "Mutation_GetBaseVersion (ex_mutation op) = 0" "Mutation_GetClientTimeMs (ex_mutation op) = 900000"
  "Mutation_GetValueJson (ex_mutation op) = ex_value" "Mutation_GetDeleted (ex_mutation op) = False"
  "Mutation_GetDeviceId (ex_mutation op) = ex_device"
  by (simp_all add: ex_mutation_def mutation_getters)

lemma utf16_length_ascii: "list_all (\<lambda>c. of_char c < (128::nat)) s \<Longrightarrow> utf16_length s = length s"
proof -
  assume a: "list_all (\<lambda>c. of_char c < (128::nat)) s"
  then have "runes s = map of_char s" by (simp add: runes_def rune_chunks_ascii)
  moreover have "sum_list (map (\<lambda>c. if 65536 \<le> (of_char c :: nat) then 2 else 1) s) = length s"
    using a by (induction s) auto
  ultimately show ?thesis by (simp add: utf16_length_def comp_def)
qed

lemma ex_mutation_valid:
  "validate_mutation (ex_mutation ''op-00001'') ex_device = Inr ()"
  "validate_mutation (ex_mutation ''op-00002'') ex_device = Inr ()"
proof -
  have "device_id_pattern ''op-00001''" "device_id_pattern ''op-00002''"
    "has_prefix ex_key ''stella/v1/''" "list_all (\<lambda>c. of_char c < (128::nat)) ex_key"
    "(0::u64) \<le> max_safe_integer" "(900000::u64) \<le> max_safe_integer" "(1::u64) \<le> max_safe_integer"
    by code_simp+
  then show "validate_mutation (ex_mutation ''op-00001'') ex_device = Inr ()"
    "validate_mutation (ex_mutation ''op-00002'') ex_device = Inr ()"
    unfolding validate_mutation_ok
    by (simp_all add: ex_mutation_def max_value_json_bytes_def utf16_length_ascii) (simp_all add: ex_key_def ex_value_def)
qed

lemma ex_fields_valid:
  "validate_owner_key ex_owner = Inr ()" "validate_device_id ex_device = Inr ()"
  "validate_baseline_id ex_baseline ''baseline_id'' = Inr ()" "length ex_mutations \<le> max_mutations"
  "validate_safe [0, 0, 0] = Inr ()" "validate_safe [0, 0] = Inr ()"
  "validate_all validate_mutation_wire_numbers ex_mutations = Inr ()"
  by code_simp+

lemma ex_exchange_valid: "validate_exchange_request ex_owner (Some ex_exchange) = Inr ()"
  using ex_fields_valid by (simp add: validate_exchange_request_def ex_exchange_def)

lemma ex_single_valid: "validate_exchange_request ex_owner (Some ex_single) = Inr ()"
  using ex_exchange_valid
  by (auto simp: validate_exchange_request_def ex_single_def ex_exchange_def ex_mutations_def)

lemma ex_diff_valid: "validate_diff_request ex_owner (Some ex_diff) = Inr ()"
  using ex_fields_valid by (simp add: validate_diff_request_def ex_diff_def)

section \<open>The three decisions\<close>

definition ex_start :: owner_state where
  "ex_start = batch_start ex_owner ex_baseline empty_db"

definition ex_change :: change where
  "ex_change = \<lparr>c_cursor = 1, c_entity_key = ex_key, c_value_json = ex_value, c_deleted = False,
     c_device_id = ex_device, c_client_time_ms = 900000, c_op_id = ''op-00001''\<rparr>"

definition ex_receipt :: "string \<Rightarrow> bool \<Rightarrow> receipt" where
  "ex_receipt op applied = \<lparr>rc_op_id = op, rc_server_cursor = 1, rc_conflict = (\<not> applied), rc_applied = applied\<rparr>"

definition ex_decisions :: "decision list" where
  "ex_decisions =
     [\<lparr>d_verdict = Accepted, d_receipt = ex_receipt ''op-00001'' True, d_change = ex_change\<rparr>,
      \<lparr>d_verdict = Superseded, d_receipt = ex_receipt ''op-00002'' False, d_change = ex_change\<rparr>,
      \<lparr>d_verdict = Replayed, d_receipt = ex_receipt ''op-00001'' True, d_change = ex_change\<rparr>]"

definition ex_end :: owner_state where
  "ex_end = note_receipt (accept_change ex_start ex_change (ex_receipt ''op-00001'' True))
     (ex_receipt ''op-00002'' False)"

lemma abs_owner_empty:
  "abs_owner ow empty_db = \<lparr>a_owned = False, a_head = None, a_ops = Map.empty, a_recs = Map.empty,
     a_receipts = Map.empty, a_resolutions = Map.empty, a_archive = Map.empty,
     a_archive_heads = Map.empty, a_events = []\<rparr>"
  by (auto simp: abs_owner_def empty_db_def row_lookup_def owner_exists_def fun_eq_iff)

lemma ex_start_sel:
  "a_ops ex_start = Map.empty" "a_recs ex_start = Map.empty" "a_receipts ex_start = Map.empty"
  "a_cursor ex_start = 0" "a_head ex_start \<noteq> None" "a_baseline ex_start = Some ex_baseline"
  by (simp_all add: ex_start_def batch_start_def start_head_def abs_owner_empty with_lineage_def
      fresh_head_def head_defs)

lemma ex_key_unpadded: "pad_key ex_key = ex_key"
  by code_simp

definition ex_after_one :: owner_state where
  "ex_after_one = accept_change ex_start ex_change (ex_receipt ''op-00001'' True)"

lemma ex_decides_one:
  "decides ex_device 1000000 ex_start (ex_mutation ''op-00001'') (ex_decisions ! 0) ex_after_one"
proof -
  have clamp: "clamp_client_time 900000 1000000 = 900000" by code_simp
  show ?thesis
    unfolding ex_decisions_def nth_Cons_0 ex_after_one_def
    by (rule decides.accepted)
      (simp_all add: ex_mutation_valid ex_start_sel mutation_change_def ex_change_def ex_receipt_def clamp)
qed

lemma ex_decides: "decide_all ex_device 1000000 ex_start ex_mutations ex_decisions ex_end"
proof -
  let ?A1 = "accept_change ex_start ex_change (ex_receipt ''op-00001'' True)"
  have one: "decides ex_device 1000000 ex_start (ex_mutation ''op-00001'') (ex_decisions ! 0) ?A1"
    using ex_decides_one by (simp add: ex_after_one_def)
  have two: "decides ex_device 1000000 ?A1 (ex_mutation ''op-00002'') (ex_decisions ! 1) ex_end"
    unfolding ex_decisions_def ex_end_def nth_Cons_0 nth_Cons_Suc One_nat_def
    by (rule decides.superseded)
      (simp_all add: ex_mutation_valid ex_start_sel accept_change_def stored_record_def ex_change_def
        ex_receipt_def ex_key_unpadded)
  have three: "decides ex_device 1000000 ex_end (ex_mutation ''op-00001'') (ex_decisions ! 2) ex_end"
    unfolding ex_decisions_def nth_Cons_0 nth_Cons_Suc numeral_2_eq_2 One_nat_def
    by (rule decides.replayed)
      (simp_all add: ex_mutation_valid ex_end_def note_receipt_def accept_change_def ex_change_def ex_receipt_def)
  have "ex_decisions = [ex_decisions ! 0, ex_decisions ! 1, ex_decisions ! 2]" by (simp add: ex_decisions_def)
  moreover have "decide_all ex_device 1000000 ex_start ex_mutations
      [ex_decisions ! 0, ex_decisions ! 1, ex_decisions ! 2] ex_end"
    unfolding ex_mutations_def by (intro decide_all.more [OF one] decide_all.more [OF two]
        decide_all.more [OF three] decide_all.none)
  ultimately show ?thesis by simp
qed

lemma ex_recs_end: "ran (a_recs ex_end) = {ex_change}" "ran (a_recs ex_after_one) = {ex_change}"
  by (simp_all add: ex_end_def ex_after_one_def note_receipt_def accept_change_def ex_start_sel stored_record_def)

lemma ex_day: "derive_progress_day ex_json [Some ex_change] = Inr ''2026-07-20''"
  by code_simp

lemma ex_day_derivable: "day_derivable ex_json ex_end" "day_derivable ex_json ex_after_one"
proof -
  have "text_column 64 ''2026-07-20'' = Inr ''2026-07-20''" by (rule text_column_ascii) simp_all
  moreover have "set [ex_change] = ran (a_recs ex_end)" "set [ex_change] = ran (a_recs ex_after_one)"
    by (simp_all add: ex_recs_end)
  ultimately show "day_derivable ex_json ex_end" "day_derivable ex_json ex_after_one"
    using ex_day unfolding day_derivable_def by (intro exI [of _ "[ex_change]"]; simp)+
qed

section \<open>Runs\<close>

lemma ex_ready: "ready ex_env"
  by (simp add: ready_def ex_env_def)

lemma ex_exchange_runs: "\<exists>res s'. exchange ex_env ex_service ex_meta (Some ex_exchange) empty_db = (Inr res, s')"
proof (rule exchange_complete [OF db_inv_empty ex_ready])
  show "decide_all (sr_device_id ex_exchange) (sv_now ex_service)
      (batch_start (md_owner_key ex_meta) (sr_baseline_id ex_exchange) empty_db)
      (sr_mutations ex_exchange) ex_decisions ex_end"
    using ex_decides by (simp add: ex_exchange_def ex_service_def ex_meta_def ex_start_def)
qed (simp_all add: ex_meta_def ex_exchange_valid abs_owner_empty a_baseline_def ex_service_def ex_day_derivable)

lemma ex_single_runs: "\<exists>res s'. exchange ex_env ex_service ex_meta (Some ex_single) empty_db = (Inr res, s')"
proof (rule exchange_complete [OF db_inv_empty ex_ready])
  show "decide_all (sr_device_id ex_single) (sv_now ex_service)
      (batch_start (md_owner_key ex_meta) (sr_baseline_id ex_single) empty_db)
      (sr_mutations ex_single) [ex_decisions ! 0] ex_after_one"
    using decide_all.more [OF ex_decides_one decide_all.none]
    by (simp add: ex_single_def ex_exchange_def ex_service_def ex_meta_def ex_start_def)
  show "validate_exchange_request (md_owner_key ex_meta) (Some ex_single) = Inr ()"
    by (simp add: ex_meta_def ex_single_valid)
qed (simp_all add: abs_owner_empty a_baseline_def ex_service_def ex_day_derivable)

lemma ex_diff_runs: "\<exists>res s'. diff ex_env ex_service ex_meta (Some ex_diff) empty_db = (Inr res, s')"
proof (rule diff_complete [OF db_inv_empty ex_ready])
  show "decide_all (dr_device_id ex_diff) (sv_now ex_service)
      (batch_start (md_owner_key ex_meta) (dr_baseline_id ex_diff) empty_db)
      (dr_mutations ex_diff) ex_decisions ex_end"
    using ex_decides by (simp add: ex_diff_def ex_service_def ex_meta_def ex_start_def)
  show "validate_diff_response_size ex_service response = Inr ()"
    if "dp_acks response = map (receipt_ack \<circ> d_receipt) ex_decisions" for response
    using that by (simp add: validate_diff_response_size_def ex_service_def ex_decisions_def
        receipt_ack_def ex_receipt_def max_diff_response_bytes_def)
qed (simp_all add: ex_meta_def ex_diff_valid abs_owner_empty a_baseline_def ex_service_def ex_day_derivable)

section \<open>Resolutions\<close>

text \<open>A new owner resolves in favour of the local snapshot of one record.\<close>

definition ex_resolve :: "string \<Rightarrow> string \<Rightarrow> baseline_choice \<Rightarrow> resolve_request" where
  "ex_resolve request_id expected choice = \<lparr>rr_request_id = request_id, rr_device_id = ex_device,
     rr_local_baseline_id = ex_local_baseline, rr_expected_server_baseline_id = expected,
     rr_expected_server_version = 0, rr_choice = choice,
     rr_local_snapshot = [ex_mutation ''op-00002''], rr_local_version = 0,
     rr_local_updated_at_ms = 0, rr_local_progress_day = []\<rparr>"

definition ex_snapshot_change :: change where
  "ex_snapshot_change = \<lparr>c_cursor = 1, c_entity_key = ex_key, c_value_json = ex_value, c_deleted = False,
     c_device_id = ex_device, c_client_time_ms = 1000000, c_op_id = ''op-00002''\<rparr>"

lemma ex_resolve_valid:
  assumes "request_id_pattern i" and "choice = CHOICE_USE_LOCAL \<or> choice = CHOICE_USE_SERVER"
    and "baseline_id_pattern b"
  shows "validate_resolve_envelope ex_owner (Some (ex_resolve i b choice)) = Inr ()"
proof -
  have "validate_baseline_id ex_local_baseline ''local_baseline_id'' = Inr ()"
    "validate_all validate_mutation_wire_numbers [ex_mutation ''op-00002''] = Inr ()" by code_simp+
  with assms ex_fields_valid show ?thesis
    by (auto simp: validate_resolve_envelope_def ex_resolve_def validate_baseline_id_def max_resolution_records_def)
qed

lemma ex_patterns: "request_id_pattern ''request-0001''" "baseline_id_pattern ex_local_baseline"
  "baseline_id_pattern ex_baseline"
  by code_simp+

lemma ex_snapshot_valid: "validate_local_snapshot (ex_resolve i b choice) = Inr ()"
  using ex_mutation_valid by (simp add: validate_local_snapshot_ok ex_resolve_def)

lemma ex_snapshot_numbered:
  "number_snapshot (sv_now ex_service) 0 (sort_snapshot (rr_local_snapshot (ex_resolve i b choice))) = [ex_snapshot_change]"
  by (simp add: ex_resolve_def sort_snapshot_def ex_service_def mutation_change_def ex_snapshot_change_def)

lemma ex_snapshot_derivable: "day_derivable (sv_json ex_service) (snapshot_state ex_service (ex_resolve i b choice) A)"
proof -
  have day: "derive_progress_day ex_json [Some ex_snapshot_change] = Inr ''2026-07-20''" by code_simp
  have col: "text_column 64 ''2026-07-20'' = Inr ''2026-07-20''" by (rule text_column_ascii) simp_all
  have "set [ex_snapshot_change] = ran (a_recs (snapshot_state ex_service (ex_resolve i b choice) A))"
    by (simp add: snapshot_state_def ex_snapshot_numbered place_change_def cleared_def stored_record_def)
  with day col show ?thesis unfolding day_derivable_def
    by (intro exI [of _ "[ex_snapshot_change]"]) (simp add: ex_service_def)
qed

lemma ex_resolve_runs:
  "\<exists>res s'. resolve_baseline ex_env ex_service ex_meta
      (Some (ex_resolve ''request-0001'' ex_local_baseline CHOICE_USE_LOCAL)) empty_db = (Inr res, s')"
proof (rule resolve_complete [OF db_inv_empty ex_ready])
  show "validate_resolve_envelope (md_owner_key ex_meta)
      (Some (ex_resolve ''request-0001'' ex_local_baseline CHOICE_USE_LOCAL)) = Inr ()"
    using ex_resolve_valid ex_patterns by (simp add: ex_meta_def)
qed (simp_all add: abs_owner_empty ex_snapshot_valid ex_snapshot_derivable batch_start_def start_head_def,
     simp_all add: ex_resolve_def)

end
