(* ===== verification/Batches.thy ===== *)
theory Batches
  imports Examples
begin

text \<open>
  Whole calls: what a successful call has run, what a matching exchange or diff did against the
  specification (\<open>batch_done\<close>), what the decisions of a batch answer, and that a batch sent again is
  replayed.
\<close>

section \<open>Successful runs\<close>

lemma exchange_ok:
  assumes "exchange env sv md request s = (Inr res, s')"
  obtains r where "request = Some r" "ready env"
    "validate_exchange_request (md_owner_key md) (Some r) = Inr ()"
    "exchange_tx sv md r (started (md_owner_key md) (env_now env) s) = Inr (res, s')"
  using assms
  by (auto simp: exchange_def with_owner_transaction_Inr ready_def split: sum.splits option.splits)

lemma diff_ok:
  assumes "diff env sv md request s = (Inr res, s')"
  obtains r where "request = Some r" "ready env"
    "validate_diff_request (md_owner_key md) (Some r) = Inr ()"
    "diff_tx sv md r (started (md_owner_key md) (env_now env) s) = Inr (res, s')"
  using assms
  by (auto simp: diff_def with_owner_transaction_Inr ready_def split: sum.splits option.splits)

lemma resolve_ok:
  assumes "resolve_baseline env sv md request s = (Inr res, s')"
  obtains r where "request = Some r" "ready env"
    "validate_resolve_envelope (md_owner_key md) (Some r) = Inr ()"
    "resolve_tx sv md r (started (md_owner_key md) (env_now env) s) = Inr (res, s')"
  using assms
  by (auto simp: resolve_baseline_def with_owner_transaction_Inr ready_def split: sum.splits option.splits)

lemma with_owner_transaction_refused:
  assumes "with_owner_transaction env ow fn s = (Inl e, s')" and "\<And>e'. env_commit env \<noteq> CommitUnacknowledged e'"
  shows "s' = s"
  using assms
  by (auto simp: with_owner_transaction_def split: option.splits sum.splits commit_outcome.splits)

lemma operations_refused:
  assumes "\<And>e'. env_commit env \<noteq> CommitUnacknowledged e'"
  shows "exchange env sv md xr s = (Inl e, s') \<Longrightarrow> s' = s"
    and "diff env sv md dr s = (Inl e, s') \<Longrightarrow> s' = s"
    and "resolve_baseline env sv md rr s = (Inl e, s') \<Longrightarrow> s' = s"
  using with_owner_transaction_refused [OF _ assms]
  by (auto simp: exchange_def diff_def resolve_baseline_def split: sum.splits option.splits)

text \<open>
  How a batch that decided \<open>ds\<close> and led from the state \<open>S\<close> to \<open>A\<close> is closed: with nothing accepted
  the state stays \<open>A\<close>; otherwise the version goes up by one, the progress day is the one of the
  records, the accepted changes are archived and one event is queued.
\<close>

definition batch_done ::
  "service \<Rightarrow> command_metadata \<Rightarrow> owner_state \<Rightarrow> decision list \<Rightarrow> owner_state \<Rightarrow> lineage \<Rightarrow> owner_state \<Rightarrow> bool" where
  "batch_done sv md S ds A l F \<longleftrightarrow>
     a_baseline S = Some (ln_baseline_id l) \<and> a_baseline F = Some (ln_baseline_id l) \<and>
     (if accepted_changes ds = [] then F = A \<and> ln_version l = a_version S
      else a_version S \<noteq> - 1 \<and> ln_version l = a_version S + 1 \<and> ln_updated_at_ms l = sv_now sv
        \<and> (\<exists>rs d. set rs = ran (a_recs A) \<and> derive_progress_day (sv_json sv) (map Some rs) = Inr d
             \<and> text_column 64 d = Inr (ln_progress_day l))
        \<and> (\<exists>n. F = publish_batch A l (accepted_changes ds)
             (outbox_row_of (md_owner_key md) (sync_hint md l (a_cursor A) (sv_now sv)) n)))"

lemma batch_summary:
  assumes l: "ensure_lineage sv (md_owner_key md) b (started (md_owner_key md) now s) = Inr (l, s1)"
    and inv: "db_inv s"
    and a: "apply_mutations (md_owner_key md) device ms (sv_now sv) s1 = Inr (batch, s2)"
    and f: "finalize_mutation_batch sv md (md_owner_key md) l batch s2 = Inr ((l', head), s3)"
  shows "\<exists>ds A. decide_all device (sv_now sv) (batch_start (md_owner_key md) b s) ms ds A
    \<and> batch = batch_of ds \<and> head = a_cursor A \<and> tx_ok (md_owner_key md) s3
    \<and> ln_baseline_id l' = ln_baseline_id l
    \<and> batch_done sv md (batch_start (md_owner_key md) b s) ds A l' (abs_owner (md_owner_key md) s3)"
proof -
  let ?ow = "md_owner_key md"
  let ?S = "batch_start ?ow b s" and ?A = "abs_owner ?ow s2"
  have ok: "tx_ok ?ow (started ?ow now s)" by (rule db_inv_tx [OF inv])
  note E = ensure_lineage_inv [OF l ok]
  have S: "abs_owner ?ow s1 = ?S"
    using ensure_lineage_state [OF l ok] by (simp add: started_abs batch_start_def)
  have inv1: "inv_upto (a_cursor ?S) ?S" "a_head ?S \<noteq> None" "a_baseline ?S = Some (ln_baseline_id l)"
    "a_version ?S = ln_version l"
    using E(1-3) by (simp_all add: S tx_ok_def owner_inv_def)
  from batch_refines [OF a f E(1-3)] obtain ds where ds: "decide_all device (sv_now sv) ?S ms ds ?A"
    and b: "batch = batch_of ds" and head: "head = a_cursor ?A" and
    rest: "if accepted_changes ds = [] then s3 = s2 \<and> l' = l
       else \<exists>rs day d. set rs = ran (a_recs ?A)
         \<and> derive_progress_day (sv_json sv) (map Some rs) = Inr d \<and> text_column 64 d = Inr day
         \<and> ln_version l \<noteq> - 1
         \<and> l' = \<lparr>ln_baseline_id = ln_baseline_id l, ln_version = ln_version l + 1,
                ln_updated_at_ms = sv_now sv, ln_progress_day = day\<rparr>
         \<and> abs_owner ?ow s3 = publish_batch ?A l' (accepted_changes ds)
             (outbox_row_of ?ow (sync_hint md l' head (sv_now sv)) (db_next_event s2))"
    unfolding S by blast
  have base: "a_baseline ?A = Some (ln_baseline_id l)"
    using decide_all_inv [OF ds inv1(1,2)] inv1(3) by simp
  have l'b: "ln_baseline_id l' = ln_baseline_id l" using rest by (cases "accepted_changes ds = []") auto
  have "batch_done sv md ?S ds ?A l' (abs_owner ?ow s3)"
  proof (cases "accepted_changes ds = []")
    case True
    with rest base inv1 show ?thesis by (simp add: batch_done_def)
  next
    case False
    with rest have v: "ln_version l \<noteq> - 1" "ln_version l' = ln_version l + 1" "ln_updated_at_ms l' = sv_now sv"
      and day: "\<exists>rs d. set rs = ran (a_recs ?A) \<and> derive_progress_day (sv_json sv) (map Some rs) = Inr d
        \<and> text_column 64 d = Inr (ln_progress_day l')"
      and F: "abs_owner ?ow s3 = publish_batch ?A l' (accepted_changes ds)
             (outbox_row_of ?ow (sync_hint md l' head (sv_now sv)) (db_next_event s2))" by auto
    from F have "\<exists>n. abs_owner ?ow s3 = publish_batch ?A l' (accepted_changes ds)
        (outbox_row_of ?ow (sync_hint md l' (a_cursor ?A) (sv_now sv)) n)" unfolding head by (rule exI)
    with False v day base inv1 l'b F show ?thesis by (simp add: batch_done_def)
  qed
  with ds b head l'b batch_inv [OF a f E(1-3)] show ?thesis by blast
qed

lemma exchange_summary:
  assumes run: "exchange env sv md (Some r) s = (Inr res, s')" and inv: "db_inv s"
    and match: "\<not> sp_baseline_mismatch (er_response res)"
  shows "\<exists>ds A l. decide_all (sr_device_id r) (sv_now sv) (batch_start (md_owner_key md) (sr_baseline_id r) s)
       (sr_mutations r) ds A
    \<and> batch_done sv md (batch_start (md_owner_key md) (sr_baseline_id r) s) ds A l (abs_owner (md_owner_key md) s')
    \<and> ln_baseline_id l = sr_baseline_id r \<and> tx_ok (md_owner_key md) s'
    \<and> res = exchange_answer r (batch_of ds) l (a_cursor A) (operations_after (md_owner_key md) (sr_cursor r)
               (normalized_pull_limit (sr_pull_limit r) + 1) s')"
proof -
  from exchange_ok [OF run] have tx: "exchange_tx sv md r (started (md_owner_key md) (env_now env) s) = Inr (res, s')"
    by blast
  show ?thesis
  proof (cases rule: exchange_tx_run [OF tx db_inv_tx [OF inv], case_names mismatch batch])
    case (mismatch l)
    with match show ?thesis by (simp add: exchange_mismatch_def)
  next
    case (batch l s1 b s2 l' head)
    from batch_summary [OF batch(1) inv batch(3,4)] batch(2,5) show ?thesis by auto
  qed
qed

lemma diff_summary:
  assumes run: "diff env sv md (Some r) s = (Inr res, s')" and inv: "db_inv s"
    and match: "\<not> dp_baseline_mismatch (df_response res)"
  shows "\<exists>ds A l. decide_all (dr_device_id r) (sv_now sv) (batch_start (md_owner_key md) (dr_baseline_id r) s)
       (dr_mutations r) ds A
    \<and> batch_done sv md (batch_start (md_owner_key md) (dr_baseline_id r) s) ds A l (abs_owner (md_owner_key md) s')
    \<and> ln_baseline_id l = dr_baseline_id r \<and> tx_ok (md_owner_key md) s'
    \<and> res = diff_result_of r (diff_answer (batch_of ds) l (a_cursor A)) (accepted_changes ds \<noteq> []) l (a_cursor A)"
proof -
  from diff_ok [OF run] have tx: "diff_tx sv md r (started (md_owner_key md) (env_now env) s) = Inr (res, s')"
    by blast
  show ?thesis
  proof (cases rule: diff_tx_run [OF tx db_inv_tx [OF inv], case_names mismatch batch])
    case (mismatch l)
    with match show ?thesis by (simp add: diff_mismatch_def diff_result_of_def)
  next
    case (batch l s1 b s2 l' head)
    from batch_summary [OF batch(1) inv batch(3,4)] obtain ds A where
      "decide_all (dr_device_id r) (sv_now sv) (batch_start (md_owner_key md) (dr_baseline_id r) s) (dr_mutations r) ds A"
      "b = batch_of ds" "head = a_cursor A" "tx_ok (md_owner_key md) s'" "ln_baseline_id l' = ln_baseline_id l"
      "batch_done sv md (batch_start (md_owner_key md) (dr_baseline_id r) s) ds A l' (abs_owner (md_owner_key md) s')"
      by blast
    moreover have "(mb_applied (batch_of ds) > 0) = (accepted_changes ds \<noteq> [])" by (simp add: batch_of_def)
    ultimately show ?thesis using batch(2,6) by (intro exI [of _ ds] exI [of _ A] exI [of _ l']) simp
  qed
qed

section \<open>What the decisions of a batch answer\<close>

text \<open>Two changes that differ at most in trailing blanks of the entity key.\<close>

definition same_change :: "change \<Rightarrow> change \<Rightarrow> bool" where
  "same_change x y \<longleftrightarrow> x = y\<lparr>c_entity_key := c_entity_key x\<rparr> \<and> pad_key (c_entity_key x) = pad_key (c_entity_key y)"

lemma same_change_refl [simp]: "same_change x x"
  by (simp add: same_change_def)

lemma same_change_cursor: "same_change x y \<Longrightarrow> c_cursor x = c_cursor y"
  unfolding same_change_def by (metis change.select_convs(1) change.surjective change.update_convs(2))

text \<open>After a mutation is decided, its receipt and the operation it points to are there.\<close>

lemma decides_recorded:
  assumes d: "decides device now A m d A'" and inv: "inv_upto w A" and h: "a_head A \<noteq> None"
  shows "validate_mutation m device = Inr () \<and> a_receipts A' (Mutation_GetOpId m) = Some (d_receipt d)
    \<and> rc_op_id (d_receipt d) = Mutation_GetOpId m
    \<and> rc_conflict (d_receipt d) = (\<not> rc_applied (d_receipt d))
    \<and> c_cursor (d_change d) = rc_server_cursor (d_receipt d)
    \<and> (\<exists>ch. a_ops A' (rc_server_cursor (d_receipt d)) = Some ch \<and> same_change (d_change d) ch)
    \<and> a_receipts A \<subseteq>\<^sub>m a_receipts A' \<and> a_ops A \<subseteq>\<^sub>m a_ops A'"
  using d
proof cases
  case (replayed rc ch)
  with inv log_ok_bound [of A "rc_server_cursor rc" ch] show ?thesis
    by (auto simp: inv_upto_def receipts_ok_def)
next
  case (accepted ch rc)
  then show ?thesis
    using log_ok_next [of A] inv
    by (auto simp: accept_change_def mutation_change_def map_le_def inv_upto_def)
next
  case (superseded e rc)
  have "latest A (pad_key (Mutation_GetEntityKey m)) e"
    using inv superseded(5) by (simp add: inv_upto_def records_ok_def)
  then obtain ch where "a_ops A (c_cursor e) = Some ch" "same_change e ch"
    by (auto simp: latest_def same_change_def)
  with superseded show ?thesis by (auto simp: note_receipt_def map_le_def)
qed

lemma decide_all_recorded:
  assumes "decide_all device now A ms ds A'" and "inv_upto w A" and "a_head A \<noteq> None" and "a_baseline A \<noteq> None"
  shows "a_receipts A \<subseteq>\<^sub>m a_receipts A' \<and> a_ops A \<subseteq>\<^sub>m a_ops A' \<and> list_all2 (\<lambda>m d.
      validate_mutation m device = Inr () \<and> a_receipts A' (Mutation_GetOpId m) = Some (d_receipt d)
    \<and> rc_op_id (d_receipt d) = Mutation_GetOpId m
    \<and> rc_conflict (d_receipt d) = (\<not> rc_applied (d_receipt d))
    \<and> c_cursor (d_change d) = rc_server_cursor (d_receipt d)
    \<and> (\<exists>ch. a_ops A' (rc_server_cursor (d_receipt d)) = Some ch \<and> same_change (d_change d) ch)) ms ds"
  using assms
proof (induction rule: decide_all.induct)
  case (more A m d A1 ms ds A2)
  note one = decides_recorded [OF more.hyps(1) more.prems(1,2)]
  have next1: "inv_upto w A1" "a_head A1 \<noteq> None" "a_baseline A1 \<noteq> None"
    using decides_inv [OF more.hyps(1) more.prems] more.prems(3) by simp_all
  note rest = more.IH [OF next1]
  have "a_receipts A1 \<subseteq>\<^sub>m a_receipts A2" "a_ops A1 \<subseteq>\<^sub>m a_ops A2" using rest by simp_all
  then have "a_receipts A2 (Mutation_GetOpId m) = Some (d_receipt d)"
    and "\<exists>ch. a_ops A2 (rc_server_cursor (d_receipt d)) = Some ch \<and> same_change (d_change d) ch"
    using one unfolding map_le_def by (metis domI)+
  with one rest show ?case by (auto intro: map_le_trans)
qed simp

section \<open>The decision on a new mutation\<close>

text \<open>
  What the decision \<open>d\<close> that settled the mutation \<open>m\<close> says: applied, it is the change of the mutation at
  the cursor of the receipt; refused, it is the newer record under the mutation's key.
\<close>

definition settles :: "u64 \<Rightarrow> mutation option \<Rightarrow> decision \<Rightarrow> bool" where
  "settles now m d \<longleftrightarrow>
     (if rc_applied (d_receipt d) then d_verdict d = Accepted
        \<and> d_change d = mutation_change m (rc_server_cursor (d_receipt d))
            (clamp_client_time (Mutation_GetClientTimeMs m) now)
      else d_verdict d = Superseded
        \<and> pad_key (c_entity_key (d_change d)) = pad_key (Mutation_GetEntityKey m)
        \<and> Mutation_GetBaseVersion m < rc_server_cursor (d_receipt d))"

lemma decides_settles:
  assumes "decides device now A m d A'" and "inv_upto w A" and "a_receipts A (Mutation_GetOpId m) = None"
  shows "settles now m d \<and> a_receipts A' (Mutation_GetOpId m) = Some (d_receipt d)"
  using assms(1)
proof cases
  case (superseded e rc)
  have "latest A (pad_key (Mutation_GetEntityKey m)) e"
    using assms(2) superseded(5) by (simp add: inv_upto_def records_ok_def)
  with superseded show ?thesis by (simp add: settles_def latest_def note_receipt_def)
qed (use assms(3) in \<open>simp_all add: settles_def accept_change_def\<close>)

lemma decides_receipt_kept:
  "decides device now A m d A' \<Longrightarrow> a_receipts A op = Some rc \<Longrightarrow> a_receipts A' op = Some rc"
  by (erule decides.cases) (auto simp: accept_change_def note_receipt_def)

lemma decides_receipt_other:
  "decides device now A m d A' \<Longrightarrow> op \<noteq> Mutation_GetOpId m \<Longrightarrow> a_receipts A' op = a_receipts A op"
  by (erule decides.cases) (auto simp: accept_change_def note_receipt_def)

lemma decide_all_replays:
  assumes "decide_all device now A ms ds A'" and "a_receipts A op = Some rc"
    and "i < length ms" and "Mutation_GetOpId (ms ! i) = op"
  shows "d_receipt (ds ! i) = rc \<and> d_verdict (ds ! i) = Replayed"
  using assms
proof (induction arbitrary: i rule: decide_all.induct)
  case (more A m d A1 ms ds A2)
  show ?case
  proof (cases i)
    case 0
    with more show ?thesis by (auto elim!: decides.cases)
  next
    case (Suc j)
    with more decides_receipt_kept [OF more.hyps(1)] show ?thesis by simp
  qed
qed simp

text \<open>
  A new mutation gets the receipt of the first mutation of the batch that has its \<open>op_id\<close>, and
  that one was settled; what was superseded was new.
\<close>

lemma decide_all_settles:
  assumes "decide_all device now A ms ds A'" and "inv_upto w A" and "a_head A \<noteq> None" and "a_baseline A \<noteq> None"
    and "i < length ms" and "a_receipts A (Mutation_GetOpId (ms ! i)) = None"
  shows "\<exists>j \<le> i. Mutation_GetOpId (ms ! j) = Mutation_GetOpId (ms ! i)
    \<and> d_receipt (ds ! j) = d_receipt (ds ! i) \<and> settles now (ms ! j) (ds ! j)"
  using assms
proof (induction arbitrary: i rule: decide_all.induct)
  case (more A m d A1 ms ds A2)
  have next1: "inv_upto w A1" "a_head A1 \<noteq> None" "a_baseline A1 \<noteq> None"
    using decides_inv [OF more.hyps(1) more.prems(1-3)] more.prems(3) by simp_all
  note first = decides_settles [OF more.hyps(1) more.prems(1)]
  show ?case
  proof (cases i)
    case 0
    with more.prems first show ?thesis by auto
  next
    case (Suc k)
    show ?thesis
    proof (cases "Mutation_GetOpId (ms ! k) = Mutation_GetOpId m")
      case True
      have new: "a_receipts A (Mutation_GetOpId m) = None" using more.prems Suc True by simp
      have "d_receipt (ds ! k) = d_receipt d"
        using decide_all_replays [OF more.hyps(2) conjunct2 [OF first [OF new]] _ True] more.prems Suc by simp
      with first new Suc True show ?thesis by (intro exI [of _ 0]) auto
    next
      case False
      have "a_receipts A1 (Mutation_GetOpId (ms ! k)) = None"
        using more.prems Suc decides_receipt_other [OF more.hyps(1) False] by simp
      with more.IH [OF next1, of k] more.prems Suc obtain j where "j \<le> k"
        "Mutation_GetOpId (ms ! j) = Mutation_GetOpId (ms ! k)"
        "d_receipt (ds ! j) = d_receipt (ds ! k)" "settles now (ms ! j) (ds ! j)" by auto
      with Suc show ?thesis by (intro exI [of _ "Suc j"]) auto
    qed
  qed
qed simp

lemma decide_all_superseded_new:
  assumes "decide_all device now A ms ds A'" and "i < length ms" and "d_verdict (ds ! i) = Superseded"
  shows "a_receipts A (Mutation_GetOpId (ms ! i)) = None \<and> rc_conflict (d_receipt (ds ! i))"
  using assms
proof (induction arbitrary: i rule: decide_all.induct)
  case (more A m d A1 ms ds A2)
  show ?case
  proof (cases i)
    case 0
    with more show ?thesis by (auto elim!: decides.cases)
  next
    case (Suc k)
    with more have "a_receipts A1 (Mutation_GetOpId (ms ! k)) = None \<and> rc_conflict (d_receipt (ds ! k))" by simp
    moreover from this have "a_receipts A (Mutation_GetOpId (ms ! k)) = None"
      using decides_receipt_kept [OF more.hyps(1)] by (cases "a_receipts A (Mutation_GetOpId (ms ! k))") auto
    ultimately show ?thesis using Suc by simp
  qed
qed simp

lemma accepted_logged:
  assumes "decide_all device now A ms ds A'" and "log_ok A" and "a_head A \<noteq> None" and "x \<in> set (accepted_changes ds)"
  shows "a_ops A' (c_cursor x) = Some x \<and> a_cursor A < c_cursor x"
proof -
  note ops = decide_all_ops [OF assms(1-3)]
  have "map_of (map (\<lambda>ch. (c_cursor ch, ch)) (accepted_changes ds)) (c_cursor x) = Some x"
    using assms(4) decide_all_distinct [OF assms(1-3)] by (intro map_of_is_SomeI) (auto simp: comp_def)
  with ops assms(4) show ?thesis by auto
qed

lemma accepted_changes_nth:
  "i < length ds \<Longrightarrow> d_verdict (ds ! i) = Accepted \<Longrightarrow> d_change (ds ! i) \<in> set (accepted_changes ds)"
  by (auto simp: accepted_changes_def)

lemma decide_all_new_answer:
  assumes ds: "decide_all device now A ms ds A'" and inv: "inv_upto w A" and h: "a_head A \<noteq> None"
    and b: "a_baseline A \<noteq> None" and i: "i < length ms" and new: "a_receipts A (Mutation_GetOpId (ms ! i)) = None"
  defines "c \<equiv> rc_server_cursor (d_receipt (ds ! i))"
  shows "\<exists>j \<le> i. \<exists>op. Mutation_GetOpId (ms ! j) = Mutation_GetOpId (ms ! i) \<and> a_ops A' c = Some op
    \<and> (if rc_applied (d_receipt (ds ! i)) then a_cursor A < c
          \<and> op = mutation_change (ms ! j) c (clamp_client_time (Mutation_GetClientTimeMs (ms ! j)) now)
        else Mutation_GetBaseVersion (ms ! j) < c
          \<and> pad_key (c_entity_key op) = pad_key (Mutation_GetEntityKey (ms ! j)))"
proof -
  obtain j where j: "j \<le> i" "Mutation_GetOpId (ms ! j) = Mutation_GetOpId (ms ! i)"
    "d_receipt (ds ! j) = d_receipt (ds ! i)" and set: "settles now (ms ! j) (ds ! j)"
    using decide_all_settles [OF ds inv h b i new] by blast
  note R = decide_all_recorded [OF ds inv h b]
  then have len: "length ms = length ds" by (auto dest: list_all2_lengthD)
  have "j < length ms" using i j(1) by simp
  with R j(3) obtain op where op: "a_ops A' c = Some op" "same_change (d_change (ds ! j)) op"
    by (auto simp: list_all2_conv_all_nth c_def)
  have log: "log_ok A" using inv by (simp add: inv_upto_def)
  have "op = d_change (ds ! j) \<and> a_cursor A < c" if app: "rc_applied (d_receipt (ds ! i))"
  proof -
    have "d_change (ds ! j) \<in> set (accepted_changes ds)"
      using app set j i len by (intro accepted_changes_nth) (auto simp: settles_def)
    moreover have "c_cursor (d_change (ds ! j)) = c"
      using app set j by (simp add: settles_def mutation_change_def c_def)
    ultimately show ?thesis using accepted_logged [OF ds log h] op(1) by fastforce
  qed
  moreover have "pad_key (c_entity_key op) = pad_key (c_entity_key (d_change (ds ! j)))"
    using op(2) by (simp add: same_change_def)
  ultimately show ?thesis using j set op(1)
    by (intro exI [of _ j] exI [of _ op]) (simp add: settles_def c_def split: if_splits)
qed

lemma receipt_ack_sel:
  "ack_op_id (receipt_ack rc) = rc_op_id rc" "ack_server_cursor (receipt_ack rc) = rc_server_cursor rc"
  "ack_conflict (receipt_ack rc) = rc_conflict rc" "ack_applied (receipt_ack rc) = rc_applied rc"
  by (simp_all add: receipt_ack_def)

text \<open>The specification leaves no choice.\<close>

lemma decides_fun:
  assumes "decides device now A m d1 A1" and "decides device now A m d2 A2"
  shows "d1 = d2 \<and> A1 = A2"
  using assms by (auto elim!: decides.cases)

lemma decide_all_fun:
  "decide_all device now A ms ds A1 \<Longrightarrow> decide_all device now A ms ds' A2 \<Longrightarrow> ds' = ds \<and> A2 = A1"
proof (induction arbitrary: ds' A2 rule: decide_all.induct)
  case (none A)
  then show ?case by (auto elim: decide_all_NilE)
next
  case (more A m d A1 ms ds A3)
  from more.prems obtain d' ds1 A' where "ds' = d' # ds1" "decides device now A m d' A'"
    "decide_all device now A' ms ds1 A2" by (auto elim: decide_all_ConsE)
  with more.IH decides_fun [OF more.hyps(1)] show ?case by metis
qed

text \<open>All that the answer at one position says.\<close>

lemma decide_all_answer:
  assumes ds: "decide_all device now A ms ds A'" and inv: "inv_upto w A" and h: "a_head A \<noteq> None"
    and b: "a_baseline A \<noteq> None" and i: "i < length ms"
  defines "c \<equiv> rc_server_cursor (d_receipt (ds ! i))"
  shows "rc_op_id (d_receipt (ds ! i)) = Mutation_GetOpId (ms ! i)
    \<and> rc_conflict (d_receipt (ds ! i)) = (\<not> rc_applied (d_receipt (ds ! i)))
    \<and> (\<exists>rc. a_receipts A' (Mutation_GetOpId (ms ! i)) = Some rc \<and> receipt_ack (d_receipt (ds ! i)) = receipt_ack rc)
    \<and> c_cursor (d_change (ds ! i)) = c
    \<and> (\<exists>op. a_ops A' c = Some op \<and> same_change (d_change (ds ! i)) op)
    \<and> (case a_receipts A (Mutation_GetOpId (ms ! i)) of
         Some rc \<Rightarrow> receipt_ack (d_receipt (ds ! i)) = receipt_ack rc
       | None \<Rightarrow> \<exists>j \<le> i. \<exists>op. Mutation_GetOpId (ms ! j) = Mutation_GetOpId (ms ! i) \<and> a_ops A' c = Some op
           \<and> (if rc_applied (d_receipt (ds ! i)) then a_cursor A < c
                 \<and> op = mutation_change (ms ! j) c (clamp_client_time (Mutation_GetClientTimeMs (ms ! j)) now)
               else Mutation_GetBaseVersion (ms ! j) < c
                 \<and> pad_key (c_entity_key op) = pad_key (Mutation_GetEntityKey (ms ! j))))"
proof -
  have "case a_receipts A (Mutation_GetOpId (ms ! i)) of
         Some rc \<Rightarrow> receipt_ack (d_receipt (ds ! i)) = receipt_ack rc
       | None \<Rightarrow> \<exists>j \<le> i. \<exists>op. Mutation_GetOpId (ms ! j) = Mutation_GetOpId (ms ! i) \<and> a_ops A' c = Some op
           \<and> (if rc_applied (d_receipt (ds ! i)) then a_cursor A < c
                 \<and> op = mutation_change (ms ! j) c (clamp_client_time (Mutation_GetClientTimeMs (ms ! j)) now)
               else Mutation_GetBaseVersion (ms ! j) < c
                 \<and> pad_key (c_entity_key op) = pad_key (Mutation_GetEntityKey (ms ! j)))" (is ?decided)
  proof (cases "a_receipts A (Mutation_GetOpId (ms ! i))")
    case None
    with decide_all_new_answer [OF ds inv h b i] show ?thesis by (simp only: option.case c_def simp_thms)
  next
    case (Some rc)
    with decide_all_replays [OF ds Some i refl] show ?thesis by simp
  qed
  moreover have "rc_op_id (d_receipt (ds ! i)) = Mutation_GetOpId (ms ! i)"
    "rc_conflict (d_receipt (ds ! i)) = (\<not> rc_applied (d_receipt (ds ! i)))"
    "\<exists>rc. a_receipts A' (Mutation_GetOpId (ms ! i)) = Some rc \<and> receipt_ack (d_receipt (ds ! i)) = receipt_ack rc"
    "c_cursor (d_change (ds ! i)) = c"
    "\<exists>op. a_ops A' c = Some op \<and> same_change (d_change (ds ! i)) op"
    using decide_all_recorded [OF ds inv h b] i by (auto simp: c_def list_all2_conv_all_nth)
  ultimately show ?thesis by (intro conjI)
qed

section \<open>Sending a batch again\<close>

lemma apply_mutations_replay_state:
  assumes "apply_mutations_from ow device now b ms s = Inr (b', s')"
    and "\<forall>m \<in> set ms. a_receipts (abs_owner ow s) (Mutation_GetOpId m) \<noteq> None"
  shows "s' = s"
  using assms
proof (induction ms arbitrary: b)
  case (Cons m ms)
  then obtain b1 s1 where r1: "apply_mutation ow device now b m s = Inr (b1, s1)"
    and r2: "apply_mutations_from ow device now b1 ms s1 = Inr (b', s')" by (auto elim: tx_bind_InrE)
  obtain rc where rc: "a_receipts (abs_owner ow s) (Mutation_GetOpId m) = Some rc" using Cons.prems(2) by auto
  from r1 have "s1 = s"
    by (auto simp: apply_mutation_def tx_bind_Inr found_receipt rc get_operation_abs)
  with Cons.IH [of b1] r2 Cons.prems(2) show ?case by simp
qed simp

text \<open>
  From any later state that still has the receipts and the operations, the same mutations are all
  replayed, with the same receipts.
\<close>

lemma decide_all_replay:
  assumes "list_all2 (\<lambda>m d. validate_mutation m device = Inr ()
      \<and> a_receipts F (Mutation_GetOpId m) = Some (d_receipt d)
      \<and> (\<exists>ch. a_ops F (rc_server_cursor (d_receipt d)) = Some ch \<and> same_change (d_change d) ch)) ms ds"
  shows "\<exists>ds2. decide_all device now F ms ds2 F \<and> accepted_changes ds2 = []
    \<and> map d_receipt ds2 = map d_receipt ds
    \<and> list_all2 same_change (map d_change ds) (map d_change ds2)"
  using assms
proof (induction rule: list_all2_induct)
  case Nil
  show ?case by (rule exI [of _ "[]"]) (simp add: decide_all.none)
next
  case (Cons m ms d ds)
  then obtain ds2 ch where rest: "decide_all device now F ms ds2 F" "accepted_changes ds2 = []"
    "map d_receipt ds2 = map d_receipt ds" "list_all2 same_change (map d_change ds) (map d_change ds2)"
    and ch: "a_ops F (rc_server_cursor (d_receipt d)) = Some ch" "same_change (d_change d) ch" by blast
  let ?d2 = "\<lparr>d_verdict = Replayed, d_receipt = d_receipt d, d_change = ch\<rparr>"
  have "decides device now F m ?d2 F"
    using Cons.hyps(1) ch(1) by (intro decides.replayed) simp_all
  from decide_all.more [OF this rest(1)] rest ch(2) show ?case by (intro exI [of _ "?d2 # ds2"]) simp
qed

lemma publish_batch_keeps: "batch_done sv md S ds A l F \<Longrightarrow> a_receipts F = a_receipts A \<and> a_ops F = a_ops A"
  by (auto simp: batch_done_def split: if_splits)

lemma batch_start_facts:
  assumes "db_inv s"
  shows "inv_upto (a_cursor (batch_start ow b s)) (batch_start ow b s)" "a_head (batch_start ow b s) \<noteq> None"
    "a_baseline (batch_start ow b s) \<noteq> None"
proof -
  have ok: "tx_ok ow (started ow 0 s)" by (rule db_inv_tx [OF assms])
  obtain l s1 where l: "ensure_lineage undefined ow b (started ow 0 s) = Inr (l, s1)"
    and S: "abs_owner ow s1 = batch_start ow b s"
    using ensure_lineage_complete [OF ok, of undefined b] by (auto simp: started_abs batch_start_def)
  note E = ensure_lineage_inv [OF l ok]
  show "inv_upto (a_cursor (batch_start ow b s)) (batch_start ow b s)" "a_head (batch_start ow b s) \<noteq> None"
    "a_baseline (batch_start ow b s) \<noteq> None"
    using E(1,2) by (simp_all add: S tx_ok_def owner_inv_def)
qed

lemma batch_start_sel:
  "a_receipts (batch_start ow b s) = a_receipts (abs_owner ow s)" "a_ops (batch_start ow b s) = a_ops (abs_owner ow s)"
  "a_recs (batch_start ow b s) = a_recs (abs_owner ow s)" "a_cursor (batch_start ow b s) = a_cursor (abs_owner ow s)"
  by (auto simp: batch_start_def with_lineage_def start_head_def a_cursor_def fresh_head_def split: option.splits)

text \<open>A state that a transaction has left is a fixed point of starting one.\<close>

lemma tx_left_started:
  assumes "tx_ok ow s" and "a_owned (abs_owner ow s)" and "a_baseline (abs_owner ow s) = Some b"
  shows "started ow now s = s" "batch_start ow b s = abs_owner ow s"
proof -
  show st: "started ow now s = s" using assms started_again by (simp add: tx_ok_def abs_sel)
  then have "start_head ow (abs_owner ow s) = abs_owner ow s" using started_abs [of ow now s] by simp
  with assms(1,3) show "batch_start ow b s = abs_owner ow s"
    by (auto simp: batch_start_def with_lineage_def a_baseline_def split: option.splits)
qed

lemma decide_all_events:
  "decide_all device now A ms ds A' \<Longrightarrow> a_events A' = a_events A \<and> a_resolutions A' = a_resolutions A"
proof (induction rule: decide_all.induct)
  case (more A m d A1 ms ds A2)
  have "a_events A1 = a_events A \<and> a_resolutions A1 = a_resolutions A"
    using more.hyps(1) by cases (simp_all add: accept_change_def note_receipt_def)
  with more.IH show ?case by simp
qed simp

lemma owner_inv_version0:
  assumes "db_inv s" and "a_head (abs_owner ow s) = Some h" and "hd_baseline h = None"
  shows "hd_version h = 0"
proof -
  have "blank_ok (abs_owner ow s)" using assms(1) by (simp add: db_inv_def owner_inv_def inv_upto_def)
  with assms(2,3) show ?thesis by (simp add: blank_ok_def head_defs)
qed

end
