(* ===== verification/Feed.thy ===== *)
theory Feed
  imports Batches
begin

text \<open>
  Reading the change feed. The specification is \<open>log_after\<close>: the operations of an owner after a
  cursor, in cursor order, without a gap. The query that \<open>PullOperations\<close> and \<open>ReadFeedSnapshot\<close>
  share returns a prefix of it, so pages that are read one after the other, each from the cursor
  where the last one ended, make up the log.
\<close>

section \<open>The log after a cursor\<close>

definition log_after :: "owner_state \<Rightarrow> u64 \<Rightarrow> change list" where
  "log_after A c = map (\<lambda>i. the (a_ops A (c + of_nat (Suc i)))) [0..<unat (a_cursor A) - unat c]"

lemma length_log_after [simp]: "length (log_after A c) = unat (a_cursor A) - unat c"
  by (simp add: log_after_def)

lemma word_add_of_nat_le:
  fixes c d :: u64
  assumes "i \<le> unat d - unat c"
  shows "unat (c + of_nat i) = unat c + (if unat c \<le> unat d then i else 0)"
proof -
  have "unat d < 2 ^ LENGTH(64)" by (rule unsigned_less)
  then have "unat d < 2 ^ 64" by simp
  then have "unat c + i < 2 ^ 64" if "unat c \<le> unat d" using assms that by linarith
  moreover have "unat (c + of_nat i) = unat c" if "\<not> unat c \<le> unat d"
  proof -
    have "i = 0" using assms that by simp
    then show ?thesis by simp
  qed
  ultimately show ?thesis by (cases "unat c \<le> unat d") (simp_all add: unat_word_ariths unat_of_nat)
qed

lemma log_after_nth:
  assumes "i < length (log_after A c)" and "log_ok A"
  shows "a_ops A (c + of_nat (Suc i)) = Some (log_after A c ! i)"
    and "c_cursor (log_after A c ! i) = c + of_nat (Suc i)"
    and "unat (c_cursor (log_after A c ! i)) = unat c + Suc i"
proof -
  have i: "Suc i \<le> unat (a_cursor A) - unat c" using assms(1) by simp
  then have u: "unat (c + of_nat (Suc i)) = unat c + Suc i"
    using word_add_of_nat_le [OF i] by (auto simp: not_le)
  have "0 < c + of_nat (Suc i)" "c + of_nat (Suc i) \<le> a_cursor A"
    using u i by (simp_all add: word_less_nat_alt word_le_nat_alt del: of_nat_Suc)
  then obtain ch where ch: "a_ops A (c + of_nat (Suc i)) = Some ch"
    using assms(2) unfolding log_ok_def by blast
  have nth: "log_after A c ! i = ch" using assms(1) ch by (simp add: log_after_def del: of_nat_Suc)
  with ch show "a_ops A (c + of_nat (Suc i)) = Some (log_after A c ! i)" by simp
  show "c_cursor (log_after A c ! i) = c + of_nat (Suc i)"
    using log_ok_bound [OF assms(2) ch] nth by simp
  with u show "unat (c_cursor (log_after A c ! i)) = unat c + Suc i" by simp
qed

lemma log_after_sorted: "log_ok A \<Longrightarrow> sorted_wrt (<) (map c_cursor (log_after A c))"
  by (auto simp: sorted_wrt_iff_nth_less log_after_nth(3) word_less_nat_alt simp del: length_log_after)

lemma log_after_set:
  assumes "log_ok A"
  shows "set (log_after A c) = {ch. \<exists>d. c < d \<and> a_ops A d = Some ch}"
proof
  show "set (log_after A c) \<subseteq> {ch. \<exists>d. c < d \<and> a_ops A d = Some ch}"
  proof
    fix ch assume "ch \<in> set (log_after A c)"
    then obtain i where i: "i < length (log_after A c)" "ch = log_after A c ! i" by (auto simp: in_set_conv_nth)
    from log_after_nth [OF i(1) assms] i(2) have "c < c_cursor ch" "a_ops A (c_cursor ch) = Some ch"
      by (simp_all add: word_less_nat_alt)
    then show "ch \<in> {ch. \<exists>d. c < d \<and> a_ops A d = Some ch}" by blast
  qed
  show "{ch. \<exists>d. c < d \<and> a_ops A d = Some ch} \<subseteq> set (log_after A c)"
  proof safe
    fix ch d assume d: "c < d" "a_ops A d = Some ch"
    define i where "i = unat d - unat c - 1"
    have "d \<le> a_cursor A" using log_ok_bound [OF assms d(2)] by simp
    then have i: "i < length (log_after A c)" and Suc: "Suc i = unat d - unat c"
      using d(1) by (simp_all add: i_def word_less_nat_alt word_le_nat_alt)
    have "unat (c + of_nat (Suc i)) = unat d"
      using log_after_nth(2,3) [OF i assms] Suc d(1) by (simp add: word_less_nat_alt)
    then have "c + of_nat (Suc i) = d" by (simp only: word_unat_eq_iff)
    then have "a_ops A d = Some (log_after A c ! i)" using log_after_nth(1) [OF i assms] by simp
    with d(2) nth_mem [OF i] show "ch \<in> set (log_after A c)" by simp
  qed
qed

text \<open>A later cursor reads the rest of the same log.\<close>

lemma log_after_drop:
  assumes "n \<le> length (log_after A c)"
  shows "log_after A (c + of_nat n) = drop n (log_after A c)"
proof -
  have u: "unat (c + of_nat n) = unat c + (if unat c \<le> unat (a_cursor A) then n else 0)"
    using assms word_add_of_nat_le [of n "a_cursor A" c] by simp
  have len: "length (log_after A (c + of_nat n)) = length (drop n (log_after A c))"
    using assms u by simp
  have "log_after A (c + of_nat n) ! i = drop n (log_after A c) ! i"
    if i: "i < length (log_after A (c + of_nat n))" for i
  proof -
    have "unat c \<le> unat (a_cursor A)" and ni: "n + i < unat (a_cursor A) - unat c"
      using i u assms by (simp_all split: if_splits)
    then show ?thesis using i assms
      by (simp add: log_after_def add.assoc del: of_nat_Suc) (simp add: algebra_simps)
  qed
  then show ?thesis by (rule nth_equalityI [OF len])
qed

section \<open>The query reads a prefix of the log\<close>

lemma operations_after_log:
  assumes ok: "db_ok s" and log: "log_ok (abs_owner ow s)"
  shows "operations_after ow after limit s = take limit (log_after (abs_owner ow s) after)"
proof -
  let ?A = "abs_owner ow s"
  let ?rows = "filter (\<lambda>r. cr_owner r = ow \<and> c_cursor (cr_change r) > after) (db_operations s)"
  let ?xs = "sort_key c_cursor (map cr_change ?rows)"
  have d: "distinct (map operation_key (db_operations s))" using ok by (simp add: db_ok_def)
  have "distinct (map (\<lambda>r. c_cursor (cr_change r)) ?rows)"
  proof -
    have "distinct (map operation_key ?rows)" using d by (simp add: distinct_map_filter)
    then have "inj_on operation_key (set ?rows)" and "distinct ?rows" by (simp_all add: distinct_map)
    moreover have "inj_on (\<lambda>r. c_cursor (cr_change r)) (set ?rows)"
      using \<open>inj_on operation_key (set ?rows)\<close> by (auto simp: inj_on_def operation_key_def)
    ultimately show ?thesis by (simp add: distinct_map)
  qed
  then have sorted: "sorted_wrt (<) (map c_cursor ?xs)" by (intro strict_sorted_sort_key) (simp add: comp_def)
  have rows: "set ?xs = set (log_after ?A after)"
    unfolding log_after_set [OF log]
  proof
    show "set ?xs \<subseteq> {ch. \<exists>d. after < d \<and> a_ops ?A d = Some ch}"
      using ops_row [OF ok] by auto
    show "{ch. \<exists>d. after < d \<and> a_ops ?A d = Some ch} \<subseteq> set ?xs"
      by (auto dest!: ops_Some)
  qed
  have cursors: "map c_cursor ?xs = map c_cursor (log_after ?A after)"
    using sorted log_after_sorted [OF log, of after] rows
    by (intro sorted_distinct_set_unique) (simp_all only: strict_sorted_iff list.set_map)
  have "inj_on c_cursor (set (log_after ?A after))"
  proof (rule inj_onI)
    fix x y assume "x \<in> set (log_after ?A after)" "y \<in> set (log_after ?A after)" "c_cursor x = c_cursor y"
    then show "x = y" unfolding log_after_set [OF log] mem_Collect_eq
      by (metis log_ok_bound [OF log] option.inject)
  qed
  then have "?xs = log_after ?A after"
    using cursors rows by (intro map_inj_on [of c_cursor]) (simp_all only: Un_absorb)
  then show ?thesis by (simp add: operations_after_def)
qed

section \<open>Pages\<close>

text \<open>A page of the log: a prefix, where it ends, and whether there is more.\<close>

lemma log_page_end:
  assumes "log_ok A" and "xs = take n (log_after A c)" and "xs \<noteq> []"
  shows "c_cursor (last xs) = c + of_nat (length xs)"
proof -
  have pos: "0 < length xs" using assms(3) by simp
  then have len: "length xs - 1 < length (log_after A c)" "length xs - 1 < n" "Suc (length xs - 1) = length xs"
    using assms(2) by (cases "log_after A c"; cases n; simp add: min_def del: length_log_after)+
  have "last xs = xs ! (length xs - 1)" using assms(3) by (rule last_conv_nth)
  also have "\<dots> = log_after A c ! (length xs - 1)" using assms(2) len(2) by (metis nth_take)
  finally show ?thesis using log_after_nth(2) [OF len(1) assms(1)] by (simp only: len(3))
qed

definition page_of :: "owner_state \<Rightarrow> u64 \<Rightarrow> nat \<Rightarrow> head_row \<Rightarrow> feed_page" where
  "page_of A cursor n h =
     (let changes = take n (log_after A cursor) in
      \<lparr>fp_changes = changes, fp_next_cursor = cursor + of_nat (length changes),
       fp_has_more = (n < length (log_after A cursor)),
       fp_baseline_id = ln_baseline_id (row_lineage h), fp_head_cursor = hd_cursor h,
       fp_server_version = hd_version h, fp_server_updated_at_ms = hd_updated_at_ms h,
       fp_server_progress_day = hd_progress_day h, fp_baseline_mismatch = False,
       fp_reset_required = False\<rparr>)"

lemma log_ok_of_inv: "db_inv s \<Longrightarrow> log_ok (abs_owner ow s)"
  by (simp add: db_inv_def owner_inv_def inv_upto_def)

lemma read_feed_snapshot_abs:
  assumes "db_ok s" and "ready env"
  shows "read_feed_snapshot env ow after limit s =
    (case a_head (abs_owner ow s) of
       None \<Rightarrow> Inl ErrNotFound
     | Some h \<Rightarrow> if hd_baseline h = None then Inl ErrNotFound
         else Inr \<lparr>fs_lineage = row_lineage h, fs_head_cursor = hd_cursor h,
                    fs_changes = operations_after ow after limit s\<rparr>)"
  using assms(2) lineage_filter [OF assms(1), of ow]
  by (auto simp: read_feed_snapshot_def ready_def Let_def query_row_def split: option.splits)

lemma read_feed_page_cases:
  assumes inv: "db_inv s" and env: "ready env"
    and run: "read_feed_page env ow baseline cursor limit s = Inr page"
  defines "A \<equiv> abs_owner ow s"
  shows "case a_head A of
      None \<Rightarrow> fp_changes page = [] \<and> fp_next_cursor page = cursor \<and> \<not> fp_has_more page
        \<and> fp_baseline_id page = baseline \<and> \<not> fp_baseline_mismatch page \<and> fp_reset_required page = (cursor > 0)
    | Some h \<Rightarrow>
        if hd_baseline h = None then
          fp_changes page = [] \<and> fp_next_cursor page = cursor \<and> \<not> fp_has_more page
          \<and> fp_baseline_id page = baseline \<and> \<not> fp_baseline_mismatch page \<and> fp_reset_required page = (cursor > 0)
        else if hd_baseline h \<noteq> Some baseline \<or> cursor > hd_cursor h then
          fp_changes page = [] \<and> fp_next_cursor page = cursor
          \<and> hd_baseline h = Some (fp_baseline_id page)
          \<and> fp_baseline_mismatch page = (hd_baseline h \<noteq> Some baseline)
          \<and> fp_reset_required page = (cursor > hd_cursor h)
        else page = page_of A cursor (nat (normalized_feed_limit limit)) h"
proof -
  let ?n = "nat (normalized_feed_limit limit)"
  have ok: "db_ok s" and log: "log_ok A" using inv log_ok_of_inv by (simp_all add: db_inv_def A_def)
  have rows: "operations_after ow cursor (Suc ?n) s = take (Suc ?n) (log_after A cursor)"
    unfolding A_def by (rule operations_after_log [OF ok]) (use log in \<open>simp add: A_def\<close>)
  show ?thesis
  proof (cases "a_head A")
    case None
    with run show ?thesis
      by (auto simp: read_feed_page_def read_feed_snapshot_abs [OF ok env] A_def [symmetric] Let_def split: sum.splits)
  next
    case (Some h)
    show ?thesis
    proof (cases "hd_baseline h")
      case None
      with Some run show ?thesis
        by (auto simp: read_feed_page_def read_feed_snapshot_abs [OF ok env] A_def [symmetric] Let_def split: sum.splits)
    next
      case b: (Some b)
      show ?thesis
      proof (cases "b \<noteq> baseline \<or> cursor > hd_cursor h")
        case True
        with Some b run show ?thesis
          by (auto simp: read_feed_page_def read_feed_snapshot_abs [OF ok env] A_def [symmetric] Let_def
              row_lineage_def split: sum.splits)
      next
        case False
        define L where "L = log_after A cursor"
        define N where "N = ?n"
        have snap: "read_feed_snapshot env ow cursor (N + 1) s =
            Inr \<lparr>fs_lineage = row_lineage h, fs_head_cursor = hd_cursor h, fs_changes = take (Suc N) L\<rparr>"
          using Some b by (simp add: read_feed_snapshot_abs [OF ok env] A_def [symmetric] L_def N_def rows)
        have valid: "and_then (validate_owner_key ow) (and_then (validate_baseline_id baseline ''baseline_id'')
            (and_then (validate_safe [cursor]) (check_that (\<not> limit < 0) ''invalid feed limit''))) = Inr ()"
          using run by (auto simp: read_feed_page_def split: sum.splits)
        have cut: "(N < length (take (Suc N) L)) = (N < length L)"
          "(if N < length L then take N (take (Suc N) L) else take (Suc N) L) = take N L" by (auto simp: min_def)
        have last: "(if take N L \<noteq> [] then c_cursor (last (take N L)) else cursor) = cursor + of_nat (length (take N L))"
          using log_page_end [OF log refl, of N cursor, folded L_def] 
          by (cases "take N L = []") (simp_all del: take_eq_Nil take_eq_Nil2 length_take)
        from run have "page = \<lparr>fp_changes = take N L,
            fp_next_cursor = (if take N L \<noteq> [] then c_cursor (last (take N L)) else cursor),
            fp_has_more = (N < length L), fp_baseline_id = ln_baseline_id (row_lineage h),
            fp_head_cursor = hd_cursor h, fp_server_version = hd_version h,
            fp_server_updated_at_ms = hd_updated_at_ms h, fp_server_progress_day = hd_progress_day h,
            fp_baseline_mismatch = False, fp_reset_required = False\<rparr>"
          using Some b False
          unfolding read_feed_page_def valid sum.case N_def [symmetric] Let_def snap
          by (simp only: feed_snapshot.simps cut) (simp add: row_lineage_def del: take_eq_Nil take_eq_Nil2)
        with Some b False show ?thesis unfolding last by (simp add: page_of_def Let_def L_def N_def)
      qed
    qed
  qed
qed

text \<open>A well-formed feed request is always answered.\<close>

lemma read_feed_page_total:
  assumes "db_ok s" and "ready env" and "validate_owner_key ow = Inr ()"
    and "validate_baseline_id baseline ''baseline_id'' = Inr ()" and "cursor \<le> max_safe_integer" and "0 \<le> limit"
  shows "\<exists>page. read_feed_page env ow baseline cursor limit s = Inr page"
proof -
  have "and_then (validate_owner_key ow) (and_then (validate_baseline_id baseline ''baseline_id'')
      (and_then (validate_safe [cursor]) (check_that (\<not> limit < 0) ''invalid feed limit''))) = Inr ()"
    using assms(3-6) by (simp add: not_less)
  note valid = this
  show ?thesis
    unfolding read_feed_page_def valid sum.case Let_def read_feed_snapshot_abs [OF assms(1,2)]
    by (cases "a_head (abs_owner ow s)") auto
qed

section \<open>The log of a baseline only grows\<close>

text \<open>
  The archive of a baseline is never changed, and while the baseline is current it is the log. So
  if an owner is on the same baseline at two moments, the earlier log is a prefix of the later one,
  whatever happened in between.
\<close>

lemma archive_grows:
  assumes "service_step s s'"
  shows "a_archive (abs_owner ow s) \<subseteq>\<^sub>m a_archive (abs_owner ow s')"
    and "\<exists>new. a_events (abs_owner ow s') = a_events (abs_owner ow s) @ new"
proof -
  have "logs_grow s s'" using assms by cases (auto dest: operations_logs)
  then obtain xs ys where "db_archive s' = db_archive s @ xs" "db_outbox s' = db_outbox s @ ys"
    by (auto simp: logs_grow_def)
  then show "a_archive (abs_owner ow s) \<subseteq>\<^sub>m a_archive (abs_owner ow s')"
    and "\<exists>new. a_events (abs_owner ow s') = a_events (abs_owner ow s) @ new"
    by (auto simp: map_le_def abs_sel row_lookup_def find_append split: option.splits)
qed

lemma steps_inv: "service_step\<^sup>*\<^sup>* s s' \<Longrightarrow> db_inv s \<Longrightarrow> db_inv s'"
  by (induction rule: rtranclp_induct) (auto intro: service_step_inv)

lemma archive_grows_steps:
  "service_step\<^sup>*\<^sup>* s s' \<Longrightarrow> a_archive (abs_owner ow s) \<subseteq>\<^sub>m a_archive (abs_owner ow s')"
  by (induction rule: rtranclp_induct) (auto intro: archive_grows(1) map_le_trans)

lemma archive_is_log: "owner_inv A \<Longrightarrow> a_baseline A = Some b \<Longrightarrow> a_archive A (b, c) = a_ops A c"
  by (auto simp: owner_inv_def inv_upto_def archive_ok_def log_ok_def)

lemma log_grows:
  assumes "service_step\<^sup>*\<^sup>* s s'" and "db_inv s"
    and "a_baseline (abs_owner ow s) = Some b" and "a_baseline (abs_owner ow s') = Some b"
  shows "a_ops (abs_owner ow s) \<subseteq>\<^sub>m a_ops (abs_owner ow s')"
proof -
  have "owner_inv (abs_owner ow s)" "owner_inv (abs_owner ow s')"
    using assms(2) steps_inv [OF assms(1,2)] by (simp_all add: db_inv_def)
  then have "a_archive (abs_owner ow s) (b, c) = a_ops (abs_owner ow s) c"
    "a_archive (abs_owner ow s') (b, c) = a_ops (abs_owner ow s') c" for c
    using assms(3,4) by (simp_all add: archive_is_log)
  then show ?thesis
    using archive_grows_steps [OF assms(1), of ow] unfolding map_le_def by (metis domIff)
qed

lemma log_after_prefix:
  assumes A: "log_ok A" and B: "log_ok B" and le: "a_ops A \<subseteq>\<^sub>m a_ops B"
  shows "a_cursor A \<le> a_cursor B"
    and "log_after A c = take (length (log_after A c)) (log_after B c)"
proof -
  show cur: "a_cursor A \<le> a_cursor B"
  proof (cases "a_cursor A = 0")
    case False
    then have "a_ops A (a_cursor A) \<noteq> None" using A by (simp add: log_ok_def word_neq_0_conv)
    then have "a_ops B (a_cursor A) \<noteq> None" using le by (auto simp: map_le_def dom_def)
    then show ?thesis using B by (simp add: log_ok_def)
  qed simp
  show "log_after A c = take (length (log_after A c)) (log_after B c)"
  proof (rule nth_equalityI)
    show "length (log_after A c) = length (take (length (log_after A c)) (log_after B c))"
      using cur by (simp add: word_le_nat_alt)
    fix i assume i: "i < length (log_after A c)"
    then have j: "i < length (log_after B c)" using cur by (simp add: word_le_nat_alt)
    have "a_ops B (c + of_nat (Suc i)) = Some (log_after A c ! i)"
      using le log_after_nth(1) [OF i A] by (auto simp: map_le_def dom_def)
    with log_after_nth(1) [OF j B] i show "log_after A c ! i = take (length (log_after A c)) (log_after B c) ! i"
      by simp
  qed
qed

end
