(* ===== verification/OwnerMap.thy ===== *)
theory OwnerMap
  imports Prelude "HOL-Library.AList"
begin

text \<open>
  The index that both hubs of \<open>internal/realtime\<close> keep: a Go map from owner keys to non-empty maps.
  The inner map is created on the first insertion and dropped with its last entry. The inner map is
  an association list without duplicate keys; Go fixes no order of iteration, and no property
  depends on the order of the list. The interface, as a locale, is what the hubs rely on.
\<close>

type_synonym ('k, 'v) owner_map = "string \<Rightarrow> ('k \<times> 'v) list option"

definition om_entries :: "('k, 'v) owner_map \<Rightarrow> string \<Rightarrow> ('k \<times> 'v) list" where
  "om_entries m ow = (case m ow of None \<Rightarrow> [] | Some kvs \<Rightarrow> kvs)"

definition om_find :: "('k, 'v) owner_map \<Rightarrow> string \<Rightarrow> 'k \<Rightarrow> 'v option" where
  "om_find m ow k = map_of (om_entries m ow) k"

definition om_put :: "string \<Rightarrow> 'k \<Rightarrow> 'v \<Rightarrow> ('k, 'v) owner_map \<Rightarrow> ('k, 'v) owner_map" where
  "om_put ow k v m = m(ow \<mapsto> AList.update k v (om_entries m ow))"

definition om_delete :: "string \<Rightarrow> 'k \<Rightarrow> ('k, 'v) owner_map \<Rightarrow> ('k, 'v) owner_map" where
  "om_delete ow k m =
     (case m ow of
        None \<Rightarrow> m
      | Some kvs \<Rightarrow> (let rest = AList.delete k kvs in if rest = [] then m(ow := None) else m(ow \<mapsto> rest)))"

text \<open>No inner map is empty, and none has a key twice.\<close>

definition om_ok :: "('k, 'v) owner_map \<Rightarrow> bool" where
  "om_ok m \<longleftrightarrow> (\<forall>ow kvs. m ow = Some kvs \<longrightarrow> kvs \<noteq> [] \<and> distinct (map fst kvs))"

section \<open>The interface\<close>

locale owner_index =
  fixes find :: "'m \<Rightarrow> string \<Rightarrow> 'k \<Rightarrow> 'v option"
    and put :: "string \<Rightarrow> 'k \<Rightarrow> 'v \<Rightarrow> 'm \<Rightarrow> 'm"
    and delete :: "string \<Rightarrow> 'k \<Rightarrow> 'm \<Rightarrow> 'm"
    and owners :: "'m \<Rightarrow> string set"
    and ok :: "'m \<Rightarrow> bool"
  assumes find_put: "find (put ow k v m) o' k' = (if o' = ow \<and> k' = k then Some v else find m o' k')"
    and find_delete: "find (delete ow k m) o' k' = (if o' = ow \<and> k' = k then None else find m o' k')"
    and ok_put: "ok m \<Longrightarrow> ok (put ow k v m)"
    and ok_delete: "ok m \<Longrightarrow> ok (delete ow k m)"
    and owners_find: "ok m \<Longrightarrow> owners m = {ow. \<exists>k. find m ow k \<noteq> None}"
begin

text \<open>Inserting and removing an entry is undone; other owners are never touched.\<close>

lemma delete_put: "find m ow k = None \<Longrightarrow> find (delete ow k (put ow k v m)) = find m"
  by (intro ext) (simp add: find_put find_delete)

lemma other_owner: "o' \<noteq> ow \<Longrightarrow> find (put ow k v m) o' = find m o'" "o' \<noteq> ow \<Longrightarrow> find (delete ow k m) o' = find m o'"
  by (intro ext; simp add: find_put find_delete)+

text \<open>An owner is dropped exactly when its last entry is.\<close>

lemma owners_delete:
  "ok m \<Longrightarrow> ow \<in> owners (delete ow k m) \<longleftrightarrow> (\<exists>k'. k' \<noteq> k \<and> find m ow k' \<noteq> None)"
  by (auto simp: owners_find ok_delete find_delete)

lemma owners_put: "ok m \<Longrightarrow> owners (put ow k v m) = insert ow (owners m)"
  by (auto simp: owners_find ok_put find_put)

end

lemma delete_map_of: "map_of (AList.delete k kvs) k' = (if k' = k then None else map_of kvs k')"
  by (simp add: AList.delete_conv)

lemma om_entries_ok: "om_ok m \<Longrightarrow> distinct (map fst (om_entries m ow))"
  by (auto simp: om_ok_def om_entries_def split: option.splits)

lemma om_find_entries: "om_ok m \<Longrightarrow> om_find m ow k = Some v \<longleftrightarrow> (k, v) \<in> set (om_entries m ow)"
  unfolding om_find_def by (rule map_of_eq_Some_iff [OF om_entries_ok])

interpretation owner_maps: owner_index om_find om_put om_delete "dom" om_ok
proof
  fix m :: "('k, 'v) owner_map" and ow k v o' k'
  show "om_find (om_put ow k v m) o' k' = (if o' = ow \<and> k' = k then Some v else om_find m o' k')"
    by (simp add: om_find_def om_put_def om_entries_def update_conv')
  show "om_find (om_delete ow k m) o' k' = (if o' = ow \<and> k' = k then None else om_find m o' k')"
  proof (cases "m ow")
    case (Some kvs)
    have "map_of kvs k' = None" if "AList.delete k kvs = []" "k' \<noteq> k"
      using delete_map_of [of k kvs k'] unfolding that(1) using that(2) by simp
    with Some show ?thesis
      using delete_map_of [of k kvs k']
      by (auto simp: om_find_def om_delete_def om_entries_def Let_def split: if_splits)
  qed (simp add: om_find_def om_delete_def om_entries_def)
  assume ok: "om_ok m"
  show "om_ok (om_put ow k v m)"
    using ok om_entries_ok [OF ok, of ow] distinct_update [of "om_entries m ow" k v] update_nonempty [of k v "om_entries m ow"]
    by (auto simp: om_ok_def om_put_def)
  show "om_ok (om_delete ow k m)"
    using ok distinct_delete [of _ k]
    by (auto simp: om_ok_def om_delete_def Let_def split: option.splits)
  show "dom m = {ow. \<exists>k. om_find m ow k \<noteq> None}"
  proof (rule set_eqI)
    fix o2
    show "o2 \<in> dom m \<longleftrightarrow> o2 \<in> {ow. \<exists>k. om_find m ow k \<noteq> None}"
    proof (cases "m o2")
      case (Some kvs)
      then have "kvs \<noteq> []" using ok by (simp add: om_ok_def)
      then obtain k v rest where "kvs = (k, v) # rest" by (cases kvs) auto
      then have "om_find m o2 k = Some v" using Some by (simp add: om_find_def om_entries_def)
      with Some show ?thesis by auto
    qed (auto simp: om_find_def om_entries_def)
  qed
qed

lemma om_find_empty [simp]: "om_find (\<lambda>_. None) ow i = None"
  by (simp add: om_find_def om_entries_def)

lemma om_ok_empty [simp]: "om_ok (\<lambda>_. None)"
  by (simp add: om_ok_def)

end
