(* ===== verification/Hub.thy ===== *)
theory Hub
  imports OwnerMap
begin

text \<open>
  The hub of WebSocket peers (\<open>internal/realtime/hub.go\<close>) and the hint it fans out (\<open>Hint\<close> of
  \<open>redis.go\<close>). A peer is a pointer to a struct with a send queue of capacity 32 and an activity
  flag; pointers are positions in a heap. \<open>Broadcast\<close> takes the owner's peers under the lock and
  offers the payload to each of them without it.
\<close>

record hint =
  ht_owner_key :: string
  ht_baseline_id :: string
  ht_server_cursor :: u64
  ht_server_version :: u64
  ht_origin_connection_id :: string

record peer =
  pr_id :: string
  pr_owner_key :: string
  pr_send :: "string list"
  pr_active :: bool

record hub =
  hb_heap :: "peer list"
  hb_by_owner :: "(string, nat) owner_map"

definition peer_queue_size :: nat where "peer_queue_size = 32"

definition new_hub :: hub where
  "new_hub = \<lparr>hb_heap = [], hb_by_owner = (\<lambda>_. None)\<rparr>"

definition new_peer :: "string \<Rightarrow> string \<Rightarrow> peer" where
  "new_peer i ow = \<lparr>pr_id = i, pr_owner_key = ow, pr_send = [], pr_active = True\<rparr>"

text \<open>Allocating a peer; the pointer is the result.\<close>

definition allocate_peer :: "string \<Rightarrow> string \<Rightarrow> hub \<Rightarrow> nat \<times> hub" where
  "allocate_peer i ow h = (length (hb_heap h), h\<lparr>hb_heap := hb_heap h @ [new_peer i ow]\<rparr>)"

definition update_peer :: "nat \<Rightarrow> (peer \<Rightarrow> peer) \<Rightarrow> hub \<Rightarrow> hub" where
  "update_peer p f h = h\<lparr>hb_heap := (hb_heap h)[p := f (hb_heap h ! p)]\<rparr>"

definition set_active :: "nat \<Rightarrow> bool \<Rightarrow> hub \<Rightarrow> hub" where
  "set_active p active h = update_peer p (\<lambda>pr. pr\<lparr>pr_active := active\<rparr>) h"

definition hub_register :: "nat \<Rightarrow> hub \<Rightarrow> hub" where
  "hub_register p h =
     (let pr = hb_heap h ! p
      in h\<lparr>hb_by_owner := om_put (pr_owner_key pr) (pr_id pr) p (hb_by_owner h)\<rparr>)"

definition hub_unregister :: "nat \<Rightarrow> hub \<Rightarrow> hub" where
  "hub_unregister p h =
     (let pr = hb_heap h ! p
      in h\<lparr>hb_by_owner := om_delete (pr_owner_key pr) (pr_id pr) (hb_by_owner h)\<rparr>)"

text \<open>A send that does not block: it is dropped when the queue is full.\<close>

definition offer_payload :: "string \<Rightarrow> peer \<Rightarrow> bool \<times> peer" where
  "offer_payload payload pr =
     (if length (pr_send pr) < peer_queue_size then (True, pr\<lparr>pr_send := pr_send pr @ [payload]\<rparr>)
      else (False, pr))"

text \<open>One iteration of the loop of \<open>Broadcast\<close>.\<close>

definition broadcast_to :: "hint \<Rightarrow> string \<Rightarrow> nat \<Rightarrow> hub \<Rightarrow> hub" where
  "broadcast_to hint payload p h =
     (let pr = hb_heap h ! p in
      if pr_id pr = ht_origin_connection_id hint \<or> \<not> pr_active pr then h
      else update_peer p (\<lambda>pr. snd (offer_payload payload pr)) h)"

definition broadcast_targets :: "hint \<Rightarrow> hub \<Rightarrow> nat list" where
  "broadcast_targets hint h = map snd (om_entries (hb_by_owner h) (ht_owner_key hint))"

definition broadcast :: "hint \<Rightarrow> string \<Rightarrow> hub \<Rightarrow> hub" where
  "broadcast hint payload h = fold (broadcast_to hint payload) (broadcast_targets hint h) h"

text \<open>The writer goroutine takes the oldest message of a peer.\<close>

definition take_message :: "nat \<Rightarrow> hub \<Rightarrow> (string \<times> hub) option" where
  "take_message p h =
     (case pr_send (hb_heap h ! p) of
        [] \<Rightarrow> None
      | m # ms \<Rightarrow> Some (m, update_peer p (\<lambda>pr. pr\<lparr>pr_send := ms\<rparr>) h))"

section \<open>Steps and the invariant\<close>

inductive hub_step :: "hub \<Rightarrow> hub \<Rightarrow> bool" where
  step_allocate: "hub_step h (snd (allocate_peer i ow h))"
| step_register: "p < length (hb_heap h) \<Longrightarrow> hub_step h (hub_register p h)"
| step_unregister: "p < length (hb_heap h) \<Longrightarrow> hub_step h (hub_unregister p h)"
| step_active: "p < length (hb_heap h) \<Longrightarrow> hub_step h (set_active p active h)"
| step_enqueue: "p < length (hb_heap h) \<Longrightarrow> hub_step h (update_peer p (\<lambda>pr. snd (offer_payload payload pr)) h)"
| step_broadcast_to: "p < length (hb_heap h) \<Longrightarrow> hub_step h (broadcast_to hint payload p h)"
| step_take: "p < length (hb_heap h) \<Longrightarrow> take_message p h = Some (m, h') \<Longrightarrow> hub_step h h'"

inductive hub_reachable :: "hub \<Rightarrow> bool" where
  hub_start: "hub_reachable new_hub"
| hub_call: "hub_reachable h \<Longrightarrow> hub_step h h' \<Longrightarrow> hub_reachable h'"

text \<open>A peer is registered under its own owner key and id, and no queue is longer than its capacity.\<close>

definition hub_ok :: "hub \<Rightarrow> bool" where
  "hub_ok h \<longleftrightarrow> om_ok (hb_by_owner h)
     \<and> (\<forall>ow i p. om_find (hb_by_owner h) ow i = Some p \<longrightarrow>
          p < length (hb_heap h) \<and> pr_id (hb_heap h ! p) = i \<and> pr_owner_key (hb_heap h ! p) = ow)
     \<and> (\<forall>p < length (hb_heap h). length (pr_send (hb_heap h ! p)) \<le> peer_queue_size)"

lemma update_peer_ok:
  assumes "hub_ok h" and "p < length (hb_heap h)"
    and "\<And>pr. length (pr_send pr) \<le> peer_queue_size \<Longrightarrow>
      pr_id (f pr) = pr_id pr \<and> pr_owner_key (f pr) = pr_owner_key pr \<and> length (pr_send (f pr)) \<le> peer_queue_size"
  shows "hub_ok (update_peer p f h)"
proof -
  have "length (pr_send (hb_heap h ! p)) \<le> peer_queue_size" using assms(1,2) by (simp add: hub_ok_def)
  note F = assms(3) [OF this]
  show ?thesis
    using assms(1,2) F by (auto simp: hub_ok_def update_peer_def nth_list_update)
qed

lemma offer_payload_ok:
  "length (pr_send pr) \<le> peer_queue_size \<Longrightarrow> length (pr_send (snd (offer_payload payload pr))) \<le> peer_queue_size"
  "pr_id (snd (offer_payload payload pr)) = pr_id pr" "pr_owner_key (snd (offer_payload payload pr)) = pr_owner_key pr"
  "pr_active (snd (offer_payload payload pr)) = pr_active pr"
  by (auto simp: offer_payload_def)

lemma broadcast_to_ok: "hub_ok h \<Longrightarrow> p < length (hb_heap h) \<Longrightarrow> hub_ok (broadcast_to hint payload p h)"
  by (auto simp: broadcast_to_def Let_def offer_payload_ok intro: update_peer_ok)

lemma hub_step_ok:
  assumes "hub_step h h'" and "hub_ok h"
  shows "hub_ok h'"
  using assms
proof cases
  case (step_allocate i ow)
  with assms(2) show ?thesis
    by (auto simp: hub_ok_def allocate_peer_def nth_append new_peer_def less_Suc_eq)
next
  case (step_register p)
  with assms(2) show ?thesis
    by (auto simp: hub_ok_def hub_register_def Let_def owner_maps.find_put owner_maps.ok_put split: if_splits)
next
  case (step_unregister p)
  with assms(2) show ?thesis
    by (auto simp: hub_ok_def hub_unregister_def Let_def owner_maps.find_delete owner_maps.ok_delete split: if_splits)
next
  case (step_active p active)
  with assms(2) show ?thesis by (auto simp: set_active_def intro: update_peer_ok)
next
  case (step_enqueue p payload)
  with assms(2) show ?thesis by (auto simp: offer_payload_ok intro: update_peer_ok)
next
  case (step_broadcast_to p hint payload)
  with assms(2) show ?thesis by (simp add: broadcast_to_ok)
next
  case (step_take p m)
  then obtain ms where q: "pr_send (hb_heap h ! p) = m # ms" and h': "h' = update_peer p (\<lambda>pr. pr\<lparr>pr_send := ms\<rparr>) h"
    by (auto simp: take_message_def split: list.splits)
  have "length (m # ms) \<le> peer_queue_size" using assms(2) step_take(1) q by (metis hub_ok_def)
  then show ?thesis unfolding h' using assms(2) step_take(1) by (intro update_peer_ok) auto
qed

lemma hub_reachable_ok: "hub_reachable h \<Longrightarrow> hub_ok h"
proof (induction rule: hub_reachable.induct)
  case hub_start
  show ?case by (simp add: hub_ok_def new_hub_def)
qed (rule hub_step_ok)

section \<open>What a broadcast does\<close>

definition broadcast_change :: "hint \<Rightarrow> string \<Rightarrow> peer \<Rightarrow> peer" where
  "broadcast_change hint payload pr =
     (if pr_id pr = ht_origin_connection_id hint \<or> \<not> pr_active pr then pr else snd (offer_payload payload pr))"

lemma broadcast_to_heap:
  "p < length (hb_heap h) \<Longrightarrow>
     broadcast_to hint payload p h = h\<lparr>hb_heap := (hb_heap h)[p := broadcast_change hint payload (hb_heap h ! p)]\<rparr>"
  by (simp add: broadcast_to_def broadcast_change_def Let_def update_peer_def)

lemma broadcast_fold:
  "distinct ps \<Longrightarrow> \<forall>p \<in> set ps. p < length (hb_heap h) \<Longrightarrow>
     hb_by_owner (fold (broadcast_to hint payload) ps h) = hb_by_owner h
     \<and> length (hb_heap (fold (broadcast_to hint payload) ps h)) = length (hb_heap h)
     \<and> (\<forall>q < length (hb_heap h). hb_heap (fold (broadcast_to hint payload) ps h) ! q
          = (if q \<in> set ps then broadcast_change hint payload (hb_heap h ! q) else hb_heap h ! q))"
proof (induction ps arbitrary: h)
  case (Cons p ps)
  have p: "p < length (hb_heap h)" and rest: "distinct ps" "p \<notin> set ps" using Cons.prems by simp_all
  let ?h = "h\<lparr>hb_heap := (hb_heap h)[p := broadcast_change hint payload (hb_heap h ! p)]\<rparr>"
  have "\<forall>q \<in> set ps. q < length (hb_heap ?h)" using Cons.prems(2) by simp
  from Cons.IH [OF rest(1) this] show ?case
    using p rest(2) by (auto simp: broadcast_to_heap nth_list_update)
qed simp

lemma broadcast_targets_facts:
  assumes "hub_ok h"
  shows "distinct (broadcast_targets hint h)"
    and "p \<in> set (broadcast_targets hint h) \<longleftrightarrow>
      (\<exists>i. om_find (hb_by_owner h) (ht_owner_key hint) i = Some p)"
proof -
  let ?es = "om_entries (hb_by_owner h) (ht_owner_key hint)"
  have ok: "om_ok (hb_by_owner h)" using assms by (simp add: hub_ok_def)
  show "p \<in> set (broadcast_targets hint h) \<longleftrightarrow>
      (\<exists>i. om_find (hb_by_owner h) (ht_owner_key hint) i = Some p)" for p
    unfolding om_find_entries [OF ok] by (force simp: broadcast_targets_def)
  have ids: "map fst ?es = map (\<lambda>e. pr_id (hb_heap h ! snd e)) ?es"
  proof (rule map_cong [OF refl])
    fix e assume "e \<in> set ?es"
    then have "om_find (hb_by_owner h) (ht_owner_key hint) (fst e) = Some (snd e)"
      unfolding om_find_entries [OF ok] by simp
    with assms show "fst e = pr_id (hb_heap h ! snd e)" by (metis hub_ok_def)
  qed
  have "distinct (map (\<lambda>p. pr_id (hb_heap h ! p)) (map snd ?es))"
    using om_entries_ok [OF ok, of "ht_owner_key hint"] unfolding ids by (simp add: comp_def)
  then show "distinct (broadcast_targets hint h)"
    unfolding broadcast_targets_def by (metis distinct_map)
qed

lemma broadcast_spec:
  assumes "hub_ok h" and "q < length (hb_heap h)"
  shows "hb_heap (broadcast hint payload h) ! q =
    (if om_find (hb_by_owner h) (ht_owner_key hint) (pr_id (hb_heap h ! q)) = Some q
     then broadcast_change hint payload (hb_heap h ! q) else hb_heap h ! q)"
proof -
  note T = broadcast_targets_facts [OF assms(1)]
  have "\<forall>p \<in> set (broadcast_targets hint h). p < length (hb_heap h)"
    using T(2) assms(1) by (auto simp: hub_ok_def)
  note F = broadcast_fold [OF T(1) this, of hint payload, folded broadcast_def]
  have "q \<in> set (broadcast_targets hint h) \<longleftrightarrow>
      om_find (hb_by_owner h) (ht_owner_key hint) (pr_id (hb_heap h ! q)) = Some q"
    unfolding T(2) using assms(1) by (metis hub_ok_def)
  with F assms(2) show ?thesis by simp
qed

end
