(* ===== verification/Outbox.thy ===== *)
theory Outbox
  imports Feed Hub
begin

text \<open>
  The outbox publisher (\<open>internal/store/mysql/outbox.go\<close>). A transaction takes the oldest pending row
  that no other publisher has locked, hands its hint to the publisher, and marks the row or counts
  the attempt. The outside is a record: the transaction's environment, the rows that others have
  locked, and what the publisher answers; a publisher that reports a failure (a timeout) may still
  have delivered the hint. The hints delivered so far are a list beside the database.
\<close>

section \<open>The publisher\<close>

record publish_env =
  pe_tx :: tx_env
  pe_locked :: "nat list"
  pe_failure :: "(bool \<times> string) option"  \<comment> \<open>delivered all the same, and the error text\<close>

definition hint_of :: "outbox_row \<Rightarrow> hint" where
  "hint_of r = \<lparr>ht_owner_key = ob_owner r, ht_baseline_id = ob_baseline_id r,
     ht_server_cursor = ob_server_cursor r, ht_server_version = ob_server_version r,
     ht_origin_connection_id = (case ob_origin r of None \<Rightarrow> [] | Some c \<Rightarrow> c)\<rparr>"

text \<open>\<open>WHERE published_at_ms IS NULL ORDER BY id ASC LIMIT 1 FOR UPDATE SKIP LOCKED\<close>\<close>

definition next_pending :: "nat list \<Rightarrow> db \<Rightarrow> err + outbox_row" where
  "next_pending locked s =
     query_row (take 1 (sort_key ob_id
       (filter (\<lambda>r. ob_published_at_ms r = None \<and> ob_id r \<notin> set locked) (db_outbox s))))"

text \<open>
  The columns \<open>publish_attempts INT UNSIGNED\<close> and \<open>last_error VARCHAR(1024)\<close>. The message is cut at
  1024 bytes, which may leave an incomplete character; the column refuses it.
\<close>

definition count_attempt :: "nat \<Rightarrow> sql_error + nat" where
  "count_attempt n = (if n + 1 < 2 ^ 32 then Inr (n + 1) else Inl ValueOutOfRange)"

definition mark_failed :: "string \<Rightarrow> outbox_row \<Rightarrow> sql_error + outbox_row" where
  "mark_failed message r =
     (case count_attempt (ob_publish_attempts r) of
        Inl e \<Rightarrow> Inl e
      | Inr n \<Rightarrow>
          (case text_column 1024 message of
             Inl e \<Rightarrow> Inl e
           | Inr text \<Rightarrow> Inr (r\<lparr>ob_publish_attempts := n, ob_last_error := Some text\<rparr>)))"

definition mark_published :: "u64 \<Rightarrow> outbox_row \<Rightarrow> sql_error + outbox_row" where
  "mark_published now r =
     (case count_attempt (ob_publish_attempts r) of
        Inl e \<Rightarrow> Inl e
      | Inr n \<Rightarrow> Inr (r\<lparr>ob_published_at_ms := Some now, ob_publish_attempts := n, ob_last_error := None\<rparr>))"

definition update_event :: "nat \<Rightarrow> (outbox_row \<Rightarrow> sql_error + outbox_row) \<Rightarrow> unit dbtx" where
  "update_event i f =
     exec_sql (\<lambda>s. update_rows (\<lambda>r. ob_id r = i) f (db_outbox s)) (\<lambda>t s. s\<lparr>db_outbox := t\<rparr>)"

text \<open>The end of the transaction: what a commit makes of the new state and of the answer.\<close>

definition commit_with :: "commit_outcome \<Rightarrow> err + bool \<Rightarrow> db \<Rightarrow> db \<Rightarrow> (err + bool) \<times> db" where
  "commit_with outcome answer s s' =
     (case outcome of
        Committed \<Rightarrow> (answer, s')
      | CommitRefused e \<Rightarrow> (Inl e, s)
      | CommitUnacknowledged e \<Rightarrow> (Inl e, s'))"

definition publish_one :: "publish_env \<Rightarrow> db \<times> hint list \<Rightarrow> (err + bool) \<times> (db \<times> hint list)" where
  "publish_one env sl =
     (let (s, log) = sl in
      case env_begin_error (pe_tx env) of
        Some e \<Rightarrow> (Inl e, sl)
      | None \<Rightarrow>
          (case next_pending (pe_locked env) s of
             Inl e \<Rightarrow> (if e = ErrNoRows then Inr False else Inl e, sl)
           | Inr row \<Rightarrow>
               (case pe_failure env of
                  Some (delivered, message) \<Rightarrow>
                    (let log' = (if delivered then log @ [hint_of row] else log) in
                     case update_event (ob_id row) (mark_failed (take 1024 message)) s of
                       Inl e \<Rightarrow> (Inl e, (s, log'))
                     | Inr (_, s') \<Rightarrow>
                         (let (r, t) = commit_with (env_commit (pe_tx env)) (Inl (ErrExternal message)) s s'
                          in (r, (t, log'))))
                | None \<Rightarrow>
                    (let log' = log @ [hint_of row] in
                     case update_event (ob_id row) (mark_published (env_now (pe_tx env))) s of
                       Inl e \<Rightarrow> (Inl e, (s, log'))
                     | Inr (_, s') \<Rightarrow>
                         (let (r, t) = commit_with (env_commit (pe_tx env)) (Inr True) s s'
                          in (r, (t, log')))))))"

text \<open>
  \<open>RunOutbox\<close>: one environment per round; after a round that published nothing the loop waits for
  its ticker, which is where it can be cancelled.
\<close>

fun run_outbox :: "publish_env list \<Rightarrow> db \<times> hint list \<Rightarrow> db \<times> hint list" where
  "run_outbox [] sl = sl"
| "run_outbox (env # envs) sl = run_outbox envs (snd (publish_one env sl))"

section \<open>The invariant of the outbox\<close>

definition outbox_ok :: "db \<Rightarrow> bool" where
  "outbox_ok s \<longleftrightarrow> sorted_wrt (<) (map ob_id (db_outbox s)) \<and> (\<forall>r \<in> set (db_outbox s). ob_id r < db_next_event s)"

text \<open>
  Nothing is marked as published whose hint has not been delivered, and nothing is delivered that is
  not in the outbox.
\<close>

definition delivered_ok :: "db \<times> hint list \<Rightarrow> bool" where
  "delivered_ok sl \<longleftrightarrow> outbox_ok (fst sl)
     \<and> (\<forall>r \<in> set (db_outbox (fst sl)). ob_published_at_ms r \<noteq> None \<longrightarrow> hint_of r \<in> set (snd sl))
     \<and> set (snd sl) \<subseteq> hint_of ` set (db_outbox (fst sl))"

text \<open>A row as the publisher must keep it: everything but its delivery columns.\<close>

definition same_event :: "outbox_row \<Rightarrow> outbox_row \<Rightarrow> bool" where
  "same_event r r' \<longleftrightarrow> ob_id r' = ob_id r \<and> ob_owner r' = ob_owner r \<and> ob_event_type r' = ob_event_type r
     \<and> ob_baseline_id r' = ob_baseline_id r \<and> ob_server_cursor r' = ob_server_cursor r
     \<and> ob_server_version r' = ob_server_version r \<and> ob_origin r' = ob_origin r
     \<and> ob_created_at_ms r' = ob_created_at_ms r"

lemma same_event_hint: "same_event r r' \<Longrightarrow> hint_of r' = hint_of r"
  by (simp add: same_event_def hint_of_def)

lemma mark_same:
  "mark_failed m r = Inr r' \<Longrightarrow> same_event r r' \<and> ob_published_at_ms r' = ob_published_at_ms r"
  "mark_published now r = Inr r' \<Longrightarrow> same_event r r' \<and> ob_published_at_ms r' = Some now"
  by (auto simp: mark_failed_def mark_published_def same_event_def split: sum.splits)

definition pending :: "db \<Rightarrow> outbox_row list" where
  "pending s = filter (\<lambda>r. ob_published_at_ms r = None) (db_outbox s)"

lemma next_pending_eq:
  assumes "outbox_ok s"
  shows "next_pending locked s = (case filter (\<lambda>r. ob_id r \<notin> set locked) (pending s) of [] \<Rightarrow> Inl ErrNoRows | r # _ \<Rightarrow> Inr r)"
proof -
  let ?rows = "filter (\<lambda>r. ob_published_at_ms r = None \<and> ob_id r \<notin> set locked) (db_outbox s)"
  have "sorted_wrt (<) (map ob_id ?rows)" using assms by (simp add: outbox_ok_def filter_sort_key_strict)
  then have "sorted (map ob_id ?rows)" by (simp add: strict_sorted_iff)
  then have "sort_key ob_id ?rows = ?rows" by (rule sort_key_id_if_sorted)
  moreover have "?rows = filter (\<lambda>r. ob_id r \<notin> set locked) (pending s)"
    unfolding pending_def filter_filter by (rule filter_cong) auto
  ultimately show ?thesis by (simp add: next_pending_def query_row_def split: list.splits)
qed

lemma outbox_id_inj: "outbox_ok s \<Longrightarrow> r \<in> set (db_outbox s) \<Longrightarrow> r' \<in> set (db_outbox s) \<Longrightarrow> ob_id r = ob_id r' \<longleftrightarrow> r = r'"
  unfolding outbox_ok_def strict_sorted_iff distinct_map inj_on_def by blast

lemma update_event_run:
  assumes ok: "outbox_ok s" and row: "row \<in> set (db_outbox s)"
  shows "update_event (ob_id row) f s = (case f row of
      Inl e \<Rightarrow> Inl (SqlError e)
    | Inr row' \<Rightarrow> Inr ((), s\<lparr>db_outbox := map (\<lambda>r. if r = row then row' else r) (db_outbox s)\<rparr>))"
proof -
  note inj = outbox_id_inj [OF ok _ row]
  show ?thesis
  proof (cases "f row")
    case (Inl e)
    have "update_rows (\<lambda>r. ob_id r = ob_id row) f rows = Inl e"
      if "set rows \<subseteq> set (db_outbox s)" "row \<in> set rows" for rows
      using that
    proof (induction rows)
      case (Cons r rows)
      then show ?case using inj [of r] Inl by (auto split: sum.splits)
    qed simp
    then have "update_rows (\<lambda>r. ob_id r = ob_id row) f (db_outbox s) = Inl e" using row by blast
    with Inl show ?thesis by (simp add: update_event_def exec_sql_def sql_def)
  next
    case (Inr row')
    have "update_rows (\<lambda>r. ob_id r = ob_id row) f (db_outbox s)
        = Inr (map (\<lambda>r. if ob_id r = ob_id row then row' else r) (db_outbox s))"
      by (rule update_rows_ok) (use inj Inr in auto)
    also have "map (\<lambda>r. if ob_id r = ob_id row then row' else r) (db_outbox s)
        = map (\<lambda>r. if r = row then row' else r) (db_outbox s)"
      using inj by (intro map_cong) auto
    finally show ?thesis using Inr by (simp add: update_event_def exec_sql_def sql_def)
  qed
qed

text \<open>What one round does to the outbox: nothing, or it changes the delivery columns of one pending row.\<close>

lemma publish_one_cases:
  assumes ok: "outbox_ok s" and run: "publish_one env (s, log) = (r, (s', log'))"
  shows "(s' = s \<and> (log' = log \<or> (\<exists>row \<in> set (pending s). log' = log @ [hint_of row])) \<and> r \<noteq> Inr True)
    \<or> (\<exists>row row'. row \<in> set (pending s) \<and> same_event row row' \<and> log' \<in> {log, log @ [hint_of row]}
         \<and> (ob_published_at_ms row' \<noteq> None \<longrightarrow> log' = log @ [hint_of row])
         \<and> (r = Inr True \<longrightarrow> ob_published_at_ms row' \<noteq> None)
         \<and> s' = s\<lparr>db_outbox := map (\<lambda>x. if x = row then row' else x) (db_outbox s)\<rparr>)"
proof (cases "env_begin_error (pe_tx env)")
  case (Some e)
  with run show ?thesis by (auto simp: publish_one_def)
next
  case begin_ok: None
  show ?thesis
  proof (cases "filter (\<lambda>r. ob_id r \<notin> set (pe_locked env)) (pending s)")
    case Nil
    with begin_ok run show ?thesis by (auto simp: publish_one_def next_pending_eq [OF ok])
  next
    case (Cons row rest)
    then have row: "row \<in> set (pending s)" by (metis filter_is_subset list.set_intros(1) subsetD)
    then have mem: "row \<in> set (db_outbox s)" and unpublished: "ob_published_at_ms row = None"
      by (simp_all add: pending_def)
    have pick: "next_pending (pe_locked env) s = Inr row" using Cons by (simp add: next_pending_eq [OF ok])
    note U = update_event_run [OF ok mem]
    show ?thesis
    proof (cases "pe_failure env")
      case None
      show ?thesis
      proof (cases "mark_published (env_now (pe_tx env)) row")
        case (Inl e)
        with None begin_ok pick run row U [of "mark_published (env_now (pe_tx env))"] show ?thesis
          by (auto simp: publish_one_def)
      next
        case (Inr row')
        note S = mark_same(2) [OF Inr]
        let ?s = "s\<lparr>db_outbox := map (\<lambda>x. if x = row then row' else x) (db_outbox s)\<rparr>"
        from Inr None begin_ok pick run U [of "mark_published (env_now (pe_tx env))"]
        have L: "log' = log @ [hint_of row]" and C: "(r, s') = commit_with (env_commit (pe_tx env)) (Inr True) s ?s"
          by (auto simp: publish_one_def split: prod.splits)
        show ?thesis
        proof (cases "\<exists>e. env_commit (pe_tx env) = CommitRefused e")
          case True
          with L C row show ?thesis by (auto simp: commit_with_def)
        next
          case False
          then have "s' = ?s" using C by (auto simp: commit_with_def split: commit_outcome.splits)
          with L S row show ?thesis by (intro disjI2 exI [of _ row] exI [of _ row']) simp
        qed
      qed
    next
      case (Some dm)
      obtain delivered message where dm: "dm = (delivered, message)" by (cases dm)
      note U = U [of "mark_failed (take 1024 message)"]
      show ?thesis
      proof (cases "mark_failed (take 1024 message) row")
        case (Inl e)
        with Some dm begin_ok pick run row U show ?thesis by (auto simp: publish_one_def split: if_splits)
      next
        case (Inr row')
        note S = mark_same(1) [OF Inr]
        let ?s = "s\<lparr>db_outbox := map (\<lambda>x. if x = row then row' else x) (db_outbox s)\<rparr>"
        from Inr Some dm begin_ok pick run U
        have L: "log' \<in> {log, log @ [hint_of row]}"
          and C: "(r, s') = commit_with (env_commit (pe_tx env)) (Inl (ErrExternal message)) s ?s"
          by (auto simp: publish_one_def split: prod.splits)
        have r: "r \<noteq> Inr True" using C by (auto simp: commit_with_def split: commit_outcome.splits)
        show ?thesis
        proof (cases "\<exists>e. env_commit (pe_tx env) = CommitRefused e")
          case True
          with L C row show ?thesis by (auto simp: commit_with_def)
        next
          case False
          then have "s' = ?s" using C by (auto simp: commit_with_def split: commit_outcome.splits)
          with L S r row unpublished show ?thesis by (intro disjI2 exI [of _ row] exI [of _ row']) simp
        qed
      qed
    qed
  qed
qed

end
