(* ===== verification/OutboxSpec.thy ===== *)
theory OutboxSpec
  imports Outbox
begin

text \<open>
  What the outbox promises: rounds of the publisher keep the invariant of the database and of the
  outbox, nothing is marked as published that was not delivered, and rounds in which everything
  works deliver the pending hints in order, each once.
\<close>

section \<open>A round of the publisher\<close>

lemma same_event_id: "same_event r r' \<Longrightarrow> ob_id r' = ob_id r \<and> ob_owner r' = ob_owner r"
  by (simp add: same_event_def)

lemma update_row_ids:
  "same_event row row' \<Longrightarrow> map ob_id (map (\<lambda>x. if x = row then row' else x) rows) = map ob_id rows"
  by (auto simp: same_event_def)

lemma outbox_ok_ids:
  assumes "map ob_id t = map ob_id (db_outbox s)" and "outbox_ok s"
  shows "outbox_ok (s\<lparr>db_outbox := t\<rparr>)"
proof -
  have "outbox_ok u \<longleftrightarrow> sorted_wrt (<) (map ob_id (db_outbox u)) \<and> (\<forall>i \<in> set (map ob_id (db_outbox u)). i < db_next_event u)"
    for u :: db by (auto simp: outbox_ok_def)
  with assms show ?thesis by (simp del: set_map)
qed

lemma publish_one_log:
  assumes "outbox_ok s" and "publish_one env (s, log) = (r, (s', log'))"
  shows "\<exists>new. log' = log @ new \<and> length new \<le> 1 \<and> set new \<subseteq> hint_of ` set (pending s)"
proof -
  from publish_one_cases [OF assms] obtain row where
    "log' = log \<or> (row \<in> set (pending s) \<and> log' = log @ [hint_of row])" by blast
  then show ?thesis by auto
qed

lemma publish_one_frame:
  assumes "outbox_ok s" and "publish_one env (s, log) = (r, (s', log'))"
  shows "\<exists>t. s' = s\<lparr>db_outbox := t\<rparr> \<and> list_all2 same_event (db_outbox s) t"
proof -
  have same: "same_event x x" for x by (simp add: same_event_def)
  from publish_one_cases [OF assms] consider "s' = s"
    | row row' where "same_event row row'" "s' = s\<lparr>db_outbox := map (\<lambda>x. if x = row then row' else x) (db_outbox s)\<rparr>"
    by blast
  then show ?thesis
  proof cases
    case 1
    then show ?thesis by (intro exI [of _ "db_outbox s"]) (simp add: list.rel_refl same)
  next
    case (2 row row')
    then show ?thesis
      by (intro exI [of _ "map (\<lambda>x. if x = row then row' else x) (db_outbox s)"])
        (simp add: list_all2_conv_all_nth same)
  qed
qed

lemma publish_one_ok:
  assumes inv: "delivered_ok (s, log)" and run: "publish_one env (s, log) = (r, (s', log'))"
  shows "delivered_ok (s', log')"
proof -
  have ok: "outbox_ok s" using inv by (simp add: delivered_ok_def)
  from publish_one_cases [OF ok run] consider
    (same) "s' = s" "log' = log \<or> (\<exists>row \<in> set (pending s). log' = log @ [hint_of row])"
    | (update) row row' where "row \<in> set (pending s)" "same_event row row'" "log' \<in> {log, log @ [hint_of row]}"
      "ob_published_at_ms row' \<noteq> None \<longrightarrow> log' = log @ [hint_of row]"
      "s' = s\<lparr>db_outbox := map (\<lambda>x. if x = row then row' else x) (db_outbox s)\<rparr>"
    by blast
  then show ?thesis
  proof cases
    case same
    with inv show ?thesis by (auto simp: delivered_ok_def pending_def)
  next
    case (update row row')
    note row = update(1-3) and pub = update(4) and s' = update(5)
    have "outbox_ok s'" unfolding s' by (rule outbox_ok_ids [OF update_row_ids [OF row(2)] ok])
    moreover have "hint_of x \<in> set log'"
      if "x \<in> set (db_outbox s')" and "ob_published_at_ms x \<noteq> None" for x
    proof (cases "x = row'")
      case True
      with that pub show ?thesis by (simp add: same_event_hint [OF row(2)])
    next
      case False
      then have "x \<in> set (db_outbox s)" using that(1) by (auto simp: s' split: if_splits)
      then show ?thesis using inv that(2) row(3) by (auto simp: delivered_ok_def)
    qed
    moreover have "hint_of ` set (db_outbox s') = hint_of ` set (db_outbox s)"
      unfolding s' using same_event_hint [OF row(2)] row(1) by (auto simp: image_iff pending_def)
    ultimately show ?thesis using inv row(1,3) by (auto simp: delivered_ok_def pending_def)
  qed
qed

text \<open>The delivery columns are none of the synchronisation invariant's business.\<close>

lemma owner_inv_events: "owner_inv (A\<lparr>a_events := evs\<rparr>) \<longleftrightarrow> owner_inv A"
  by (simp add: owner_inv_def inv_upto_def inv_defs head_defs latest_def)

lemma abs_owner_outbox:
  "abs_owner ow (s\<lparr>db_outbox := t\<rparr>) = (abs_owner ow s)\<lparr>a_events := filter (\<lambda>r. ob_owner r = ow) t\<rparr>"
  by (simp add: abs_owner_def owner_exists_def)

lemma same_events_ids: "list_all2 same_event rows t \<Longrightarrow> map ob_id t = map ob_id rows"
  by (induction rows t rule: list_all2_induct) (auto dest: same_event_id)

lemma db_ok_outbox:
  assumes "map ob_id t = map ob_id (db_outbox s)" and "db_ok s"
  shows "db_ok (s\<lparr>db_outbox := t\<rparr>)"
proof -
  from assms(1) have "ob_id ` set t = ob_id ` set (db_outbox s)" by (metis set_map)
  with assms(2) have "\<forall>r \<in> set t. ob_id r < db_next_event s" by (force simp: db_ok_def)
  with assms show ?thesis by (simp add: db_ok_def)
qed

lemma publish_one_inv:
  assumes "db_inv s" and "outbox_ok s" and "publish_one env (s, log) = (r, (s', log'))"
  shows "db_inv s'"
proof -
  obtain t where t: "s' = s\<lparr>db_outbox := t\<rparr>" "list_all2 same_event (db_outbox s) t"
    using publish_one_frame [OF assms(2,3)] by blast
  with assms(1) db_ok_outbox [OF same_events_ids [OF t(2)]]
  show ?thesis by (simp add: db_inv_def abs_owner_outbox owner_inv_events)
qed

section \<open>The service and the publisher together\<close>

lemma logs_grow_delivered:
  assumes "logs_grow s s'" and "delivered_ok (s, log)"
  shows "delivered_ok (s', log)"
proof -
  from assms(1) obtain ys where ys: "db_outbox s' = db_outbox s @ ys"
    and new: "new_events (db_next_event s) (db_next_event s') ys" by (auto simp: logs_grow_def)
  from assms(2) have old: "sorted_wrt (<) (map ob_id (db_outbox s))" "\<forall>r \<in> set (db_outbox s). ob_id r < db_next_event s"
    by (simp_all add: delivered_ok_def outbox_ok_def)
  have "\<forall>x \<in> set (db_outbox s). \<forall>y \<in> set ys. ob_id x < ob_id y" using old(2) new by (fastforce simp: new_events_def)
  moreover have "\<forall>r \<in> set (db_outbox s'). ob_id r < db_next_event s'" using old(2) new ys by (fastforce simp: new_events_def)
  ultimately have "outbox_ok s'" using old new ys by (simp add: outbox_ok_def new_events_def sorted_wrt_append)
  with assms(2) new ys show ?thesis by (auto simp: delivered_ok_def new_events_def)
qed

lemma service_step_delivered: "service_step s s' \<Longrightarrow> delivered_ok (s, log) \<Longrightarrow> delivered_ok (s', log)"
  by (cases rule: service_step.cases) (auto dest: operations_logs intro: logs_grow_delivered)

text \<open>
  The backend as the outside sees it: the database and the hints it has delivered. Any call of the
  service and any round of any publisher, in any order.
\<close>

inductive backend_step :: "db \<times> hint list \<Rightarrow> db \<times> hint list \<Rightarrow> bool" where
  backend_service: "service_step s s' \<Longrightarrow> backend_step (s, log) (s', log)"
| backend_publish: "backend_step sl (snd (publish_one env sl))"

inductive backend_reachable :: "db \<times> hint list \<Rightarrow> bool" where
  backend_start: "backend_reachable (empty_db, [])"
| backend_call: "backend_reachable sl \<Longrightarrow> backend_step sl sl' \<Longrightarrow> backend_reachable sl'"

definition backend_ok :: "db \<times> hint list \<Rightarrow> bool" where
  "backend_ok sl \<longleftrightarrow> db_inv (fst sl) \<and> delivered_ok sl"

lemma backend_publish_ok:
  assumes "backend_ok sl"
  shows "backend_ok (snd (publish_one env sl))"
proof -
  obtain s log where sl: "sl = (s, log)" by (cases sl)
  obtain r s' log' where run: "publish_one env (s, log) = (r, (s', log'))" by (metis prod.collapse)
  have "outbox_ok s" using assms sl by (simp add: backend_ok_def delivered_ok_def)
  with assms sl run publish_one_inv [OF _ _ run] publish_one_ok [OF _ run] show ?thesis
    by (simp add: backend_ok_def)
qed

lemma backend_step_ok: "backend_step sl sl' \<Longrightarrow> backend_ok sl \<Longrightarrow> backend_ok sl'"
  by (induction rule: backend_step.induct)
    (auto simp: backend_ok_def intro: service_step_inv service_step_delivered
      backend_publish_ok [unfolded backend_ok_def, THEN conjunct1] backend_publish_ok [unfolded backend_ok_def, THEN conjunct2])

lemma backend_ok_empty: "backend_ok (empty_db, [])"
  by (simp add: backend_ok_def db_inv_empty delivered_ok_def outbox_ok_def) (simp add: empty_db_def)

lemma backend_reachable_ok: "backend_reachable sl \<Longrightarrow> backend_ok sl"
  by (induction rule: backend_reachable.induct) (auto intro: backend_ok_empty backend_step_ok)

text \<open>An event is never lost, and keeps what it says until it is published and after.\<close>

lemma publish_keeps_events:
  assumes "outbox_ok s" and "publish_one env (s, log) = (r, (s', log'))" and "row \<in> set (db_outbox s)"
  shows "\<exists>row' \<in> set (db_outbox s'). same_event row row'"
proof -
  obtain t where "s' = s\<lparr>db_outbox := t\<rparr>" "list_all2 same_event (db_outbox s) t"
    using publish_one_frame [OF assms(1,2)] by blast
  with assms(3) show ?thesis by (metis list_all2_conv_all_nth in_set_conv_nth db.select_convs(9) db.update_convs(9) db.surjective)
qed

section \<open>Rounds in which everything works\<close>

definition publisher_healthy :: "publish_env \<Rightarrow> bool" where
  "publisher_healthy env \<longleftrightarrow> env_begin_error (pe_tx env) = None \<and> env_commit (pe_tx env) = Committed
     \<and> pe_locked env = [] \<and> pe_failure env = None"

lemma publish_one_healthy:
  assumes env: "publisher_healthy env" and ok: "outbox_ok s"
    and attempts: "\<forall>r \<in> set (pending s). ob_publish_attempts r + 1 < 2 ^ 32"
    and p: "pending s = row # rest"
  obtains s' where "publish_one env (s, log) = (Inr True, (s', log @ [hint_of row]))"
    and "pending s' = rest" and "outbox_ok s'"
proof -
  have mem: "row \<in> set (db_outbox s)" using p by (metis filter_is_subset list.set_intros(1) pending_def subsetD)
  have pick: "next_pending (pe_locked env) s = Inr row"
    using env p by (simp add: next_pending_eq [OF ok] publisher_healthy_def)
  obtain row' where mark: "mark_published (env_now (pe_tx env)) row = Inr row'"
    using attempts p by (simp add: mark_published_def count_attempt_def)
  note S = mark_same(2) [OF mark]
  let ?f = "\<lambda>x. if x = row then row' else x"
  let ?s = "s\<lparr>db_outbox := map ?f (db_outbox s)\<rparr>"
  have run: "publish_one env (s, log) = (Inr True, (?s, log @ [hint_of row]))"
    using env pick update_event_run [OF ok mem, of "mark_published (env_now (pe_tx env))"] mark
    by (simp add: publish_one_def publisher_healthy_def commit_with_def)
  have dist: "distinct (db_outbox s)" using ok by (auto simp: outbox_ok_def strict_sorted_iff distinct_map)
  have "pending ?s = filter (\<lambda>x. x \<noteq> row) (pending s)"
  proof -
    have "filter (\<lambda>r. ob_published_at_ms r = None) (map ?f rows)
        = filter (\<lambda>x. x \<noteq> row) (filter (\<lambda>r. ob_published_at_ms r = None) rows)" for rows
      using S by (induction rows) auto
    then show ?thesis by (simp add: pending_def)
  qed
  moreover have "distinct (pending s)" using dist by (simp add: pending_def)
  ultimately have "pending ?s = rest" using p by (auto simp: filter_id_conv)
  moreover have "outbox_ok ?s" using S by (intro outbox_ok_ids [OF update_row_ids ok]) simp
  ultimately show ?thesis using run that by blast
qed

lemma run_outbox_drains:
  assumes "list_all publisher_healthy envs" and "outbox_ok s" and "length envs = length (pending s)"
    and "\<forall>r \<in> set (pending s). ob_publish_attempts r + 1 < 2 ^ 32"
  shows "\<exists>s'. run_outbox envs (s, log) = (s', log @ map hint_of (pending s)) \<and> pending s' = [] \<and> outbox_ok s'"
  using assms
proof (induction envs arbitrary: s log)
  case (Cons env envs)
  then obtain row rest where p: "pending s = row # rest" by (cases "pending s") auto
  from Cons.prems have "publisher_healthy env" by simp
  from publish_one_healthy [OF this Cons.prems(2,4) p] obtain s' where
    run: "publish_one env (s, log) = (Inr True, (s', log @ [hint_of row]))"
    and s': "pending s' = rest" "outbox_ok s'" by blast
  from Cons.IH [OF _ s'(2), of "log @ [hint_of row]"] Cons.prems p s' run show ?case by simp
qed simp

end
