(* ===== verification/SyncProps.thy ===== *)
theory SyncProps
  imports OutboxSpec
begin

text \<open>
  The properties of the synchronisation service as a whole, over its operations and any history
  of calls, each with a witness at the concrete requests of \<open>Examples\<close>.
\<close>

section \<open>Helpers\<close>

lemma ex_no_baseline:
  "a_baseline (abs_owner (md_owner_key ex_meta) (started (md_owner_key ex_meta) now empty_db)) = None"
  by (simp add: started_abs abs_owner_empty a_baseline_def start_head_def fresh_head_def)

lemma ex_matches:
  assumes "exchange ex_env ex_service ex_meta (Some q) empty_db = (Inr res, s')"
  shows "\<not> sp_baseline_mismatch (er_response res)"
proof -
  obtain r where r: "Some q = Some r" "exchange_tx ex_service ex_meta r
      (started (md_owner_key ex_meta) (env_now ex_env) empty_db) = Inr (res, s')"
    using exchange_ok [OF assms] by metis
  show ?thesis
  proof (cases rule: exchange_tx_run [OF r(2) db_inv_tx [OF db_inv_empty], case_names mismatch batch])
    case (mismatch l)
    with ensure_lineage_inv(6) [OF mismatch(1) db_inv_tx [OF db_inv_empty] ex_no_baseline] show ?thesis by simp
  next
    case (batch l s1 b s2 l' head)
    then show ?thesis by (simp add: exchange_answer_def Let_def)
  qed
qed

lemmas ex_exchange_matches = ex_matches [of ex_exchange]
lemmas ex_single_matches = ex_matches [of ex_single]

lemma ex_diff_matches:
  assumes "diff ex_env ex_service ex_meta (Some ex_diff) empty_db = (Inr res, s')"
  shows "\<not> dp_baseline_mismatch (df_response res)"
proof -
  obtain r where r: "Some ex_diff = Some r" "diff_tx ex_service ex_meta r
      (started (md_owner_key ex_meta) (env_now ex_env) empty_db) = Inr (res, s')"
    using diff_ok [OF assms] by metis
  show ?thesis
  proof (cases rule: diff_tx_run [OF r(2) db_inv_tx [OF db_inv_empty], case_names mismatch batch])
    case (mismatch l)
    with ensure_lineage_inv(6) [OF mismatch(1) db_inv_tx [OF db_inv_empty] ex_no_baseline] show ?thesis by simp
  next
    case (batch l s1 b s2 l' head)
    then show ?thesis by (simp add: diff_result_of_def diff_answer_def)
  qed
qed

section \<open>Histories\<close>

text \<open>
  C1. In every state that any sequence of exchanges, diffs and resolutions of the service and rounds
  of the publishers can reach, by any users, with any requests and any database outcome, the keys of
  every table are distinct, those of \<open>sync_owners\<close> and the ids of \<open>realtime_outbox\<close> too, and each
  owner's operations are numbered from 1 to the head cursor without a gap, each record is the latest
  operation on its key, each receipt points to its operation, the archive holds the operations of
  the current baseline, and the archive head agrees with the head. The id generator is taken to
  return an unused id for a fork. (The table \<open>user_profiles\<close> is not part of this state.)
\<close>

theorem reachable_invariant:
  assumes "backend_reachable (s, log)"
  shows "db_ok s \<and> (\<forall>ow. owner_inv (abs_owner ow s))"
  using backend_reachable_ok [OF assms] by (simp add: backend_ok_def db_inv_def)

text \<open>A publisher that starts right after the first exchange.\<close>

definition ex_publisher :: publish_env where
  "ex_publisher = \<lparr>pe_tx = ex_env, pe_locked = [], pe_failure = None\<rparr>"

theorem reachable_invariant_witness:
  "db_ok (fst (snd (publish_one ex_publisher
     (snd (exchange ex_env ex_service ex_meta (Some ex_exchange) empty_db), []))))"
proof (rule conjunct1 [OF reachable_invariant])
  let ?s = "snd (exchange ex_env ex_service ex_meta (Some ex_exchange) empty_db)"
  have "backend_step (empty_db, []) (?s, [])"
    by (rule backend_service, rule step_exchange) (rule prod.collapse [symmetric])
  then have "backend_reachable (?s, [])" by (rule backend_call [OF backend_start])
  from backend_call [OF this backend_publish, of ex_publisher]
  show "backend_reachable (fst (snd (publish_one ex_publisher (?s, []))), snd (snd (publish_one ex_publisher (?s, []))))"
    by simp
qed

text \<open>
  C2. No call of one owner changes any row of another owner: operations, records, receipts,
  archive, lineage and queued events of every other owner are what they were.
\<close>

theorem tenant_isolation:
  assumes "exchange env sv md xr s = (xres, s') \<or> diff env sv md dr s = (dres, s')
      \<or> resolve_baseline env sv md rr s = (rres, s')"
    and "p \<noteq> md_owner_key md"
  shows "abs_owner p s' = abs_owner p s"
  using assms by (elim disjE) (auto dest: operations_only simp: only_owner_def)

theorem tenant_isolation_witness:
  "abs_owner ex_other (snd (exchange ex_env ex_service ex_meta (Some ex_exchange) empty_db))
     = abs_owner ex_other empty_db"
proof (rule tenant_isolation [of ex_env ex_service ex_meta "Some ex_exchange" empty_db])
  show "exchange ex_env ex_service ex_meta (Some ex_exchange) empty_db =
      (fst (exchange ex_env ex_service ex_meta (Some ex_exchange) empty_db),
       snd (exchange ex_env ex_service ex_meta (Some ex_exchange) empty_db)) \<or>
      diff ex_env ex_service ex_meta None empty_db = (Inl ErrNotFound, snd (exchange ex_env ex_service ex_meta (Some ex_exchange) empty_db)) \<or>
      resolve_baseline ex_env ex_service ex_meta None empty_db = (Inl ErrNotFound, snd (exchange ex_env ex_service ex_meta (Some ex_exchange) empty_db))"
    by simp
  show "ex_other \<noteq> md_owner_key ex_meta" by (simp add: ex_other_def ex_meta_def ex_owner_def)
qed

text \<open>
  C3. A call that answers with an error has changed nothing at all, whatever the error, unless the
  database committed and lost the acknowledgement.
\<close>

theorem failed_calls_change_nothing:
  assumes "exchange env sv md xr s = (Inl e, s') \<or> diff env sv md dr s = (Inl e, s')
      \<or> resolve_baseline env sv md rr s = (Inl e, s')"
    and "\<And>e'. env_commit env \<noteq> CommitUnacknowledged e'"
  shows "s' = s"
  using assms(1) by (elim disjE) (auto dest: operations_refused [OF assms(2)])

definition ex_verbose_service :: service where
  "ex_verbose_service = ex_service\<lparr>sv_marshal_diff :=
     (\<lambda>_. Inr (replicate (max_diff_response_bytes + 1) (CHR ''x'')))\<rparr>"

lemma ex_diff_too_large:
  "\<exists>e. diff ex_env ex_verbose_service ex_meta (Some ex_diff) empty_db =
     (Inl e, snd (diff ex_env ex_verbose_service ex_meta (Some ex_diff) empty_db))"
proof (cases "fst (diff ex_env ex_verbose_service ex_meta (Some ex_diff) empty_db)")
  case (Inl e)
  then show ?thesis by (metis prod.collapse)
next
  case (Inr res)
  then have "diff ex_env ex_verbose_service ex_meta (Some ex_diff) empty_db =
      (Inr res, snd (diff ex_env ex_verbose_service ex_meta (Some ex_diff) empty_db))" by (metis prod.collapse)
  then obtain r where r: "Some ex_diff = Some r" "diff_tx ex_verbose_service ex_meta r
      (started (md_owner_key ex_meta) (env_now ex_env) empty_db) =
      Inr (res, snd (diff ex_env ex_verbose_service ex_meta (Some ex_diff) empty_db))"
    using diff_ok by metis
  show ?thesis
  proof (cases rule: diff_tx_run [OF r(2) db_inv_tx [OF db_inv_empty], case_names mismatch batch])
    case (mismatch l)
    with ensure_lineage_inv(6) [OF mismatch(1) db_inv_tx [OF db_inv_empty] ex_no_baseline] show ?thesis by simp
  next
    case (batch l s1 b s2 l' head)
    then show ?thesis by (simp add: validate_diff_response_size_def ex_verbose_service_def)
  qed
qed

theorem failed_calls_change_nothing_witness:
  "snd (diff ex_env ex_verbose_service ex_meta (Some ex_diff) empty_db) = empty_db"
proof -
  obtain e where e: "diff ex_env ex_verbose_service ex_meta (Some ex_diff) empty_db =
     (Inl e, snd (diff ex_env ex_verbose_service ex_meta (Some ex_diff) empty_db))"
    using ex_diff_too_large by blast
  show ?thesis
    by (rule failed_calls_change_nothing [OF disjI2 [OF disjI1 [OF e]]]) (simp add: ex_env_def)
qed

text \<open>
  C4. An exchange on the current baseline does with its mutations, in order, what the
  specification decides (replay, accept, supersede), from the state of the owner; it acknowledges
  them with the receipts decided; the accepted ones are archived under the new version, the
  progress day is the one of the records, and one event is queued. With nothing accepted the
  owner's state stays.
\<close>

theorem exchange_refines_decisions:
  assumes "exchange env sv md (Some r) s = (Inr res, s')" and "db_inv s"
    and "\<not> sp_baseline_mismatch (er_response res)"
  shows "\<exists>ds A l. decide_all (sr_device_id r) (sv_now sv) (batch_start (md_owner_key md) (sr_baseline_id r) s)
       (sr_mutations r) ds A
    \<and> batch_done sv md (batch_start (md_owner_key md) (sr_baseline_id r) s) ds A l (abs_owner (md_owner_key md) s')
    \<and> sp_acks (er_response res) = map (receipt_ack \<circ> d_receipt) ds
    \<and> er_state_changed res = (accepted_changes ds \<noteq> [])
    \<and> er_server_cursor res = a_cursor A \<and> er_server_version res = ln_version l
    \<and> er_baseline_id res = sr_baseline_id r"
proof -
  from exchange_summary [OF assms] obtain ds A l where S:
    "decide_all (sr_device_id r) (sv_now sv) (batch_start (md_owner_key md) (sr_baseline_id r) s) (sr_mutations r) ds A"
    "batch_done sv md (batch_start (md_owner_key md) (sr_baseline_id r) s) ds A l (abs_owner (md_owner_key md) s')"
    "ln_baseline_id l = sr_baseline_id r"
    and res: "res = exchange_answer r (batch_of ds) l (a_cursor A) (operations_after (md_owner_key md) (sr_cursor r)
               (normalized_pull_limit (sr_pull_limit r) + 1) s')" by blast
  have "mb_applied (batch_of ds) > 0 \<longleftrightarrow> accepted_changes ds \<noteq> []" by (simp add: batch_of_def)
  with S show ?thesis
    by (intro exI [of _ ds] exI [of _ A] exI [of _ l])
      (simp add: res exchange_answer_def Let_def batch_of_def)
qed

theorem exchange_refines_decisions_witness:
  "\<exists>res s' ds A l. exchange ex_env ex_service ex_meta (Some ex_exchange) empty_db = (Inr res, s')
    \<and> decide_all ex_device 1000000 ex_start ex_mutations ds A
    \<and> batch_done ex_service ex_meta ex_start ds A l (abs_owner ex_owner s')
    \<and> sp_acks (er_response res) = map (receipt_ack \<circ> d_receipt) ds"
proof -
  obtain res s' where run: "exchange ex_env ex_service ex_meta (Some ex_exchange) empty_db = (Inr res, s')"
    using ex_exchange_runs by blast
  from exchange_refines_decisions [OF run db_inv_empty ex_exchange_matches [OF run]] run show ?thesis
    by (fastforce simp: ex_start_def ex_exchange_def ex_service_def ex_meta_def)
qed

text \<open>
  The same for a diff, whose answer also carries one canonical change per mutation; and no diff
  is committed whose encoded response is larger than 512 KiB.
\<close>

theorem diff_refines_decisions:
  assumes "diff env sv md (Some r) s = (Inr res, s')" and "db_inv s"
    and "\<not> dp_baseline_mismatch (df_response res)"
  shows "(\<exists>ds A l. decide_all (dr_device_id r) (sv_now sv) (batch_start (md_owner_key md) (dr_baseline_id r) s)
       (dr_mutations r) ds A
    \<and> batch_done sv md (batch_start (md_owner_key md) (dr_baseline_id r) s) ds A l (abs_owner (md_owner_key md) s')
    \<and> dp_acks (df_response res) = map (receipt_ack \<circ> d_receipt) ds
    \<and> dp_canonical_changes (df_response res) = map d_change ds
    \<and> df_state_changed res = (accepted_changes ds \<noteq> []))
    \<and> (\<exists>bytes. sv_marshal_diff sv (df_response res) = Inr bytes \<and> length bytes \<le> 512 * 1024)"
proof -
  from diff_summary [OF assms] obtain ds A l where S:
    "decide_all (dr_device_id r) (sv_now sv) (batch_start (md_owner_key md) (dr_baseline_id r) s) (dr_mutations r) ds A"
    "batch_done sv md (batch_start (md_owner_key md) (dr_baseline_id r) s) ds A l (abs_owner (md_owner_key md) s')"
    and res: "res = diff_result_of r (diff_answer (batch_of ds) l (a_cursor A)) (accepted_changes ds \<noteq> []) l (a_cursor A)"
    by blast
  obtain r' where "diff_tx sv md r' (started (md_owner_key md) (env_now env) s) = Inr (res, s')" "Some r = Some r'"
    using diff_ok [OF assms(1)] by metis
  then have tx: "diff_tx sv md r (started (md_owner_key md) (env_now env) s) = Inr (res, s')" by simp
  have "validate_diff_response_size sv (df_response res) = Inr ()"
    using assms(3)
    by (cases rule: diff_tx_run [OF tx db_inv_tx [OF assms(2)], case_names mismatch batch])
      (simp_all add: diff_result_of_def diff_mismatch_def)
  then have "\<exists>bytes. sv_marshal_diff sv (df_response res) = Inr bytes \<and> length bytes \<le> 512 * 1024"
    by (auto simp: validate_diff_response_size_def max_diff_response_bytes_def split: sum.splits if_splits)
  with S show ?thesis
    by (intro conjI exI [of _ ds] exI [of _ A] exI [of _ l])
      (simp_all add: res diff_result_of_def diff_answer_def batch_of_def)
qed

theorem diff_refines_decisions_witness:
  "\<exists>res s' ds A. diff ex_env ex_service ex_meta (Some ex_diff) empty_db = (Inr res, s')
    \<and> decide_all ex_device 1000000 ex_start ex_mutations ds A
    \<and> dp_canonical_changes (df_response res) = map d_change ds"
proof -
  obtain res s' where run: "diff ex_env ex_service ex_meta (Some ex_diff) empty_db = (Inr res, s')"
    using ex_diff_runs by blast
  from diff_refines_decisions [OF run db_inv_empty ex_diff_matches [OF run]] run show ?thesis
    by (fastforce simp: ex_start_def ex_diff_def ex_service_def ex_meta_def)
qed

text \<open>
  C5. A diff answers every mutation at its position: one acknowledgement with the mutation's
  \<open>op_id\<close>, that says either applied or conflict and is the receipt stored under the \<open>op_id\<close>, and one
  canonical change that has the cursor of the acknowledgement and is the operation stored there (up
  to trailing blanks of its key). An \<open>op_id\<close> that had a receipt is answered by that receipt. For a new
  \<open>op_id\<close> the first mutation of the diff that has it decides: applied means that its change is the
  operation there, behind the owner's old cursor, and conflict that the operation there is of its key
  and newer than the version the client has seen.
\<close>

theorem diff_answers_every_mutation:
  assumes "diff env sv md (Some r) s = (Inr res, s')" and "db_inv s"
    and "\<not> dp_baseline_mismatch (df_response res)"
  defines "A \<equiv> abs_owner (md_owner_key md) s" and "F \<equiv> abs_owner (md_owner_key md) s'" and "ms \<equiv> dr_mutations r"
  shows "length (dp_acks (df_response res)) = length ms
    \<and> length (dp_canonical_changes (df_response res)) = length ms
    \<and> (\<forall>i < length ms.
        let ack = dp_acks (df_response res) ! i; ch = dp_canonical_changes (df_response res) ! i;
          c = ack_server_cursor ack; old = a_receipts A (Mutation_GetOpId (ms ! i))
        in ack_op_id ack = Mutation_GetOpId (ms ! i) \<and> ack_conflict ack = (\<not> ack_applied ack)
        \<and> (\<exists>rc. a_receipts F (Mutation_GetOpId (ms ! i)) = Some rc \<and> ack = receipt_ack rc)
        \<and> c_cursor ch = c
        \<and> (\<exists>op. a_ops F c = Some op \<and> same_change ch op)
        \<and> (case old of
             Some rc \<Rightarrow> ack = receipt_ack rc
           | None \<Rightarrow> \<exists>j \<le> i. \<exists>op. Mutation_GetOpId (ms ! j) = Mutation_GetOpId (ms ! i) \<and> a_ops F c = Some op
               \<and> (if ack_applied ack then a_cursor A < c
                     \<and> op = mutation_change (ms ! j) c (clamp_client_time (Mutation_GetClientTimeMs (ms ! j)) (sv_now sv))
                   else Mutation_GetBaseVersion (ms ! j) < c
                     \<and> pad_key (c_entity_key op) = pad_key (Mutation_GetEntityKey (ms ! j)))))"
proof -
  let ?S = "batch_start (md_owner_key md) (dr_baseline_id r) s"
  from diff_summary [OF assms(1-3)] obtain ds B l where
    ds: "decide_all (dr_device_id r) (sv_now sv) ?S ms ds B"
    and closed: "batch_done sv md ?S ds B l F"
    and res: "res = diff_result_of r (diff_answer (batch_of ds) l (a_cursor B)) (accepted_changes ds \<noteq> []) l (a_cursor B)"
    unfolding F_def ms_def by blast
  note start = batch_start_facts [OF assms(2)]
  note R = decide_all_recorded [OF ds start]
  then have len: "length ms = length ds" by (auto dest: list_all2_lengthD)
  have F: "a_ops B = a_ops F" "a_receipts B = a_receipts F" using publish_batch_keeps [OF closed] by simp_all
  have ans: "dp_acks (df_response res) = map (receipt_ack \<circ> d_receipt) ds"
    "dp_canonical_changes (df_response res) = map d_change ds"
    by (simp_all add: res diff_result_of_def diff_answer_def batch_of_def)
  show ?thesis
  proof (intro conjI allI impI)
    fix i assume i: "i < length ms"
    have at: "dp_acks (df_response res) ! i = receipt_ack (d_receipt (ds ! i))"
      "dp_canonical_changes (df_response res) ! i = d_change (ds ! i)" using i by (simp_all add: ans len)
    show "let ack = dp_acks (df_response res) ! i; ch = dp_canonical_changes (df_response res) ! i;
          c = ack_server_cursor ack; old = a_receipts A (Mutation_GetOpId (ms ! i))
        in ack_op_id ack = Mutation_GetOpId (ms ! i) \<and> ack_conflict ack = (\<not> ack_applied ack)
        \<and> (\<exists>rc. a_receipts F (Mutation_GetOpId (ms ! i)) = Some rc \<and> ack = receipt_ack rc)
        \<and> c_cursor ch = c
        \<and> (\<exists>op. a_ops F c = Some op \<and> same_change ch op)
        \<and> (case old of
             Some rc \<Rightarrow> ack = receipt_ack rc
           | None \<Rightarrow> \<exists>j \<le> i. \<exists>op. Mutation_GetOpId (ms ! j) = Mutation_GetOpId (ms ! i) \<and> a_ops F c = Some op
               \<and> (if ack_applied ack then a_cursor A < c
                     \<and> op = mutation_change (ms ! j) c (clamp_client_time (Mutation_GetClientTimeMs (ms ! j)) (sv_now sv))
                   else Mutation_GetBaseVersion (ms ! j) < c
                     \<and> pad_key (c_entity_key op) = pad_key (Mutation_GetEntityKey (ms ! j))))"
      using decide_all_answer [OF ds start i, unfolded batch_start_sel F, folded A_def]
      unfolding Let_def at receipt_ack_sel .
  qed (simp_all add: ans len)
qed

theorem diff_answers_every_mutation_witness:
  "\<exists>res s'. diff ex_env ex_service ex_meta (Some ex_diff) empty_db = (Inr res, s')
    \<and> length (dp_acks (df_response res)) = 3 \<and> ack_op_id (dp_acks (df_response res) ! 1) = ''op-00002''"
proof -
  obtain res s' where run: "diff ex_env ex_service ex_meta (Some ex_diff) empty_db = (Inr res, s')"
    using ex_diff_runs by blast
  from diff_answers_every_mutation [OF run db_inv_empty ex_diff_matches [OF run]] run show ?thesis
    by (auto simp: ex_diff_def ex_mutations_def Let_def)
qed

text \<open>
  C6. An exchange is idempotent under retry. If it committed, and also if it committed but the
  acknowledgement was lost, then the same request sent again, at any later clock, is answered
  with the same acknowledgements, changes no row of any table and reports no change.
\<close>

theorem exchange_retry_is_idempotent:
  assumes "exchange (env\<lparr>env_commit := Committed\<rparr>) sv md (Some r) s = (Inr res, s')" and "db_inv s"
    and "\<not> sp_baseline_mismatch (er_response res)" and "ready env'"
  shows "exchange (env\<lparr>env_commit := CommitUnacknowledged e\<rparr>) sv md (Some r) s = (Inl e, s')
    \<and> (\<exists>res2. exchange env' sv' md (Some r) s' = (Inr res2, s')
        \<and> sp_acks (er_response res2) = sp_acks (er_response res) \<and> \<not> er_state_changed res2
        \<and> er_server_cursor res2 = er_server_cursor res)"
proof -
  let ?ow = "md_owner_key md" and ?S = "batch_start (md_owner_key md) (sr_baseline_id r) s"
  let ?F = "abs_owner ?ow s'"
  from exchange_summary [OF assms(1-3)] obtain ds A l where
    ds: "decide_all (sr_device_id r) (sv_now sv) ?S (sr_mutations r) ds A"
    and closed: "batch_done sv md ?S ds A l ?F" and l: "ln_baseline_id l = sr_baseline_id r" and ok: "tx_ok ?ow s'"
    and res: "res = exchange_answer r (batch_of ds) l (a_cursor A) (operations_after ?ow (sr_cursor r)
               (normalized_pull_limit (sr_pull_limit r) + 1) s')" by blast
  obtain r' where "Some r = Some r'" "validate_exchange_request ?ow (Some r') = Inr ()"
    "ready (env\<lparr>env_commit := Committed\<rparr>)"
    "exchange_tx sv md r' (started ?ow (env_now (env\<lparr>env_commit := Committed\<rparr>)) s) = Inr (res, s')"
    using exchange_ok [OF assms(1)] by metis
  then have valid: "validate_exchange_request ?ow (Some r) = Inr ()" and begin_ok: "env_begin_error env = None"
    and tx: "exchange_tx sv md r (started ?ow (env_now env) s) = Inr (res, s')" by (simp_all add: ready_def)
  have lost: "exchange (env\<lparr>env_commit := CommitUnacknowledged e\<rparr>) sv md (Some r) s = (Inl e, s')"
    using valid begin_ok tx by (simp add: exchange_def with_owner_transaction_def owner_transaction_run)
  note facts = batch_start_facts [OF assms(2)]
  note keeps = publish_batch_keeps [OF closed]
  have rec: "list_all2 (\<lambda>m d. validate_mutation m (sr_device_id r) = Inr ()
      \<and> a_receipts ?F (Mutation_GetOpId m) = Some (d_receipt d)
      \<and> (\<exists>ch. a_ops ?F (rc_server_cursor (d_receipt d)) = Some ch \<and> same_change (d_change d) ch)) (sr_mutations r) ds"
    using decide_all_recorded [OF ds facts] keeps by (auto simp: list_all2_conv_all_nth)
  from decide_all_replay [OF rec, of "sv_now sv'"] obtain ds2 where ds2:
    "decide_all (sr_device_id r) (sv_now sv') ?F (sr_mutations r) ds2 ?F" "accepted_changes ds2 = []"
    "map d_receipt ds2 = map d_receipt ds" by blast
  have base: "a_baseline ?F = Some (sr_baseline_id r)" using closed l by (simp add: batch_done_def)
  have "a_owned ?S" by (simp add: batch_start_def start_head_def)
  then have own: "a_owned ?F"
    using decide_all_owned [OF ds] closed by (auto simp: batch_done_def publish_batch_def split: if_splits)
  note fixed = tx_left_started [OF ok own base]
  have inv': "db_inv s'"
    using db_inv_step [OF assms(2) operations_only(1) [OF assms(1)]] ok by blast
  from exchange_complete [OF inv' assms(4) valid, where ds = ds2 and A' = ?F and sv = sv'] ds2 base obtain res2 s2 where
    again: "exchange env' sv' md (Some r) s' = (Inr res2, s2)" by (auto simp: fixed)
  obtain r2 where "Some r = Some r2" "exchange_tx sv' md r2 (started ?ow (env_now env') s') = Inr (res2, s2)"
    using exchange_ok [OF again] by metis
  then have tx2: "exchange_tx sv' md r s' = Inr (res2, s2)" by (simp add: fixed)
  have cursor: "a_cursor ?F = a_cursor A" using closed by (auto simp: batch_done_def split: if_splits)
  have "s2 = s' \<and> sp_acks (er_response res2) = sp_acks (er_response res) \<and> \<not> er_state_changed res2
      \<and> er_server_cursor res2 = er_server_cursor res"
  proof (cases rule: exchange_tx_run [OF tx2 ok, case_names mismatch batch])
    case (mismatch l1)
    with ensure_lineage_inv(2) [OF mismatch(1) ok] base show ?thesis by simp
  next
    case (batch l1 s1 b s3 l' head)
    have "s1 = s'" using ensure_lineage_inv(5) [OF batch(1) ok] base by simp
    note a = batch(3) [unfolded this]
    have dbok: "db_ok s'" and h: "a_head ?F \<noteq> None" using ok by (simp_all add: tx_ok_def)
    have b: "b = batch_of ds2" using apply_mutations_complete [OF ds2(1) dbok own h] a by simp
    have "\<forall>m \<in> set (sr_mutations r). a_receipts ?F (Mutation_GetOpId m) \<noteq> None"
      using rec by (auto simp: list_all2_conv_all_nth in_set_conv_nth)
    from apply_mutations_replay_state [OF a [unfolded apply_mutations_def] this] have "s3 = s'" .
    with batch(4) have "s2 = s'" "head = a_cursor ?F"
      by (simp_all add: b finalize_mutation_batch_def batch_of_def ds2(2) tx_bind_Inr a_cursor_abs)
    moreover have "map (receipt_ack \<circ> d_receipt) ds2 = map (receipt_ack \<circ> d_receipt) ds"
      using ds2(3) by (metis list.map_comp)
    ultimately show ?thesis
      by (simp add: batch(5) res b exchange_answer_def Let_def batch_of_def ds2(2) cursor)
  qed
  with lost again show ?thesis by blast
qed

theorem exchange_retry_is_idempotent_witness:
  "\<exists>res s' res2. exchange ex_env ex_service ex_meta (Some ex_exchange) empty_db = (Inr res, s')
    \<and> exchange ex_env ex_service ex_meta (Some ex_exchange) s' = (Inr res2, s')
    \<and> sp_acks (er_response res2) = sp_acks (er_response res)"
proof -
  obtain res s' where run: "exchange ex_env ex_service ex_meta (Some ex_exchange) empty_db = (Inr res, s')"
    using ex_exchange_runs by blast
  have "ex_env\<lparr>env_commit := Committed\<rparr> = ex_env" by (simp add: ex_env_def)
  with exchange_retry_is_idempotent [of ex_env, OF _ db_inv_empty ex_exchange_matches [OF run] ex_ready] run
  show ?thesis by fastforce
qed



text \<open>
  C8. Optimistic concurrency, for an exchange of one new mutation. If the owner has a newer record
  under the key than the version the client has seen, the mutation is acknowledged as a conflict
  at the cursor of that record, and records, operations and cursor stay. Otherwise it is applied:
  it gets the next cursor, becomes the operation there and the record of its key, and no other
  record changes.
\<close>

theorem optimistic_concurrency:
  assumes run: "exchange env sv md (Some r) s = (Inr res, s')" and inv: "db_inv s"
    and match: "\<not> sp_baseline_mismatch (er_response res)" and one: "sr_mutations r = [m]"
    and new: "a_receipts (abs_owner (md_owner_key md) s) (Mutation_GetOpId m) = None"
  defines "A \<equiv> abs_owner (md_owner_key md) s" and "A' \<equiv> abs_owner (md_owner_key md) s'"
    and "k \<equiv> pad_key (Mutation_GetEntityKey m)"
  shows "if \<exists>e. a_recs A k = Some e \<and> c_cursor e > Mutation_GetBaseVersion m
    then a_recs A' = a_recs A \<and> a_ops A' = a_ops A \<and> a_cursor A' = a_cursor A \<and> \<not> er_state_changed res
      \<and> sp_acks (er_response res) = [\<lparr>ack_op_id = Mutation_GetOpId m,
           ack_server_cursor = c_cursor (the (a_recs A k)), ack_conflict = True, ack_applied = False\<rparr>]
    else a_cursor A' = a_cursor A + 1 \<and> er_state_changed res
      \<and> (\<exists>ch. ch = mutation_change m (a_cursor A + 1) (clamp_client_time (Mutation_GetClientTimeMs m) (sv_now sv))
          \<and> a_ops A' = (a_ops A)(a_cursor A + 1 \<mapsto> ch)
          \<and> a_recs A' = (a_recs A)(k \<mapsto> stored_record (a_recs A k) ch))
      \<and> sp_acks (er_response res) = [\<lparr>ack_op_id = Mutation_GetOpId m,
           ack_server_cursor = a_cursor A + 1, ack_conflict = False, ack_applied = True\<rparr>]"
proof -
  let ?S = "batch_start (md_owner_key md) (sr_baseline_id r) s"
  have S: "a_recs ?S = a_recs A" "a_ops ?S = a_ops A" "a_receipts ?S = a_receipts A" "a_cursor ?S = a_cursor A"
    by (simp_all add: batch_start_def A_def start_head_def with_lineage_def a_cursor_def fresh_head_def
        split: option.splits)
  from exchange_summary [OF run inv match] obtain ds B l where
    ds: "decide_all (sr_device_id r) (sv_now sv) ?S [m] ds B"
    and closed: "batch_done sv md ?S ds B l A'"
    and res: "res = exchange_answer r (batch_of ds) l (a_cursor B) (operations_after (md_owner_key md) (sr_cursor r)
               (normalized_pull_limit (sr_pull_limit r) + 1) s')" unfolding A'_def one by blast
  from ds obtain d where d: "decides (sr_device_id r) (sv_now sv) ?S m d B" and dd: "ds = [d]"
    by (auto elim!: decide_all_ConsE decide_all_NilE)
  have F: "a_recs A' = a_recs B" "a_ops A' = a_ops B" "a_cursor A' = a_cursor B"
    using closed by (auto simp: batch_done_def split: if_splits)
  have h: "a_head ?S \<noteq> None" by (rule batch_start_facts(2) [OF inv])
  have cur: "a_cursor (X\<lparr>a_receipts := f\<rparr>) = a_cursor X" for X f by (simp add: a_cursor_def)
  from d show ?thesis
  proof cases
    case (replayed rc ch)
    with new show ?thesis by (simp add: S A_def)
  next
    case (accepted ch rc)
    then have "\<not> (\<exists>e. a_recs A k = Some e \<and> c_cursor e > Mutation_GetBaseVersion m)"
      by (auto simp: S k_def not_less)
    moreover have "c_cursor ch = a_cursor A + 1" "pad_key (c_entity_key ch) = k"
      using accepted(7) by (simp_all add: S mutation_change_def k_def)
    ultimately show ?thesis using accepted h
      by (simp add: F res dd exchange_answer_def Let_def batch_of_def receipt_ack_def S)
        (simp add: accept_change_def S k_def)
  next
    case (superseded e rc)
    then have "\<exists>e. a_recs A k = Some e \<and> c_cursor e > Mutation_GetBaseVersion m" by (simp add: S k_def)
    then show ?thesis using superseded
      by (simp add: F res dd exchange_answer_def Let_def batch_of_def receipt_ack_def S k_def)
        (simp add: note_receipt_def S cur)
  qed
qed

theorem optimistic_concurrency_witness:
  "\<exists>res s'. exchange ex_env ex_service ex_meta (Some ex_single) empty_db = (Inr res, s')
    \<and> sp_acks (er_response res) = [\<lparr>ack_op_id = ''op-00001'', ack_server_cursor = 1,
           ack_conflict = False, ack_applied = True\<rparr>]"
proof -
  obtain res s' where run: "exchange ex_env ex_service ex_meta (Some ex_single) empty_db = (Inr res, s')"
    using ex_single_runs by blast
  have new: "a_receipts (abs_owner (md_owner_key ex_meta) empty_db) (Mutation_GetOpId (ex_mutation ''op-00001'')) = None"
    by (simp add: abs_owner_empty)
  have one: "sr_mutations ex_single = [ex_mutation ''op-00001'']" by (simp add: ex_single_def)
  from optimistic_concurrency [OF run db_inv_empty ex_single_matches [OF run] one new] run show ?thesis
    by (auto simp: abs_owner_empty a_cursor_def)
qed

lemma merge_changes_set: "set (merge_changes page forced) = set page \<union> {ch \<in> set forced. change_identity ch \<notin> change_identity ` set page}"
  by (auto simp: merge_changes_def Let_def)

lemma merge_changes_forced:
  assumes "ch \<in> set forced"
  shows "\<exists>ch' \<in> set (merge_changes page forced). change_identity ch' = change_identity ch"
proof (cases "change_identity ch \<in> change_identity ` set page")
  case True
  then obtain ch' where "ch' \<in> set page" "change_identity ch' = change_identity ch" by (metis imageE)
  then show ?thesis unfolding merge_changes_set by blast
next
  case False
  with assms have "ch \<in> set (merge_changes page forced)" by (simp add: merge_changes_set)
  then show ?thesis by blast
qed

text \<open>The forced changes of a batch, merged into any page.\<close>

lemma forced_answers:
  assumes ds: "decide_all device now A ms ds A'" and inv: "inv_upto w A" and h: "a_head A \<noteq> None" and b: "a_baseline A \<noteq> None"
  fixes page :: "change list"
  defines "acks \<equiv> map (receipt_ack \<circ> d_receipt) ds" and "changes \<equiv> merge_changes page (mb_forced (batch_of ds))"
  shows "\<forall>i < length ms. a_receipts A (Mutation_GetOpId (ms ! i)) = None \<and> ack_conflict (acks ! i) \<longrightarrow>
      (\<exists>ch \<in> set changes. c_cursor ch = ack_server_cursor (acks ! i)
         \<and> (\<exists>j \<le> i. Mutation_GetOpId (ms ! j) = Mutation_GetOpId (ms ! i)
              \<and> pad_key (c_entity_key ch) = pad_key (Mutation_GetEntityKey (ms ! j))
              \<and> Mutation_GetBaseVersion (ms ! j) < c_cursor ch))" (is ?merged)
    and "\<forall>ch \<in> set changes. ch \<notin> set page \<longrightarrow>
      (\<exists>i < length ms. a_receipts A (Mutation_GetOpId (ms ! i)) = None \<and> ack_conflict (acks ! i)
         \<and> c_cursor ch = ack_server_cursor (acks ! i))" (is ?only)
proof -
  note R = decide_all_recorded [OF ds inv h b]
  then have len: "length ms = length ds" by (auto dest: list_all2_lengthD)
  have at: "acks ! i = receipt_ack (d_receipt (ds ! i))" if "i < length ms" for i using that by (simp add: acks_def len)
  have cursors: "c_cursor (d_change (ds ! i)) = rc_server_cursor (d_receipt (ds ! i))"
    and flags: "rc_conflict (d_receipt (ds ! i)) = (\<not> rc_applied (d_receipt (ds ! i)))" if "i < length ms" for i
    using R that by (auto simp: list_all2_conv_all_nth)
  have forced: "d_change (ds ! j) \<in> set (mb_forced (batch_of ds))" if "j < length ms" "d_verdict (ds ! j) = Superseded" for j
    using that by (auto simp: batch_of_def len)
  show ?merged
  proof (intro allI impI)
    fix i assume i: "i < length ms" and "a_receipts A (Mutation_GetOpId (ms ! i)) = None \<and> ack_conflict (acks ! i)"
    then have new: "a_receipts A (Mutation_GetOpId (ms ! i)) = None" and no: "\<not> rc_applied (d_receipt (ds ! i))"
      using flags [OF i] by (simp_all add: at receipt_ack_sel)
    obtain j where j: "j \<le> i" "Mutation_GetOpId (ms ! j) = Mutation_GetOpId (ms ! i)"
      and rc: "d_receipt (ds ! j) = d_receipt (ds ! i)" and set: "settles now (ms ! j) (ds ! j)"
      using decide_all_settles [OF ds inv h b i new] by blast
    let ?e = "d_change (ds ! j)"
    have jl: "j < length ms" using i j by simp
    have sup: "d_verdict (ds ! j) = Superseded" "pad_key (c_entity_key ?e) = pad_key (Mutation_GetEntityKey (ms ! j))"
      "Mutation_GetBaseVersion (ms ! j) < rc_server_cursor (d_receipt (ds ! j))"
      using set no unfolding settles_def rc by (simp_all only: if_False)
    have e: "?e \<in> set (mb_forced (batch_of ds))" "c_cursor ?e = ack_server_cursor (acks ! i)"
      "pad_key (c_entity_key ?e) = pad_key (Mutation_GetEntityKey (ms ! j))" "Mutation_GetBaseVersion (ms ! j) < c_cursor ?e"
      using sup forced [OF jl sup(1)] by (simp_all only: at [OF i] receipt_ack_sel cursors [OF jl] rc)
    obtain ch where "ch \<in> set changes" and "change_identity ch = change_identity ?e"
      using merge_changes_forced [OF e(1)] unfolding changes_def by blast
    then have "c_cursor ch = c_cursor ?e" "c_entity_key ch = c_entity_key ?e" by (simp_all add: change_identity_def)
    with \<open>ch \<in> set changes\<close> e(2-4) j(1,2) show "\<exists>ch \<in> set changes. c_cursor ch = ack_server_cursor (acks ! i)
         \<and> (\<exists>j \<le> i. Mutation_GetOpId (ms ! j) = Mutation_GetOpId (ms ! i)
              \<and> pad_key (c_entity_key ch) = pad_key (Mutation_GetEntityKey (ms ! j))
              \<and> Mutation_GetBaseVersion (ms ! j) < c_cursor ch)"
      by (intro bexI [of _ ch] conjI exI [of _ j]) (simp_all only:)
  qed
  show ?only
  proof (intro ballI impI)
    fix ch assume "ch \<in> set changes" "ch \<notin> set page"
    then obtain d where "d \<in> set ds" "d_verdict d = Superseded" and ch: "ch = d_change d"
      unfolding changes_def merge_changes_set by (auto simp: batch_of_def)
    then obtain i where i: "i < length ms" "d_verdict (ds ! i) = Superseded" "d = ds ! i"
      by (auto simp: in_set_conv_nth len)
    with decide_all_superseded_new [OF ds i(1,2)] cursors [OF i(1)] ch
    show "\<exists>i < length ms. a_receipts A (Mutation_GetOpId (ms ! i)) = None \<and> ack_conflict (acks ! i)
         \<and> c_cursor ch = ack_server_cursor (acks ! i)"
      by (intro exI [of _ i]) (simp add: at receipt_ack_sel)
  qed
qed

text \<open>
  C9. The change page of an exchange. With \<open>n\<close> the normalized limit, it holds the next \<open>n\<close>
  operations after the client's cursor, and the changes are in cursor order; the next cursor is the
  last of them, so none is skipped; \<open>has_more\<close> says whether there are further ones; a reset is asked
  for exactly when the client's cursor is beyond the head; and every change is an operation of the
  owner. Forced changes are merged in: for every new mutation that is acknowledged as a conflict the
  changes contain the server's record that superseded it, at the acknowledged cursor, under the
  mutation's key and newer than the version the client has seen; and a change that is not one of the
  \<open>n\<close> operations is there for such a mutation.
\<close>

theorem exchange_page:
  assumes run: "exchange env sv md (Some r) s = (Inr res, s')" and inv: "db_inv s"
    and match: "\<not> sp_baseline_mismatch (er_response res)"
  defines "A \<equiv> abs_owner (md_owner_key md) s" and "F \<equiv> abs_owner (md_owner_key md) s'" and "n \<equiv> normalized_pull_limit (sr_pull_limit r)"
    and "response \<equiv> er_response res" and "ms \<equiv> sr_mutations r"
  shows "sp_next_cursor response = sr_cursor r + of_nat (min n (length (log_after F (sr_cursor r))))
    \<and> sp_has_more response = (n < length (log_after F (sr_cursor r)))
    \<and> set (take n (log_after F (sr_cursor r))) \<subseteq> set (sp_changes response)
    \<and> sorted (map c_cursor (sp_changes response))
    \<and> sp_reset_required response = (sr_cursor r > a_cursor F)
    \<and> (\<forall>ch \<in> set (sp_changes response). \<exists>op. a_ops F (c_cursor ch) = Some op \<and> same_change ch op)
    \<and> (\<forall>i < length ms. a_receipts A (Mutation_GetOpId (ms ! i)) = None \<and> ack_conflict (sp_acks response ! i) \<longrightarrow>
         (\<exists>ch \<in> set (sp_changes response). c_cursor ch = ack_server_cursor (sp_acks response ! i)
            \<and> (\<exists>j \<le> i. Mutation_GetOpId (ms ! j) = Mutation_GetOpId (ms ! i)
                 \<and> pad_key (c_entity_key ch) = pad_key (Mutation_GetEntityKey (ms ! j))
                 \<and> Mutation_GetBaseVersion (ms ! j) < c_cursor ch)))
    \<and> (\<forall>ch \<in> set (sp_changes response). ch \<notin> set (take n (log_after F (sr_cursor r))) \<longrightarrow>
         (\<exists>i < length ms. a_receipts A (Mutation_GetOpId (ms ! i)) = None \<and> ack_conflict (sp_acks response ! i)
            \<and> c_cursor ch = ack_server_cursor (sp_acks response ! i)))"
proof -
  let ?S = "batch_start (md_owner_key md) (sr_baseline_id r) s"
  from exchange_summary [OF run inv match] obtain ds B l where
    ds: "decide_all (sr_device_id r) (sv_now sv) ?S ms ds B"
    and closed: "batch_done sv md ?S ds B l F" and ok: "tx_ok (md_owner_key md) s'"
    and res: "res = exchange_answer r (batch_of ds) l (a_cursor B) (operations_after (md_owner_key md) (sr_cursor r)
               (n + 1) s')" unfolding F_def n_def ms_def by blast
  define L where "L = log_after F (sr_cursor r)"
  have log: "log_ok F" using ok by (simp add: F_def tx_ok_def owner_inv_def inv_upto_def)
  have rows: "operations_after (md_owner_key md) (sr_cursor r) (n + 1) s' = take (Suc n) L"
    using operations_after_log [of s' "md_owner_key md"] ok log by (simp add: F_def L_def tx_ok_def)
  have cut: "(n < length (take (Suc n) L)) = (n < length L)"
    "(if n < length L then take n (take (Suc n) L) else take (Suc n) L) = take n L" by (auto simp: min_def)
  have last: "(if take n L \<noteq> [] then c_cursor (last (take n L)) else sr_cursor r) = sr_cursor r + of_nat (length (take n L))"
    using log_page_end [OF log refl, of n "sr_cursor r", folded L_def]
    by (cases "take n L = []") (simp_all del: take_eq_Nil take_eq_Nil2 length_take)
  define forced where "forced = mb_forced (batch_of ds)"
  have cursor: "a_cursor F = a_cursor B" using closed by (auto simp: batch_done_def split: if_splits)
  have fields: "sp_changes response = merge_changes (take n L) forced" "sp_has_more response = (n < length L)"
    "sp_next_cursor response = sr_cursor r + of_nat (length (take n L))"
    "sp_reset_required response = (sr_cursor r > a_cursor F)"
    unfolding response_def res exchange_answer_def Let_def n_def [symmetric] rows cut last forced_def cursor
    by simp_all
  have forced_ops: "\<exists>op. a_ops F (c_cursor ch) = Some op \<and> same_change ch op" if "ch \<in> set forced" for ch
  proof -
    from that obtain d where d: "d \<in> set ds" "ch = d_change d" by (auto simp: forced_def batch_of_def)
    then show ?thesis
      using decide_all_recorded [OF ds batch_start_facts [OF inv]] publish_batch_keeps [OF closed]
      by (auto simp: list_all2_conv_all_nth in_set_conv_nth)
  qed
  have page_ops: "\<exists>op. a_ops F (c_cursor ch) = Some op \<and> same_change ch op" if "ch \<in> set (take n L)" for ch
  proof -
    from that have "ch \<in> set (log_after F (sr_cursor r))" by (metis L_def in_set_takeD)
    then obtain d where "a_ops F d = Some ch" unfolding log_after_set [OF log] by blast
    with log_ok_bound [OF log this] show ?thesis by auto
  qed
  have acks: "sp_acks response = map (receipt_ack \<circ> d_receipt) ds"
    by (simp add: response_def res exchange_answer_def Let_def batch_of_def)
  note forced = forced_answers [OF ds batch_start_facts [OF inv], of "take n L", folded forced_def acks fields(1)]
  have "sorted (map c_cursor (sp_changes response))" by (simp add: fields merge_changes_def Let_def)
  moreover have "\<forall>ch \<in> set (sp_changes response). \<exists>op. a_ops F (c_cursor ch) = Some op \<and> same_change ch op"
    unfolding fields merge_changes_set using forced_ops page_ops by blast
  moreover have "set (take n L) \<subseteq> set (sp_changes response)" unfolding fields merge_changes_set by blast
  ultimately show ?thesis using fields forced unfolding batch_start_sel A_def [symmetric] L_def
    by (intro conjI) (simp_all only: length_take min.commute)
qed

theorem exchange_page_witness:
  "\<exists>res s'. exchange ex_env ex_service ex_meta (Some ex_exchange) empty_db = (Inr res, s')
    \<and> sorted (map c_cursor (sp_changes (er_response res))) \<and> \<not> sp_reset_required (er_response res)
    \<and> ack_conflict (sp_acks (er_response res) ! 1)
    \<and> (\<exists>ch \<in> set (sp_changes (er_response res)). c_cursor ch = 1 \<and> pad_key (c_entity_key ch) = pad_key ex_key)"
proof -
  obtain res s' where run: "exchange ex_env ex_service ex_meta (Some ex_exchange) empty_db = (Inr res, s')"
    using ex_exchange_runs by blast
  obtain ds A l where "decide_all ex_device 1000000 ex_start ex_mutations ds A"
    and acks: "sp_acks (er_response res) = map (receipt_ack \<circ> d_receipt) ds"
    using exchange_summary [OF run db_inv_empty ex_exchange_matches [OF run]]
    by (auto simp: exchange_answer_def Let_def batch_of_def ex_exchange_def ex_service_def ex_meta_def ex_start_def)
  moreover from this have "ds = ex_decisions" using decide_all_fun [OF ex_decides] by blast
  ultimately have conflict: "sp_acks (er_response res) ! 1 = receipt_ack (ex_receipt ''op-00002'' False)"
    by (simp add: ex_decisions_def)
  have len: "1 < length (sr_mutations ex_exchange)" by (simp add: ex_exchange_def ex_mutations_def)
  have new: "a_receipts (abs_owner (md_owner_key ex_meta) empty_db) op = None" for op by (simp add: abs_owner_empty)
  have keys: "Mutation_GetEntityKey (sr_mutations ex_exchange ! j) = ex_key" if "j \<le> 1" for j
    using that by (cases j) (auto simp: ex_exchange_def ex_mutations_def)
  note page = exchange_page [OF run db_inv_empty ex_exchange_matches [OF run]]
  have ack: "ack_conflict (sp_acks (er_response res) ! 1)" "ack_server_cursor (sp_acks (er_response res) ! 1) = 1"
    by (simp_all only: conflict receipt_ack_sel ex_receipt_def receipt.select_convs simp_thms)
  from page [THEN conjunct2, THEN conjunct2, THEN conjunct2, THEN conjunct2, THEN conjunct2, THEN conjunct2, THEN conjunct1,
      rule_format, OF len] new ack obtain ch j where "ch \<in> set (sp_changes (er_response res))" "c_cursor ch = 1"
    "j \<le> 1" "pad_key (c_entity_key ch) = pad_key (Mutation_GetEntityKey (sr_mutations ex_exchange ! j))" by auto
  then have forced: "\<exists>ch \<in> set (sp_changes (er_response res)). c_cursor ch = 1 \<and> pad_key (c_entity_key ch) = pad_key ex_key"
    using keys by auto
  have "sorted (map c_cursor (sp_changes (er_response res)))" "\<not> sp_reset_required (er_response res)"
    using page by (simp_all add: ex_exchange_def)
  with run ack(1) forced show ?thesis by blast
qed

text \<open>What an exchange does to the outbox and to the version.\<close>

lemma exchange_queues_event:
  assumes run: "exchange env sv md (Some r) s = (Inr res, s')" and inv: "db_inv s"
    and match: "\<not> sp_baseline_mismatch (er_response res)"
  defines "A \<equiv> abs_owner (md_owner_key md) s" and "F \<equiv> abs_owner (md_owner_key md) s'"
  shows "(\<exists>ev. a_events F = a_events A @ (if er_state_changed res then [ev] else [])
      \<and> ob_event_type ev = ''sync_hint'' \<and> ob_owner ev = md_owner_key md
      \<and> ob_baseline_id ev = er_baseline_id res \<and> ob_server_cursor ev = er_server_cursor res
      \<and> ob_server_version ev = er_server_version res \<and> ob_published_at_ms ev = None
      \<and> ob_origin ev = (if md_origin_connection_id md \<noteq> [] then Some (md_origin_connection_id md) else None))
    \<and> er_server_version res = a_version A + (if er_state_changed res then 1 else 0)
    \<and> a_version F = er_server_version res \<and> a_cursor F = er_server_cursor res"
proof -
  let ?S = "batch_start (md_owner_key md) (sr_baseline_id r) s"
  from exchange_summary [OF run inv match] obtain ds B l where
    ds: "decide_all (sr_device_id r) (sv_now sv) ?S (sr_mutations r) ds B"
    and closed: "batch_done sv md ?S ds B l F" and ok: "tx_ok (md_owner_key md) s'"
    and res: "res = exchange_answer r (batch_of ds) l (a_cursor B) (operations_after (md_owner_key md) (sr_cursor r)
               (normalized_pull_limit (sr_pull_limit r) + 1) s')" unfolding F_def by blast
  have S: "a_version ?S = a_version A" "a_events ?S = a_events A"
    by (auto simp: batch_start_def A_def with_lineage_def start_head_def a_version_def fresh_head_def
        dest!: owner_inv_version0 [OF inv] split: option.splits)
  note D = decide_all_inv [OF ds batch_start_facts [OF inv]]
  have evs: "a_events B = a_events A" using decide_all_events [OF ds] S by simp
  have changed: "er_state_changed res = (accepted_changes ds \<noteq> [])" "er_server_version res = ln_version l"
    "er_server_cursor res = a_cursor B" "er_baseline_id res = ln_baseline_id l"
    by (simp_all add: res exchange_answer_def Let_def batch_of_def)
  show ?thesis
  proof (cases "accepted_changes ds = []")
    case True
    with closed evs D S show ?thesis
      by (intro conjI exI [of _ "outbox_row_of (md_owner_key md) (sync_hint md l (a_cursor B) 0) 0"])
        (simp_all add: changed batch_done_def outbox_row_of_def sync_hint_def)
  next
    case False
    then obtain n where F: "F = publish_batch B l (accepted_changes ds)
        (outbox_row_of (md_owner_key md) (sync_hint md l (a_cursor B) (sv_now sv)) n)"
      and v: "ln_version l = a_version ?S + 1" using closed by (auto simp: batch_done_def)
    with False evs D S show ?thesis
      by (intro conjI exI [of _ "outbox_row_of (md_owner_key md) (sync_hint md l (a_cursor B) (sv_now sv)) n"])
        (simp_all add: changed outbox_row_of_def sync_hint_def)
  qed
qed

text \<open>
  C10. An exchange queues a realtime event exactly when it changed something, one event, with the
  baseline, the cursor and the version the answer reports, and the connection it came from, to be
  published; and the version goes up by exactly one then, and stays otherwise.
\<close>

theorem exchange_event:
  assumes run: "exchange env sv md (Some r) s = (Inr res, s')" and inv: "db_inv s"
    and match: "\<not> sp_baseline_mismatch (er_response res)"
  defines "A \<equiv> abs_owner (md_owner_key md) s" and "F \<equiv> abs_owner (md_owner_key md) s'"
  shows "(\<exists>ev. a_events F = a_events A @ (if er_state_changed res then [ev] else [])
      \<and> ob_event_type ev = ''sync_hint'' \<and> ob_owner ev = md_owner_key md
      \<and> ob_baseline_id ev = er_baseline_id res \<and> ob_server_cursor ev = er_server_cursor res
      \<and> ob_server_version ev = er_server_version res \<and> ob_published_at_ms ev = None
      \<and> ob_origin ev = (if md_origin_connection_id md \<noteq> [] then Some (md_origin_connection_id md) else None))
    \<and> er_server_version res = a_version A + (if er_state_changed res then 1 else 0)
    \<and> a_version F = er_server_version res \<and> a_cursor F = er_server_cursor res"
  unfolding A_def F_def by (rule exchange_queues_event [OF run inv match])

theorem exchange_event_witness:
  "\<exists>res s'. exchange ex_env ex_service ex_meta (Some ex_exchange) empty_db = (Inr res, s')
    \<and> a_version (abs_owner ex_owner s') = er_server_version res"
proof -
  obtain res s' where run: "exchange ex_env ex_service ex_meta (Some ex_exchange) empty_db = (Inr res, s')"
    using ex_exchange_runs by blast
  from exchange_event [OF run db_inv_empty ex_exchange_matches [OF run]] run show ?thesis
    by (auto simp: ex_meta_def)
qed

text \<open>
  C12. Archived changes are immutable: whatever the service does, an archived change is never
  changed and never vanishes, not even when a baseline is replaced; and the outbox only grows.
\<close>

theorem archive_is_immutable:
  assumes "service_step s s'"
  shows "a_archive (abs_owner ow s) \<subseteq>\<^sub>m a_archive (abs_owner ow s')
    \<and> (\<exists>new. a_events (abs_owner ow s') = a_events (abs_owner ow s) @ new)"
  using archive_grows [OF assms] by blast

theorem archive_is_immutable_witness:
  "a_archive (abs_owner ex_owner empty_db) \<subseteq>\<^sub>m
     a_archive (abs_owner ex_owner (snd (diff ex_env ex_service ex_meta (Some ex_diff) empty_db)))"
  by (rule archive_is_immutable [THEN conjunct1], rule step_diff) (rule prod.collapse [symmetric])

text \<open>
  A feed page. For a client on the current baseline whose cursor is not beyond the head, the
  page holds the next operations of the log, as many as the normalized limit allows, in order and
  without a gap; the next cursor is where it ends and \<open>has_more\<close> says whether the log goes on. On
  another baseline, or beyond the head, it holds no change and says why.
\<close>

theorem feed_page_is_next_log_segment:
  assumes "db_inv s" and "ready env"
    and "read_feed_page env ow baseline cursor limit s = Inr page"
    and "a_baseline (abs_owner ow s) = Some b"
  defines "A \<equiv> abs_owner ow s" and "n \<equiv> nat (normalized_feed_limit limit)"
  shows "fp_baseline_id page = b
    \<and> (fp_baseline_mismatch page \<longleftrightarrow> b \<noteq> baseline) \<and> (fp_reset_required page \<longleftrightarrow> cursor > a_cursor A)
    \<and> fp_changes page = (if b \<noteq> baseline \<or> cursor > a_cursor A then [] else take n (log_after A cursor))
    \<and> (b = baseline \<and> cursor \<le> a_cursor A \<longrightarrow>
         fp_has_more page = (n < length (log_after A cursor))
         \<and> fp_next_cursor page = cursor + of_nat (min n (length (log_after A cursor)))
         \<and> log_after A (fp_next_cursor page) = drop n (log_after A cursor))"
proof -
  obtain h where h: "a_head A = Some h" "hd_baseline h = Some b"
    using assms(4) by (auto simp: A_def a_baseline_def split: option.splits)
  have cur: "a_cursor A = hd_cursor h" using h by (simp add: a_cursor_def)
  note C = read_feed_page_cases [OF assms(1-3), folded A_def]
  have rest: "log_after A (cursor + of_nat (min n (length (log_after A cursor)))) = drop n (log_after A cursor)"
  proof (cases "n \<le> length (log_after A cursor)")
    case True
    then show ?thesis using log_after_drop [OF True] by (simp add: min_def)
  next
    case False
    then show ?thesis using log_after_drop [of "length (log_after A cursor)" A cursor] by (simp add: min_def)
  qed
  show ?thesis
  proof (cases "b \<noteq> baseline \<or> cursor > hd_cursor h")
    case True
    with C h show ?thesis by (auto simp: cur)
  next
    case False
    then have "page = page_of A cursor n h" using C h by (simp add: n_def)
    with False h rest show ?thesis
      by (auto simp: page_of_def Let_def row_lineage_def cur min.commute)
  qed
qed

theorem feed_page_is_next_log_segment_witness:
  "\<exists>res s' page. exchange ex_env ex_service ex_meta (Some ex_exchange) empty_db = (Inr res, s')
    \<and> read_feed_page ex_env ex_owner ex_baseline 0 0 s' = Inr page
    \<and> fp_changes page = take 128 (log_after (abs_owner ex_owner s') 0)"
proof -
  obtain res s' where run: "exchange ex_env ex_service ex_meta (Some ex_exchange) empty_db = (Inr res, s')"
    using ex_exchange_runs by blast
  have inv: "db_inv s'"
    by (rule service_step_inv [OF step_exchange [OF run] db_inv_empty])
  from exchange_summary [OF run db_inv_empty ex_exchange_matches [OF run]]
  have base: "a_baseline (abs_owner ex_owner s') = Some ex_baseline"
    by (auto simp: batch_done_def ex_meta_def ex_exchange_def)
  have ok: "db_ok s'" using inv by (simp add: db_inv_def)
  have "\<exists>page. read_feed_page ex_env ex_owner ex_baseline 0 0 s' = Inr page"
    by (rule read_feed_page_total [OF ok ex_ready]) (use ex_fields_valid in simp_all)
  then obtain page where page: "read_feed_page ex_env ex_owner ex_baseline 0 0 s' = Inr page" by blast
  have "nat (normalized_feed_limit 0) = 128" by (simp add: normalized_feed_limit_def default_pull_limit_def)
  with feed_page_is_next_log_segment [OF inv ex_ready page base] run page show ?thesis by auto
qed

section \<open>Baseline resolution\<close>

text \<open>
  C13. A resolution is a compare-and-swap on the baseline and version that the client expects: if
  the owner is on another baseline or version, and the request id is new, the answer is stale, has
  no records, and the state stays (but for the head and first lineage of a new owner).
\<close>

theorem stale_resolution_changes_nothing:
  assumes run: "resolve_baseline env sv md (Some r) s = (Inr res, s')" and inv: "db_inv s"
    and new: "a_resolutions (abs_owner (md_owner_key md) s) (rr_request_id r) = None"
    and old: "a_baseline (abs_owner (md_owner_key md) s) = Some b"
      "b \<noteq> rr_expected_server_baseline_id r
         \<or> a_version (abs_owner (md_owner_key md) s) \<noteq> rr_expected_server_version r"
  shows "rp_stale (rl_response res) \<and> rp_records (rl_response res) = [] \<and> \<not> rl_state_changed res
    \<and> rp_baseline_id (rl_response res) = b
    \<and> rp_server_version (rl_response res) = a_version (abs_owner (md_owner_key md) s)
    \<and> s' = started (md_owner_key md) (env_now env) s"
proof -
  let ?ow = "md_owner_key md" and ?s0 = "started (md_owner_key md) (env_now env) s"
  have ok: "tx_ok ?ow ?s0" by (rule db_inv_tx [OF inv])
  obtain r' where "Some r = Some r'" "resolve_tx sv md r' ?s0 = Inr (res, s')"
    using resolve_ok [OF run] by metis
  then have tx: "resolve_tx sv md r ?s0 = Inr (res, s')" by simp
  have A0: "a_baseline (abs_owner ?ow ?s0) = Some b"
    "a_version (abs_owner ?ow ?s0) = a_version (abs_owner ?ow s)"
    "a_resolutions (abs_owner ?ow ?s0) = a_resolutions (abs_owner ?ow s)"
    using old(1) by (simp_all add: started_abs) (simp add: start_head_def)
  show ?thesis
  proof (cases rule: resolve_tx_run [OF tx ok, case_names replay stale local server])
    case (replay l rs records current)
    with ensure_lineage_inv(11) [OF replay(1) ok] new show ?thesis by (simp add: A0)
  next
    case (stale l)
    note E = ensure_lineage_inv [OF stale(1) ok]
    have "s' = ?s0" using E(5) A0(1) by simp
    with E(2,3) A0 stale show ?thesis by (simp add: resolve_result_of_def)
  next
    case (local l s1)
    note E = ensure_lineage_inv [OF local(1) ok]
    have "s1 = ?s0" using E(5) A0(1) by simp
    with E(2,3) A0 local(3,4) old(2) show ?thesis by simp
  next
    case (server l s1 rs records)
    note E = ensure_lineage_inv [OF server(1) ok]
    have "s1 = ?s0" using E(5) A0(1) by simp
    with E(2,3) A0 server(3,4) old(2) show ?thesis by simp
  qed
qed

lemma ex_after_exchange:
  assumes run: "exchange ex_env ex_service ex_meta (Some ex_exchange) empty_db = (Inr res, s')"
  shows "db_inv s'" "a_baseline (abs_owner ex_owner s') = Some ex_baseline"
    "a_resolutions (abs_owner ex_owner s') = Map.empty"
proof -
  show "db_inv s'" by (rule service_step_inv [OF step_exchange [OF run] db_inv_empty])
  from exchange_summary [OF run db_inv_empty ex_exchange_matches [OF run]] obtain ds A l where
    S: "decide_all ex_device 1000000 ex_start ex_mutations ds A" "ln_baseline_id l = ex_baseline"
    "batch_done ex_service ex_meta ex_start ds A l (abs_owner ex_owner s')"
    by (auto simp: ex_meta_def ex_exchange_def ex_start_def ex_service_def)
  then show "a_baseline (abs_owner ex_owner s') = Some ex_baseline" by (simp add: batch_done_def)
  have "a_resolutions ex_start = Map.empty"
    by (simp add: ex_start_def batch_start_def start_head_def abs_owner_empty)
  with decide_all_events [OF S(1)] S(3) show "a_resolutions (abs_owner ex_owner s') = Map.empty"
    by (auto simp: batch_done_def split: if_splits)
qed

theorem stale_resolution_changes_nothing_witness:
  "\<exists>res s' r2 s2. exchange ex_env ex_service ex_meta (Some ex_exchange) empty_db = (Inr res, s')
    \<and> resolve_baseline ex_env ex_service ex_meta
        (Some (ex_resolve ''request-0001'' ex_local_baseline CHOICE_USE_LOCAL)) s' = (Inr r2, s2)
    \<and> rp_stale (rl_response r2) \<and> rp_baseline_id (rl_response r2) = ex_baseline"
proof -
  obtain res s' where run: "exchange ex_env ex_service ex_meta (Some ex_exchange) empty_db = (Inr res, s')"
    using ex_exchange_runs by blast
  let ?r = "ex_resolve ''request-0001'' ex_local_baseline CHOICE_USE_LOCAL"
  note after = ex_after_exchange [OF run]
  have valid: "validate_resolve_envelope (md_owner_key ex_meta) (Some ?r) = Inr ()"
    using ex_resolve_valid ex_patterns by (simp add: ex_meta_def)
  have new: "a_resolutions (abs_owner (md_owner_key ex_meta) s') (rr_request_id ?r) = None"
    using after(3) by (simp add: ex_meta_def)
  have base: "a_baseline (abs_owner (md_owner_key ex_meta) s') = Some ex_baseline"
    using after(2) by (simp add: ex_meta_def)
  have differ: "ex_baseline \<noteq> ex_local_baseline" by (simp add: ex_baseline_def ex_local_baseline_def)
  have other: "ex_baseline \<noteq> rr_expected_server_baseline_id ?r
         \<or> a_version (abs_owner (md_owner_key ex_meta) s') \<noteq> rr_expected_server_version ?r"
    using differ by (simp add: ex_resolve_def)
  have "\<exists>r2 s2. resolve_baseline ex_env ex_service ex_meta (Some ?r) s' = (Inr r2, s2)"
  proof (rule resolve_complete [OF after(1) ex_ready valid new])
    assume "a_baseline (batch_start (md_owner_key ex_meta) (rr_local_baseline_id ?r) s')
        = Some (rr_expected_server_baseline_id ?r)"
    moreover have "a_baseline (batch_start (md_owner_key ex_meta) (rr_local_baseline_id ?r) s') = Some ex_baseline"
      using base by (auto simp: batch_start_def with_lineage_def start_head_def a_baseline_def split: option.splits)
    ultimately show "validate_local_snapshot ?r = Inr () \<and> distinct (map Mutation_GetOpId (rr_local_snapshot ?r))
      \<and> length (rr_local_snapshot ?r) < 2 ^ 64
      \<and> (a_archive_heads (batch_start (md_owner_key ex_meta) (rr_local_baseline_id ?r) s') (rr_local_baseline_id ?r) = None
         \<or> (\<exists>b. sv_fork_baseline_id ex_service = Inr b
              \<and> a_archive_heads (batch_start (md_owner_key ex_meta) (rr_local_baseline_id ?r) s') b = None))
      \<and> day_derivable (sv_json ex_service) (snapshot_state ex_service ?r
           (batch_start (md_owner_key ex_meta) (rr_local_baseline_id ?r) s'))"
      using differ by (simp add: ex_resolve_def)
  qed
  then obtain r2 s2 where "resolve_baseline ex_env ex_service ex_meta (Some ?r) s' = (Inr r2, s2)" by blast
  from stale_resolution_changes_nothing [OF this after(1) new base other] this run show ?thesis by blast
qed

lemma number_snapshot_nth:
  "i < length ms \<Longrightarrow> number_snapshot now c ms ! i = mutation_change (ms ! i) (c + of_nat (Suc i)) now"
proof (induction ms arbitrary: c i)
  case (Cons m ms)
  then show ?case by (cases i) (simp_all add: add.assoc)
qed simp

lemma map_of_cursors:
  assumes "distinct (map c_cursor chs)" and "i < length chs"
  shows "map_of (map (\<lambda>ch. (c_cursor ch, ch)) chs) (c_cursor (chs ! i)) = Some (chs ! i)"
  using assms by (intro map_of_is_SomeI) (auto simp: comp_def)

lemma started_batch_start:
  assumes ok: "tx_ok ow s0" and l: "ensure_lineage sv ow b s0 = Inr (l, s1)" and s0: "s0 = started ow now s"
  shows "abs_owner ow s1 = batch_start ow b s"
  using ensure_lineage_state [OF l ok] by (simp add: s0 started_abs batch_start_def)

lemma ex_resolve_not_stale:
  assumes run: "resolve_baseline ex_env ex_service ex_meta
      (Some (ex_resolve i ex_local_baseline choice)) empty_db = (Inr res, s')"
  shows "\<not> rp_stale (rl_response res)"
proof -
  let ?r = "ex_resolve i ex_local_baseline choice" and ?s0 = "started (md_owner_key ex_meta) (env_now ex_env) empty_db"
  have ok: "tx_ok (md_owner_key ex_meta) ?s0" by (rule db_inv_tx [OF db_inv_empty])
  obtain r' where "Some ?r = Some r'" "resolve_tx ex_service ex_meta r' ?s0 = Inr (res, s')"
    using resolve_ok [OF run] by metis
  then have tx: "resolve_tx ex_service ex_meta ?r ?s0 = Inr (res, s')" by simp
  have A0: "a_version (abs_owner (md_owner_key ex_meta) ?s0) = 0" "a_resolutions (abs_owner (md_owner_key ex_meta) ?s0) = Map.empty"
    by (simp_all add: started_abs abs_owner_empty a_version_def start_head_def fresh_head_def)
  show ?thesis
  proof (cases rule: resolve_tx_run [OF tx ok, case_names replay stale local server])
    case (replay l rs records current)
    with ensure_lineage_inv(11) [OF replay(1) ok] A0 show ?thesis by simp
  next
    case (stale l)
    have "a_version (batch_start (md_owner_key ex_meta) (rr_local_baseline_id ?r) empty_db) = 0"
      by (simp add: batch_start_def with_lineage_def start_head_def abs_owner_empty fresh_head_def a_version_def)
    with ensure_lineage_inv(3,6) [OF stale(1) ok] ex_no_baseline started_batch_start [OF ok stale(1) refl]
    have "ln_baseline_id l = rr_local_baseline_id ?r" "ln_version l = 0" by simp_all
    with stale(3) show ?thesis by (simp add: ex_resolve_def)
  next
    case (local l s1)
    from use_local_refines [OF local(6)] ensure_lineage_inv(1) [OF local(1) ok]
    show ?thesis by (auto simp: tx_ok_def resolve_result_of_def)
  next
    case (server l s1 rs records)
    then show ?thesis by (simp add: resolve_result_of_def)
  qed
qed

text \<open>
  When the operations are numbered from 1 to the head cursor, the records are the latest of them
  under each key, and nothing else.
\<close>

lemma records_of_numbered:
  assumes inv: "owner_inv F" and n: "a_cursor F = of_nat n" "n < 2 ^ 64"
    and ops: "\<And>i. i < n \<Longrightarrow> a_ops F (of_nat (Suc i)) = Some (g i)"
  shows "dom (a_recs F) = (\<lambda>i. pad_key (c_entity_key (g i))) ` {..<n}"
    and "a_recs F k = Some e \<Longrightarrow> \<exists>i < n. pad_key (c_entity_key (g i)) = k \<and> same_change e (g i)"
proof -
  have log: "log_ok F" and recs: "records_ok F" using inv by (simp_all add: owner_inv_def inv_upto_def)
  have found: "\<exists>i < n. pad_key (c_entity_key (g i)) = k \<and> same_change e (g i)" if "a_recs F k = Some e" for k e
  proof -
    from that recs have "latest F k e" by (simp add: records_ok_def)
    then obtain ch where ch: "a_ops F (c_cursor e) = Some ch" "pad_key (c_entity_key ch) = k"
      "e = ch\<lparr>c_entity_key := c_entity_key e\<rparr>" "pad_key (c_entity_key e) = k"
      unfolding latest_def by blast
    have "c_cursor e \<noteq> 0" "c_cursor e \<le> of_nat n" using log ch(1) n(1) by (auto simp: log_ok_def)
    then have "0 < unat (c_cursor e)" "unat (c_cursor e) \<le> n"
      using n(2) by (auto simp: word_le_nat_alt unat_of_nat unat_gt_0)
    then obtain i where i: "unat (c_cursor e) = Suc i" "i < n" by (cases "unat (c_cursor e)") auto
    then have "c_cursor e = of_nat (Suc i)" by (metis of_nat_unat ucast_id)
    with ops [OF i(2)] ch have "ch = g i" by simp
    with ch i(2) show ?thesis by (auto simp: same_change_def)
  qed
  then show "a_recs F k = Some e \<Longrightarrow> \<exists>i < n. pad_key (c_entity_key (g i)) = k \<and> same_change e (g i)" by blast
  have "a_recs F (pad_key (c_entity_key (g i))) \<noteq> None" if "i < n" for i
    using ops [OF that] recs by (auto simp: records_ok_def simp del: not_None_eq)
  with found show "dom (a_recs F) = (\<lambda>i. pad_key (c_entity_key (g i))) ` {..<n}" by fastforce
qed

text \<open>
  C14. Resolving in favour of the local snapshot, when the client's expectation is met, replaces the
  baseline: the mutations of the snapshot, in key order, become the operations 1 to n of the new
  baseline; the records are those of the snapshot and no other: there is one under each key of the
  snapshot, and each is the operation of a mutation of the snapshot (up to trailing blanks of its key);
  the version is 1 (0 for an empty snapshot); all receipts are gone and the resolution is the only
  one recorded; the answer has the records now stored. The new baseline id is the client's own unless
  it has been used before, and never one that has archived changes. A fork's new id is taken to be
  unused.
\<close>

theorem use_local_replaces_baseline:
  assumes run: "resolve_baseline env sv md (Some r) s = (Inr res, s')" and inv: "db_inv s"
    and new: "a_resolutions (abs_owner (md_owner_key md) s) (rr_request_id r) = None"
    and choice: "rr_choice r = CHOICE_USE_LOCAL" and fresh: "\<not> rp_stale (rl_response res)"
    and fork: "fork_unused sv (abs_owner (md_owner_key md) s)"
  defines "A \<equiv> abs_owner (md_owner_key md) s" and "F \<equiv> abs_owner (md_owner_key md) s'"
    and "snap \<equiv> sort_snapshot (rr_local_snapshot r)"
  shows "a_cursor F = of_nat (length snap) \<and> a_version F = (if snap = [] then 0 else 1)
    \<and> (\<forall>i < length snap. a_ops F (of_nat (Suc i)) = Some (mutation_change (snap ! i) (of_nat (Suc i)) (sv_now sv)))
    \<and> dom (a_recs F) = (\<lambda>m. pad_key (Mutation_GetEntityKey m)) ` set snap
    \<and> (\<forall>k e. a_recs F k = Some e \<longrightarrow> (\<exists>i < length snap. pad_key (Mutation_GetEntityKey (snap ! i)) = k
          \<and> same_change e (mutation_change (snap ! i) (of_nat (Suc i)) (sv_now sv))))
    \<and> a_receipts F = Map.empty \<and> dom (a_resolutions F) = {rr_request_id r}
    \<and> set (rp_records (rl_response res)) = ran (a_recs F) \<and> rl_state_changed res
    \<and> a_baseline F = Some (rp_baseline_id (rl_response res))
    \<and> a_archive_heads A (rp_baseline_id (rl_response res)) = None
    \<and> (a_archive_heads A (rr_local_baseline_id r) = None \<longrightarrow> rp_baseline_id (rl_response res) = rr_local_baseline_id r)
    \<and> (\<exists>ev. a_events F = a_events A @ [ev])"
proof -
  let ?ow = "md_owner_key md" and ?s0 = "started (md_owner_key md) (env_now env) s"
  have ok: "tx_ok ?ow ?s0" by (rule db_inv_tx [OF inv])
  obtain r' where "Some r = Some r'" "resolve_tx sv md r' ?s0 = Inr (res, s')"
    using resolve_ok [OF run] by metis
  then have tx: "resolve_tx sv md r ?s0 = Inr (res, s')" by simp
  show ?thesis
  proof (cases rule: resolve_tx_run [OF tx ok, case_names replay stale local server])
    case (replay l rs records current)
    with ensure_lineage_inv(11) [OF replay(1) ok] new show ?thesis by (simp add: started_abs start_head_def)
  next
    case (stale l)
    with fresh show ?thesis by (simp add: resolve_result_of_def)
  next
    case (server l s1 rs records)
    with choice show ?thesis by simp
  next
    case (local l s1)
    note E = ensure_lineage_inv [OF local(1) ok]
    have S: "a_archive_heads (abs_owner ?ow s1) = a_archive_heads A" "a_events (abs_owner ?ow s1) = a_events A"
      using started_batch_start [OF ok local(1) refl] by (simp_all add: A_def batch_start_def start_head_def)
    have dbok: "db_ok s1" and h: "a_head (abs_owner ?ow s1) \<noteq> None" using E(1) by (simp_all add: tx_ok_def)
    from use_local_refines [OF local(6) dbok h] obtain rb chs l' day rs ev records stored where
      rb: "case a_archive_heads (abs_owner ?ow s1) (rr_local_baseline_id r) of
         None \<Rightarrow> rb = rr_local_baseline_id r | Some _ \<Rightarrow> sv_fork_baseline_id sv = Inr rb"
      and chs: "chs = number_snapshot (sv_now sv) 0 snap"
      and l': "l' = \<lparr>ln_baseline_id = rb, ln_version = (if chs = [] then 0 else 1), ln_updated_at_ms = sv_now sv,
           ln_progress_day = day\<rparr>"
      and recs: "set records = ran (a_recs (foldl place_change (cleared (abs_owner ?ow s1)) chs))"
      and rs: "rs = new_resolution_receipt r l' (of_nat (length chs))" and small: "length chs < 2 ^ 64"
      and F: "F = replace_baseline (abs_owner ?ow s1) (l'\<lparr>ln_progress_day := stored\<rparr>) chs rs ev"
      and res: "res = resolve_result_of (rr_device_id r) l' (of_nat (length chs)) records False True"
      unfolding snap_def F_def by blast
    have small': "length snap < 2 ^ 64" using small by (simp add: chs)
    note sel = replace_baseline_sel [OF h small' chs F]
    have len: "length chs = length snap" by (simp add: chs)
    then have nil: "(chs = []) = (snap = [])" by auto
    have dist: "distinct (map c_cursor chs)"
      using distinct_number_snapshot [of 0 snap "sv_now sv"] small' by (simp add: chs)
    have ops: "a_ops F (of_nat (Suc i)) = Some (mutation_change (snap ! i) (of_nat (Suc i)) (sv_now sv))"
      if "i < length snap" for i
    proof -
      have "chs ! i = mutation_change (snap ! i) (of_nat (Suc i)) (sv_now sv)"
        using number_snapshot_nth [OF that, of "sv_now sv" 0] by (simp add: chs del: of_nat_Suc)
      moreover from this have "c_cursor (chs ! i) = of_nat (Suc i)" by (simp add: mutation_change_def)
      ultimately show ?thesis using map_of_cursors [OF dist, of i] that by (simp add: sel(9) len)
    qed
    have "owner_inv F"
      using service_step_inv [OF step_resolve [OF run fork] inv] by (simp add: db_inv_def F_def)
    note R = records_of_numbered [OF this _ small' ops]
    have key: "c_entity_key (mutation_change m c t) = Mutation_GetEntityKey m" for m c t
      by (simp add: mutation_change_def)
    have cur: "a_cursor F = of_nat (length snap)" using sel by (simp add: len)
    have "(\<lambda>i. pad_key (Mutation_GetEntityKey (snap ! i))) ` {..<length snap} = (\<lambda>m. pad_key (Mutation_GetEntityKey m)) ` set snap"
      by (force simp: in_set_conv_nth image_iff)
    with R(1) [OF cur] have dom: "dom (a_recs F) = (\<lambda>m. pad_key (Mutation_GetEntityKey m)) ` set snap"
      by (simp add: key del: of_nat_Suc)
    have each: "\<forall>k e. a_recs F k = Some e \<longrightarrow> (\<exists>i < length snap. pad_key (Mutation_GetEntityKey (snap ! i)) = k
          \<and> same_change e (mutation_change (snap ! i) (of_nat (Suc i)) (sv_now sv)))"
      using R(2) [OF cur] by (simp only: key) blast
    have "a_archive_heads A rb = None"
      using rb fork S(1) by (auto simp: fork_unused_def A_def split: option.splits)
    with sel ops rb dom each show ?thesis
      by (simp add: l' rs res resolve_result_of_def new_resolution_receipt_def nil recs S split: option.splits)
  qed
qed

theorem use_local_replaces_baseline_witness:
  "\<exists>res s'. resolve_baseline ex_env ex_service ex_meta
      (Some (ex_resolve ''request-0001'' ex_local_baseline CHOICE_USE_LOCAL)) empty_db = (Inr res, s')
    \<and> a_cursor (abs_owner ex_owner s') = 1 \<and> a_baseline (abs_owner ex_owner s') = Some ex_local_baseline"
proof -
  let ?r = "ex_resolve ''request-0001'' ex_local_baseline CHOICE_USE_LOCAL"
  obtain res s' where run: "resolve_baseline ex_env ex_service ex_meta (Some ?r) empty_db = (Inr res, s')"
    using ex_resolve_runs by blast
  have "\<not> rp_stale (rl_response res)" by (rule ex_resolve_not_stale [OF run])
  from use_local_replaces_baseline [OF run db_inv_empty _ _ this] run show ?thesis
    by (auto simp: abs_owner_empty fork_unused_def ex_service_def ex_meta_def, simp_all add: ex_resolve_def)
qed






end
