(* ===== verification/NetAddr.thy ===== *)
theory NetAddr
  imports Encoding
begin

text \<open>
  What the code uses of the packages \<open>net\<close> and \<open>net/netip\<close>: \<open>SplitHostPort\<close> and \<open>JoinHostPort\<close>, the text of an
  address (\<open>netip.ParseAddr\<close>, \<open>net.ParseIP\<close>), networks (\<open>net.ParseCIDR\<close>, \<open>IPNet.Contains\<close>). An address is its
  bytes, four or sixteen.
\<close>

unbundle bit_operations_syntax

section \<open>Hosts and ports\<close>

definition index_of :: "char \<Rightarrow> string \<Rightarrow> nat" where
  "index_of c s = length (takeWhile (\<lambda>x. x \<noteq> c) s)"

definition split_host_port :: "string \<Rightarrow> (string \<times> string) option" where
  "split_host_port s =
     (if CHR '':'' \<notin> set s then None
      else
        (let port = rev (takeWhile (\<lambda>x. x \<noteq> CHR '':'') (rev s)); i = length s - length port - 1 in
         if hd s = CHR ''['' then
           (let e = index_of CHR '']'' s in
            if e = length s \<or> e + 1 \<noteq> i then None
            else if CHR ''['' \<in> set (drop 1 s) \<or> CHR '']'' \<in> set (drop (e + 1) s) then None
            else Some (drop 1 (take e s), port))
         else
           (let host = take i s in
            if CHR '':'' \<in> set host then None
            else if CHR ''['' \<in> set s \<or> CHR '']'' \<in> set s then None
            else Some (host, port))))"

definition join_host_port :: "string \<Rightarrow> string \<Rightarrow> string" where
  "join_host_port host port =
     (if CHR '':'' \<in> set host then ''['' @ host @ '']:'' @ port else host @ '':'' @ port)"

section \<open>IPv4\<close>

text \<open>A field of dotted notation: digits, without a leading zero, at most 255.\<close>

definition ipv4_field :: "string \<Rightarrow> 8 word option" where
  "ipv4_field s =
     (if s = [] \<or> \<not> list_all is_digit s \<or> (1 < length s \<and> hd s = CHR ''0'') \<or> 3 < length s \<or> 255 < decimal_value s
      then None else Some (of_nat (decimal_value s)))"

definition parse_ipv4 :: "string \<Rightarrow> 8 word list option" where
  "parse_ipv4 s =
     (let fields = map ipv4_field (split_on CHR ''.'' s)
      in if length fields = 4 \<and> None \<notin> set fields then Some (map the fields) else None)"

section \<open>IPv6\<close>

text \<open>
  The loop over the groups: the bytes so far, and where the ellipsis stands. What ends it is the bytes, the
  ellipsis and the rest of the text; \<^const>\<open>None\<close> is an error.
\<close>

definition hex_number :: "string \<Rightarrow> nat" where
  "hex_number s = foldl (\<lambda>n c. n * 16 + unhex c) 0 s"

function ipv6_groups :: "8 word list \<Rightarrow> nat option \<Rightarrow> string \<Rightarrow> (8 word list \<times> nat option \<times> string) option" where
  "ipv6_groups bytes ellipsis s =
     (if 16 \<le> length bytes then Some (bytes, ellipsis, s)
      else
        (let digits = takeWhile is_hex s; rest = dropWhile is_hex s; acc = hex_number digits in
         if digits = [] \<or> 4 < length digits then None
         else
           (case rest of
              [] \<Rightarrow> Some (bytes @ [of_nat (acc div 256), of_nat acc], ellipsis, [])
            | d # after \<Rightarrow>
                if d = CHR ''.'' then
                  (if (ellipsis = None \<and> length bytes \<noteq> 12) \<or> 16 < length bytes + 4 then None
                   else (case parse_ipv4 s of None \<Rightarrow> None | Some v4 \<Rightarrow> Some (bytes @ v4, ellipsis, [])))
                else if d \<noteq> CHR '':'' \<or> after = [] then None
                else
                  (let bytes' = bytes @ [of_nat (acc div 256), of_nat acc] in
                   if hd after = CHR '':'' then
                     (if ellipsis \<noteq> None then None
                      else if tl after = [] then Some (bytes', Some (length bytes'), [])
                      else ipv6_groups bytes' (Some (length bytes')) (tl after))
                   else ipv6_groups bytes' ellipsis after))))"
  by pat_completeness auto
termination
  by (relation "measure (\<lambda>(bytes, _, _). 16 - length bytes)") auto

declare ipv6_groups.simps [simp del]

text \<open>The missing bytes are zeros at the ellipsis, which stands for one group at least.\<close>

definition expand_ellipsis :: "8 word list \<Rightarrow> nat option \<Rightarrow> 8 word list option" where
  "expand_ellipsis bytes ellipsis =
     (if length bytes < 16 then
        (case ellipsis of
           None \<Rightarrow> None
         | Some e \<Rightarrow> Some (take e bytes @ replicate (16 - length bytes) 0 @ drop e bytes))
      else if ellipsis = None then Some bytes else None)"

text \<open>The address and its zone, which is empty when there is none.\<close>

definition parse_ipv6 :: "string \<Rightarrow> (8 word list \<times> string) option" where
  "parse_ipv6 s =
     (let address = takeWhile (\<lambda>c. c \<noteq> CHR 0x25) s; zone = drop (length address + 1) s in
      if CHR 0x25 \<in> set s \<and> zone = [] then None
      else if address = ''::'' then Some (replicate 16 0, zone)
      else
        (let (ellipsis, start) = (if has_prefix address ''::'' then (Some 0, drop 2 address) else (None, address)) in
         case ipv6_groups [] ellipsis start of
           None \<Rightarrow> None
         | Some (bytes, ellipsis', rest) \<Rightarrow>
             if rest \<noteq> [] then None
             else (case expand_ellipsis bytes ellipsis' of None \<Rightarrow> None | Some ip \<Rightarrow> Some (ip, zone))))"

section \<open>Addresses\<close>

text \<open>\<open>netip.ParseAddr\<close>: the first dot, colon or percent sign decides.\<close>

definition parse_addr :: "string \<Rightarrow> (8 word list \<times> string) option" where
  "parse_addr s =
     (case dropWhile (\<lambda>c. c \<notin> set (CHR 0x25 # ''.:'')) s of
        [] \<Rightarrow> None
      | c # _ \<Rightarrow>
          if c = CHR ''.'' then map_option (\<lambda>ip. (ip, [])) (parse_ipv4 s)
          else if c = CHR '':'' then parse_ipv6 s else None)"

text \<open>\<open>net.ParseIP\<close> gives sixteen bytes.\<close>

definition v4_in_v6_prefix :: "8 word list" where
  "v4_in_v6_prefix = replicate 10 0 @ [255, 255]"

definition as16 :: "8 word list \<Rightarrow> 8 word list" where
  "as16 ip = (if length ip = 4 then v4_in_v6_prefix @ ip else ip)"

definition to4 :: "8 word list \<Rightarrow> 8 word list option" where
  "to4 ip =
     (if length ip = 4 then Some ip
      else if length ip = 16 \<and> take 12 ip = v4_in_v6_prefix then Some (drop 12 ip) else None)"

definition parse_ip :: "string \<Rightarrow> 8 word list option" where
  "parse_ip s = (case parse_addr s of Some (ip, []) \<Rightarrow> Some (as16 ip) | _ \<Rightarrow> None)"

section \<open>Networks\<close>

text \<open>\<open>net.CIDRMask\<close>, \<open>IP.Mask\<close> and the comparison of \<open>IPNet.Contains\<close>, byte by byte.\<close>

definition mask_byte :: "nat \<Rightarrow> 8 word" where
  "mask_byte n = of_nat (255 - (if 8 \<le> n then 0 else 2 ^ (8 - n) - 1))"

definition cidr_mask :: "nat \<Rightarrow> nat \<Rightarrow> 8 word list" where
  "cidr_mask ones bits = map (\<lambda>i. mask_byte (ones - 8 * i)) [0..<bits div 8]"

record ip_net =
  in_ip :: "8 word list"
  in_mask :: "8 word list"

definition mask_ip :: "8 word list \<Rightarrow> 8 word list \<Rightarrow> 8 word list" where
  "mask_ip ip m =
     (let ip' = (if length m = 4 \<and> length ip = 16 \<and> take 12 ip = v4_in_v6_prefix then drop 12 ip else ip)
      in if length ip' = length m then map2 (AND) ip' m else [])"

definition parse_cidr :: "string \<Rightarrow> ip_net option" where
  "parse_cidr s =
     (if CHR ''/'' \<notin> set s then None
      else
        (let address = takeWhile (\<lambda>c. c \<noteq> CHR ''/'') s; ones = drop (length address + 1) s in
         case parse_addr address of
           Some (ip, []) \<Rightarrow>
             if ones = [] \<or> \<not> list_all is_digit ones \<or> 8 * length ip < decimal_value ones then None
             else (let m = cidr_mask (decimal_value ones) (8 * length ip)
                   in Some \<lparr>in_ip = mask_ip (as16 ip) m, in_mask = m\<rparr>)
         | _ \<Rightarrow> None))"

definition net_contains :: "ip_net \<Rightarrow> 8 word list \<Rightarrow> bool" where
  "net_contains network ip =
     (let nn = (case to4 (in_ip network) of Some v4 \<Rightarrow> v4 | None \<Rightarrow> in_ip network);
          m = (if length (in_mask network) = 16 \<and> length nn = 4 then drop 12 (in_mask network) else in_mask network);
          ip' = (case to4 ip of Some v4 \<Rightarrow> v4 | None \<Rightarrow> ip)
      in length m = length nn \<and> length ip' = length nn \<and> map2 (AND) nn m = map2 (AND) ip' m)"

end
