(* ===== verification/Url.thy ===== *)
theory Url
  imports NetAddr
begin

text \<open>
  Package \<open>net/url\<close> as the code uses it: \<open>Parse\<close>, \<open>URL.String\<close>, \<open>ResolveReference\<close> with a path, query values. The
  definitions follow the functions of the package (Go 1.26, whose \<open>Parse\<close> refuses a second colon in a
  host that is no IPv6 literal, and text in front of a literal); errors are \<^const>\<open>None\<close>. For a URL
  that was parsed the text is parsed to the same URL again.
\<close>

section \<open>Escaping\<close>

datatype encoding = EncPath | EncHost | EncZone | EncUserPassword | EncFragment

definition is_letter :: "char \<Rightarrow> bool" where
  "is_letter c \<longleftrightarrow> in_range c 65 90 \<or> in_range c 97 122"

text \<open>\<open>shouldEscape\<close>: the characters that stand for themselves, and those that do in a part of the URL.\<close>

definition should_escape :: "encoding \<Rightarrow> char \<Rightarrow> bool" where
  "should_escape mode c \<longleftrightarrow>
     \<not> (is_letter c \<or> is_digit c \<or> c \<in> set ''-_.~''
        \<or> (case mode of
             EncPath \<Rightarrow> c \<in> set ''$&+,/:;=@''
           | EncUserPassword \<Rightarrow> c \<in> set ''$&+,;=''
           | EncFragment \<Rightarrow> c \<in> set ''$&+,/:;=?@!()*''
           | _ \<Rightarrow> c \<in> set (CHR 0x22 # CHR 0x27 # ''!$&()*+,;=:[]<>'')))"

definition upper_hex_digit :: "nat \<Rightarrow> char" where
  "upper_hex_digit n = ''0123456789ABCDEF'' ! n"

definition percent_encode :: "char \<Rightarrow> string" where
  "percent_encode c = [CHR 0x25, upper_hex_digit (of_char c div 16), upper_hex_digit (of_char c mod 16)]"

definition url_escape :: "encoding \<Rightarrow> string \<Rightarrow> string" where
  "url_escape mode s = concat (map (\<lambda>c. if should_escape mode c then percent_encode c else [c]) s)"

definition hex_byte :: "char \<Rightarrow> char \<Rightarrow> char" where
  "hex_byte h l = char_of (unhex h * 16 + unhex l)"

text \<open>
  Which bytes may be written with a percent sign: in a host only those that are not ASCII, and the percent
  sign itself; in a zone those that could stand there as they are, a space, and the percent sign.
\<close>

definition escape_allowed :: "encoding \<Rightarrow> char \<Rightarrow> char \<Rightarrow> bool" where
  "escape_allowed mode h l \<longleftrightarrow>
     (case mode of
        EncHost \<Rightarrow> 8 \<le> unhex h \<or> (h = CHR ''2'' \<and> l = CHR ''5'')
      | EncZone \<Rightarrow> (h = CHR ''2'' \<and> l = CHR ''5'') \<or> hex_byte h l = CHR '' '' \<or> \<not> should_escape EncHost (hex_byte h l)
      | _ \<Rightarrow> True)"

definition plain_allowed :: "encoding \<Rightarrow> char \<Rightarrow> bool" where
  "plain_allowed mode c \<longleftrightarrow> (mode = EncHost \<or> mode = EncZone) \<longrightarrow> 128 \<le> (of_char c :: nat) \<or> \<not> should_escape mode c"

fun url_unescape :: "encoding \<Rightarrow> string \<Rightarrow> string option" where
  "url_unescape mode [] = Some []"
| "url_unescape mode (c # cs) =
     (if c = CHR 0x25 then
        (case cs of
           h # l # rest \<Rightarrow>
             if is_hex h \<and> is_hex l \<and> escape_allowed mode h l then map_option (Cons (hex_byte h l)) (url_unescape mode rest)
             else None
         | _ \<Rightarrow> None)
      else if plain_allowed mode c then map_option (Cons c) (url_unescape mode cs) else None)"

text \<open>\<open>validEncoded\<close>\<close>

definition encoded_marks :: string where
  "encoded_marks = CHR 0x25 # CHR 0x27 # ''!$&()*+,;=:@[]''"

definition valid_encoded :: "encoding \<Rightarrow> string \<Rightarrow> bool" where
  "valid_encoded mode s \<longleftrightarrow>
     list_all (\<lambda>c. c \<in> set encoded_marks \<or> \<not> should_escape mode c) s"

section \<open>URLs\<close>

text \<open>The fields of a \<open>url.URL\<close>; the user information is the name and the password, if there is one.\<close>

record go_url =
  gu_scheme :: string
  gu_opaque :: string
  gu_user :: "(string \<times> string option) option"
  gu_host :: string
  gu_path :: string
  gu_raw_path :: string
  gu_omit_host :: bool
  gu_force_query :: bool
  gu_raw_query :: string
  gu_fragment :: string
  gu_raw_fragment :: string

definition empty_url :: go_url where
  "empty_url =
     \<lparr>gu_scheme = [], gu_opaque = [], gu_user = None, gu_host = [], gu_path = [], gu_raw_path = [], gu_omit_host = False,
      gu_force_query = False, gu_raw_query = [], gu_fragment = [], gu_raw_fragment = []\<rparr>"

definition url_origin :: "go_url \<Rightarrow> string" where
  "url_origin u = gu_scheme u @ ''://'' @ gu_host u"

text \<open>\<open>strings.Cut\<close> at a character, and the parts around its last occurrence.\<close>

definition cut_at :: "char \<Rightarrow> string \<Rightarrow> string \<times> string" where
  "cut_at d s = (takeWhile (\<lambda>c. c \<noteq> d) s, drop 1 (dropWhile (\<lambda>c. c \<noteq> d) s))"

definition after_last :: "char \<Rightarrow> string \<Rightarrow> string" where
  "after_last d s = rev (takeWhile (\<lambda>c. c \<noteq> d) (rev s))"

definition before_last :: "char \<Rightarrow> string \<Rightarrow> string" where
  "before_last d s = take (length s - length (after_last d s) - 1) s"

section \<open>Parse\<close>

definition is_ctl :: "char \<Rightarrow> bool" where
  "is_ctl c \<longleftrightarrow> of_char c < (32 :: nat) \<or> of_char c = (127 :: nat)"

definition valid_optional_port :: "string \<Rightarrow> bool" where
  "valid_optional_port port \<longleftrightarrow> port = [] \<or> (hd port = CHR '':'' \<and> list_all is_digit (tl port))"

text \<open>The name of an IPv6 literal, and its zone, which begins with an escaped percent sign.\<close>

fun cut_zone :: "string \<Rightarrow> string \<times> string" where
  "cut_zone [] = ([], [])"
| "cut_zone (c # cs) =
     (if has_prefix (c # cs) (CHR 0x25 # ''25'') then ([], c # cs)
      else (let (address, zone) = cut_zone cs in (c # address, zone)))"

definition unescape_literal :: "string \<Rightarrow> string option" where
  "unescape_literal s =
     (let (address, zone) = cut_zone s in
      if zone = [] then url_unescape EncHost s
      else
        (case (url_unescape EncHost address, url_unescape EncZone zone) of
           (Some a, Some z) \<Rightarrow> Some (a @ z)
         | _ \<Rightarrow> None))"

definition parse_host :: "string \<Rightarrow> string option" where
  "parse_host host =
     (if CHR ''['' \<in> set host then
        (if hd host \<noteq> CHR ''['' \<or> CHR ''['' \<in> set (tl host) \<or> CHR '']'' \<notin> set host then None
         else if \<not> valid_optional_port (after_last CHR '']'' host) then None
         else
           (case unescape_literal (before_last CHR '']'' (tl host)) of
              None \<Rightarrow> None
            | Some literal \<Rightarrow>
                (case parse_addr literal of
                   None \<Rightarrow> None
                 | Some (ip, zone) \<Rightarrow>
                     if length ip = 4 then None else Some (''['' @ literal @ '']'' @ after_last CHR '']'' host))))
      else if \<not> valid_optional_port (dropWhile (\<lambda>c. c \<noteq> CHR '':'') host) then None
      else url_unescape EncHost host)"

definition valid_userinfo :: "string \<Rightarrow> bool" where
  "valid_userinfo s \<longleftrightarrow> list_all (\<lambda>c. is_letter c \<or> is_digit c \<or> c \<in> set (CHR 0x25 # CHR 0x27 # ''-._:~!$&()*+,;=@'')) s"

definition parse_userinfo :: "string \<Rightarrow> (string \<times> string option) option" where
  "parse_userinfo s =
     (if \<not> valid_userinfo s then None
      else if CHR '':'' \<notin> set s then map_option (\<lambda>name. (name, None)) (url_unescape EncUserPassword s)
      else
        (let (name, password) = cut_at CHR '':'' s in
         case (url_unescape EncUserPassword name, url_unescape EncUserPassword password) of
           (Some n, Some p) \<Rightarrow> Some (n, Some p)
         | _ \<Rightarrow> None))"

definition parse_authority :: "string \<Rightarrow> ((string \<times> string option) option \<times> string) option" where
  "parse_authority s =
     (case parse_host (after_last CHR ''@'' s) of
        None \<Rightarrow> None
      | Some host \<Rightarrow>
          if CHR ''@'' \<notin> set s then Some (None, host)
          else (case parse_userinfo (before_last CHR ''@'' s) of None \<Rightarrow> None | Some user \<Rightarrow> Some (Some user, host)))"

text \<open>\<open>getScheme\<close>\<close>

definition get_scheme :: "string \<Rightarrow> (string \<times> string) option" where
  "get_scheme s =
     (let name = takeWhile (\<lambda>c. is_letter c \<or> is_digit c \<or> c \<in> set ''+-.'') s in
      case drop (length name) s of
        [] \<Rightarrow> Some ([], s)
      | c # rest \<Rightarrow>
          if c \<noteq> CHR '':'' then Some ([], s)
          else if name = [] then None
          else if is_letter (hd name) then Some (name, rest) else Some ([], s))"

definition set_path :: "string \<Rightarrow> go_url \<Rightarrow> go_url option" where
  "set_path p u =
     (case url_unescape EncPath p of
        None \<Rightarrow> None
      | Some path \<Rightarrow> Some (u\<lparr>gu_path := path, gu_raw_path := if p = url_escape EncPath path then [] else p\<rparr>))"

definition set_fragment :: "string \<Rightarrow> go_url \<Rightarrow> go_url option" where
  "set_fragment f u =
     (case url_unescape EncFragment f of
        None \<Rightarrow> None
      | Some fragment \<Rightarrow>
          Some (u\<lparr>gu_fragment := fragment, gu_raw_fragment := if f = url_escape EncFragment fragment then [] else f\<rparr>))"

text \<open>A lone question mark at the end is a flag, not an empty query.\<close>

definition split_query :: "string \<Rightarrow> bool \<times> string \<times> string" where
  "split_query s =
     (if has_suffix s ''?'' \<and> count_list s CHR ''?'' = 1 then (True, butlast s, []) else (False, cut_at CHR ''?'' s))"

definition parse_rest :: "string \<Rightarrow> go_url \<Rightarrow> go_url option" where
  "parse_rest rest u =
     (if \<not> has_prefix rest ''/'' then
        (if gu_scheme u \<noteq> [] then Some (u\<lparr>gu_opaque := rest\<rparr>)
         else if CHR '':'' \<in> set (fst (cut_at CHR ''/'' rest)) then None
         else set_path rest u)
      else if (gu_scheme u \<noteq> [] \<or> \<not> has_prefix rest ''///'') \<and> has_prefix rest ''//'' then
        (case parse_authority (takeWhile (\<lambda>c. c \<noteq> CHR ''/'') (drop 2 rest)) of
           None \<Rightarrow> None
         | Some (user, host) \<Rightarrow>
             set_path (dropWhile (\<lambda>c. c \<noteq> CHR ''/'') (drop 2 rest)) (u\<lparr>gu_user := user, gu_host := host\<rparr>))
      else set_path rest (u\<lparr>gu_omit_host := gu_scheme u \<noteq> []\<rparr>))"

definition parse_without_fragment :: "string \<Rightarrow> go_url option" where
  "parse_without_fragment raw =
     (if list_ex is_ctl raw then None
      else if raw = ''*'' then Some (empty_url\<lparr>gu_path := ''*''\<rparr>)
      else
        (case get_scheme raw of
           None \<Rightarrow> None
         | Some (scheme, after_scheme) \<Rightarrow>
             (let (force, rest, query) = split_query after_scheme
              in parse_rest rest (empty_url\<lparr>gu_scheme := to_lower scheme, gu_force_query := force, gu_raw_query := query\<rparr>))))"

definition url_parse :: "string \<Rightarrow> go_url option" where
  "url_parse raw =
     (let (s, fragment) = cut_at (CHR 0x23) raw in
      case parse_without_fragment s of
        None \<Rightarrow> None
      | Some u \<Rightarrow> if fragment = [] then Some u else set_fragment fragment u)"

section \<open>String\<close>

definition escaped_path :: "go_url \<Rightarrow> string" where
  "escaped_path u =
     (if gu_raw_path u \<noteq> [] \<and> valid_encoded EncPath (gu_raw_path u) \<and> url_unescape EncPath (gu_raw_path u) = Some (gu_path u)
      then gu_raw_path u
      else if gu_path u = ''*'' then ''*'' else url_escape EncPath (gu_path u))"

definition escaped_fragment :: "go_url \<Rightarrow> string" where
  "escaped_fragment u =
     (if gu_raw_fragment u \<noteq> [] \<and> valid_encoded EncFragment (gu_raw_fragment u)
         \<and> url_unescape EncFragment (gu_raw_fragment u) = Some (gu_fragment u)
      then gu_raw_fragment u else url_escape EncFragment (gu_fragment u))"

definition userinfo_string :: "string \<times> string option \<Rightarrow> string" where
  "userinfo_string user =
     (let (name, password) = user in
      if name = [] \<and> (password = None \<or> password = Some []) then []
      else url_escape EncUserPassword name
        @ (case password of None \<Rightarrow> [] | Some p \<Rightarrow> '':'' @ url_escape EncUserPassword p))"

definition authority_string :: "go_url \<Rightarrow> string" where
  "authority_string u =
     (if gu_scheme u = [] \<and> gu_host u = [] \<and> gu_user u = None then []
      else if gu_omit_host u \<and> gu_host u = [] \<and> gu_user u = None then []
      else (if gu_host u \<noteq> [] \<or> gu_path u \<noteq> [] \<or> gu_user u \<noteq> None then ''//'' else [])
        @ (case gu_user u of None \<Rightarrow> [] | Some user \<Rightarrow> userinfo_string user @ ''@'')
        @ url_escape EncHost (gu_host u))"

definition path_string :: "go_url \<Rightarrow> string" where
  "path_string u =
     (let path = escaped_path u; slash = (if path \<noteq> [] \<and> hd path \<noteq> CHR ''/'' \<and> gu_host u \<noteq> [] then ''/'' else []) in
      (if gu_scheme u = [] \<and> authority_string u = [] \<and> slash = [] \<and> CHR '':'' \<in> set (fst (cut_at CHR ''/'' path)) then ''./'' else [])
      @ slash @ path)"

definition url_string :: "go_url \<Rightarrow> string" where
  "url_string u =
     (if gu_scheme u = [] then [] else gu_scheme u @ '':'')
     @ (if gu_opaque u \<noteq> [] then gu_opaque u else authority_string u @ path_string u)
     @ (if gu_force_query u \<or> gu_raw_query u \<noteq> [] then ''?'' @ gu_raw_query u else [])
     @ (if gu_fragment u \<noteq> [] then CHR 0x23 # escaped_fragment u else [])"

section \<open>ResolveReference\<close>

text \<open>\<open>resolvePath\<close>: the loop over the segments, with what was written so far and whether the next one is the first.\<close>

fun resolve_segments :: "string list \<Rightarrow> bool \<Rightarrow> string \<Rightarrow> string" where
  "resolve_segments [] first dst = dst"
| "resolve_segments (e # es) first dst =
     (if e = ''.'' then resolve_segments es False dst
      else if e = ''..'' then
        (if CHR ''/'' \<in> set (tl dst) then resolve_segments es first (''/'' @ before_last CHR ''/'' (tl dst))
         else resolve_segments es True ''/'')
      else resolve_segments es False (dst @ (if first then [] else ''/'') @ e))"

definition resolve_path :: "string \<Rightarrow> string \<Rightarrow> string" where
  "resolve_path base ref =
     (let full = (if ref = [] then base
                  else if hd ref \<noteq> CHR ''/'' then take (length base - length (after_last CHR ''/'' base)) base @ ref
                  else ref)
      in if full = [] then []
         else
           (let segments = split_on CHR ''/'' full; dst = resolve_segments segments True ''/'';
                r = dst @ (if last segments = ''.'' \<or> last segments = ''..'' then ''/'' else [])
            in if 1 < length r \<and> r ! 1 = CHR ''/'' then tl r else r))"

text \<open>The reference is a URL that has a path and nothing else; an error of \<open>setPath\<close> is ignored.\<close>

definition url_resolve :: "go_url \<Rightarrow> string \<Rightarrow> go_url" where
  "url_resolve u path =
     (let ref = empty_url\<lparr>gu_path := path, gu_scheme := gu_scheme u\<rparr>;
          ref' = (if path = [] then ref\<lparr>gu_raw_query := gu_raw_query u, gu_fragment := gu_fragment u,
                                       gu_raw_fragment := gu_raw_fragment u\<rparr> else ref)
      in if path = [] \<and> gu_opaque u \<noteq> [] then ref'\<lparr>gu_opaque := gu_opaque u\<rparr>
         else
           (let url = ref'\<lparr>gu_host := gu_host u, gu_user := gu_user u\<rparr> in
            case set_path (resolve_path (escaped_path u) (escaped_path (empty_url\<lparr>gu_path := path\<rparr>))) url of
              None \<Rightarrow> url
            | Some url' \<Rightarrow> url'))"

end
