(* ===== verification/UrlLemmas.thy ===== *)
theory UrlLemmas
  imports Url
begin

text \<open>
  What is proved of \<open>net/url\<close>: escaping is undone by unescaping, what is escaped holds no delimiter, a URL that
  was parsed has a text that is parsed to the same URL, the host of a text is the host of the URL, and
  resolving a plain path appends it.
\<close>

section \<open>Escaping\<close>

lemma append_Nil_id: "(@) [] = id"
  by auto

lemma upper_hex_digit_hex: "n < 16 \<Longrightarrow> is_hex (upper_hex_digit n) \<and> unhex (upper_hex_digit n) = n"
proof -
  have "\<forall>n \<in> set [0..<16]. is_hex (upper_hex_digit n) \<and> unhex (upper_hex_digit n) = n" by code_simp
  then show "n < 16 \<Longrightarrow> is_hex (upper_hex_digit n) \<and> unhex (upper_hex_digit n) = n" by simp
qed

lemma char_nibbles: "of_char c div 16 < (16 :: nat)" "of_char c mod 16 < (16 :: nat)"
proof -
  have "of_char c < (256 :: nat)" by simp
  then show "of_char c div 16 < (16 :: nat)" by (simp add: less_mult_imp_div_less)
  show "of_char c mod 16 < (16 :: nat)" by simp
qed

lemma percent_round_trip:
  "hex_byte (upper_hex_digit (of_char c div 16)) (upper_hex_digit (of_char c mod 16)) = c"
  using char_nibbles [of c] by (simp add: hex_byte_def upper_hex_digit_hex)

lemma percent_escaped [simp]: "should_escape mode (CHR 0x25)"
  by (cases mode) (auto simp: should_escape_def is_letter_def is_digit_def in_range_def)

lemma url_escape_simps [simp]:
  "url_escape mode [] = []"
  "url_escape mode (c # s) = (if should_escape mode c then percent_encode c else [c]) @ url_escape mode s"
  "url_escape mode (s @ t) = url_escape mode s @ url_escape mode t"
  by (simp_all add: url_escape_def)

lemma url_escape_empty [simp]: "url_escape mode s = [] \<longleftrightarrow> s = []"
  by (cases s) (auto simp: percent_encode_def)

text \<open>The bytes that come back after escaping.\<close>

definition comes_back :: "encoding \<Rightarrow> char \<Rightarrow> bool" where
  "comes_back mode c \<longleftrightarrow> (should_escape mode c \<longrightarrow>
     escape_allowed mode (upper_hex_digit (of_char c div 16)) (upper_hex_digit (of_char c mod 16)))"

lemma url_unescape_escape:
  "list_all (comes_back mode) s \<Longrightarrow> url_unescape mode (url_escape mode s @ t) = map_option (append s) (url_unescape mode t)"
proof (induction s)
  case (Cons c s)
  show ?case
  proof (cases "should_escape mode c")
    case True
    then show ?thesis
      using Cons char_nibbles [of c]
      by (simp add: percent_encode_def comes_back_def upper_hex_digit_hex percent_round_trip option.map_comp comp_def)
  next
    case False
    then have "c \<noteq> CHR 0x25" using percent_escaped by metis
    with False Cons show ?thesis by (simp add: plain_allowed_def option.map_comp comp_def)
  qed
qed (simp add: append_Nil_id option.map_id)

lemma comes_back_simps [simp]:
  "comes_back EncPath c" "comes_back EncFragment c" "comes_back EncUserPassword c"
  by (simp_all add: comes_back_def escape_allowed_def)

lemma comes_back_host: "128 \<le> (of_char c :: nat) \<or> c = CHR 0x25 \<or> \<not> should_escape EncHost c \<Longrightarrow> comes_back EncHost c"
  using char_nibbles [of c]
  by (auto simp: comes_back_def escape_allowed_def upper_hex_digit_hex) (simp_all add: upper_hex_digit_def)

lemma unescape_escaped [simp]: "url_unescape EncPath (url_escape EncPath s) = Some s"
    "url_unescape EncFragment (url_escape EncFragment s) = Some s"
  using url_unescape_escape [of EncPath s "[]"] url_unescape_escape [of EncFragment s "[]"] by (simp_all add: list_all_iff)

lemma url_unescape_append:
  "url_unescape mode s = Some x \<Longrightarrow> url_unescape mode (s @ t) = map_option (append x) (url_unescape mode t)"
proof (induction mode s arbitrary: x rule: url_unescape.induct)
  case (2 mode c cs)
  show ?case
  proof (cases "c = CHR 0x25")
    case True
    with 2(3) obtain h l rest y where cs: "cs = h # l # rest" and ok: "is_hex h \<and> is_hex l \<and> escape_allowed mode h l"
      and y: "url_unescape mode rest = Some y" "x = hex_byte h l # y"
      by (auto split: list.splits if_splits)
    from 2(1) [OF True cs refl ok y(1)] True cs ok y(2) show ?thesis by (simp add: option.map_comp comp_def)
  next
    case False
    with 2(3) obtain y where ok: "plain_allowed mode c" and y: "url_unescape mode cs = Some y" "x = c # y"
      by (auto split: if_splits)
    from 2(2) [OF False ok y(1)] False ok y(2) show ?thesis by (simp add: option.map_comp comp_def)
  qed
qed (simp add: append_Nil_id option.map_id)

text \<open>What an escaped text is made of.\<close>

lemma percent_encode_chars: "x \<in> set (percent_encode c) \<Longrightarrow> x = CHR 0x25 \<or> is_hex x"
  using char_nibbles [of c] by (auto simp: percent_encode_def upper_hex_digit_hex)

lemma url_escape_chars: "x \<in> set (url_escape mode s) \<Longrightarrow> x = CHR 0x25 \<or> is_hex x \<or> (\<not> should_escape mode x \<and> x \<in> set s)"
  by (induction s) (auto split: if_splits dest: percent_encode_chars)

lemma url_escape_id: "list_all (\<lambda>c. \<not> should_escape mode c) s \<Longrightarrow> url_escape mode s = s"
  by (induction s) auto

section \<open>Hosts\<close>

text \<open>An ASCII character of a host stands in the text of the host; only a percent sign may be written otherwise.\<close>

lemma unescape_host_ascii:
  "url_unescape EncHost s = Some h \<Longrightarrow> c \<in> set h \<Longrightarrow> of_char c < (128 :: nat) \<Longrightarrow> c \<noteq> CHR 0x25 \<Longrightarrow>
     c \<in> set s \<and> \<not> should_escape EncHost c"
proof (induction EncHost s arbitrary: h rule: url_unescape.induct)
  case (2 d cs)
  show ?case
  proof (cases "d = CHR 0x25")
    case True
    with 2(3) obtain x l rest y where cs: "cs = x # l # rest" and ok: "is_hex x \<and> is_hex l \<and> escape_allowed EncHost x l"
      and y: "url_unescape EncHost rest = Some y" "h = hex_byte x l # y"
      by (auto split: list.splits if_splits)
    have hex: "unhex b < 16" for b by (auto simp: unhex_def is_digit_def in_range_def)
    have "hex_byte x l = CHR 0x25 \<or> 128 \<le> (of_char (hex_byte x l) :: nat)"
    proof (cases "8 \<le> unhex x")
      case True
      have "(of_char (hex_byte x l) :: nat) = unhex x * 16 + unhex l"
        using hex [of x] hex [of l] by (simp add: hex_byte_def)
      with True show ?thesis by simp
    next
      case False
      have "hex_byte (CHR ''2'') (CHR ''5'') = CHR 0x25" by code_simp
      with False ok show ?thesis by (auto simp: escape_allowed_def)
    qed
    then have "c \<in> set y" using 2(4-6) y(2) by auto
    from 2(1) [OF True cs refl ok y(1) this 2(5,6)] show ?thesis using cs by simp
  next
    case False
    with 2(3) obtain y where ok: "plain_allowed EncHost d" and y: "url_unescape EncHost cs = Some y" "h = d # y"
      by (auto split: if_splits)
    from 2(2) [OF False ok y(1) _ 2(5,6)] 2(4,5) ok y(2) show ?thesis by (auto simp: plain_allowed_def)
  qed
qed simp

lemma unescape_host_back:
  assumes "url_unescape EncHost s = Some h"
  shows "url_unescape EncHost (url_escape EncHost h) = Some h"
proof -
  have "list_all (comes_back EncHost) h"
    using unescape_host_ascii [OF assms] comes_back_host by (fastforce simp: list_all_iff not_less)
  then show ?thesis using url_unescape_escape [of EncHost h "[]"] by simp
qed

lemma unescape_host_port:
  "url_unescape EncHost s = Some h \<Longrightarrow>
     url_unescape EncHost (dropWhile (\<lambda>c. c \<noteq> CHR '':'') s) = Some (dropWhile (\<lambda>c. c \<noteq> CHR '':'') h)"
proof (induction EncHost s arbitrary: h rule: url_unescape.induct)
  case (2 d cs)
  show ?case
  proof (cases "d = CHR 0x25")
    case True
    with 2(3) obtain x l rest y where cs: "cs = x # l # rest" and ok: "is_hex x \<and> is_hex l \<and> escape_allowed EncHost x l"
      and y: "url_unescape EncHost rest = Some y" "h = hex_byte x l # y"
      by (auto split: list.splits if_splits)
    have "hex_byte x l \<noteq> CHR '':''"
    proof
      assume colon: "hex_byte x l = CHR '':''"
      have "url_unescape EncHost [CHR 0x25, x, l] = Some [CHR '':'']" using ok by (simp add: colon)
      from unescape_host_ascii [OF this, of "CHR '':''"] ok show False
        by (auto simp: is_hex_def is_digit_def in_range_def)
    qed
    moreover have "x \<noteq> CHR '':''" "l \<noteq> CHR '':''" using ok by (auto simp: is_hex_def is_digit_def in_range_def)
    ultimately show ?thesis using 2(1) [OF True cs refl ok y(1)] True cs y(2) by simp
  next
    case False
    with 2(3) obtain y where ok: "plain_allowed EncHost d" and y: "url_unescape EncHost cs = Some y" "h = d # y"
      by (auto split: if_splits)
    from 2(2) [OF False ok y(1)] False ok y show ?thesis by (cases "d = CHR '':''") simp_all
  qed
qed simp

lemma port_plain:
  assumes "valid_optional_port p"
  shows "url_unescape EncHost p = Some p" "url_escape EncHost p = p" "set p \<subseteq> insert (CHR '':'') {c. is_digit c}"
proof -
  have plain: "\<not> should_escape EncHost c" if "c \<in> set p" for c
    using assms that by (cases p) (auto simp: valid_optional_port_def list_all_iff should_escape_def)
  then show esc: "url_escape EncHost p = p" by (simp add: url_escape_id list_all_iff)
  have "list_all (comes_back EncHost) p" using plain by (simp add: list_all_iff comes_back_host)
  from url_unescape_escape [OF this, of "[]"] esc show "url_unescape EncHost p = Some p" by simp
  show "set p \<subseteq> insert (CHR '':'') {c. is_digit c}"
    using assms by (cases p) (auto simp: valid_optional_port_def list_all_iff)
qed

lemma after_last_append: "d \<notin> set b \<Longrightarrow> after_last d (a @ d # b) = b"
  by (simp add: after_last_def takeWhile_append)

lemma before_last_append: "d \<notin> set b \<Longrightarrow> before_last d (a @ d # b) = a"
  by (simp add: before_last_def after_last_append)

lemma after_last_all:
  assumes "d \<notin> set s"
  shows "after_last d s = s"
proof -
  have t: "takeWhile (\<lambda>c. c \<noteq> d) (rev s) = rev s" using assms by (auto simp: takeWhile_eq_all_conv)
  show ?thesis unfolding after_last_def t by simp
qed

lemma last_split: "d \<in> set s \<Longrightarrow> s = before_last d s @ d # after_last d s \<and> d \<notin> set (after_last d s)"
proof -
  assume "d \<in> set s"
  then obtain a b where "s = a @ d # b" "d \<notin> set b" using split_list_last by fastforce
  then show ?thesis by (simp add: after_last_append before_last_append)
qed

text \<open>Without a percent sign there is no zone.\<close>

lemma cut_zone_append: "fst (cut_zone s) @ snd (cut_zone s) = s"
  by (induction s) (auto split: prod.splits)

lemma cut_zone_prefix: "snd (cut_zone s) = [] \<or> has_prefix (snd (cut_zone s)) (CHR 0x25 # ''25'')"
  by (induction s) (auto split: prod.splits)

lemma unescape_literal_plain:
  assumes "unescape_literal s = Some literal" and "CHR 0x25 \<notin> set literal"
  shows "url_unescape EncHost s = Some literal"
proof (cases "snd (cut_zone s) = []")
  case True
  with assms(1) show ?thesis by (auto simp: unescape_literal_def split: prod.splits)
next
  case False
  then obtain rest where zone: "snd (cut_zone s) = CHR 0x25 # CHR ''2'' # CHR ''5'' # rest"
    using cut_zone_prefix [of s]
    by (cases "snd (cut_zone s)"; cases "tl (snd (cut_zone s))"; cases "tl (tl (snd (cut_zone s)))") (auto simp: has_prefix_def)
  have "hex_byte (CHR ''2'') (CHR ''5'') = CHR 0x25" by code_simp
  with assms(1) False zone have "CHR 0x25 \<in> set literal"
    by (auto simp: unescape_literal_def split: prod.splits option.splits if_splits)
  with assms(2) show ?thesis by simp
qed

lemma cut_zone_escaped:
  assumes "list_all (\<lambda>c. 128 \<le> (of_char c :: nat) \<or> \<not> should_escape EncHost c) s"
  shows "snd (cut_zone (url_escape EncHost s)) = []"
  using assms
proof (induction s)
  case (Cons c s)
  show ?case
  proof (cases "should_escape EncHost c")
    case True
    then have "128 \<le> (of_char c :: nat)" using Cons.prems by simp
    then have "128 div 16 \<le> of_char c div (16 :: nat)" by (rule div_le_mono)
    then have "8 \<le> of_char c div (16 :: nat)" by simp
    then have "unhex (upper_hex_digit (of_char c div 16)) \<noteq> 2" using char_nibbles [of c] by (simp add: upper_hex_digit_hex)
    then have "upper_hex_digit (of_char c div 16) \<noteq> CHR ''2''" by (auto simp: unhex_def is_digit_def in_range_def)
    moreover have "upper_hex_digit n \<noteq> CHR 0x25" if "n < 16" for n
      using upper_hex_digit_hex [OF that] by (auto simp: is_hex_def is_digit_def in_range_def)
    ultimately show ?thesis
      using True Cons char_nibbles [of c]
      by (cases "cut_zone (url_escape EncHost s)") (simp add: percent_encode_def has_prefix_def)
  next
    case False
    then have "c \<noteq> CHR 0x25" using percent_escaped by metis
    with False Cons show ?thesis by (cases "cut_zone (url_escape EncHost s)") (simp add: has_prefix_def)
  qed
qed simp

text \<open>A host that was parsed is parsed again from its escaped text.\<close>

lemma escape_host_chars:
  assumes "c \<in> set (url_escape EncHost h)" and "should_escape EncHost c" and "c \<noteq> CHR 0x25"
  shows False
  using url_escape_chars [OF assms(1)] assms(2,3) by (auto simp: should_escape_def is_hex_def is_letter_def in_range_def)

lemma escape_host_member:
  "c \<in> set (url_escape EncHost h) \<Longrightarrow> \<not> is_hex c \<Longrightarrow> c \<noteq> CHR 0x25 \<Longrightarrow> c \<in> set h"
  using url_escape_chars by blast

lemma dropWhile_escape:
  assumes "\<not> should_escape mode d" and "\<not> is_hex d" and "d \<noteq> CHR 0x25"
  shows "dropWhile (\<lambda>c. c \<noteq> d) (url_escape mode s) = url_escape mode (dropWhile (\<lambda>c. c \<noteq> d) s)"
proof (induction s)
  case (Cons c s)
  have "d \<notin> set (percent_encode c)" using assms(2,3) percent_encode_chars by blast
  then have "dropWhile (\<lambda>c. c \<noteq> d) (percent_encode c @ t) = dropWhile (\<lambda>c. c \<noteq> d) t" for t
    by (subst dropWhile_append2) auto
  with Cons assms(1) show ?case by auto
qed simp

lemma special_chars:
  "should_escape EncHost (CHR ''/'')" "should_escape EncHost (CHR ''?'')" "should_escape EncHost (CHR 0x23)"
  "should_escape EncHost (CHR ''@'')" "should_escape EncHost (CHR 0x5C)"
  "\<not> should_escape EncHost (CHR '':'')" "\<not> should_escape EncHost (CHR ''['')" "\<not> should_escape EncHost (CHR '']'')"
  "\<not> is_hex (CHR ''['')" "\<not> is_hex (CHR '']'')" "\<not> is_hex (CHR '':'')"
  by code_simp+

lemma parse_host_again:
  assumes parsed: "parse_host raw = Some host" and zone: "CHR 0x25 \<notin> set host"
  shows "parse_host (url_escape EncHost host) = Some host"
proof (cases "CHR ''['' \<in> set raw")
  case False
  then have host: "url_unescape EncHost raw = Some host" and port: "valid_optional_port (dropWhile (\<lambda>c. c \<noteq> CHR '':'') raw)"
    using parsed by (auto simp: parse_host_def split: if_splits)
  have "CHR ''['' \<notin> set host"
    using unescape_host_ascii [OF host, of "CHR ''[''"] False by auto
  then have bracket: "CHR ''['' \<notin> set (url_escape EncHost host)"
    using escape_host_member [of "CHR ''[''" host] special_chars(9) by auto
  have "dropWhile (\<lambda>c. c \<noteq> CHR '':'') host = dropWhile (\<lambda>c. c \<noteq> CHR '':'') raw"
    using unescape_host_port [OF host] port_plain(1) [OF port] by simp
  then have "valid_optional_port (dropWhile (\<lambda>c. c \<noteq> CHR '':'') (url_escape EncHost host))"
    using port port_plain(2) [OF port] by (simp add: dropWhile_escape special_chars)
  with bracket show ?thesis by (simp add: parse_host_def unescape_host_back [OF host])
next
  case True
  define inner where "inner = before_last CHR '']'' (tl raw)"
  define port where "port = after_last CHR '']'' raw"
  obtain literal ip zn where raw: "hd raw = CHR ''[''" "CHR ''['' \<notin> set (tl raw)" and p: "valid_optional_port port"
    and close: "CHR '']'' \<in> set raw"
    and lit: "unescape_literal inner = Some literal" "parse_addr literal = Some (ip, zn)" "length ip \<noteq> 4"
    and host: "host = ''['' @ literal @ '']'' @ port"
    using parsed True by (auto simp: parse_host_def inner_def port_def split: if_splits option.splits)
  have inner: "url_unescape EncHost inner = Some literal"
    using unescape_literal_plain [OF lit(1)] zone by (simp add: host)
  have "set inner \<subseteq> set (tl raw)" unfolding inner_def before_last_def by (rule set_take_subset)
  then have "CHR ''['' \<notin> set literal" using unescape_host_ascii [OF inner, of "CHR ''[''"] raw(2) by auto
  then have open1: "CHR ''['' \<notin> set (url_escape EncHost literal)"
    using escape_host_member [of "CHR ''[''" literal] special_chars(9) by auto
  have port: "CHR '']'' \<notin> set port" "CHR ''['' \<notin> set port" "url_escape EncHost port = port"
    using port_plain [OF p] by (auto simp: is_digit_def in_range_def)
  have shape: "url_escape EncHost host = CHR ''['' # url_escape EncHost literal @ CHR '']'' # port"
    by (simp add: host special_chars port(3))
  have "list_all (\<lambda>c. 128 \<le> (of_char c :: nat) \<or> \<not> should_escape EncHost c) literal"
    using unescape_host_ascii [OF inner] zone by (fastforce simp: list_all_iff host not_less)
  from cut_zone_escaped [OF this] have "unescape_literal (url_escape EncHost literal) = Some literal"
    using unescape_host_back [OF inner] by (auto simp: unescape_literal_def split: prod.splits)
  moreover have "after_last CHR '']'' (url_escape EncHost host) = port"
    using after_last_append [OF port(1), of "CHR ''['' # url_escape EncHost literal"] by (simp add: shape)
  moreover have "before_last CHR '']'' (tl (url_escape EncHost host)) = url_escape EncHost literal"
    using before_last_append [OF port(1)] by (simp add: shape)
  ultimately show ?thesis
    using open1 port(2) p lit by (simp add: parse_host_def shape) (simp add: host)
qed

lemma parse_authority_again:
  assumes "parse_host (url_escape EncHost host) = Some host"
  shows "parse_authority (url_escape EncHost host) = Some (None, host)"
proof -
  have "CHR ''@'' \<notin> set (url_escape EncHost host)"
    using escape_host_chars [of "CHR ''@''" host] special_chars(4) by auto
  with assms show ?thesis by (simp add: parse_authority_def after_last_all)
qed

section \<open>Paths and fragments\<close>

lemma escaped_path_back: "url_unescape EncPath (escaped_path u) = Some (gu_path u)"
proof -
  have "url_unescape EncPath ''*'' = Some ''*''" by code_simp
  then show ?thesis by (auto simp: escaped_path_def)
qed

lemma escaped_fragment_back: "url_unescape EncFragment (escaped_fragment u) = Some (gu_fragment u)"
  by (simp add: escaped_fragment_def)

lemma unescape_empty: "url_unescape mode s = Some [] \<longleftrightarrow> s = []"
  by (cases s) (auto split: list.splits)

lemma escaped_path_empty: "escaped_path u = [] \<longleftrightarrow> gu_path u = []"
  using escaped_path_back [of u] unescape_empty [of EncPath "escaped_path u"] by auto

text \<open>No delimiter is in a path as it is written.\<close>

definition path_char :: "char \<Rightarrow> bool" where
  "path_char c \<longleftrightarrow> c \<noteq> CHR ''?'' \<and> c \<noteq> CHR 0x23 \<and> \<not> is_ctl c"

lemma path_chars: "is_hex c \<Longrightarrow> path_char c" "c \<in> set encoded_marks \<Longrightarrow> path_char c" "\<not> should_escape EncPath c \<Longrightarrow> path_char c"
  "path_char (CHR 0x25)" "path_char (CHR ''*'')"
proof -
  have marks: "list_all path_char encoded_marks" and path: "list_all path_char (''-_.~'' @ ''$&+,/:;=@'')" by code_simp+
  have plain: "path_char c" if "is_letter c \<or> is_digit c \<or> is_hex c" for c
    using that by (auto simp: path_char_def is_hex_def is_ctl_def is_letter_def is_digit_def in_range_def)
  then show "is_hex c \<Longrightarrow> path_char c" by blast
  show "c \<in> set encoded_marks \<Longrightarrow> path_char c" using marks unfolding list_all_iff by blast
  assume "\<not> should_escape EncPath c"
  then have "is_letter c \<or> is_digit c \<or> c \<in> set (''-_.~'' @ ''$&+,/:;=@'')"
    unfolding should_escape_def set_append encoding.case by blast
  then show "path_char c" using plain path unfolding list_all_iff by blast
next
  show "path_char (CHR 0x25)" "path_char (CHR ''*'')" by code_simp+
qed

lemma escaped_path_chars: "c \<in> set (escaped_path u) \<Longrightarrow> path_char c"
  using url_escape_chars [of c EncPath "gu_path u"] path_chars
  by (auto simp: escaped_path_def valid_encoded_def list_all_iff split: if_splits)

lemma escaped_path_head:
  assumes "gu_path u = [] \<or> hd (gu_path u) = CHR ''/''" and "gu_raw_path u = [] \<or> hd (gu_raw_path u) = CHR ''/''"
  shows "escaped_path u = [] \<or> hd (escaped_path u) = CHR ''/''"
proof -
  have slash: "\<not> should_escape EncPath (CHR ''/'')" by code_simp
  have "hd (url_escape EncPath p) = CHR ''/''" if "p \<noteq> []" "hd p = CHR ''/''" for p
    using that slash by (cases p) auto
  with assms show ?thesis by (auto simp: escaped_path_def)
qed

section \<open>The text of a URL\<close>

lemma cut_at_append: "d \<notin> set s \<Longrightarrow> cut_at d (s @ d # t) = (s, t)"
proof -
  assume d: "d \<notin> set s"
  then have "\<And>c. c \<in> set s \<Longrightarrow> c \<noteq> d" by auto
  then show ?thesis by (simp add: cut_at_def takeWhile_append2 dropWhile_append2)
qed

lemma cut_at_none: "d \<notin> set s \<Longrightarrow> cut_at d s = (s, [])"
proof -
  assume "d \<notin> set s"
  then have t: "takeWhile (\<lambda>c. c \<noteq> d) s = s" and e: "dropWhile (\<lambda>c. c \<noteq> d) s = []"
    by (auto simp: takeWhile_eq_all_conv dropWhile_eq_Nil_conv)
  show ?thesis unfolding cut_at_def t e by simp
qed

text \<open>A URL on a host, without user information, as the code sends browsers to.\<close>

definition web_url :: "go_url \<Rightarrow> bool" where
  "web_url u \<longleftrightarrow> gu_scheme u = ''https'' \<and> gu_opaque u = [] \<and> gu_user u = None \<and> gu_host u \<noteq> [] \<and> \<not> gu_omit_host u
     \<and> parse_host (url_escape EncHost (gu_host u)) = Some (gu_host u)
     \<and> (gu_path u = [] \<or> hd (gu_path u) = CHR ''/'') \<and> (gu_raw_path u = [] \<or> hd (gu_raw_path u) = CHR ''/'')
     \<and> list_all (\<lambda>c. \<not> is_ctl c \<and> c \<noteq> CHR 0x23) (gu_raw_query u) \<and> (gu_force_query u \<longrightarrow> gu_raw_query u = [])
     \<and> (gu_fragment u = [] \<longrightarrow> gu_raw_fragment u = [])"

text \<open>Where its text is parsed again, the hints on the encoding are kept only where they are needed.\<close>

definition reparsed :: "go_url \<Rightarrow> go_url" where
  "reparsed u = u\<lparr>gu_raw_path := (if escaped_path u = url_escape EncPath (gu_path u) then [] else escaped_path u),
     gu_raw_fragment := (if gu_fragment u = [] \<or> escaped_fragment u = url_escape EncFragment (gu_fragment u) then []
       else escaped_fragment u)\<rparr>"

definition query_part :: "go_url \<Rightarrow> string" where
  "query_part u = (if gu_force_query u \<or> gu_raw_query u \<noteq> [] then ''?'' @ gu_raw_query u else [])"

definition fragment_part :: "go_url \<Rightarrow> string" where
  "fragment_part u = (if gu_fragment u \<noteq> [] then CHR 0x23 # escaped_fragment u else [])"

text \<open>The text of a URL on a host names the host, and then comes a delimiter or nothing.\<close>

lemma url_string_host:
  assumes "gu_scheme u = ''https''" and "gu_opaque u = []" and "gu_user u = None" and "gu_host u \<noteq> []"
  shows "url_string u = ''https://'' @ url_escape EncHost (gu_host u)
    @ (if escaped_path u \<noteq> [] \<and> hd (escaped_path u) \<noteq> CHR ''/'' then ''/'' else []) @ escaped_path u @ query_part u @ fragment_part u"
proof -
  have authority: "authority_string u = ''//'' @ url_escape EncHost (gu_host u)"
    using assms by (simp add: authority_string_def)
  have path: "path_string u = (if escaped_path u \<noteq> [] \<and> hd (escaped_path u) \<noteq> CHR ''/'' then ''/'' else []) @ escaped_path u"
    using assms(1,4) by (simp add: path_string_def Let_def)
  show ?thesis
    unfolding url_string_def authority path query_part_def fragment_part_def using assms(1,2) by simp
qed

lemma url_string_web:
  assumes "web_url u"
  shows "url_string u = ''https://'' @ url_escape EncHost (gu_host u) @ escaped_path u @ query_part u @ fragment_part u"
  using assms escaped_path_head [of u] by (simp add: web_url_def url_string_host)

lemma split_query_part:
  assumes "CHR ''?'' \<notin> set x" and "gu_force_query u \<longrightarrow> gu_raw_query u = []"
  shows "split_query (x @ query_part u) = (gu_force_query u, x, gu_raw_query u)"
proof (cases "gu_force_query u")
  case True
  with assms show ?thesis
    by (simp add: split_query_def query_part_def has_suffix_def butlast_append count_notin)
next
  case False
  show ?thesis
  proof (cases "gu_raw_query u = []")
    case True
    have "\<not> has_suffix x ''?''"
    proof
      assume "has_suffix x ''?''"
      then have "set ''?'' \<subseteq> set x" unfolding has_suffix_def by (metis set_drop_subset)
      with assms(1) show False by simp
    qed
    with True False assms(1) show ?thesis by (simp add: split_query_def query_part_def cut_at_none)
  next
    case raw: False
    have "\<not> (has_suffix (x @ CHR ''?'' # gu_raw_query u) ''?'' \<and> count_list (x @ CHR ''?'' # gu_raw_query u) CHR ''?'' = 1)"
    proof
      assume h: "has_suffix (x @ CHR ''?'' # gu_raw_query u) ''?'' \<and> count_list (x @ CHR ''?'' # gu_raw_query u) CHR ''?'' = 1"
      then have "count_list (gu_raw_query u) CHR ''?'' = 0" using assms(1) by (simp add: count_notin)
      then have none: "CHR ''?'' \<notin> set (gu_raw_query u)" by (simp add: count_list_0_iff)
      have "drop (length x + length (gu_raw_query u)) (x @ CHR ''?'' # gu_raw_query u) = drop (length (gu_raw_query u)) (CHR ''?'' # gu_raw_query u)"
        by simp
      also have "\<dots> = [last (gu_raw_query u)]" using raw by (cases "gu_raw_query u" rule: rev_cases) simp_all
      finally have "[last (gu_raw_query u)] = ''?''" using h by (simp add: has_suffix_def)
      with none raw show False by (metis last_in_set list.inject)
    qed
    with raw False assms(1) show ?thesis by (simp add: split_query_def query_part_def cut_at_append)
  qed
qed

lemma escape_host_delimiters:
  "c \<in> set (url_escape EncHost h) \<Longrightarrow> c \<noteq> CHR ''/'' \<and> c \<noteq> CHR ''?'' \<and> c \<noteq> CHR 0x23 \<and> c \<noteq> CHR ''@'' \<and> c \<noteq> CHR 0x5C \<and> \<not> is_ctl c"
proof -
  assume c: "c \<in> set (url_escape EncHost h)"
  have no: "d \<notin> set (url_escape EncHost h)" if "should_escape EncHost d" "d \<noteq> CHR 0x25" for d
    using escape_host_chars that by blast
  have ctl: "\<not> is_ctl c"
  proof
    assume ctl: "is_ctl c"
    have "list_all (\<lambda>c. \<not> is_ctl c) (''-_.~'' @ CHR 0x22 # CHR 0x27 # ''!$&()*+,;=:[]<>'')" by code_simp
    then have "c \<notin> set ''-_.~''" "c \<notin> set (CHR 0x22 # CHR 0x27 # ''!$&()*+,;=:[]<>'')"
      using ctl unfolding list_all_iff set_append by blast+
    moreover have "\<not> is_letter c" "\<not> is_digit c" "c \<noteq> CHR 0x25"
      using ctl by (auto simp: is_ctl_def is_letter_def is_digit_def in_range_def)
    ultimately have "should_escape EncHost c" unfolding should_escape_def encoding.case by blast
    with no c \<open>c \<noteq> CHR 0x25\<close> show False by blast
  qed
  have "c \<noteq> CHR ''/''" using c no [OF special_chars(1)] by auto
  moreover have "c \<noteq> CHR ''?''" using c no [OF special_chars(2)] by auto
  moreover have "c \<noteq> CHR 0x23" using c no [OF special_chars(3)] by auto
  moreover have "c \<noteq> CHR ''@''" using c no [OF special_chars(4)] by auto
  moreover have "c \<noteq> CHR 0x5C" using c no [OF special_chars(5)] by auto
  ultimately show ?thesis using ctl by blast
qed

text \<open>The round trip.\<close>

theorem url_round_trip:
  assumes web: "web_url u"
  shows "url_parse (url_string u) = Some (reparsed u)"
proof -
  let ?H = "url_escape EncHost (gu_host u)" and ?P = "escaped_path u"
  let ?rest = "''//'' @ ?H @ ?P"
  let ?base = "empty_url\<lparr>gu_scheme := ''https'', gu_force_query := gu_force_query u, gu_raw_query := gu_raw_query u\<rparr>"
  have u: "gu_scheme u = ''https''" "gu_opaque u = []" "gu_user u = None" "gu_host u \<noteq> []" "\<not> gu_omit_host u"
    "parse_host ?H = Some (gu_host u)" "list_all (\<lambda>c. \<not> is_ctl c \<and> c \<noteq> CHR 0x23) (gu_raw_query u)"
    "gu_force_query u \<longrightarrow> gu_raw_query u = []" "gu_fragment u = [] \<longrightarrow> gu_raw_fragment u = []"
    using web by (simp_all add: web_url_def)
  have head: "?P = [] \<or> hd ?P = CHR ''/''" using web escaped_path_head by (simp add: web_url_def)
  have host: "\<And>c. c \<in> set ?H \<Longrightarrow> c \<noteq> CHR ''/'' \<and> c \<noteq> CHR ''?'' \<and> c \<noteq> CHR 0x23 \<and> \<not> is_ctl c"
    using escape_host_delimiters by blast
  have path: "\<And>c. c \<in> set ?P \<Longrightarrow> c \<noteq> CHR ''?'' \<and> c \<noteq> CHR 0x23 \<and> \<not> is_ctl c"
    using escaped_path_chars by (auto simp: path_char_def)
  have query: "\<And>c. c \<in> set (query_part u) \<Longrightarrow> c \<noteq> CHR 0x23 \<and> \<not> is_ctl c"
  proof -
    have "\<not> is_ctl (CHR ''?'')" by code_simp
    with u(7) show "c \<noteq> CHR 0x23 \<and> \<not> is_ctl c" if "c \<in> set (query_part u)" for c
      using that unfolding list_all_iff query_part_def by (auto split: if_splits)
  qed
  have ctl: "\<not> list_ex is_ctl (''https:'' @ ?rest @ query_part u)"
  proof -
    have "list_all (\<lambda>c. \<not> is_ctl c) ''https:''" "list_all (\<lambda>c. \<not> is_ctl c) ''//''" by code_simp+
    with host path query show ?thesis by (auto simp: list_ex_iff list_all_iff)
  qed
  have scheme: "get_scheme (''https:'' @ r) = Some (''https'', r)" for r
  proof -
    have letters: "list_all (\<lambda>c. is_letter c \<or> is_digit c \<or> c \<in> set ''+-.'') ''https''" and colon:
      "\<not> (is_letter (CHR '':'') \<or> is_digit (CHR '':'') \<or> CHR '':'' \<in> set ''+-.'')" and h: "is_letter (hd ''https'')" by code_simp+
    have "takeWhile (\<lambda>c. is_letter c \<or> is_digit c \<or> c \<in> set ''+-.'') (''https'' @ CHR '':'' # r) = ''https''"
      using letters colon by (subst takeWhile_append2) (auto simp: list_all_iff)
    then show ?thesis using h by (simp add: get_scheme_def)
  qed
  have authority: "takeWhile (\<lambda>c. c \<noteq> CHR ''/'') (?H @ ?P) = ?H" "dropWhile (\<lambda>c. c \<noteq> CHR ''/'') (?H @ ?P) = ?P"
    using host head by (cases ?P; simp add: takeWhile_append2 dropWhile_append2)+
  have rest: "parse_rest ?rest ?base
      = set_path ?P (?base\<lparr>gu_host := gu_host u\<rparr>)"
    using authority parse_authority_again [OF u(6)]
    by (simp add: parse_rest_def has_prefix_def empty_url_def)
  have unfragmented: "parse_without_fragment (''https:'' @ ?rest @ query_part u)
      = Some (?base\<lparr>gu_host := gu_host u, gu_path := gu_path u,
          gu_raw_path := if ?P = url_escape EncPath (gu_path u) then [] else ?P\<rparr>)"
  proof -
    have "CHR ''?'' \<notin> set ?rest" using host path by auto
    from split_query_part [OF this u(8)]
    have split: "split_query (?rest @ query_part u) = (gu_force_query u, ?rest, gu_raw_query u)" .
    have lower: "to_lower ''https'' = ''https''" by code_simp
    show ?thesis
      unfolding parse_without_fragment_def scheme using ctl
      by (simp add: split [simplified] lower rest [simplified] set_path_def escaped_path_back)
  qed
  have cut: "cut_at (CHR 0x23) (url_string u) = (''https:'' @ ?rest @ query_part u, if gu_fragment u = [] then [] else escaped_fragment u)"
  proof -
    have hash: "CHR 0x23 \<notin> set (''https:'' @ ?rest @ query_part u)" using host path query by auto
    have "url_string u = (''https:'' @ ?rest @ query_part u) @ fragment_part u" by (simp add: url_string_web [OF web])
    with cut_at_append [OF hash] cut_at_none [OF hash] show ?thesis by (simp add: fragment_part_def)
  qed
  show ?thesis
  proof (cases "gu_fragment u = []")
    case True
    with u have "gu_raw_fragment u = []" by simp
    with True u show ?thesis
      by (simp add: url_parse_def cut unfragmented [simplified] reparsed_def empty_url_def)
  next
    case False
    have "escaped_fragment u \<noteq> []" using False escaped_fragment_back [of u] by (auto simp: unescape_empty)
    with False u show ?thesis
      by (simp add: url_parse_def cut unfragmented [simplified] set_fragment_def escaped_fragment_back reparsed_def empty_url_def)
  qed
qed

section \<open>What was parsed\<close>

definition on_host :: "go_url \<Rightarrow> bool" where
  "on_host u \<longleftrightarrow> gu_opaque u = [] \<and> \<not> gu_omit_host u \<and> (\<exists>raw. parse_host raw = Some (gu_host u))
     \<and> (gu_path u = [] \<or> hd (gu_path u) = CHR ''/'') \<and> (gu_raw_path u = [] \<or> hd (gu_raw_path u) = CHR ''/'')"

lemma set_path_fields:
  assumes "set_path p u = Some v"
  shows "v = u\<lparr>gu_path := gu_path v, gu_raw_path := gu_raw_path v\<rparr>"
    and "p = [] \<or> hd p = CHR ''/'' \<Longrightarrow> (gu_path v = [] \<or> hd (gu_path v) = CHR ''/'') \<and> (gu_raw_path v = [] \<or> hd (gu_raw_path v) = CHR ''/'')"
proof -
  obtain path where path: "url_unescape EncPath p = Some path"
    and v: "v = u\<lparr>gu_path := path, gu_raw_path := if p = url_escape EncPath path then [] else p\<rparr>"
    using assms by (auto simp: set_path_def split: option.splits)
  show "v = u\<lparr>gu_path := gu_path v, gu_raw_path := gu_raw_path v\<rparr>" by (simp add: v)
  assume p: "p = [] \<or> hd p = CHR ''/''"
  have "path = [] \<or> hd path = CHR ''/''"
  proof (cases p)
    case Nil
    with path show ?thesis by simp
  next
    case (Cons c rest)
    with p path show ?thesis by (auto split: if_splits)
  qed
  with p show "(gu_path v = [] \<or> hd (gu_path v) = CHR ''/'') \<and> (gu_raw_path v = [] \<or> hd (gu_raw_path v) = CHR ''/'')"
    by (simp add: v)
qed

lemma parse_rest_on_host:
  assumes run: "parse_rest rest u = Some v" and host: "gu_host v \<noteq> []"
    and u: "gu_host u = []" "gu_opaque u = []" "\<not> gu_omit_host u"
  shows "on_host v \<and> gu_raw_query v = gu_raw_query u \<and> gu_force_query v = gu_force_query u
    \<and> gu_fragment v = gu_fragment u \<and> gu_raw_fragment v = gu_raw_fragment u"
proof -
  have other: "gu_host v = gu_host t" if "set_path p t = Some v" for p t
    using set_path_fields(1) [OF that] by (metis go_url.select_convs(4) go_url.surjective go_url.update_convs(5) go_url.update_convs(6))
  obtain user h where auth: "parse_authority (takeWhile (\<lambda>c. c \<noteq> CHR ''/'') (drop 2 rest)) = Some (user, h)"
    and path: "set_path (dropWhile (\<lambda>c. c \<noteq> CHR ''/'') (drop 2 rest)) (u\<lparr>gu_user := user, gu_host := h\<rparr>) = Some v"
    using run host u(1) other by (fastforce simp: parse_rest_def split: if_splits option.splits)
  have "dropWhile (\<lambda>c. c \<noteq> CHR ''/'') r = [] \<or> hd (dropWhile (\<lambda>c. c \<noteq> CHR ''/'') r) = CHR ''/''" for r
    by (induction r) auto
  note fields = set_path_fields(2) [OF path this]
  have v: "gu_opaque v = gu_opaque u" "gu_omit_host v = gu_omit_host u" "gu_host v = h" "gu_raw_query v = gu_raw_query u"
    "gu_force_query v = gu_force_query u" "gu_fragment v = gu_fragment u" "gu_raw_fragment v = gu_raw_fragment u"
    using path by (auto simp: set_path_def split: option.splits)
  have "\<exists>raw. parse_host raw = Some h" using auth by (auto simp: parse_authority_def split: option.splits if_splits)
  with v u fields show ?thesis by (simp add: on_host_def)
qed

lemma get_scheme_rest:
  assumes "get_scheme s = Some (scheme, rest)"
  shows "set rest \<subseteq> set s"
proof -
  define n where "n = length (takeWhile (\<lambda>c. is_letter c \<or> is_digit c \<or> c \<in> set ''+-.'') s)"
  have "set (drop n s) \<subseteq> set s" by (rule set_drop_subset)
  moreover have "rest = s \<or> (\<exists>c. drop n s = c # rest)"
    using assms by (auto simp: get_scheme_def Let_def n_def split: list.splits if_splits)
  ultimately show ?thesis by auto
qed

lemma url_parse_on_host:
  assumes run: "url_parse s = Some u" and host: "gu_host u \<noteq> []"
  shows "on_host u \<and> list_all (\<lambda>c. \<not> is_ctl c \<and> c \<noteq> CHR 0x23) (gu_raw_query u)
    \<and> (gu_force_query u \<longrightarrow> gu_raw_query u = []) \<and> (gu_fragment u = [] \<longrightarrow> gu_raw_fragment u = [])"
proof -
  obtain t fragment v where cut: "cut_at (CHR 0x23) s = (t, fragment)" and v: "parse_without_fragment t = Some v"
    and u: "if fragment = [] then u = v else set_fragment fragment v = Some u"
    using run by (auto simp: url_parse_def split: prod.splits option.splits if_splits)
  have hash: "CHR 0x23 \<notin> set t" using cut by (auto simp: cut_at_def dest: set_takeWhileD)
  have host': "gu_host v \<noteq> []" using u host by (auto simp: set_fragment_def split: if_splits option.splits)
  obtain scheme after force rest query where ctl: "\<not> list_ex is_ctl t" and sch: "get_scheme t = Some (scheme, after)"
    and q: "split_query after = (force, rest, query)"
    and pr: "parse_rest rest (empty_url\<lparr>gu_scheme := to_lower scheme, gu_force_query := force, gu_raw_query := query\<rparr>) = Some v"
    using v host' by (auto simp: parse_without_fragment_def empty_url_def split: if_splits option.splits prod.splits)
  note v_ok = parse_rest_on_host [OF pr host']
  have "set query \<subseteq> set after" "force \<longrightarrow> query = []"
    using q by (auto simp: split_query_def cut_at_def split: if_splits dest!: in_set_dropD set_dropWhileD)
  with get_scheme_rest [OF sch] ctl hash
  have "list_all (\<lambda>c. \<not> is_ctl c \<and> c \<noteq> CHR 0x23) query" by (auto simp: list_all_iff list_ex_iff)
  moreover have "gu_fragment u = [] \<longrightarrow> gu_raw_fragment u = []"
  proof (cases "fragment = []")
    case True
    with u v_ok show ?thesis by (simp add: empty_url_def)
  next
    case False
    with u show ?thesis using unescape_empty [of EncFragment fragment] by (auto simp: set_fragment_def split: option.splits)
  qed
  moreover have "on_host u" using v_ok u by (auto simp: on_host_def set_fragment_def empty_url_def split: if_splits option.splits)
  moreover have "gu_raw_query u = query" "gu_force_query u = force"
    using v_ok u by (auto simp: set_fragment_def empty_url_def split: if_splits option.splits)
  ultimately show ?thesis using \<open>force \<longrightarrow> query = []\<close> by simp
qed

lemma url_parse_web:
  assumes "url_parse s = Some u" and "gu_scheme u = ''https''" and "gu_host u \<noteq> []" and "gu_user u = None"
    and "CHR 0x25 \<notin> set (gu_host u)"
  shows "web_url u"
  using url_parse_on_host [OF assms(1,3)] parse_host_again assms(2-5) by (auto simp: web_url_def on_host_def)

section \<open>Resolving a path\<close>

lemma split_on_append: "split_on d (a @ d # b) = split_on d a @ split_on d b"
  by (induction a) (auto split: list.splits)

lemma split_on_escape:
  assumes "\<not> should_escape mode d" and "\<not> is_hex d" and "d \<noteq> CHR 0x25"
  shows "split_on d (url_escape mode s) = map (url_escape mode) (split_on d s)"
proof -
  have skip: "split_on d (x @ t) = (x @ hd (split_on d t)) # tl (split_on d t)" if "d \<notin> set x" for x t
    using that by (induction x) (auto split: list.splits)
  show ?thesis
  proof (induction s)
    case (Cons c s)
    have "d \<notin> set (percent_encode c)" using assms(2,3) percent_encode_chars by blast
    moreover obtain p ps where "split_on d s = p # ps" by (meson list.exhaust split_on_nonempty)
    ultimately show ?case using Cons assms(1) by (auto simp: skip)
  qed simp
qed

definition no_dots :: "string \<Rightarrow> bool" where
  "no_dots path \<longleftrightarrow> ''.'' \<notin> set (split_on CHR ''/'' path) \<and> ''..'' \<notin> set (split_on CHR ''/'' path)"

lemma image_only: "(\<And>x. f x = y \<longleftrightarrow> x = y) \<Longrightarrow> y \<in> f ` X \<longleftrightarrow> y \<in> X"
  unfolding image_iff by metis

lemma no_dots_escape: "no_dots (url_escape EncPath path) \<longleftrightarrow> no_dots path"
proof -
  have slash: "\<not> should_escape EncPath (CHR ''/'')" "\<not> is_hex (CHR ''/'')" "\<not> should_escape EncPath (CHR ''.'')" by code_simp+
  have head: "CHR 0x25 \<noteq> CHR ''.''" by simp
  have dot: "url_escape EncPath x = ''.'' \<longleftrightarrow> x = ''.''" for x
    using slash(3) head by (cases x) (auto simp: percent_encode_def split: if_splits)
  have dots: "url_escape EncPath x = ''..'' \<longleftrightarrow> x = ''..''" for x
    using slash(3) head dot by (cases x) (auto simp: percent_encode_def split: if_splits)
  show ?thesis
    by (simp add: no_dots_def split_on_escape slash(1,2) image_only [OF dot] image_only [OF dots])
qed

lemma join_with_concat: "join_with d (e # es) = e @ concat (map (append d) es)"
  by (induction es arbitrary: e) auto

lemma resolve_segments_plain:
  "''.'' \<notin> set es \<Longrightarrow> ''..'' \<notin> set es \<Longrightarrow> resolve_segments es False dst = dst @ concat (map (append ''/'') es)"
  by (induction es arbitrary: dst) auto

lemma resolve_path_plain:
  assumes "no_dots full" and "hd full = CHR ''/''" and "full \<noteq> []"
    and "full = take (length base - length (after_last CHR ''/'' base)) base @ ref" and "ref \<noteq> []" and "hd ref \<noteq> CHR ''/''"
  shows "resolve_path base ref = full"
proof -
  obtain e es where seg: "split_on CHR ''/'' full = e # es" by (meson list.exhaust split_on_nonempty)
  have full: "full = e @ concat (map (append ''/'') es)"
    using join_split [of "CHR ''/''" full] by (simp add: seg join_with_concat)
  have dots: "e \<noteq> ''.''" "e \<noteq> ''..''" "''.'' \<notin> set es" "''..'' \<notin> set es" using assms(1) by (auto simp: no_dots_def seg)
  then have run: "resolve_segments (e # es) True ''/'' = ''/'' @ full" by (simp add: resolve_segments_plain full)
  have "last (e # es) \<noteq> ''.''" "last (e # es) \<noteq> ''..''" using dots last_in_set [of "e # es"] by auto
  moreover obtain rest where "full = CHR ''/'' # rest" using assms(2,3) by (cases full) auto
  moreover have "resolve_path base ref = (let r = ''/'' @ full @ (if last (e # es) = ''.'' \<or> last (e # es) = ''..'' then ''/'' else [])
      in if 1 < length r \<and> r ! 1 = CHR ''/'' then tl r else r)"
    using assms(3,5,6) run unfolding resolve_path_def by (simp add: assms(4) [symmetric] seg Let_def)
  ultimately show ?thesis by simp
qed

text \<open>A relative path is appended to a path that ends with a slash.\<close>

lemma url_resolve_plain:
  assumes base: "gu_raw_path u = []" "gu_path u = path @ ''/''" "hd (gu_path u) = CHR ''/''" "no_dots path"
    and rel: "rel \<noteq> []" "hd rel \<noteq> CHR ''/''" "no_dots rel" "url_escape EncPath rel = rel" "rel \<noteq> ''*''"
  shows "url_resolve u rel = empty_url\<lparr>gu_scheme := gu_scheme u, gu_host := gu_host u, gu_user := gu_user u, gu_path := gu_path u @ rel\<rparr>"
proof -
  have slash: "\<not> should_escape EncPath (CHR ''/'')" by code_simp
  have base_text: "escaped_path u = url_escape EncPath path @ ''/''"
  proof -
    have "gu_path u \<noteq> ''*''" using base(2) by (cases path) auto
    then show ?thesis using base(1,2) slash by (simp add: escaped_path_def)
  qed
  have ref_text: "escaped_path (empty_url\<lparr>gu_path := rel\<rparr>) = rel" using rel(4,5) by (simp add: escaped_path_def empty_url_def)
  let ?full = "url_escape EncPath path @ CHR ''/'' # rel"
  have "no_dots ?full" using base(4) rel(3) no_dots_escape [of path] by (auto simp: no_dots_def split_on_append)
  moreover have "hd ?full = CHR ''/''"
    using base(2,3) slash by (cases path) (auto simp: percent_encode_def split: if_splits)
  moreover have "after_last CHR ''/'' (escaped_path u) = []"
    using after_last_append [of "CHR ''/''" "[]" "url_escape EncPath path"] by (simp add: base_text)
  ultimately have resolved: "resolve_path (escaped_path u) rel = ?full"
    using rel(1,2) by (intro resolve_path_plain) (simp_all add: base_text)
  have "url_unescape EncPath (url_escape EncPath (gu_path u @ rel)) = Some (gu_path u @ rel)" by (rule unescape_escaped)
  moreover have "url_escape EncPath (gu_path u @ rel) = ?full" using base(2) rel(4) slash by simp
  ultimately have "set_path ?full t = Some (t\<lparr>gu_path := gu_path u @ rel, gu_raw_path := []\<rparr>)" for t
    by (simp add: set_path_def)
  then show ?thesis
    unfolding url_resolve_def Let_def ref_text resolved using rel(1) by (simp add: empty_url_def)
qed

section \<open>Where a text leads\<close>

text \<open>
  A browser finds the host between the two slashes and the next delimiter: the text names this host and
  no other.
\<close>

definition leads_to :: "string \<Rightarrow> string \<Rightarrow> bool" where
  "leads_to host location \<longleftrightarrow>
     (\<exists>rest. location = ''https://'' @ url_escape EncHost host @ rest \<and> (rest = [] \<or> hd rest \<in> set ''/?#''))"

lemma url_string_leads:
  assumes "gu_scheme u = ''https''" and "gu_opaque u = []" and "gu_user u = None" and "gu_host u \<noteq> []"
  shows "leads_to (gu_host u) (url_string u)"
proof -
  define slash where "slash = (if escaped_path u \<noteq> [] \<and> hd (escaped_path u) \<noteq> CHR ''/'' then ''/'' else [])"
  define rest where "rest = slash @ escaped_path u @ query_part u @ fragment_part u"
  have "rest = [] \<or> hd rest \<in> set ''/?#''"
    by (cases "escaped_path u") (auto simp: rest_def slash_def query_part_def fragment_part_def)
  moreover have "url_string u = ''https://'' @ url_escape EncHost (gu_host u) @ rest"
    by (simp only: url_string_host [OF assms] rest_def slash_def)
  ultimately show ?thesis unfolding leads_to_def by blast
qed

text \<open>A host in ASCII is written as it is.\<close>

lemma parse_host_plain:
  assumes parsed: "parse_host raw = Some host" and zone: "CHR 0x25 \<notin> set host" and ascii: "list_all (\<lambda>c. of_char c < (128 :: nat)) host"
  shows "url_escape EncHost host = host"
proof (cases "CHR ''['' \<in> set raw")
  case False
  then have "url_unescape EncHost raw = Some host" using parsed by (auto simp: parse_host_def split: if_splits)
  from unescape_host_ascii [OF this] zone ascii show ?thesis by (intro url_escape_id) (auto simp: list_all_iff)
next
  case True
  define port where "port = after_last CHR '']'' raw"
  obtain literal where p: "valid_optional_port port" and lit: "unescape_literal (before_last CHR '']'' (tl raw)) = Some literal"
    and host: "host = ''['' @ literal @ '']'' @ port"
    using parsed True by (auto simp: parse_host_def port_def split: if_splits option.splits)
  have "CHR 0x25 \<notin> set literal" using zone by (simp add: host)
  from unescape_host_ascii [OF unescape_literal_plain [OF lit this]] zone ascii
  have "url_escape EncHost literal = literal" by (intro url_escape_id) (auto simp: list_all_iff host)
  with port_plain(2) [OF p] special_chars(7,8) show ?thesis by (simp add: host)
qed

lemma reparsed_fields [simp]:
  "gu_scheme (reparsed u) = gu_scheme u" "gu_opaque (reparsed u) = gu_opaque u" "gu_user (reparsed u) = gu_user u"
  "gu_host (reparsed u) = gu_host u" "gu_path (reparsed u) = gu_path u" "gu_raw_query (reparsed u) = gu_raw_query u"
  by (simp_all add: reparsed_def)

text \<open>
  A host with a zone may have a text that does not parse: a byte beyond ASCII is escaped, and
  \<open>Parse\<close> does not allow that in a zone.
\<close>

lemma zone_text_does_not_parse:
  defines "raw \<equiv> ''https://[::%25'' @ [CHR 0xC3, CHR 0xA4] @ '']/''"
  shows "\<exists>u. url_parse raw = Some u \<and> gu_scheme u = ''https'' \<and> gu_host u \<noteq> [] \<and> gu_user u = None \<and> url_parse (url_string u) = None"
proof -
  define u where "u = empty_url\<lparr>gu_scheme := ''https'', gu_host := ''[::%'' @ [CHR 0xC3, CHR 0xA4] @ '']'', gu_path := ''/''\<rparr>"
  have "url_parse raw = Some u" unfolding raw_def u_def by code_simp
  moreover have "url_parse (url_string u) = None" unfolding u_def by code_simp
  ultimately show ?thesis by (simp add: u_def empty_url_def)
qed

end
