(* ===== verification/Sse.thy ===== *)
theory Sse
  imports Feed Encoding
begin

text \<open>
  The event stream (\<open>internal/httpapi/sse.go\<close>): the pages that the service reads are cut to
  responses that fit the protobuf limit and written as server-sent events. \<open>proto.Marshal\<close> is the
  argument \<open>M\<close>. The connection is a record of the bytes written and of how often the code wrote or
  flushed; the argument \<open>net\<close> says which of these calls fails, after how many bytes, with what text.
  The loop of \<open>sendFeed\<close> reads the database once per round: it consumes a list of databases (with
  the environment of the read transaction), and \<^const>\<open>None\<close> means that the list was too short.
\<close>

type_synonym marshal = "sync_response \<Rightarrow> err + string"
type_synonym network = "nat \<Rightarrow> (nat \<times> string) option"

definition max_protobuf_bytes :: nat where "max_protobuf_bytes = 512 * 1024"
definition sse_feed_page_limit :: int where "sse_feed_page_limit = 128"

section \<open>Responses that fit\<close>

definition feed_response :: "feed_page \<Rightarrow> u64 \<Rightarrow> sync_response" where
  "feed_response page after =
     \<lparr>sp_next_cursor = after, sp_acks = [], sp_changes = [], sp_has_more = False,
      sp_reset_required = False, sp_baseline_id = fp_baseline_id page,
      sp_server_version = fp_server_version page, sp_server_updated_at_ms = fp_server_updated_at_ms page,
      sp_server_progress_day = fp_server_progress_day page, sp_baseline_mismatch = False\<rparr>"

text \<open>The candidate with the first \<open>n\<close> changes of a page.\<close>

definition feed_prefix :: "feed_page \<Rightarrow> nat \<Rightarrow> sync_response" where
  "feed_prefix page n =
     (feed_response page (c_cursor (fp_changes page ! (n - 1))))
       \<lparr>sp_changes := take n (fp_changes page), sp_has_more := True\<rparr>"

function feed_bisect :: "marshal \<Rightarrow> feed_page \<Rightarrow> int \<Rightarrow> int \<Rightarrow> nat \<Rightarrow> err + nat" where
  "feed_bisect M page low high best =
     (if low \<le> high then
        (let middle = low + (high - low) div 2 in
         case M (feed_prefix page (nat middle)) of
           Inl e \<Rightarrow> Inl e
         | Inr encoded \<Rightarrow>
             if length encoded \<le> max_protobuf_bytes then feed_bisect M page (middle + 1) high (nat middle)
             else feed_bisect M page low (middle - 1) best)
      else Inr best)"
  by pat_completeness auto
termination
  by (relation "measure (\<lambda>(M, page, low, high, best). nat (high + 1 - low))") auto

declare feed_bisect.simps [simp del]

definition bounded_feed_response :: "marshal \<Rightarrow> feed_page \<Rightarrow> u64 \<Rightarrow> err + (sync_response \<times> nat)" where
  "bounded_feed_response M page previous_cursor =
     (let response = (feed_response page (fp_next_cursor page))
            \<lparr>sp_changes := fp_changes page, sp_has_more := fp_has_more page\<rparr> in
      case M response of
        Inl e \<Rightarrow> Inl e
      | Inr encoded \<Rightarrow>
          if length encoded \<le> max_protobuf_bytes then Inr (response, length (fp_changes page))
          else (case feed_bisect M page 1 (int (length (fp_changes page))) 0 of
             Inl e \<Rightarrow> Inl e
           | Inr best \<Rightarrow>
               if best = 0 then
                 Inl (ErrExternal (''single sync change after cursor '' @ format_uint previous_cursor
                        @ '' exceeds SSE protobuf limit''))
               else Inr (feed_prefix page best, best)))"

text \<open>Whether a candidate fits.\<close>

definition fits :: "marshal \<Rightarrow> sync_response \<Rightarrow> bool" where
  "fits M response \<longleftrightarrow> (\<exists>encoded. M response = Inr encoded \<and> length encoded \<le> max_protobuf_bytes)"

lemma middle_bounds: "low \<le> high \<Longrightarrow> low \<le> low + (high - low) div 2 \<and> low + (high - low) div 2 \<le> (high :: int)"
  by auto

lemma feed_bisect_result:
  assumes "feed_bisect M page low high best = Inr b" and "1 \<le> low" and "int best < low"
  shows "b = best \<or> low \<le> int b \<and> int b \<le> high \<and> fits M (feed_prefix page b)"
    and "b = best \<Longrightarrow> low \<le> high \<Longrightarrow> \<not> fits M (feed_prefix page (nat low))"
proof -
  have "(b = best \<or> low \<le> int b \<and> int b \<le> high \<and> fits M (feed_prefix page b))
    \<and> (b = best \<longrightarrow> low \<le> high \<longrightarrow> \<not> fits M (feed_prefix page (nat low)))"
    using assms
  proof (induction M page low high best rule: feed_bisect.induct)
    case (1 M page low high best)
    define middle where "middle = low + (high - low) div 2"
    show ?case
    proof (cases "low \<le> high")
      case True
      note mid = middle_bounds [OF True, folded middle_def]
      have run: "(case M (feed_prefix page (nat middle)) of Inl e \<Rightarrow> Inl e
           | Inr encoded \<Rightarrow>
             if length encoded \<le> max_protobuf_bytes then feed_bisect M page (middle + 1) high (nat middle)
             else feed_bisect M page low (middle - 1) best) = Inr b"
        using 1(3) True unfolding middle_def by (simp add: feed_bisect.simps [of M page low high best] Let_def)
      then obtain enc where enc: "M (feed_prefix page (nat middle)) = Inr enc" by (auto split: sum.splits)
      show ?thesis
      proof (cases "length enc \<le> max_protobuf_bytes")
        case yes: True
        have rec: "feed_bisect M page (middle + 1) high (nat middle) = Inr b" using run enc yes by simp
        have "fits M (feed_prefix page (nat middle))" using enc yes by (simp add: fits_def)
        moreover have int: "int (nat middle) = middle" and ne: "best < nat middle" using mid 1(4,5) by auto
        moreover have "b = nat middle \<or> middle + 1 \<le> int b \<and> int b \<le> high \<and> fits M (feed_prefix page b)"
          using 1(1) [OF True middle_def enc yes rec] mid 1(4) int by (simp del: int_nat_eq)
        moreover have "b = nat middle \<or> nat middle < b" using calculation(4) by auto
        ultimately show ?thesis using mid by (elim disjE) (simp_all del: int_nat_eq)
      next
        case no: False
        have rec: "feed_bisect M page low (middle - 1) best = Inr b" using run enc no by simp
        have "\<not> fits M (feed_prefix page (nat middle))" using enc no by (simp add: fits_def)
        then show ?thesis
          using 1(2) [OF True middle_def enc no rec] 1(4,5) mid by (cases "middle = low") auto
      qed
    next
      case False
      then show ?thesis using 1(3) by (simp add: feed_bisect.simps [of M page low high best])
    qed
  qed
  then show "b = best \<or> low \<le> int b \<and> int b \<le> high \<and> fits M (feed_prefix page b)"
    and "b = best \<Longrightarrow> low \<le> high \<Longrightarrow> \<not> fits M (feed_prefix page (nat low))" by blast+
qed

text \<open>If a prefix of a prefix that fits also fits, the search finds the longest one.\<close>

lemma feed_bisect_maximal:
  assumes "feed_bisect M page low high best = Inr b" and "1 \<le> low" and "int best < low"
    and mono: "\<And>i j. 1 \<le> i \<Longrightarrow> i \<le> j \<Longrightarrow> int j \<le> high \<Longrightarrow> fits M (feed_prefix page j) \<Longrightarrow> fits M (feed_prefix page i)"
    and k: "low \<le> int k" "int k \<le> high" "fits M (feed_prefix page k)"
  shows "k \<le> b"
  using assms
proof (induction M page low high best rule: feed_bisect.induct)
  case (1 M page low high best)
  define middle where "middle = low + (high - low) div 2"
  have True: "low \<le> high" using 1(7,8) by simp
  note mid = middle_bounds [OF True, folded middle_def]
  have run: "(case M (feed_prefix page (nat middle)) of Inl e \<Rightarrow> Inl e
       | Inr encoded \<Rightarrow>
         if length encoded \<le> max_protobuf_bytes then feed_bisect M page (middle + 1) high (nat middle)
         else feed_bisect M page low (middle - 1) best) = Inr b"
    using 1(3) True unfolding middle_def by (simp add: feed_bisect.simps [of M page low high best] Let_def)
  then obtain enc where enc: "M (feed_prefix page (nat middle)) = Inr enc" by (auto split: sum.splits)
  show ?case
  proof (cases "length enc \<le> max_protobuf_bytes")
    case yes: True
    have rec: "feed_bisect M page (middle + 1) high (nat middle) = Inr b" using run enc yes by simp
    show ?thesis
    proof (cases "middle + 1 \<le> int k")
      case k: True
      show ?thesis
        by (rule 1(1) [OF True middle_def enc yes rec _ _ _ k 1(8,9)]) (use 1(4,6) mid in auto)
    next
      case False
      then show ?thesis using feed_bisect_result(1) [OF rec] 1(4) mid by auto
    qed
  next
    case no: False
    have rec: "feed_bisect M page low (middle - 1) best = Inr b" using run enc no by simp
    have "\<not> fits M (feed_prefix page (nat middle))" using enc no by (simp add: fits_def)
    then have "int k < middle" using 1(6) [of "nat middle" k] 1(4,8,9) mid by linarith
    then show ?thesis
      by (intro 1(2) [OF True middle_def enc no rec 1(4,5) _ 1(7) _ 1(9)]) (use 1(6) mid in auto)
  qed
qed

definition whole_page :: "feed_page \<Rightarrow> sync_response" where
  "whole_page page = (feed_response page (fp_next_cursor page))
     \<lparr>sp_changes := fp_changes page, sp_has_more := fp_has_more page\<rparr>"

lemma feed_parts [simp]:
  "sp_changes (whole_page page) = fp_changes page" "sp_next_cursor (whole_page page) = fp_next_cursor page"
  "sp_has_more (whole_page page) = fp_has_more page" "sp_baseline_id (whole_page page) = fp_baseline_id page"
  "sp_changes (feed_prefix page n) = take n (fp_changes page)" "sp_has_more (feed_prefix page n)"
  "sp_next_cursor (feed_prefix page n) = c_cursor (fp_changes page ! (n - 1))"
  "sp_baseline_id (feed_prefix page n) = fp_baseline_id page"
  "sp_changes (feed_response page c) = []" "sp_next_cursor (feed_response page c) = c"
  "sp_baseline_id (feed_response page c) = fp_baseline_id page"
  by (simp_all add: whole_page_def feed_prefix_def feed_response_def)

lemma bounded_feed_response_Inr:
  "bounded_feed_response M page previous = Inr (response, n) \<longleftrightarrow>
     (if fits M (whole_page page) then response = whole_page page \<and> n = length (fp_changes page)
      else n \<noteq> 0 \<and> response = feed_prefix page n
        \<and> (\<exists>enc. M (whole_page page) = Inr enc)
        \<and> feed_bisect M page 1 (int (length (fp_changes page))) 0 = Inr n)"
  unfolding bounded_feed_response_def whole_page_def [symmetric] Let_def fits_def
  by (auto split: sum.splits if_splits)

text \<open>What a bounded response holds: the whole page, or a non-empty prefix of it that fits.\<close>

lemma bounded_feed_response_cases:
  assumes "bounded_feed_response M page previous = Inr (response, n)" and "fp_changes page \<noteq> []"
  shows "fits M response \<and> 0 < n \<and> n \<le> length (fp_changes page)
    \<and> (response = whole_page page \<and> n = length (fp_changes page) \<or> response = feed_prefix page n)"
proof (cases "fits M (whole_page page)")
  case False
  with assms(1) have "feed_bisect M page 1 (int (length (fp_changes page))) 0 = Inr n" "n \<noteq> 0"
    "response = feed_prefix page n" by (simp_all add: bounded_feed_response_Inr)
  with feed_bisect_result(1) [OF this(1)] show ?thesis by simp
qed (use assms in \<open>simp add: bounded_feed_response_Inr\<close>)

text \<open>
  If the whole page and its prefixes can be marshalled, whatever their size, and the first change
  alone fits, then some response fits.
\<close>

definition page_marshals :: "marshal \<Rightarrow> feed_page \<Rightarrow> bool" where
  "page_marshals M page \<longleftrightarrow> (\<exists>encoded. M (whole_page page) = Inr encoded)
     \<and> (\<forall>n \<in> {1..length (fp_changes page)}. \<exists>encoded. M (feed_prefix page n) = Inr encoded)"

lemma feed_bisect_total:
  assumes "page_marshals M page" and "1 \<le> low" and "high \<le> int (length (fp_changes page))"
  shows "\<exists>b. feed_bisect M page low high best = Inr b"
  using assms(2,3)
proof (induction "nat (high + 1 - low)" arbitrary: low high best rule: less_induct)
  case less
  show ?case
  proof (cases "low \<le> high")
    case True
    define middle where "middle = low + (high - low) div 2"
    note mid = middle_bounds [OF True, folded middle_def]
    have "nat middle \<in> {1..length (fp_changes page)}" using mid less.prems by auto
    then obtain enc where "M (feed_prefix page (nat middle)) = Inr enc"
      using assms(1) unfolding page_marshals_def by blast
    moreover have "\<exists>b. feed_bisect M page (middle + 1) high (nat middle) = Inr b"
      by (rule less) (use True mid less.prems in auto)
    moreover have "\<exists>b. feed_bisect M page low (middle - 1) best = Inr b"
      by (rule less) (use True mid less.prems in auto)
    ultimately show ?thesis
      using True unfolding middle_def by (simp add: feed_bisect.simps [of M page low high best] Let_def)
  qed (simp add: feed_bisect.simps [of M page low high best])
qed

lemma bounded_feed_response_total:
  assumes total: "page_marshals M page" and one: "fits M (feed_prefix page 1)" and "fp_changes page \<noteq> []"
  shows "\<exists>response n. bounded_feed_response M page previous = Inr (response, n)"
proof (cases "fits M (whole_page page)")
  case False
  obtain n where n: "feed_bisect M page 1 (int (length (fp_changes page))) 0 = Inr n"
    using feed_bisect_total [OF total, of 1 "int (length (fp_changes page))" 0] by auto
  have "n \<noteq> 0"
  proof
    assume "n = 0"
    then have "\<not> fits M (feed_prefix page (nat 1))"
      using feed_bisect_result(2) [OF n] assms(3) by (simp add: Suc_le_eq)
    with one show False by simp
  qed
  with False n total show ?thesis by (simp add: bounded_feed_response_Inr page_marshals_def)
qed (simp add: bounded_feed_response_Inr)

section \<open>Writing events\<close>

record sse_writer =
  wr_bytes :: string
  wr_calls :: nat

text \<open>One call of the connection: a write, or a flush, which writes nothing.\<close>

definition sse_put :: "network \<Rightarrow> string \<Rightarrow> sse_writer \<Rightarrow> (err + unit) \<times> sse_writer" where
  "sse_put net chunk w =
     (case net (wr_calls w) of
        None \<Rightarrow> (Inr (), w\<lparr>wr_bytes := wr_bytes w @ chunk, wr_calls := wr_calls w + 1\<rparr>)
      | Some (k, text) \<Rightarrow>
          (Inl (ErrSSEWrite text), w\<lparr>wr_bytes := wr_bytes w @ take k chunk, wr_calls := wr_calls w + 1\<rparr>))"

definition newline :: string where "newline = [CHR 0x0A]"

definition event_id :: "string \<Rightarrow> u64 \<Rightarrow> string" where
  "event_id baseline_id cursor = baseline_id @ '':'' @ format_uint cursor"

definition write_sse :: "network \<Rightarrow> string \<Rightarrow> string \<Rightarrow> string \<Rightarrow> sse_writer \<Rightarrow> (err + unit) \<times> sse_writer" where
  "write_sse net event ident data w =
     (case (if ident \<noteq> [] then sse_put net (''id: '' @ ident @ newline) w else (Inr (), w)) of
        (Inl e, w1) \<Rightarrow> (Inl e, w1)
      | (Inr _, w1) \<Rightarrow>
          (case sse_put net (''event: '' @ event @ newline @ ''data: '' @ data @ newline @ newline) w1 of
             (Inl e, w2) \<Rightarrow> (Inl e, w2)
           | (Inr _, w2) \<Rightarrow> sse_put net [] w2))"

text \<open>\<open>json.Marshal\<close> of the two envelopes.\<close>

definition sse_protobuf_envelope :: "string \<Rightarrow> string" where
  "sse_protobuf_envelope encoded =
     ''{'' @ json_quote ''version'' @ '':1,'' @ json_quote ''protobuf'' @ '':''
     @ json_quote (base64_encode encoded) @ ''}''"

definition sse_error_envelope :: "string \<Rightarrow> string" where
  "sse_error_envelope code =
     ''{'' @ json_quote ''version'' @ '':1,'' @ json_quote ''code'' @ '':'' @ json_quote code @ ''}''"

definition write_sse_protobuf ::
  "marshal \<Rightarrow> network \<Rightarrow> string \<Rightarrow> string \<Rightarrow> sync_response \<Rightarrow> sse_writer \<Rightarrow> (err + unit) \<times> sse_writer" where
  "write_sse_protobuf M net event ident message w =
     (case M message of
        Inl e \<Rightarrow> (Inl e, w)
      | Inr encoded \<Rightarrow>
          if length encoded > max_protobuf_bytes then
            (Inl (ErrExternal (''SSE protobuf event exceeds '' @ decimal max_protobuf_bytes @ '' bytes'')), w)
          else write_sse net event ident (sse_protobuf_envelope encoded) w)"

definition write_sse_error :: "network \<Rightarrow> string \<Rightarrow> string \<Rightarrow> sse_writer \<Rightarrow> (err + unit) \<times> sse_writer" where
  "write_sse_error net event code w = write_sse net event [] (sse_error_envelope code) w"

definition write_sse_comment :: "network \<Rightarrow> string \<Rightarrow> sse_writer \<Rightarrow> (err + unit) \<times> sse_writer" where
  "write_sse_comment net comment w =
     (case sse_put net ('': '' @ comment @ newline @ newline) w of
        (Inl e, w1) \<Rightarrow> (Inl e, w1)
      | (Inr _, w1) \<Rightarrow> sse_put net [] w1)"

section \<open>Sending the feed\<close>

definition write_ready :: "marshal \<Rightarrow> network \<Rightarrow> feed_page \<Rightarrow> u64 \<Rightarrow> sse_writer \<Rightarrow> (err + unit) \<times> sse_writer" where
  "write_ready M net page cursor w =
     write_sse_protobuf M net ''ready'' (event_id (fp_baseline_id page) cursor) (feed_response page cursor) w"

text \<open>One round of the loop: what the function returns, or the cursor it goes on with.\<close>

datatype feed_round = FeedStop u64 bool "err option" | FeedNext u64

text \<open>The event that ends a stream.\<close>

definition write_terminal ::
  "marshal \<Rightarrow> network \<Rightarrow> string \<Rightarrow> string \<Rightarrow> sync_response \<Rightarrow> u64 \<Rightarrow> sse_writer \<Rightarrow> feed_round \<times> sse_writer" where
  "write_terminal M net event ident response cursor w =
     (case write_sse_protobuf M net event ident response w of
        (Inl e, w') \<Rightarrow> (FeedStop cursor True (Some e), w')
      | (Inr _, w') \<Rightarrow> (FeedStop cursor True None, w'))"

text \<open>The event that tells a client that it has caught up.\<close>

definition finish_feed ::
  "marshal \<Rightarrow> network \<Rightarrow> feed_page \<Rightarrow> u64 \<Rightarrow> bool \<Rightarrow> sse_writer \<Rightarrow> feed_round \<times> sse_writer" where
  "finish_feed M net page cursor send_ready w =
     (if send_ready then
        (case write_ready M net page cursor w of
           (Inl e, w') \<Rightarrow> (FeedStop cursor False (Some e), w')
         | (Inr _, w') \<Rightarrow> (FeedStop cursor False None, w'))
      else (FeedStop cursor False None, w))"

definition feed_round ::
  "marshal \<Rightarrow> network \<Rightarrow> err + feed_page \<Rightarrow> u64 \<Rightarrow> bool \<Rightarrow> sse_writer \<Rightarrow> feed_round \<times> sse_writer" where
  "feed_round M net result cursor send_ready w =
     (case result of
        Inl e \<Rightarrow> (FeedStop cursor False (Some e), w)
      | Inr page \<Rightarrow>
          if fp_baseline_mismatch page then
            (let response = (feed_response page cursor)\<lparr>sp_baseline_mismatch := True\<rparr>
             in write_terminal M net ''baseline_mismatch''
                  (event_id (fp_baseline_id page) (sp_next_cursor response)) response cursor w)
          else if fp_reset_required page then
            write_terminal M net ''reset_required'' (event_id (fp_baseline_id page) 0)
              ((feed_response page 0)\<lparr>sp_reset_required := True\<rparr>) cursor w
          else if fp_changes page = [] then finish_feed M net page cursor send_ready w
          else
            (case bounded_feed_response M page cursor of
               Inl e \<Rightarrow> (FeedStop cursor False (Some e), w)
             | Inr (response, consumed) \<Rightarrow>
                 (case write_sse_protobuf M net ''changes''
                         (event_id (fp_baseline_id page) (sp_next_cursor response)) response w of
                    (Inl e, w') \<Rightarrow> (FeedStop cursor False (Some e), w')
                  | (Inr _, w') \<Rightarrow>
                      if consumed < length (fp_changes page) \<or> fp_has_more page
                      then (FeedNext (sp_next_cursor response), w')
                      else finish_feed M net page (sp_next_cursor response) send_ready w')))"

fun send_feed ::
  "marshal \<Rightarrow> network \<Rightarrow> string \<Rightarrow> string \<Rightarrow> (tx_env \<times> db) list \<Rightarrow> u64 \<Rightarrow> bool \<Rightarrow> sse_writer
     \<Rightarrow> ((u64 \<times> bool \<times> err option) \<times> sse_writer) option" where
  "send_feed M net ow baseline [] cursor send_ready w = None"
| "send_feed M net ow baseline ((env, s) # reads) cursor send_ready w =
     (case feed_round M net (read_feed_page env ow baseline cursor sse_feed_page_limit s) cursor send_ready w of
        (FeedStop c terminal e, w') \<Rightarrow> Some ((c, terminal, e), w')
      | (FeedNext c, w') \<Rightarrow> send_feed M net ow baseline reads c send_ready w')"

section \<open>The events a stream is made of\<close>

text \<open>An event with its name, its id and its message; how it looks on the wire.\<close>

type_synonym sse_event = "string \<times> string \<times> sync_response"

definition sse_event_bytes :: "marshal \<Rightarrow> sse_event \<Rightarrow> string" where
  "sse_event_bytes M ev =
     (case ev of (event, ident, message) \<Rightarrow>
        (case M message of
           Inl _ \<Rightarrow> []
         | Inr encoded \<Rightarrow>
             ''id: '' @ ident @ newline @ ''event: '' @ event @ newline @ ''data: ''
             @ sse_protobuf_envelope encoded @ newline @ newline))"

definition event_changes :: "sse_event \<Rightarrow> change list" where
  "event_changes ev = (case ev of (_, _, message) \<Rightarrow> sp_changes message)"

lemma sse_put_cases:
  "sse_put net chunk w = (r, w') \<Longrightarrow>
     (r = Inr () \<and> wr_bytes w' = wr_bytes w @ chunk)
     \<or> (\<exists>text k. r = Inl (ErrSSEWrite text) \<and> wr_bytes w' = wr_bytes w @ take k chunk)"
  by (auto simp: sse_put_def split: option.splits)

text \<open>A write that succeeds appends the whole event; one that fails, a part of it.\<close>

lemma write_sse_protobuf_bytes:
  assumes run: "write_sse_protobuf M net event ident message w = (r, w')" and "ident \<noteq> []"
  shows "case r of
      Inr _ \<Rightarrow> fits M message \<and> wr_bytes w' = wr_bytes w @ sse_event_bytes M (event, ident, message)
    | Inl e \<Rightarrow> \<exists>k. wr_bytes w' = wr_bytes w @ take k (sse_event_bytes M (event, ident, message))"
proof (cases "M message")
  case (Inl e)
  with run show ?thesis by (auto simp: write_sse_protobuf_def sse_event_bytes_def)
next
  case (Inr enc)
  define head where "head = ''id: '' @ ident @ newline"
  define body where "body = ''event: '' @ event @ newline @ ''data: '' @ sse_protobuf_envelope enc @ newline @ newline"
  have bytes: "sse_event_bytes M (event, ident, message) = head @ body"
    using Inr by (simp add: sse_event_bytes_def head_def body_def)
  show ?thesis
  proof (cases "length enc \<le> max_protobuf_bytes")
    case False
    with run Inr have "r = Inl (ErrExternal (''SSE protobuf event exceeds '' @ decimal max_protobuf_bytes @ '' bytes''))"
      "w' = w" by (auto simp: write_sse_protobuf_def)
    then show ?thesis by (auto intro: exI [of _ 0])
  next
    case True
    obtain r1 w1 where one: "sse_put net head w = (r1, w1)" by fastforce
    obtain r2 w2 where two: "sse_put net body w1 = (r2, w2)" by fastforce
    obtain r3 w3 where three: "sse_put net [] w2 = (r3, w3)" by fastforce
    have eq: "(r, w') = (case r1 of Inl e \<Rightarrow> (Inl e, w1)
        | Inr _ \<Rightarrow> (case r2 of Inl e \<Rightarrow> (Inl e, w2) | Inr _ \<Rightarrow> (r3, w3)))"
      using run Inr True assms(2) one two three
      unfolding head_def body_def
      by (auto simp: write_sse_protobuf_def write_sse_def split: sum.splits)
    show ?thesis
    proof (cases r1)
      case (Inl e)
      then obtain k where "wr_bytes w1 = wr_bytes w @ take k head" using sse_put_cases [OF one] by auto
      then have "wr_bytes w1 = wr_bytes w @ take (min k (length head)) (head @ body)" by (auto simp: min_def)
      with eq Inl bytes show ?thesis by (auto intro!: exI [of _ "min k (length head)"])
    next
      case r1: (Inr u)
      then have w1: "wr_bytes w1 = wr_bytes w @ head" using sse_put_cases [OF one] by auto
      show ?thesis
      proof (cases r2)
        case (Inl e)
        then obtain k where "wr_bytes w2 = wr_bytes w1 @ take k body" using sse_put_cases [OF two] by auto
        then have "wr_bytes w2 = wr_bytes w @ take (length head + k) (head @ body)" using w1 by simp
        with eq r1 Inl bytes show ?thesis by (auto intro!: exI [of _ "length head + k"])
      next
        case r2: (Inr u)
        then have "wr_bytes w2 = wr_bytes w @ head @ body" using sse_put_cases [OF two] w1 by auto
        then have w3: "wr_bytes w3 = wr_bytes w @ head @ body" using sse_put_cases [OF three] by auto
        have "fits M message" using Inr True by (simp add: fits_def)
        then show ?thesis using eq r1 r2 bytes w3
          by (auto split: sum.splits intro!: exI [of _ "length (head @ body)"])
      qed
    qed
  qed
qed

end
