(* ===== verification/SseLog.thy ===== *)
theory SseLog
  imports Sse
begin

text \<open>
  What \<open>sendFeed\<close> puts on the wire: a sequence of change events that together hold a segment of the
  owner's log, and at the end, by outcome, the event that says why the feed stopped. The rounds of
  the loop may read different databases; the segments fit together because a log only grows while
  its baseline is current.
\<close>

section \<open>One round\<close>

definition changes_event :: "marshal \<Rightarrow> string \<Rightarrow> sse_event \<Rightarrow> bool" where
  "changes_event M b ev = (case ev of (event, ident, m) \<Rightarrow>
     event = ''changes'' \<and> sp_changes m \<noteq> [] \<and> sp_next_cursor m = c_cursor (last (sp_changes m))
     \<and> sp_baseline_id m = b \<and> ident = event_id b (sp_next_cursor m) \<and> fits M m)"

text \<open>The changes of the events are the segment of a log from \<open>c\<close> to \<open>c1\<close>.\<close>

definition sent_from :: "marshal \<Rightarrow> owner_state \<Rightarrow> string \<Rightarrow> u64 \<Rightarrow> sse_event list \<Rightarrow> u64 \<Rightarrow> bool" where
  "sent_from M A b c evs c1 \<longleftrightarrow> list_all (changes_event M b) evs
     \<and> (let sent = concat (map event_changes evs) in
        length sent \<le> length (log_after A c) \<and> sent = take (length sent) (log_after A c)
        \<and> c1 = c + of_nat (length sent))
     \<and> (evs \<noteq> [] \<longrightarrow> a_baseline A = Some b)"

text \<open>The events after the last changes, by outcome.\<close>

definition feed_ending :: "marshal \<Rightarrow> string \<Rightarrow> bool \<Rightarrow> u64 \<Rightarrow> bool \<Rightarrow> err option \<Rightarrow> sse_event list \<Rightarrow> bool" where
  "feed_ending M b send_ready c terminal e evs \<longleftrightarrow>
     list_all (\<lambda>(event, ident, m). sp_changes m = [] \<and> fits M m) evs
     \<and> (if e \<noteq> None then evs = []
        else if terminal then map fst evs \<in> {[''baseline_mismatch''], [''reset_required'']}
        else map (\<lambda>(event, ident, m). (event, ident)) evs = (if send_ready then [(''ready'', event_id b c)] else []))"

text \<open>The feed has caught up with an owner.\<close>

definition caught_up :: "owner_state \<Rightarrow> string \<Rightarrow> u64 \<Rightarrow> u64 \<Rightarrow> bool" where
  "caught_up A b c c1 \<longleftrightarrow> c \<le> a_cursor A \<and> c1 = a_cursor A \<and> (a_baseline A = Some b \<or> a_baseline A = None \<and> c = 0)"

lemma blank_cursor: "db_inv s \<Longrightarrow> a_baseline (abs_owner ow s) = None \<Longrightarrow> a_cursor (abs_owner ow s) = 0"
  by (simp add: db_inv_def owner_inv_def inv_upto_def blank_ok_def)

lemma feed_page_facts:
  assumes inv: "db_inv s" and env: "ready env"
    and run: "read_feed_page env ow b c sse_feed_page_limit s = Inr page"
    and live: "\<not> fp_baseline_mismatch page" "\<not> fp_reset_required page"
  defines "A \<equiv> abs_owner ow s"
  shows "fp_baseline_id page = b" and "fp_changes page = take 128 (log_after A c)"
    and "fp_has_more page = (128 < length (log_after A c))"
    and "fp_next_cursor page = c + of_nat (length (fp_changes page))"
    and "c \<le> a_cursor A" and "a_baseline A = Some b \<or> a_baseline A = None \<and> c = 0"
proof -
  have limit: "nat (normalized_feed_limit sse_feed_page_limit) = 128"
    by (simp add: normalized_feed_limit_def sse_feed_page_limit_def max_pull_limit_def)
  note blank = blank_cursor [OF inv, of ow, folded A_def]
  have "fp_baseline_id page = b \<and> fp_changes page = take 128 (log_after A c)
    \<and> fp_has_more page = (128 < length (log_after A c)) \<and> fp_next_cursor page = c + of_nat (length (fp_changes page))
    \<and> c \<le> a_cursor A \<and> (a_baseline A = Some b \<or> a_baseline A = None \<and> c = 0)"
  proof (cases "a_baseline A")
    case None
    with read_feed_page_cases [OF inv env run, folded A_def] live blank [OF None]
    show ?thesis by (auto simp: a_baseline_def log_after_def word_neq_0_conv not_less split: option.splits)
  next
    case (Some b')
    then obtain h where h: "a_head A = Some h" "hd_baseline h = Some b'"
      by (auto simp: a_baseline_def split: option.splits)
    with read_feed_page_cases [OF inv env run, folded A_def] live
    have "b' = b" "c \<le> hd_cursor h" "page = page_of A c 128 h" by (auto simp: limit split: if_splits)
    with h show ?thesis
      by (simp add: page_of_def Let_def row_lineage_def a_cursor_def a_baseline_def min.commute)
  qed
  then show "fp_baseline_id page = b" and "fp_changes page = take 128 (log_after A c)"
    and "fp_has_more page = (128 < length (log_after A c))"
    and "fp_next_cursor page = c + of_nat (length (fp_changes page))"
    and "c \<le> a_cursor A" and "a_baseline A = Some b \<or> a_baseline A = None \<and> c = 0" by blast+
qed

lemma event_id_nonempty [simp]: "event_id b c \<noteq> []"
  by (simp add: event_id_def)

lemma log_end_cursor:
  assumes "c \<le> a_cursor A"
  shows "c + of_nat (length (log_after A c)) = a_cursor A"
proof -
  have "unat (c + of_nat (length (log_after A c))) = unat (a_cursor A)"
    using word_add_of_nat_le [of "length (log_after A c)" "a_cursor A" c] assms by (simp add: word_le_nat_alt)
  then show ?thesis by (simp only: word_unat_eq_iff)
qed

lemma finish_feed_cases:
  assumes "finish_feed M net page c send_ready w = (r, w')" and "fp_baseline_id page = b"
  shows "\<exists>e fin p. r = FeedStop c False e \<and> feed_ending M b send_ready c False e fin
    \<and> wr_bytes w' = wr_bytes w @ concat (map (sse_event_bytes M) fin) @ p \<and> (e = None \<longrightarrow> p = [])"
proof (cases send_ready)
  case True
  let ?ev = "(''ready'', event_id b c, feed_response page c)"
  obtain x w1 where x: "write_ready M net page c w = (x, w1)" by fastforce
  note B = write_sse_protobuf_bytes [OF x [unfolded write_ready_def] event_id_nonempty]
  show ?thesis
  proof (cases x)
    case (Inl e)
    with B obtain k where "wr_bytes w1 = wr_bytes w @ take k (sse_event_bytes M ?ev)" using assms(2) by auto
    moreover have "r = FeedStop c False (Some e)" "w' = w1" using assms(1) True x Inl by (auto simp: finish_feed_def)
    ultimately show ?thesis
      by (intro exI [of _ "Some e"] exI [of _ "[]"] exI [of _ "take k (sse_event_bytes M ?ev)"]) (simp add: feed_ending_def)
  next
    case (Inr u)
    with B have "wr_bytes w1 = wr_bytes w @ sse_event_bytes M ?ev" "fits M (feed_response page c)" using assms(2) by auto
    moreover have "r = FeedStop c False None" "w' = w1" using assms(1) True x Inr by (auto simp: finish_feed_def)
    ultimately show ?thesis using True
      by (intro exI [of _ None] exI [of _ "[?ev]"] exI [of _ "[]"]) (simp add: feed_ending_def)
  qed
next
  case False
  then show ?thesis using assms(1)
    by (intro exI [of _ None] exI [of _ "[]"] exI [of _ "[]"]) (simp add: finish_feed_def feed_ending_def)
qed

lemma write_terminal_cases:
  assumes "write_terminal M net event ident response c w = (r, w')" and "ident \<noteq> []"
    and "event \<in> {''baseline_mismatch'', ''reset_required''}" and "sp_changes response = []"
  shows "\<exists>e fin p. r = FeedStop c True e \<and> feed_ending M b send_ready c True e fin
    \<and> wr_bytes w' = wr_bytes w @ concat (map (sse_event_bytes M) fin) @ p \<and> (e = None \<longrightarrow> p = [])"
proof -
  let ?ev = "(event, ident, response)"
  obtain x w1 where x: "write_sse_protobuf M net event ident response w = (x, w1)" by fastforce
  note B = write_sse_protobuf_bytes [OF x assms(2)]
  show ?thesis
  proof (cases x)
    case (Inl e)
    with B obtain k where "wr_bytes w1 = wr_bytes w @ take k (sse_event_bytes M ?ev)" by auto
    moreover have "r = FeedStop c True (Some e)" "w' = w1" using assms(1) x Inl by (auto simp: write_terminal_def)
    ultimately show ?thesis
      by (intro exI [of _ "Some e"] exI [of _ "[]"] exI [of _ "take k (sse_event_bytes M ?ev)"]) (simp add: feed_ending_def)
  next
    case (Inr u)
    with B have "wr_bytes w1 = wr_bytes w @ sse_event_bytes M ?ev" "fits M response" by auto
    moreover have "r = FeedStop c True None" "w' = w1" using assms(1) x Inr by (auto simp: write_terminal_def)
    ultimately show ?thesis using assms(3,4)
      by (intro exI [of _ None] exI [of _ "[?ev]"] exI [of _ "[]"]) (simp add: feed_ending_def)
  qed
qed

text \<open>The outcome of one round: it goes on after some changes, or stops.\<close>

definition round_result :: "marshal \<Rightarrow> owner_state \<Rightarrow> string \<Rightarrow> bool \<Rightarrow> u64 \<Rightarrow> feed_round
    \<Rightarrow> sse_event list \<Rightarrow> sse_event list \<Rightarrow> string \<Rightarrow> bool" where
  "round_result M A b send_ready c r evs fin p =
     (case r of
        FeedNext c1 \<Rightarrow> evs \<noteq> [] \<and> sent_from M A b c evs c1 \<and> fin = [] \<and> p = []
      | FeedStop c1 terminal e \<Rightarrow> sent_from M A b c evs c1 \<and> feed_ending M b send_ready c1 terminal e fin
          \<and> (e = None \<longrightarrow> p = []) \<and> (e = None \<and> \<not> terminal \<longrightarrow> caught_up A b c c1))"

lemma sent_from_Nil [simp]: "sent_from M A b c [] c1 \<longleftrightarrow> c1 = c"
  by (auto simp: sent_from_def)

lemma feed_round_result:
  assumes inv: "db_inv s" and env: "ready env"
    and run: "feed_round M net (read_feed_page env ow b c sse_feed_page_limit s) c send_ready w = (r, w')"
  shows "\<exists>evs fin p. round_result M (abs_owner ow s) b send_ready c r evs fin p
    \<and> wr_bytes w' = wr_bytes w @ concat (map (sse_event_bytes M) (evs @ fin)) @ p"
proof (cases "read_feed_page env ow b c sse_feed_page_limit s")
  case (Inl e)
  with run show ?thesis
    by (intro exI [of _ "[]"]) (auto simp: feed_round_def round_result_def feed_ending_def)
next
  case (Inr page)
  let ?A = "abs_owner ow s"
  show ?thesis
  proof (cases "fp_baseline_mismatch page \<or> fp_reset_required page")
    case True
    with run Inr obtain event ident response where
      "write_terminal M net event ident response c w = (r, w')" "ident \<noteq> []"
      "event \<in> {''baseline_mismatch'', ''reset_required''}" "sp_changes response = []"
      by (auto simp: feed_round_def Let_def split: if_splits)
    from write_terminal_cases [OF this] obtain e fin p where
      "r = FeedStop c True e" "feed_ending M b send_ready c True e fin" "e = None \<longrightarrow> p = []"
      "wr_bytes w' = wr_bytes w @ concat (map (sse_event_bytes M) fin) @ p" by blast
    then show ?thesis
      by (intro exI [of _ "[]"] exI [of _ fin] exI [of _ p]) (simp add: round_result_def)
  next
    case live: False
    then have "\<not> fp_baseline_mismatch page" "\<not> fp_reset_required page" by simp_all
    note F = feed_page_facts [OF inv env Inr this]
    show ?thesis
    proof (cases "fp_changes page = []")
      case True
      then have L: "log_after ?A c = []" using F(2) by (cases "log_after ?A c") simp_all
      from True run Inr live have "finish_feed M net page c send_ready w = (r, w')" by (simp add: feed_round_def)
      from finish_feed_cases [OF this F(1)] obtain e fin p where
        "r = FeedStop c False e" "feed_ending M b send_ready c False e fin" "e = None \<longrightarrow> p = []"
        "wr_bytes w' = wr_bytes w @ concat (map (sse_event_bytes M) fin) @ p" by blast
      then show ?thesis using log_end_cursor [OF F(5)] L F(5,6)
        by (intro exI [of _ "[]"] exI [of _ fin] exI [of _ p]) (simp add: round_result_def caught_up_def)
    next
      case False
      then have base: "a_baseline ?A = Some b" using F(2,6) blank_cursor [OF inv] by (auto simp: log_after_def)
      show ?thesis
      proof (cases "bounded_feed_response M page c")
        case (Inl e)
        with run Inr live False show ?thesis
          by (intro exI [of _ "[]"] exI [of _ "[]"] exI [of _ "[]"])
            (auto simp: feed_round_def round_result_def feed_ending_def)
      next
        case bounded: (Inr rn)
        obtain m n where rn: "rn = (m, n)" by (cases rn)
        note B = bounded_feed_response_cases [OF bounded [unfolded rn] False]
        have n: "0 < n" "n \<le> length (log_after ?A c)" and ch: "sp_changes m = take n (log_after ?A c)"
          using B F(2) by (auto simp: min_def split: if_splits)
        have "take n (log_after ?A c) \<noteq> []" using n by (cases "log_after ?A c") simp_all
        note E = log_page_end [OF log_ok_of_inv [OF inv] refl this]
        have len: "length (take n (log_after ?A c)) = n" using n(2) by (simp add: min_def del: length_log_after)
        have "sp_next_cursor m = c + of_nat n"
        proof (cases "m = whole_page page \<and> n = length (fp_changes page)")
          case True
          with F(4) show ?thesis by simp
        next
          case prefix: False
          with B have "m = feed_prefix page n" "n \<le> length (fp_changes page)" by auto
          moreover have "n - Suc 0 < 128" using calculation(2) n(1) F(2) by (simp del: length_log_after) linarith
          moreover have "fp_changes page ! (n - 1) = last (take n (log_after ?A c))"
            using last_conv_nth [OF \<open>take n (log_after ?A c) \<noteq> []\<close>] calculation(2,3) n(1) F(2) len
            by (simp del: length_log_after)
          ultimately show ?thesis using E len by simp
        qed
        then have cur: "sp_next_cursor m = c + of_nat n" "sp_next_cursor m = c_cursor (last (sp_changes m))"
          using E len ch by simp_all
        define ev where "ev = (''changes'', event_id b (sp_next_cursor m), m)"
        have ok: "changes_event M b ev" using B F(1) cur n ch by (auto simp: ev_def changes_event_def)
        have sent: "sent_from M ?A b c [ev] (sp_next_cursor m)"
          using ok n ch cur base by (simp add: sent_from_def ev_def event_changes_def min_def)
        obtain x w1 where x: "write_sse_protobuf M net ''changes'' (event_id (fp_baseline_id page) (sp_next_cursor m)) m w = (x, w1)"
          by fastforce
        note W = write_sse_protobuf_bytes [OF x event_id_nonempty, folded F(1)]
        show ?thesis
        proof (cases x)
          case (Inl e)
          with W obtain k where "wr_bytes w1 = wr_bytes w @ take k (sse_event_bytes M ev)" using F(1) by (auto simp: ev_def)
          moreover have "r = FeedStop c False (Some e)" "w' = w1"
            using run Inr live False bounded rn x Inl by (auto simp: feed_round_def)
          ultimately show ?thesis
            by (intro exI [of _ "[]"] exI [of _ "[]"] exI [of _ "take k (sse_event_bytes M ev)"])
              (simp add: round_result_def feed_ending_def)
        next
          case written: (Inr u)
          with W have w1: "wr_bytes w1 = wr_bytes w @ sse_event_bytes M ev" using F(1) by (auto simp: ev_def)
          show ?thesis
          proof (cases "n < length (fp_changes page) \<or> fp_has_more page")
            case True
            with run Inr live False bounded rn x written
            have "r = FeedNext (sp_next_cursor m)" "w' = w1" by (auto simp: feed_round_def)
            with sent w1 show ?thesis
              by (intro exI [of _ "[ev]"] exI [of _ "[]"] exI [of _ "[]"]) (simp add: round_result_def)
          next
            case last: False
            then have all: "n = length (log_after ?A c)" using n(2) F(2,3) B by (auto simp: min_def split: if_splits)
            from last run Inr live False bounded rn x written
            have "finish_feed M net page (sp_next_cursor m) send_ready w1 = (r, w')" by (auto simp: feed_round_def)
            from finish_feed_cases [OF this F(1)] obtain e fin p where
              "r = FeedStop (sp_next_cursor m) False e" "feed_ending M b send_ready (sp_next_cursor m) False e fin"
              "e = None \<longrightarrow> p = []" "wr_bytes w' = wr_bytes w1 @ concat (map (sse_event_bytes M) fin) @ p" by blast
            moreover have "caught_up ?A b c (sp_next_cursor m)"
              using log_end_cursor [OF F(5)] all cur F(5) base by (simp add: caught_up_def)
            ultimately show ?thesis using sent w1
              by (intro exI [of _ "[ev]"] exI [of _ fin] exI [of _ p]) (simp add: round_result_def)
          qed
        qed
      qed
    qed
  qed
qed

section \<open>The loop\<close>

text \<open>
  The databases that the rounds read: each is reached from the ones before it by calls of the
  service, and every read transaction succeeds.
\<close>

definition consistent_reads :: "(tx_env \<times> db) list \<Rightarrow> bool" where
  "consistent_reads reads \<longleftrightarrow> list_all (\<lambda>(env, s). db_inv s \<and> ready env) reads
     \<and> sorted_wrt (\<lambda>x y. service_step\<^sup>*\<^sup>* (snd x) (snd y)) reads"

lemma consistent_reads_Cons:
  "consistent_reads ((env, s) # reads) \<longleftrightarrow> db_inv s \<and> ready env \<and> consistent_reads reads
     \<and> (\<forall>x \<in> set reads. service_step\<^sup>*\<^sup>* s (snd x))"
  by (auto simp: consistent_reads_def)

lemma sent_from_cursor:
  assumes "sent_from M A b c evs c1" and "evs \<noteq> []"
  shows "unat c < unat c1" and "c1 \<le> a_cursor A" and "a_baseline A = Some b"
proof -
  let ?n = "length (concat (map event_changes evs))"
  have n: "?n \<le> unat (a_cursor A) - unat c" "c1 = c + of_nat ?n" "list_all (changes_event M b) evs"
    using assms(1) by (simp_all add: sent_from_def Let_def)
  have "event_changes (hd evs) \<noteq> []"
    using n(3) assms(2) by (cases evs) (auto simp: changes_event_def event_changes_def)
  then have "0 < ?n" using assms(2) by (cases evs) auto
  with n(1,2) word_add_of_nat_le [OF n(1)] show "unat c < unat c1" and "c1 \<le> a_cursor A"
    by (simp_all add: word_le_nat_alt split: if_splits)
  show "a_baseline A = Some b" using assms by (simp add: sent_from_def)
qed

text \<open>The segment in terms of the two cursors; all of the log for a client that has caught up.\<close>

lemma sent_from_segment:
  assumes "sent_from M A b c evs c1"
  shows "concat (map event_changes evs) = take (unat c1 - unat c) (log_after A c)"
proof -
  let ?x = "concat (map event_changes evs)"
  have x: "length ?x \<le> unat (a_cursor A) - unat c" "?x = take (length ?x) (log_after A c)" "c1 = c + of_nat (length ?x)"
    using assms by (simp_all add: sent_from_def Let_def)
  have n: "unat c1 - unat c = length ?x"
    using word_add_of_nat_le [OF x(1)] x(1,3) by (cases "unat c \<le> unat (a_cursor A)") simp_all
  show ?thesis using x(2) unfolding n .
qed

lemma sent_from_all: "sent_from M A b c evs c1 \<Longrightarrow> caught_up A b c c1 \<Longrightarrow>
    concat (map event_changes evs) = log_after A c"
  using sent_from_segment by (simp add: caught_up_def)

lemma sent_from_later:
  assumes sent: "sent_from M A b c evs c1" and ok: "log_ok A" "log_ok B" and le: "a_ops A \<subseteq>\<^sub>m a_ops B"
    and base: "a_baseline B = Some b"
  shows "sent_from M B b c evs c1"
proof -
  let ?s = "concat (map event_changes evs)"
  have n: "length ?s \<le> length (log_after A c)" "?s = take (length ?s) (log_after A c)"
    using sent by (simp_all add: sent_from_def Let_def)
  note P = log_after_prefix [OF ok le]
  have "?s = take (length ?s) (take (length (log_after A c)) (log_after B c))" using n(2) P(2) by metis
  also have "\<dots> = take (length ?s) (log_after B c)" using n(1) by (simp add: min_def del: length_log_after)
  finally have "?s = take (length ?s) (log_after B c)" .
  moreover have "length ?s \<le> length (log_after B c)"
    using n(1) P(1) by (simp add: word_le_nat_alt)
  ultimately show ?thesis using sent base by (simp add: sent_from_def Let_def del: length_log_after)
qed

lemma sent_from_append:
  assumes one: "sent_from M B b c evs c1" and two: "sent_from M B b c1 evs2 c2"
  shows "sent_from M B b c (evs @ evs2) c2"
proof -
  let ?x = "concat (map event_changes evs)" and ?y = "concat (map event_changes evs2)"
  have x: "length ?x \<le> length (log_after B c)" "?x = take (length ?x) (log_after B c)" "c1 = c + of_nat (length ?x)"
    using one by (simp_all add: sent_from_def Let_def)
  have y: "length ?y \<le> length (log_after B c1)" "?y = take (length ?y) (log_after B c1)" "c2 = c1 + of_nat (length ?y)"
    using two by (simp_all add: sent_from_def Let_def)
  have drop: "log_after B c1 = drop (length ?x) (log_after B c)" unfolding x(3) by (rule log_after_drop [OF x(1)])
  have "?x @ ?y = take (length ?x) (log_after B c) @ take (length ?y) (drop (length ?x) (log_after B c))"
    using x(2) y(2) drop by metis
  also have "\<dots> = take (length (?x @ ?y)) (log_after B c)" unfolding length_append take_add by (rule refl)
  finally have "?x @ ?y = take (length (?x @ ?y)) (log_after B c)" .
  moreover have "length (?x @ ?y) \<le> length (log_after B c)"
    using x(1) y(1) drop by (simp del: length_log_after)
  moreover have "c2 = c + of_nat (length (?x @ ?y))" using x(3) y(3) by simp
  moreover have "concat (map event_changes (evs @ evs2)) = ?x @ ?y" by simp
  moreover have "list_all (changes_event M b) (evs @ evs2)" "evs @ evs2 \<noteq> [] \<longrightarrow> a_baseline B = Some b"
    using one two by (auto simp: sent_from_def)
  ultimately show ?thesis unfolding sent_from_def Let_def by metis
qed

lemma send_feed_result:
  assumes "send_feed M net ow b reads c send_ready w = Some ((c1, terminal, e), w')" and "consistent_reads reads"
  shows "\<exists>evs fin p env s. wr_bytes w' = wr_bytes w @ concat (map (sse_event_bytes M) (evs @ fin)) @ p
    \<and> (env, s) \<in> set reads \<and> sent_from M (abs_owner ow s) b c evs c1
    \<and> feed_ending M b send_ready c1 terminal e fin \<and> (e = None \<longrightarrow> p = [])
    \<and> (e = None \<and> \<not> terminal \<longrightarrow> caught_up (abs_owner ow s) b c c1)"
  using assms
proof (induction reads arbitrary: c w)
  case (Cons x reads)
  obtain env s where x: "x = (env, s)" by (cases x)
  have inv: "db_inv s" and env: "ready env" and rest: "consistent_reads reads"
    and later: "\<And>env' s'. (env', s') \<in> set reads \<Longrightarrow> service_step\<^sup>*\<^sup>* s s'"
    using Cons.prems(2) by (auto simp: x consistent_reads_Cons)
  obtain r w2 where round: "feed_round M net (read_feed_page env ow b c sse_feed_page_limit s) c send_ready w = (r, w2)"
    by fastforce
  from feed_round_result [OF inv env round] obtain evs fin p where
    R: "round_result M (abs_owner ow s) b send_ready c r evs fin p"
    and bytes: "wr_bytes w2 = wr_bytes w @ concat (map (sse_event_bytes M) (evs @ fin)) @ p" by blast
  show ?case
  proof (cases r)
    case (FeedStop c' t e')
    with round Cons.prems(1) have "c1 = c'" "terminal = t" "e = e'" "w' = w2" by (simp_all add: x)
    with R bytes FeedStop show ?thesis
      by (intro exI [of _ evs] exI [of _ fin] exI [of _ p] exI [of _ env] exI [of _ s])
        (simp add: round_result_def x)
  next
    case (FeedNext c')
    with R have evs: "evs \<noteq> []" and sent: "sent_from M (abs_owner ow s) b c evs c'" and "fin = []" "p = []"
      by (simp_all add: round_result_def)
    have run: "send_feed M net ow b reads c' send_ready w2 = Some ((c1, terminal, e), w')"
      using round Cons.prems(1) FeedNext by (simp add: x)
    from Cons.IH [OF run rest] obtain evs2 fin2 p2 env2 s2 where
      bytes2: "wr_bytes w' = wr_bytes w2 @ concat (map (sse_event_bytes M) (evs2 @ fin2)) @ p2"
      and s2: "(env2, s2) \<in> set reads" and sent2: "sent_from M (abs_owner ow s2) b c' evs2 c1"
      and fin2: "feed_ending M b send_ready c1 terminal e fin2" "e = None \<longrightarrow> p2 = []"
      and up: "e = None \<and> \<not> terminal \<longrightarrow> caught_up (abs_owner ow s2) b c' c1" by blast
    note C = sent_from_cursor [OF sent evs]
    have all: "wr_bytes w' = wr_bytes w @ concat (map (sse_event_bytes M) ((evs @ evs2) @ fin2)) @ p2"
      using bytes bytes2 \<open>fin = []\<close> \<open>p = []\<close> by simp
    show ?thesis
    proof (cases "a_baseline (abs_owner ow s2) = Some b")
      case True
      have ok: "log_ok (abs_owner ow s)" "log_ok (abs_owner ow s2)"
        using log_ok_of_inv inv steps_inv [OF later [OF s2] inv] by blast+
      have le: "a_ops (abs_owner ow s) \<subseteq>\<^sub>m a_ops (abs_owner ow s2)"
        by (rule log_grows [OF later [OF s2] inv C(3) True])
      have "sent_from M (abs_owner ow s2) b c (evs @ evs2) c1"
        by (rule sent_from_append [OF sent_from_later [OF sent ok le True] sent2])
      moreover have "c \<le> a_cursor (abs_owner ow s2)"
        using C(1,2) log_after_prefix(1) [OF ok le] by (simp add: word_le_nat_alt)
      ultimately show ?thesis using all s2 fin2 up True
        by (intro exI [of _ "evs @ evs2"] exI [of _ fin2] exI [of _ p2] exI [of _ env2] exI [of _ s2])
          (simp add: x caught_up_def)
    next
      case False
      then have "evs2 = []" using sent2 by (auto simp: sent_from_def)
      moreover have "\<not> (e = None \<and> \<not> terminal)"
      proof
        assume "e = None \<and> \<not> terminal"
        with up False have "c' = 0" by (simp add: caught_up_def)
        with C(1) show False by simp
      qed
      ultimately show ?thesis using all sent sent2 fin2
        by (intro exI [of _ "evs @ evs2"] exI [of _ fin2] exI [of _ p2] exI [of _ env] exI [of _ s])
          (auto simp: x)
    qed
  qed
qed simp

section \<open>Termination and delivery\<close>

text \<open>A round that goes on has moved the cursor, so a bounded head bounds the number of rounds.\<close>

lemma feed_round_progress:
  assumes "db_inv s" and "ready env"
    and "feed_round M net (read_feed_page env ow b c sse_feed_page_limit s) c send_ready w = (FeedNext c1, w')"
  shows "unat c < unat c1" and "c1 \<le> a_cursor (abs_owner ow s)" and "a_baseline (abs_owner ow s) = Some b"
proof -
  from feed_round_result [OF assms] obtain evs where "evs \<noteq> []" "sent_from M (abs_owner ow s) b c evs c1"
    by (auto simp: round_result_def)
  from sent_from_cursor [OF this(2,1)]
  show "unat c < unat c1" and "c1 \<le> a_cursor (abs_owner ow s)" and "a_baseline (abs_owner ow s) = Some b" by simp_all
qed

lemma send_feed_returns:
  assumes "consistent_reads reads" and "\<forall>(env, s) \<in> set reads. a_cursor (abs_owner ow s) \<le> H"
    and "unat H - unat c < length reads"
  shows "\<exists>out. send_feed M net ow b reads c send_ready w = Some out"
  using assms
proof (induction reads arbitrary: c w)
  case (Cons x reads)
  obtain env s where x: "x = (env, s)" by (cases x)
  have ok: "db_inv s" "ready env" and rest: "consistent_reads reads"
    using Cons.prems(1) by (simp_all add: x consistent_reads_Cons)
  obtain r w1 where round: "feed_round M net (read_feed_page env ow b c sse_feed_page_limit s) c send_ready w = (r, w1)"
    by fastforce
  show ?case
  proof (cases r)
    case (FeedNext c1)
    note P = feed_round_progress [OF ok round [unfolded FeedNext]]
    have "unat c1 \<le> unat H" using P(2) Cons.prems(2) by (auto simp: x word_le_nat_alt)
    then have "unat H - unat c1 < length reads" using P(1) Cons.prems(3) by simp
    with Cons.IH [OF rest] Cons.prems(2) round FeedNext show ?thesis by (simp add: x)
  qed (use round in \<open>simp add: x\<close>)
qed simp

text \<open>
  Everything the feed may want to send at a database can be sent: of every page it can read there, the
  messages without changes fit, the page and its prefixes can be marshalled, whatever their size, and
  the first change alone fits. Nothing is asked of the marshaller for any other message.
\<close>

definition feed_fits :: "marshal \<Rightarrow> tx_env \<Rightarrow> string \<Rightarrow> string \<Rightarrow> db \<Rightarrow> bool" where
  "feed_fits M env ow b s \<longleftrightarrow>
     (\<forall>c page. read_feed_page env ow b c sse_feed_page_limit s = Inr page \<longrightarrow>
          (\<forall>c'. fits M (feed_response page c'))
          \<and> (fp_changes page \<noteq> [] \<longrightarrow> page_marshals M page \<and> fits M (feed_prefix page 1)))"

lemma write_without_faults:
  assumes "fits M message" and "net = (\<lambda>_. None)"
  shows "\<exists>w'. write_sse_protobuf M net event ident message w = (Inr (), w')"
  using assms by (auto simp: fits_def write_sse_protobuf_def write_sse_def sse_put_def)

lemma finish_without_faults:
  assumes "fits M (feed_response page c)" and "net = (\<lambda>_. None)"
  shows "\<exists>w'. finish_feed M net page c send_ready w = (FeedStop c False None, w')"
  using write_without_faults [OF assms, of "''ready''" "event_id (fp_baseline_id page) c" w]
  by (auto simp: finish_feed_def write_ready_def)

lemma feed_round_without_faults:
  assumes inv: "db_inv s" and env: "ready env" and net: "net = (\<lambda>_. None)" and small: "feed_fits M env ow b s"
    and valid: "validate_owner_key ow = Inr ()" "validate_baseline_id b ''baseline_id'' = Inr ()"
    and c: "c \<le> a_cursor (abs_owner ow s)" "a_cursor (abs_owner ow s) \<le> max_safe_integer"
    and base: "a_baseline (abs_owner ow s) = Some b"
  shows "\<exists>c1 w'. feed_round M net (read_feed_page env ow b c sse_feed_page_limit s) c send_ready w = (FeedStop c1 False None, w')
    \<or> feed_round M net (read_feed_page env ow b c sse_feed_page_limit s) c send_ready w = (FeedNext c1, w')"
proof -
  have "db_ok s" using inv by (simp add: db_inv_def)
  moreover have "c \<le> max_safe_integer" "0 \<le> sse_feed_page_limit" using c by (simp_all add: sse_feed_page_limit_def)
  ultimately obtain page where page: "read_feed_page env ow b c sse_feed_page_limit s = Inr page"
    using read_feed_page_total [OF _ env valid] by blast
  obtain h where h: "a_head (abs_owner ow s) = Some h" "hd_baseline h = Some b"
    using base by (auto simp: a_baseline_def split: option.splits)
  then have "hd_cursor h = a_cursor (abs_owner ow s)" by (simp add: a_cursor_def)
  with read_feed_page_cases [OF inv env page] h c have live: "\<not> fp_baseline_mismatch page" "\<not> fp_reset_required page"
    by (simp_all add: page_of_def Let_def not_less [symmetric])
  have F: "\<And>c'. fits M (feed_response page c')" "fp_changes page \<noteq> [] \<Longrightarrow> fits M (feed_prefix page 1)"
    "fp_changes page \<noteq> [] \<Longrightarrow> page_marshals M page"
    using small page by (auto simp: feed_fits_def)
  show ?thesis
  proof (cases "fp_changes page = []")
    case True
    with live finish_without_faults [OF F(1) net] show ?thesis by (fastforce simp: feed_round_def page)
  next
    case False
    from bounded_feed_response_total [OF F(3) [OF False] F(2) [OF False] False] obtain m n where
      B: "bounded_feed_response M page c = Inr (m, n)" by blast
    have "fits M m" using bounded_feed_response_cases [OF B False] by simp
    from write_without_faults [OF this net] obtain w1 where
      W: "write_sse_protobuf M net ''changes'' (event_id (fp_baseline_id page) (sp_next_cursor m)) m w = (Inr (), w1)" by blast
    obtain w2 where "finish_feed M net page (sp_next_cursor m) send_ready w1 = (FeedStop (sp_next_cursor m) False None, w2)"
      using finish_without_faults [OF F(1) net] by blast
    with live False B W show ?thesis by (auto simp: feed_round_def page)
  qed
qed

lemma send_feed_delivers:
  assumes inv: "db_inv s" and env: "ready env" and net: "net = (\<lambda>_. None)" and small: "feed_fits M env ow b s"
    and valid: "validate_owner_key ow = Inr ()" "validate_baseline_id b ''baseline_id'' = Inr ()"
    and head: "a_cursor (abs_owner ow s) \<le> max_safe_integer" and base: "a_baseline (abs_owner ow s) = Some b"
  shows "c \<le> a_cursor (abs_owner ow s) \<Longrightarrow> unat (a_cursor (abs_owner ow s)) - unat c < n \<Longrightarrow>
    \<exists>c1 w'. send_feed M net ow b (replicate n (env, s)) c send_ready w = Some ((c1, False, None), w')"
proof (induction n arbitrary: c w)
  case (Suc n)
  from feed_round_without_faults [OF inv env net small valid Suc.prems(1) head base, of send_ready w]
  obtain c1 w1 where
    "feed_round M net (read_feed_page env ow b c sse_feed_page_limit s) c send_ready w = (FeedStop c1 False None, w1)
     \<or> feed_round M net (read_feed_page env ow b c sse_feed_page_limit s) c send_ready w = (FeedNext c1, w1)" by blast
  then show ?case
  proof
    assume next_round: "feed_round M net (read_feed_page env ow b c sse_feed_page_limit s) c send_ready w = (FeedNext c1, w1)"
    from feed_round_progress [OF inv env this] have "unat c < unat c1" "c1 \<le> a_cursor (abs_owner ow s)" by simp_all
    with Suc.IH [of c1 w1] Suc.prems(2) next_round show ?thesis by (simp add: word_le_nat_alt)
  qed auto
qed simp

end
