(* ===== verification/SseClient.thy ===== *)
theory SseClient
  imports Sse
begin

text \<open>
  The other end of the event stream, as a specification: how a client (the \<open>EventSource\<close> of a
  browser, and the code that unpacks the envelope) reads the bytes. It shows that the framing is
  unambiguous: what is read is what was sent.
\<close>

section \<open>Reading a stream\<close>

text \<open>The lines of the stream; the fields of the event in progress are id, name and data.\<close>

fun client_events :: "string list \<Rightarrow> string \<Rightarrow> string \<Rightarrow> string \<Rightarrow> (string \<times> string \<times> string) list" where
  "client_events [] ident event payload = []"
| "client_events (l # ls) ident event payload =
     (if l = [] then
        (if payload = [] then client_events ls ident [] []
         else (event, ident, payload) # client_events ls ident [] [])
      else if has_prefix l ''id: '' then client_events ls (drop 4 l) event payload
      else if has_prefix l ''event: '' then client_events ls ident (drop 7 l) payload
      else if has_prefix l ''data: '' then client_events ls ident event (drop 6 l)
      else client_events ls ident event payload)"

definition read_stream :: "string \<Rightarrow> (string \<times> string \<times> string) list" where
  "read_stream bytes = client_events (split_on (CHR 0x0A) bytes) [] [] []"

definition envelope_head :: string where
  "envelope_head = ''{'' @ json_quote ''version'' @ '':1,'' @ json_quote ''protobuf'' @ '':'' @ [CHR 0x22]"

definition envelope_tail :: string where
  "envelope_tail = [CHR 0x22] @ ''}''"

definition envelope_payload :: "string \<Rightarrow> string option" where
  "envelope_payload s =
     (if has_prefix s envelope_head \<and> has_suffix (trim_prefix s envelope_head) envelope_tail
      then base64_decode (trim_suffix (trim_prefix s envelope_head) envelope_tail) else None)"

section \<open>Round trip\<close>

lemma split_on_line: "d \<notin> set a \<Longrightarrow> split_on d (a @ d # b) = a # split_on d b"
  by (induction a) auto

lemma envelope_shape: "sse_protobuf_envelope enc = envelope_head @ base64_encode enc @ envelope_tail"
  by (simp add: sse_protobuf_envelope_def envelope_head_def envelope_tail_def json_quote_plain [OF base64_plain])

lemma envelope_round_trip: "envelope_payload (sse_protobuf_envelope enc) = Some enc"
  by (simp add: envelope_shape envelope_payload_def has_prefix_def trim_prefix_def has_suffix_def trim_suffix_def)

lemma plain_no_newline: "json_plain c \<Longrightarrow> c \<noteq> CHR 0x0A"
  by (auto simp: json_plain_def is_id_char_def in_range_def is_digit_def pad_def)

lemma envelope_one_line: "CHR 0x0A \<notin> set (sse_protobuf_envelope enc)"
proof -
  have "CHR 0x0A \<notin> set (base64_encode enc)"
    using base64_plain [of enc] plain_no_newline by (auto simp: list_all_iff)
  moreover have "list_all json_plain ''version''" "list_all json_plain ''protobuf''" by code_simp+
  ultimately show ?thesis
    by (simp add: envelope_shape envelope_head_def envelope_tail_def json_quote_plain)
qed

lemma client_one_event:
  assumes "CHR 0x0A \<notin> set ident" and "CHR 0x0A \<notin> set event" and "M m = Inr enc"
  shows "client_events (split_on (CHR 0x0A) (sse_event_bytes M (event, ident, m) @ rest)) i [] []
    = (event, ident, sse_protobuf_envelope enc) # client_events (split_on (CHR 0x0A) rest) ident [] []"
proof -
  let ?nl = "CHR 0x0A"
  have "split_on ?nl (sse_event_bytes M (event, ident, m) @ rest)
      = (''id: '' @ ident) # (''event: '' @ event) # (''data: '' @ sse_protobuf_envelope enc) # [] # split_on ?nl rest"
    using assms envelope_one_line [of enc]
    split_on_line [of ?nl "''id: '' @ ident" "''event: '' @ event @ newline @ ''data: '' @ sse_protobuf_envelope enc @ newline @ newline @ rest"]
    split_on_line [of ?nl "''event: '' @ event" "''data: '' @ sse_protobuf_envelope enc @ newline @ newline @ rest"]
    split_on_line [of ?nl "''data: '' @ sse_protobuf_envelope enc" "newline @ rest"] split_on_line [of ?nl "[]" rest]
    by (simp add: sse_event_bytes_def newline_def)
  moreover have "sse_protobuf_envelope enc \<noteq> []" by (simp add: sse_protobuf_envelope_def)
  ultimately show ?thesis by (simp add: has_prefix_def)
qed

lemma read_stream_events:
  assumes "list_all (\<lambda>(event, ident, m). fits M m \<and> CHR 0x0A \<notin> set event \<and> CHR 0x0A \<notin> set ident) evs"
  shows "map (\<lambda>(event, ident, payload). (event, ident, envelope_payload payload))
      (client_events (split_on (CHR 0x0A) (concat (map (sse_event_bytes M) evs))) i [] [])
    = map (\<lambda>(event, ident, m). (event, ident, case M m of Inl _ \<Rightarrow> None | Inr encoded \<Rightarrow> Some encoded)) evs"
  using assms
proof (induction evs arbitrary: i)
  case (Cons ev evs)
  obtain event ident m where ev: "ev = (event, ident, m)" by (cases ev)
  from Cons.prems obtain enc where "M m = Inr enc" "CHR 0x0A \<notin> set event" "CHR 0x0A \<notin> set ident"
    by (auto simp: ev fits_def)
  with Cons client_one_event [of ident event M m enc] show ?case by (simp add: ev envelope_round_trip)
qed simp

end
