(* ===== verification/SseProps.thy ===== *)
theory SseProps
  imports SseLog SseClient SyncProps
begin

text \<open>
  The properties of the event stream: what a bounded response holds, what \<open>sendFeed\<close> delivers and
  when it ends, and that a client can read the stream back.
\<close>

section \<open>Example data\<close>

text \<open>A marshaller whose result has 200 KiB per change, and a connection that never fails.\<close>

definition ex_marshal :: marshal where
  "ex_marshal r = Inr (replicate (204800 * length (sp_changes r)) CHR ''x'')"

definition ex_network :: network where
  "ex_network = (\<lambda>_. None)"

definition ex_writer :: sse_writer where
  "ex_writer = \<lparr>wr_bytes = [], wr_calls = 0\<rparr>"

definition ex_page :: feed_page where
  "ex_page = \<lparr>fp_changes = map (\<lambda>c. mutation_change None c 1) [1, 2, 3], fp_next_cursor = 3,
     fp_has_more = False, fp_baseline_id = ex_baseline, fp_head_cursor = 3, fp_server_version = 1,
     fp_server_updated_at_ms = 1, fp_server_progress_day = campaign_start, fp_baseline_mismatch = False,
     fp_reset_required = False\<rparr>"

lemma ex_marshal_fits [simp]: "fits ex_marshal r \<longleftrightarrow> length (sp_changes r) \<le> 2"
  by (auto simp: fits_def ex_marshal_def max_protobuf_bytes_def)

text \<open>A database with one operation, as an exchange of one mutation leaves it.\<close>

lemma ex_single_db:
  obtains res s' where "exchange ex_env ex_service ex_meta (Some ex_single) empty_db = (Inr res, s')"
    and "db_inv s'" and "a_baseline (abs_owner ex_owner s') = Some ex_baseline"
    and "a_cursor (abs_owner ex_owner s') = 1"
proof -
  obtain res s' where run: "exchange ex_env ex_service ex_meta (Some ex_single) empty_db = (Inr res, s')"
    using ex_single_runs by blast
  have inv: "db_inv s'" by (rule service_step_inv [OF step_exchange [OF run] db_inv_empty])
  from exchange_summary [OF run db_inv_empty ex_single_matches [OF run]] obtain ds A l where
    ds: "decide_all ex_device 1000000 ex_start [ex_mutation ''op-00001''] ds A"
    and closed: "batch_done ex_service ex_meta ex_start ds A l (abs_owner ex_owner s')"
    and l: "ln_baseline_id l = ex_baseline"
    by (auto simp: ex_single_def ex_exchange_def ex_service_def ex_meta_def ex_start_def)
  from ds obtain d where d: "decides ex_device 1000000 ex_start (ex_mutation ''op-00001'') d A" and "ds = [d]"
    by (auto elim!: decide_all_ConsE decide_all_NilE)
  from d have A: "a_cursor A = 1" "a_baseline A = Some ex_baseline"
    by (cases; simp add: ex_start_sel mutation_change_def)+
  have "a_cursor (abs_owner ex_owner s') = a_cursor A"
    using closed by (auto simp: batch_done_def split: if_splits)
  moreover have "a_baseline (abs_owner ex_owner s') = Some ex_baseline"
    using closed l by (simp add: batch_done_def)
  ultimately show thesis using that [OF run inv] A by simp
qed

text \<open>Messages of one byte per change.\<close>

definition ex_brief :: marshal where
  "ex_brief r = Inr (replicate (length (sp_changes r)) CHR ''x'')"

lemma ex_brief_fits: "length (sp_changes r) \<le> 1 \<Longrightarrow> fits ex_brief r"
  by (simp add: fits_def ex_brief_def max_protobuf_bytes_def)

lemma ex_feed_fits: "feed_fits ex_brief ex_env ex_owner ex_baseline s"
  unfolding feed_fits_def page_marshals_def
  by (auto intro!: ex_brief_fits simp: ex_brief_def [of "whole_page _"] ex_brief_def [of "feed_prefix _ _"])

lemma ex_feed_valid:
  "validate_owner_key ex_owner = Inr ()" "validate_baseline_id ex_baseline ''baseline_id'' = Inr ()"
  using ex_fields_valid by simp_all

lemma ex_reads: "db_inv s \<Longrightarrow> consistent_reads (replicate n (ex_env, s))"
  using ex_ready by (induction n) (auto simp: consistent_reads_Cons, simp add: consistent_reads_def)

section \<open>Properties\<close>

text \<open>
  C16. A page is cut to the longest prefix that fits. Provided that a shorter prefix does not need
  more bytes than a longer one, the response has the whole page when that fits; otherwise it has
  the longest non-empty prefix that fits the protobuf limit, says that there is more, and its next
  cursor is the cursor of its last change.
\<close>

theorem bounded_feed_response_longest:
  assumes run: "bounded_feed_response M page previous = Inr (response, n)" and some: "fp_changes page \<noteq> []"
    and mono: "\<And>i j. 1 \<le> i \<Longrightarrow> i \<le> j \<Longrightarrow> j \<le> length (fp_changes page) \<Longrightarrow>
      fits M (feed_prefix page j) \<Longrightarrow> fits M (feed_prefix page i)"
  shows "fits M response \<and> 0 < n \<and> n \<le> length (fp_changes page) \<and> sp_changes response = take n (fp_changes page)
    \<and> (if fits M (whole_page page) then response = whole_page page \<and> n = length (fp_changes page)
       else sp_has_more response \<and> sp_next_cursor response = c_cursor (last (take n (fp_changes page)))
         \<and> (\<forall>k. n < k \<and> k \<le> length (fp_changes page) \<longrightarrow> \<not> fits M (feed_prefix page k)))"
proof -
  note B = bounded_feed_response_cases [OF run some]
  have "k \<le> n" if "\<not> fits M (whole_page page)" "k \<le> length (fp_changes page)" "0 < k" "fits M (feed_prefix page k)" for k
  proof (rule feed_bisect_maximal)
    show "feed_bisect M page 1 (int (length (fp_changes page))) 0 = Inr n"
      using run that(1) by (simp add: bounded_feed_response_Inr)
  qed (use that mono in auto)
  moreover have "fp_changes page ! (n - 1) = last (take n (fp_changes page))"
    using B some by (subst last_conv_nth) (auto simp: min_def)
  ultimately show ?thesis
    using B run by (auto simp: bounded_feed_response_Inr not_less [symmetric])
qed

theorem bounded_feed_response_longest_witness:
  "\<exists>response n. bounded_feed_response ex_marshal ex_page 0 = Inr (response, n) \<and> n = 2 \<and> sp_has_more response"
proof -
  have len: "length (fp_changes ex_page) = 3" and some: "fp_changes ex_page \<noteq> []" by (simp_all add: ex_page_def)
  obtain response n where run: "bounded_feed_response ex_marshal ex_page 0 = Inr (response, n)"
    using bounded_feed_response_total [OF _ _ some, of ex_marshal 0] len
    by (auto simp: page_marshals_def ex_marshal_def [of _])
  have "fits ex_marshal response \<and> 0 < n \<and> n \<le> length (fp_changes ex_page) \<and> sp_changes response = take n (fp_changes ex_page)
    \<and> (if fits ex_marshal (whole_page ex_page) then response = whole_page ex_page \<and> n = length (fp_changes ex_page)
       else sp_has_more response \<and> sp_next_cursor response = c_cursor (last (take n (fp_changes ex_page)))
         \<and> (\<forall>k. n < k \<and> k \<le> length (fp_changes ex_page) \<longrightarrow> \<not> fits ex_marshal (feed_prefix ex_page k)))"
    by (rule bounded_feed_response_longest [OF run some]) (simp add: len)
  then have "sp_has_more response" "\<not> (n < 2 \<and> fits ex_marshal (feed_prefix ex_page 2))" "n \<le> 3"
    "length (sp_changes response) \<le> 2" "sp_changes response = take n (fp_changes ex_page)" by (auto simp: len)
  with run show ?thesis by (auto simp: len)
qed

text \<open>
  What a client has been sent. Whatever happens while \<open>sendFeed\<close> runs (changes by other
  requests, a replaced baseline, a failing connection), the events on the wire are change events of
  the requested baseline that hold, in order and without a gap or a repetition, the operations from
  the client's cursor up to the cursor that \<open>sendFeed\<close> returns; the id of each is the cursor of its
  last change. If \<open>sendFeed\<close> ends without an error, either the owner's whole log has been sent, and
  then the ready event if it was asked for, or the last event tells the client to start over.
\<close>

theorem sse_feed_is_gapless:
  assumes "send_feed M net ow b reads c send_ready w = Some ((c1, terminal, e), w')" and "consistent_reads reads"
  shows "\<exists>evs fin partial env s. wr_bytes w' = wr_bytes w @ concat (map (sse_event_bytes M) (evs @ fin)) @ partial
    \<and> (env, s) \<in> set reads
    \<and> list_all (changes_event M b) evs
    \<and> concat (map event_changes evs) = take (unat c1 - unat c) (log_after (abs_owner ow s) c)
    \<and> (evs \<noteq> [] \<longrightarrow> a_baseline (abs_owner ow s) = Some b)
    \<and> feed_ending M b send_ready c1 terminal e fin \<and> (e = None \<longrightarrow> partial = [])
    \<and> (e = None \<and> \<not> terminal \<longrightarrow> c1 = a_cursor (abs_owner ow s)
         \<and> concat (map event_changes evs) = log_after (abs_owner ow s) c)"
proof -
  from send_feed_result [OF assms] obtain evs fin p env s where
    R: "wr_bytes w' = wr_bytes w @ concat (map (sse_event_bytes M) (evs @ fin)) @ p" "(env, s) \<in> set reads"
      "sent_from M (abs_owner ow s) b c evs c1" "feed_ending M b send_ready c1 terminal e fin" "e = None \<longrightarrow> p = []"
    and up: "e = None \<and> \<not> terminal \<longrightarrow> caught_up (abs_owner ow s) b c c1" by blast
  let ?A = "abs_owner ow s" and ?x = "concat (map event_changes evs)"
  have x: "?x = take (unat c1 - unat c) (log_after ?A c)" "list_all (changes_event M b) evs"
    "evs \<noteq> [] \<longrightarrow> a_baseline ?A = Some b"
    using sent_from_segment [OF R(3)] R(3) by (simp_all add: sent_from_def)
  have "?x = log_after ?A c" if "caught_up ?A b c c1" using sent_from_all [OF R(3) that] .
  with x R(1,2,4,5) up show ?thesis unfolding caught_up_def by metis
qed

theorem sse_feed_is_gapless_witness:
  "\<exists>s' w' evs fin. send_feed ex_brief ex_network ex_owner ex_baseline (replicate 2 (ex_env, s')) 0 True ex_writer
      = Some ((1, False, None), w')
    \<and> wr_bytes w' = concat (map (sse_event_bytes ex_brief) (evs @ fin))
    \<and> concat (map event_changes evs) = log_after (abs_owner ex_owner s') 0 \<and> log_after (abs_owner ex_owner s') 0 \<noteq> []"
proof -
  obtain s' where s': "db_inv s'" "a_baseline (abs_owner ex_owner s') = Some ex_baseline"
    "a_cursor (abs_owner ex_owner s') = 1" using ex_single_db by blast
  obtain c1 w' where run: "send_feed ex_brief ex_network ex_owner ex_baseline (replicate 2 (ex_env, s')) 0 True ex_writer
      = Some ((c1, False, None), w')"
    using send_feed_delivers [OF s'(1) ex_ready ex_network_def ex_feed_fits ex_feed_valid _ s'(2), of 0 2 True ex_writer]
    by (auto simp: s'(3) max_safe_integer_def)
  from sse_feed_is_gapless [OF run ex_reads [OF s'(1)]] obtain evs fin env s where
    "(env, s) \<in> set (replicate 2 (ex_env, s'))" "c1 = a_cursor (abs_owner ex_owner s)"
    "wr_bytes w' = wr_bytes ex_writer @ concat (map (sse_event_bytes ex_brief) (evs @ fin))"
    "concat (map event_changes evs) = log_after (abs_owner ex_owner s) 0" by auto
  then have "c1 = 1" "wr_bytes w' = concat (map (sse_event_bytes ex_brief) (evs @ fin))"
    "concat (map event_changes evs) = log_after (abs_owner ex_owner s') 0"
    using s'(3) by (simp_all add: ex_writer_def)
  moreover have "length (log_after (abs_owner ex_owner s') 0) = 1" using s'(3) by simp
  ultimately show ?thesis using run by (metis length_0_conv zero_neq_one)
qed

text \<open>
  The loop of \<open>sendFeed\<close> ends. If the owner's head stays below some bound while it runs, it
  returns after at most as many rounds as there are cursors between the client's and the bound, and
  one more, whatever the connection and the marshaller do.
\<close>

theorem sse_feed_terminates:
  assumes "consistent_reads reads" and "\<forall>(env, s) \<in> set reads. a_cursor (abs_owner ow s) \<le> H"
    and "unat H - unat c < length reads"
  shows "\<exists>c1 terminal e w'. send_feed M net ow b reads c send_ready w = Some ((c1, terminal, e), w')"
  using send_feed_returns [OF assms] by (metis surj_pair)

theorem sse_feed_terminates_witness:
  "\<exists>out. send_feed ex_marshal ex_network ex_owner ex_baseline [(ex_env, empty_db)] 0 True ex_writer = Some out"
  using sse_feed_terminates [of "[(ex_env, empty_db)]" ex_owner 0 0 ex_marshal ex_network ex_baseline True ex_writer]
    db_inv_empty ex_ready
  by (auto simp: consistent_reads_def abs_owner_empty a_cursor_def)

lemma send_feed_delivers_log:
  assumes inv: "db_inv s" and "ready env" and "net = (\<lambda>_. None)" and "feed_fits M env ow b s"
    and "validate_owner_key ow = Inr ()" and "validate_baseline_id b ''baseline_id'' = Inr ()"
    and head: "a_cursor (abs_owner ow s) \<le> max_safe_integer" and "a_baseline (abs_owner ow s) = Some b"
    and "c \<le> a_cursor (abs_owner ow s)" and "unat (a_cursor (abs_owner ow s)) - unat c < n"
  shows "\<exists>w' evs fin. send_feed M net ow b (replicate n (env, s)) c send_ready w = Some ((a_cursor (abs_owner ow s), False, None), w')
    \<and> wr_bytes w' = wr_bytes w @ concat (map (sse_event_bytes M) (evs @ fin))
    \<and> concat (map event_changes evs) = log_after (abs_owner ow s) c
    \<and> map (\<lambda>(event, ident, m). (event, ident)) fin
        = (if send_ready then [(''ready'', event_id b (a_cursor (abs_owner ow s)))] else [])"
proof -
  obtain c1 w' where run: "send_feed M net ow b (replicate n (env, s)) c send_ready w = Some ((c1, False, None), w')"
    using send_feed_delivers [OF assms(1-8)] assms(9,10) by blast
  have reads: "consistent_reads (replicate n (env, s))"
    using inv assms(2) by (induction n) (auto simp: consistent_reads_Cons, simp add: consistent_reads_def)
  from send_feed_result [OF run reads] obtain evs fin p env' s2 where
    R: "wr_bytes w' = wr_bytes w @ concat (map (sse_event_bytes M) (evs @ fin))"
      "(env', s2) \<in> set (replicate n (env, s))" "sent_from M (abs_owner ow s2) b c evs c1"
      "feed_ending M b send_ready c1 False None fin" "caught_up (abs_owner ow s2) b c c1" by auto
  then have s2: "s2 = s" and c1: "c1 = a_cursor (abs_owner ow s)" by (auto simp: caught_up_def split: if_splits)
  have "concat (map event_changes evs) = log_after (abs_owner ow s) c"
    using sent_from_all [OF R(3,5)] s2 by simp
  with R run c1 show ?thesis
    by (intro exI [of _ w'] exI [of _ evs] exI [of _ fin]) (auto simp: feed_ending_def)
qed

text \<open>
  C17. Delivery. On a connection that works, for a client on the owner's baseline whose cursor is
  not beyond the head, and as long as the pages it reads can be marshalled and every single change fits
  a message, \<open>sendFeed\<close> brings the client to the head without an error: every operation after the
  client's cursor is sent, and then the ready event if it was asked for.
\<close>

theorem sse_feed_delivers:
  assumes inv: "db_inv s" and "ready env" and "net = (\<lambda>_. None)" and "feed_fits M env ow b s"
    and "validate_owner_key ow = Inr ()" and "validate_baseline_id b ''baseline_id'' = Inr ()"
    and head: "a_cursor (abs_owner ow s) \<le> max_safe_integer" and "a_baseline (abs_owner ow s) = Some b"
    and "c \<le> a_cursor (abs_owner ow s)" and "unat (a_cursor (abs_owner ow s)) - unat c < n"
  shows "\<exists>w' evs fin. send_feed M net ow b (replicate n (env, s)) c send_ready w = Some ((a_cursor (abs_owner ow s), False, None), w')
    \<and> wr_bytes w' = wr_bytes w @ concat (map (sse_event_bytes M) (evs @ fin))
    \<and> concat (map event_changes evs) = log_after (abs_owner ow s) c
    \<and> map (\<lambda>(event, ident, m). (event, ident)) fin
        = (if send_ready then [(''ready'', event_id b (a_cursor (abs_owner ow s)))] else [])"
  by (rule send_feed_delivers_log [OF assms])

theorem sse_feed_delivers_witness:
  "\<exists>s' w'. a_cursor (abs_owner ex_owner s') = 1 \<and>
    send_feed ex_brief ex_network ex_owner ex_baseline (replicate 2 (ex_env, s')) 0 False ex_writer = Some ((1, False, None), w')"
proof -
  obtain s' where s': "db_inv s'" "a_baseline (abs_owner ex_owner s') = Some ex_baseline"
    "a_cursor (abs_owner ex_owner s') = 1" using ex_single_db by blast
  from sse_feed_delivers [OF s'(1) ex_ready ex_network_def ex_feed_fits ex_feed_valid _ s'(2), of 0 2 False ex_writer] s'(3)
  show ?thesis by (auto simp: max_safe_integer_def)
qed

lemma baseline_one_line:
  assumes "baseline_id_pattern b"
  shows "CHR 0x0A \<notin> set b"
proof -
  have "b = ''baseline_'' @ drop 9 b"
  proof -
    have "take 9 b = ''baseline_''" using assms by (simp add: baseline_id_pattern_def has_prefix_def numeral_eq_Suc)
    then show ?thesis by (metis append_take_drop_id)
  qed
  moreover have "CHR 0x0A \<notin> set (drop 9 b)"
    using assms by (auto simp: baseline_id_pattern_def list_all_iff is_lower_hex_def is_digit_def in_range_def)
  moreover have "CHR 0x0A \<notin> set ''baseline_''" by simp
  ultimately show ?thesis by (metis Un_iff set_append)
qed

lemma event_id_one_line:
  assumes "baseline_id_pattern b"
  shows "CHR 0x0A \<notin> set (event_id b c)"
proof -
  have "CHR 0x0A \<notin> set (format_uint c)"
    using decimal_digits [of "unat c"] digit_plain by (auto simp: format_uint_def list_all_iff)
  moreover have "CHR 0x0A \<notin> set b"
    using baseline_one_line [OF assms] .
  ultimately show ?thesis by (simp add: event_id_def)
qed

text \<open>
  C18. The stream can be read back. If \<open>sendFeed\<close> brought a client up to date on a fresh
  connection, then a client that splits the bytes into events and unpacks the payload of each gets
  exactly the messages that were marshalled, and their changes are the operations after its cursor.
\<close>

theorem sse_stream_round_trip:
  assumes run: "send_feed M net ow b reads c send_ready w = Some ((c1, False, None), w')" and reads: "consistent_reads reads"
    and "wr_bytes w = []" and b: "baseline_id_pattern b"
  shows "\<exists>evs env s. (env, s) \<in> set reads
    \<and> map (\<lambda>(event, ident, payload). (event, ident, envelope_payload payload)) (read_stream (wr_bytes w'))
        = map (\<lambda>(event, ident, m). (event, ident, case M m of Inl _ \<Rightarrow> None | Inr encoded \<Rightarrow> Some encoded)) evs
    \<and> list_all (\<lambda>(event, ident, m). fits M m) evs
    \<and> concat (map event_changes evs) = log_after (abs_owner ow s) c"
proof -
  from send_feed_result [OF run reads] obtain evs fin env s where
    R: "wr_bytes w' = concat (map (sse_event_bytes M) (evs @ fin))" "(env, s) \<in> set reads"
      "sent_from M (abs_owner ow s) b c evs c1" "feed_ending M b send_ready c1 False None fin"
      "caught_up (abs_owner ow s) b c c1" using assms(3) by auto
  have "list_all (\<lambda>(event, ident, m). fits M m \<and> CHR 0x0A \<notin> set event \<and> CHR 0x0A \<notin> set ident) evs"
    using R(3) event_id_one_line [OF b] by (auto simp: sent_from_def changes_event_def list_all_iff)
  moreover have "list_all (\<lambda>(event, ident, m). fits M m \<and> CHR 0x0A \<notin> set event \<and> CHR 0x0A \<notin> set ident) fin"
    using R(4) event_id_one_line [OF b] by (auto simp: feed_ending_def list_all_iff split: if_splits)
  ultimately have ok: "list_all (\<lambda>(event, ident, m). fits M m \<and> CHR 0x0A \<notin> set event \<and> CHR 0x0A \<notin> set ident) (evs @ fin)"
    by simp
  have "map event_changes fin = map (\<lambda>_. []) fin"
    using R(4) by (auto simp: feed_ending_def event_changes_def list_all_iff)
  then have "concat (map event_changes (evs @ fin)) = log_after (abs_owner ow s) c"
    using sent_from_all [OF R(3,5)] by (simp add: concat_eq_Nil_conv [THEN iffD2])
  moreover have "list_all (\<lambda>(event, ident, m). fits M m) (evs @ fin)"
    by (rule list.pred_mono_strong [OF ok]) auto
  ultimately show ?thesis using R(2) read_stream_events [OF ok, of "[]"] unfolding R(1) read_stream_def by blast
qed

theorem sse_stream_round_trip_witness:
  "\<exists>s' w' evs. send_feed ex_brief ex_network ex_owner ex_baseline (replicate 2 (ex_env, s')) 0 True ex_writer
      = Some ((1, False, None), w')
    \<and> map (\<lambda>(event, ident, payload). (event, ident, envelope_payload payload)) (read_stream (wr_bytes w'))
        = map (\<lambda>(event, ident, m). (event, ident, case ex_brief m of Inl _ \<Rightarrow> None | Inr encoded \<Rightarrow> Some encoded)) evs"
proof -
  obtain s' where s': "db_inv s'" "a_baseline (abs_owner ex_owner s') = Some ex_baseline"
    "a_cursor (abs_owner ex_owner s') = 1" using ex_single_db by blast
  obtain c1 w' where run: "send_feed ex_brief ex_network ex_owner ex_baseline (replicate 2 (ex_env, s')) 0 True ex_writer
      = Some ((c1, False, None), w')"
    using send_feed_delivers [OF s'(1) ex_ready ex_network_def ex_feed_fits ex_feed_valid _ s'(2), of 0 2 True ex_writer]
    by (auto simp: s'(3) max_safe_integer_def)
  have "c1 = 1"
    using send_feed_result [OF run ex_reads [OF s'(1)]] s'(3) by (auto simp: caught_up_def split: if_splits)
  with sse_stream_round_trip [OF run ex_reads [OF s'(1)]] run show ?thesis
    using ex_patterns by (auto simp: ex_writer_def)
qed

end
