(* ===== verification/WakeHub.thy ===== *)
theory WakeHub
  imports OwnerMap
begin

text \<open>
  The wake-up hub (\<open>internal/realtime/wake_hub.go\<close>). A subscription is a pointer to a struct with a
  channel of capacity one: the model has a heap of subscriptions, addressed by position, and a
  channel is its pending flag and its closed flag. Closing a closed channel and sending on one are
  panics, so every operation is a program that may fail with one. The mutex makes each method one
  step; the steps of different goroutines interleave in any order.
\<close>

datatype panic = CloseOfClosedChannel | SendOnClosedChannel

record wake_subscription =
  ws_owner_key :: string
  ws_pending :: bool
  ws_closed :: bool

record wake_hub =
  wk_heap :: "wake_subscription list"
  wk_by_owner :: "(nat, unit) owner_map"
  wk_closed :: bool

type_synonym 'a wake = "(wake_hub, panic, 'a) tx"

definition new_wake_hub :: wake_hub where
  "new_wake_hub = \<lparr>wk_heap = [], wk_by_owner = (\<lambda>_. None), wk_closed = False\<rparr>"

section \<open>Channels\<close>

text \<open>\<open>close(subscription.notifications)\<close>.\<close>

definition close_channel :: "nat \<Rightarrow> unit wake" where
  "close_channel i = (\<lambda>h.
     if ws_closed (wk_heap h ! i) then Inl CloseOfClosedChannel
     else Inr ((), h\<lparr>wk_heap := (wk_heap h)[i := (wk_heap h ! i)\<lparr>ws_closed := True\<rparr>]\<rparr>))"

text \<open>\<open>select { case subscription.notifications <- struct{}{}: default: }\<close>\<close>

definition offer_wake :: "nat \<Rightarrow> unit wake" where
  "offer_wake i = (\<lambda>h.
     if ws_closed (wk_heap h ! i) then Inl SendOnClosedChannel
     else if ws_pending (wk_heap h ! i) then Inr ((), h)
     else Inr ((), h\<lparr>wk_heap := (wk_heap h)[i := (wk_heap h ! i)\<lparr>ws_pending := True\<rparr>]\<rparr>))"

text \<open>
  A receive on \<open>Notifications()\<close>: the pending wake-up, or the end of a closed channel; \<^const>\<open>None\<close>
  when it blocks. A closed channel still delivers what is pending.
\<close>

definition receive_wake :: "nat \<Rightarrow> wake_hub \<Rightarrow> (bool \<times> wake_hub) option" where
  "receive_wake i h =
     (let s = wk_heap h ! i in
      if ws_pending s then Some (True, h\<lparr>wk_heap := (wk_heap h)[i := s\<lparr>ws_pending := False\<rparr>]\<rparr>)
      else if ws_closed s then Some (False, h) else None)"

section \<open>Methods\<close>

definition wake_register :: "string \<Rightarrow> nat wake" where
  "wake_register ow = (\<lambda>h.
     let i = length (wk_heap h);
         h' = h\<lparr>wk_heap := wk_heap h @ [\<lparr>ws_owner_key = ow, ws_pending = False, ws_closed = False\<rparr>]\<rparr>
     in if wk_closed h then tx_bind (close_channel i) (\<lambda>_. tx_return i) h'
        else Inr (i, h'\<lparr>wk_by_owner := om_put ow i () (wk_by_owner h')\<rparr>))"

definition wake_publish :: "string \<Rightarrow> unit wake" where
  "wake_publish ow = (\<lambda>h.
     if wk_closed h then Inr ((), h)
     else tx_foreach offer_wake (map fst (om_entries (wk_by_owner h) ow)) h)"

definition wake_unregister :: "nat option \<Rightarrow> unit wake" where
  "wake_unregister subscription = (\<lambda>h.
     case subscription of
       None \<Rightarrow> Inr ((), h)
     | Some i \<Rightarrow>
         (let ow = ws_owner_key (wk_heap h ! i) in
          if om_find (wk_by_owner h) ow i = None then Inr ((), h)
          else close_channel i (h\<lparr>wk_by_owner := om_delete ow i (wk_by_owner h)\<rparr>)))"

text \<open>
  \<open>Close\<close> ranges over the whole map; the order of the owners and of their subscriptions is that of
  the argument, any enumeration of the registered subscriptions.
\<close>

definition wake_close :: "nat list \<Rightarrow> unit wake" where
  "wake_close order = (\<lambda>h.
     if wk_closed h then Inr ((), h)
     else tx_bind (tx_foreach close_channel order)
            (\<lambda>_ h'. Inr ((), h'\<lparr>wk_by_owner := (\<lambda>_. None)\<rparr>))
            (h\<lparr>wk_closed := True\<rparr>))"

definition registered :: "wake_hub \<Rightarrow> nat \<Rightarrow> bool" where
  "registered h i \<longleftrightarrow> i < length (wk_heap h) \<and> om_find (wk_by_owner h) (ws_owner_key (wk_heap h ! i)) i \<noteq> None"

definition enumerates :: "nat list \<Rightarrow> wake_hub \<Rightarrow> bool" where
  "enumerates order h \<longleftrightarrow> distinct order \<and> set order = {i. \<exists>ow. om_find (wk_by_owner h) ow i \<noteq> None}"

section \<open>Steps\<close>

text \<open>A call may be made at any time; a subscription that is passed in was returned by the hub.\<close>

datatype wake_call =
    WakeRegister string
  | WakePublish string
  | WakeUnregister "nat option"
  | WakeClose "nat list"
  | WakeReceive nat

fun wake_call_ok :: "wake_hub \<Rightarrow> wake_call \<Rightarrow> bool" where
  "wake_call_ok h (WakeRegister ow) = True"
| "wake_call_ok h (WakePublish ow) = True"
| "wake_call_ok h (WakeUnregister s) = (case s of None \<Rightarrow> True | Some i \<Rightarrow> i < length (wk_heap h))"
| "wake_call_ok h (WakeClose order) = enumerates order h"
| "wake_call_ok h (WakeReceive i) = (i < length (wk_heap h))"

text \<open>A blocked receive leaves the hub as it is.\<close>

fun wake_run :: "wake_call \<Rightarrow> wake_hub \<Rightarrow> panic + wake_hub" where
  "wake_run (WakeRegister ow) h = (case wake_register ow h of Inl p \<Rightarrow> Inl p | Inr (i, h') \<Rightarrow> Inr h')"
| "wake_run (WakePublish ow) h = (case wake_publish ow h of Inl p \<Rightarrow> Inl p | Inr (u, h') \<Rightarrow> Inr h')"
| "wake_run (WakeUnregister s) h = (case wake_unregister s h of Inl p \<Rightarrow> Inl p | Inr (u, h') \<Rightarrow> Inr h')"
| "wake_run (WakeClose order) h = (case wake_close order h of Inl p \<Rightarrow> Inl p | Inr (u, h') \<Rightarrow> Inr h')"
| "wake_run (WakeReceive i) h = (case receive_wake i h of None \<Rightarrow> Inr h | Some (ok, h') \<Rightarrow> Inr h')"

inductive wake_reachable :: "wake_hub \<Rightarrow> bool" where
  start: "wake_reachable new_wake_hub"
| call: "wake_reachable h \<Longrightarrow> wake_call_ok h c \<Longrightarrow> wake_run c h = Inr h' \<Longrightarrow> wake_reachable h'"

section \<open>The invariant\<close>

text \<open>
  A subscription is registered exactly as long as its channel is open, under its own owner key, and
  a closed hub has no subscriptions. That is why no method closes a channel twice or sends on a
  closed one.
\<close>

definition wake_ok :: "wake_hub \<Rightarrow> bool" where
  "wake_ok h \<longleftrightarrow> om_ok (wk_by_owner h)
     \<and> (\<forall>ow i. om_find (wk_by_owner h) ow i \<noteq> None \<longrightarrow>
          i < length (wk_heap h) \<and> ws_owner_key (wk_heap h ! i) = ow \<and> \<not> ws_closed (wk_heap h ! i))
     \<and> (\<forall>i < length (wk_heap h). \<not> ws_closed (wk_heap h ! i) \<longrightarrow> registered h i)
     \<and> (wk_closed h \<longrightarrow> wk_by_owner h = (\<lambda>_. None))"

lemma wake_ok_new: "wake_ok new_wake_hub"
  by (simp add: wake_ok_def new_wake_hub_def)

lemma wake_ok_member:
  "wake_ok h \<Longrightarrow> i \<in> set (map fst (om_entries (wk_by_owner h) ow)) \<longleftrightarrow>
     i < length (wk_heap h) \<and> ws_owner_key (wk_heap h ! i) = ow \<and> \<not> ws_closed (wk_heap h ! i)"
proof -
  have "i \<in> set (map fst (om_entries (wk_by_owner h) ow)) \<longleftrightarrow> om_find (wk_by_owner h) ow i \<noteq> None"
    by (simp add: om_find_def map_of_eq_None_iff)
  moreover assume "wake_ok h"
  ultimately show ?thesis unfolding wake_ok_def registered_def by metis
qed

text \<open>Loops over open channels.\<close>

lemma offer_all:
  "\<forall>i \<in> set is. i < length (wk_heap h) \<and> \<not> ws_closed (wk_heap h ! i) \<Longrightarrow>
     \<exists>heap. tx_foreach offer_wake is h = Inr ((), h\<lparr>wk_heap := heap\<rparr>) \<and> length heap = length (wk_heap h)
       \<and> (\<forall>j < length (wk_heap h). heap ! j = (if j \<in> set is then (wk_heap h ! j)\<lparr>ws_pending := True\<rparr> else wk_heap h ! j))"
proof (induction "is" arbitrary: h)
  case Nil
  show ?case by (intro exI [of _ "wk_heap h"]) (simp add: tx_return_def)
next
  case (Cons i "is")
  define h1 where "h1 = h\<lparr>wk_heap := (wk_heap h)[i := (wk_heap h ! i)\<lparr>ws_pending := True\<rparr>]\<rparr>"
  have i: "i < length (wk_heap h)" "\<not> ws_closed (wk_heap h ! i)" using Cons.prems by simp_all
  have same: "(wk_heap h)[i := (wk_heap h ! i)\<lparr>ws_pending := True\<rparr>] = wk_heap h" if "ws_pending (wk_heap h ! i)"
    using that by (intro list_update_same_conv [THEN iffD2]) (simp_all add: i)
  have step: "offer_wake i h = Inr ((), h1)"
    using i same by (cases "ws_pending (wk_heap h ! i)") (simp_all add: offer_wake_def h1_def)
  have "\<forall>j \<in> set is. j < length (wk_heap h1) \<and> \<not> ws_closed (wk_heap h1 ! j)"
    using Cons.prems by (auto simp: h1_def nth_list_update)
  from Cons.IH [OF this] obtain heap where heap: "tx_foreach offer_wake is h1 = Inr ((), h1\<lparr>wk_heap := heap\<rparr>)"
    "length heap = length (wk_heap h1)"
    "\<forall>j < length (wk_heap h1). heap ! j = (if j \<in> set is then (wk_heap h1 ! j)\<lparr>ws_pending := True\<rparr> else wk_heap h1 ! j)"
    by blast
  then show ?case using step i
    by (intro exI [of _ heap]) (auto simp: h1_def nth_list_update)
qed

lemma close_all:
  "distinct is \<Longrightarrow> \<forall>i \<in> set is. i < length (wk_heap h) \<and> \<not> ws_closed (wk_heap h ! i) \<Longrightarrow>
     \<exists>heap. tx_foreach close_channel is h = Inr ((), h\<lparr>wk_heap := heap\<rparr>) \<and> length heap = length (wk_heap h)
       \<and> (\<forall>j < length (wk_heap h). heap ! j = (if j \<in> set is then (wk_heap h ! j)\<lparr>ws_closed := True\<rparr> else wk_heap h ! j))"
proof (induction "is" arbitrary: h)
  case Nil
  show ?case by (intro exI [of _ "wk_heap h"]) (simp add: tx_return_def)
next
  case (Cons i "is")
  define h1 where "h1 = h\<lparr>wk_heap := (wk_heap h)[i := (wk_heap h ! i)\<lparr>ws_closed := True\<rparr>]\<rparr>"
  have i: "i < length (wk_heap h)" "\<not> ws_closed (wk_heap h ! i)" "i \<notin> set is" using Cons.prems by simp_all
  have step: "close_channel i h = Inr ((), h1)" using i by (simp add: close_channel_def h1_def)
  have "\<forall>j \<in> set is. j < length (wk_heap h1) \<and> \<not> ws_closed (wk_heap h1 ! j)"
    using Cons.prems i by (auto simp: h1_def nth_list_update)
  from Cons.IH [OF _ this] Cons.prems(1) obtain heap where heap: "tx_foreach close_channel is h1 = Inr ((), h1\<lparr>wk_heap := heap\<rparr>)"
    "length heap = length (wk_heap h1)"
    "\<forall>j < length (wk_heap h1). heap ! j = (if j \<in> set is then (wk_heap h1 ! j)\<lparr>ws_closed := True\<rparr> else wk_heap h1 ! j)"
    by auto
  then show ?case using step i
    by (intro exI [of _ heap]) (auto simp: h1_def nth_list_update)
qed

section \<open>The methods under the invariant\<close>

lemma wake_register_run:
  assumes "wake_ok h"
  shows "\<exists>h'. wake_register ow h = Inr (length (wk_heap h), h') \<and> wake_ok h' \<and> wk_closed h' = wk_closed h
    \<and> wk_heap h' = wk_heap h @ [\<lparr>ws_owner_key = ow, ws_pending = False, ws_closed = wk_closed h\<rparr>]"
proof (cases "wk_closed h")
  case True
  with assms show ?thesis
    by (auto simp: wake_register_def Let_def close_channel_def tx_bind_def tx_return_def wake_ok_def registered_def
        nth_append less_Suc_eq)
next
  case False
  have "om_find (wk_by_owner h) o' (length (wk_heap h)) = None" for o'
    using assms unfolding wake_ok_def by (metis less_irrefl)
  with False assms show ?thesis
    by (auto simp: wake_register_def Let_def wake_ok_def registered_def nth_append less_Suc_eq
        owner_maps.find_put owner_maps.ok_put split: if_splits)
qed

lemma wake_publish_run:
  assumes "wake_ok h"
  shows "\<exists>heap. wake_publish ow h = Inr ((), h\<lparr>wk_heap := heap\<rparr>) \<and> wake_ok (h\<lparr>wk_heap := heap\<rparr>)
    \<and> length heap = length (wk_heap h)
    \<and> (\<forall>j < length (wk_heap h). heap ! j =
         (if registered h j \<and> ws_owner_key (wk_heap h ! j) = ow then (wk_heap h ! j)\<lparr>ws_pending := True\<rparr> else wk_heap h ! j))"
proof -
  let ?is = "map fst (om_entries (wk_by_owner h) ow)"
  note member = wake_ok_member [OF assms]
  have reg: "registered h j \<longleftrightarrow> \<not> ws_closed (wk_heap h ! j)" if "j < length (wk_heap h)" for j
    using assms that by (auto simp: wake_ok_def registered_def)
  have shape: "wake_ok (h\<lparr>wk_heap := heap\<rparr>)"
    if "length heap = length (wk_heap h)" "\<forall>j < length (wk_heap h). \<exists>p. heap ! j = (wk_heap h ! j)\<lparr>ws_pending := p\<rparr>" for heap
  proof -
    have eq: "ws_owner_key (heap ! j) = ws_owner_key (wk_heap h ! j)" "ws_closed (heap ! j) = ws_closed (wk_heap h ! j)"
      if "j < length (wk_heap h)" for j using \<open>\<forall>j < length (wk_heap h). _ j\<close> that by fastforce+
    show ?thesis using assms eq \<open>length heap = length (wk_heap h)\<close> by (simp add: wake_ok_def registered_def)
  qed
  show ?thesis
  proof (cases "wk_closed h")
    case True
    then have "\<not> registered h j" for j using assms by (simp add: wake_ok_def registered_def)
    with True assms show ?thesis by (intro exI [of _ "wk_heap h"]) (simp add: wake_publish_def)
  next
    case False
    obtain heap where heap: "tx_foreach offer_wake ?is h = Inr ((), h\<lparr>wk_heap := heap\<rparr>)" "length heap = length (wk_heap h)"
      "\<forall>j < length (wk_heap h). heap ! j = (if j \<in> set ?is then (wk_heap h ! j)\<lparr>ws_pending := True\<rparr> else wk_heap h ! j)"
      using offer_all [of ?is h] member by blast
    have "\<exists>p. heap ! j = (wk_heap h ! j)\<lparr>ws_pending := p\<rparr>" if "j < length (wk_heap h)" for j
      using heap(3) that by (cases "j \<in> set ?is") (auto intro: exI [of _ "ws_pending (wk_heap h ! j)"])
    then have "wake_ok (h\<lparr>wk_heap := heap\<rparr>)" using shape heap(2) by blast
    moreover have "wake_publish ow h = Inr ((), h\<lparr>wk_heap := heap\<rparr>)" using False heap(1) by (simp add: wake_publish_def)
    moreover have "\<forall>j < length (wk_heap h). heap ! j =
        (if registered h j \<and> ws_owner_key (wk_heap h ! j) = ow then (wk_heap h ! j)\<lparr>ws_pending := True\<rparr> else wk_heap h ! j)"
      using heap(3) member reg by auto
    ultimately show ?thesis using heap(2) by blast
  qed
qed

lemma wake_unregister_run:
  assumes "wake_ok h" and "wake_call_ok h (WakeUnregister s)"
  shows "\<exists>h'. wake_unregister s h = Inr ((), h') \<and> wake_ok h' \<and> wk_closed h' = wk_closed h
    \<and> length (wk_heap h') = length (wk_heap h)
    \<and> (\<forall>j < length (wk_heap h). wk_heap h' ! j =
         (if s = Some j \<and> registered h j then (wk_heap h ! j)\<lparr>ws_closed := True\<rparr> else wk_heap h ! j))"
proof (cases s)
  case None
  with assms show ?thesis by (simp add: wake_unregister_def)
next
  case (Some i)
  have i: "i < length (wk_heap h)" using assms(2) Some by simp
  show ?thesis
  proof (cases "registered h i")
    case False
    with Some i assms(1) show ?thesis by (simp add: wake_unregister_def registered_def Let_def)
  next
    case True
    let ?ow = "ws_owner_key (wk_heap h ! i)"
    let ?h = "h\<lparr>wk_by_owner := om_delete ?ow i (wk_by_owner h),
      wk_heap := (wk_heap h)[i := (wk_heap h ! i)\<lparr>ws_closed := True\<rparr>]\<rparr>"
    have open_i: "\<not> ws_closed (wk_heap h ! i)" and live: "\<not> wk_closed h"
      using assms(1) True by (auto simp: wake_ok_def registered_def)
    have run: "wake_unregister s h = Inr ((), ?h)"
      using Some True open_i by (simp add: wake_unregister_def registered_def Let_def close_channel_def)
    have "om_ok (om_delete ?ow i (wk_by_owner h))"
      using assms(1) by (simp add: wake_ok_def owner_maps.ok_delete)
    moreover have "j < length (wk_heap h) \<and> ws_owner_key (wk_heap ?h ! j) = o' \<and> \<not> ws_closed (wk_heap ?h ! j)"
      if "om_find (om_delete ?ow i (wk_by_owner h)) o' j \<noteq> None" for o' j
    proof -
      have f: "\<not> (o' = ?ow \<and> j = i)" "om_find (wk_by_owner h) o' j \<noteq> None"
        using that by (auto simp: owner_maps.find_delete split: if_splits)
      then have "j < length (wk_heap h)" "ws_owner_key (wk_heap h ! j) = o'" "\<not> ws_closed (wk_heap h ! j)"
        using assms(1) unfolding wake_ok_def by blast+
      moreover have "j \<noteq> i" using f(1) calculation(2) by auto
      ultimately show ?thesis by simp
    qed
    moreover have "om_find (om_delete ?ow i (wk_by_owner h)) (ws_owner_key (wk_heap ?h ! j)) j \<noteq> None"
      if "j < length (wk_heap h)" "\<not> ws_closed (wk_heap ?h ! j)" for j
    proof -
      have "j \<noteq> i" using that i by auto
      then show ?thesis using assms(1) that by (auto simp: owner_maps.find_delete wake_ok_def registered_def)
    qed
    ultimately have "wake_ok ?h" using live by (auto simp: wake_ok_def registered_def)
    with run show ?thesis using Some True i by (auto simp: nth_list_update)
  qed
qed

lemma wake_close_run:
  assumes ok: "wake_ok h" and order: "enumerates order h"
  shows "\<exists>h'. wake_close order h = Inr ((), h') \<and> wake_ok h' \<and> wk_closed h'
    \<and> length (wk_heap h') = length (wk_heap h)
    \<and> (\<forall>j < length (wk_heap h). wk_heap h' ! j = (wk_heap h ! j)\<lparr>ws_closed := True\<rparr>)"
proof (cases "wk_closed h")
  case True
  then have "ws_closed (wk_heap h ! j)" if "j < length (wk_heap h)" for j
    using ok that by (auto simp: wake_ok_def registered_def)
  with True ok show ?thesis by (intro exI [of _ h]) (simp add: wake_close_def)
next
  case False
  let ?h = "h\<lparr>wk_closed := True\<rparr>"
  have members: "i \<in> set order \<longleftrightarrow> i < length (wk_heap h) \<and> \<not> ws_closed (wk_heap h ! i)" for i
  proof
    assume "i \<in> set order"
    then obtain ow where "om_find (wk_by_owner h) ow i \<noteq> None" using order by (auto simp: enumerates_def)
    with ok show "i < length (wk_heap h) \<and> \<not> ws_closed (wk_heap h ! i)" unfolding wake_ok_def by blast
  next
    assume "i < length (wk_heap h) \<and> \<not> ws_closed (wk_heap h ! i)"
    with ok have "registered h i" by (simp add: wake_ok_def)
    with order show "i \<in> set order" by (auto simp: enumerates_def registered_def)
  qed
  have "distinct order" using order by (simp add: enumerates_def)
  from close_all [OF this, of ?h] members obtain heap where
    heap: "tx_foreach close_channel order ?h = Inr ((), ?h\<lparr>wk_heap := heap\<rparr>)" "length heap = length (wk_heap h)"
    "\<forall>j < length (wk_heap h). heap ! j = (if j \<in> set order then (wk_heap h ! j)\<lparr>ws_closed := True\<rparr> else wk_heap h ! j)"
    by auto
  have closed: "heap ! j = (wk_heap h ! j)\<lparr>ws_closed := True\<rparr>" if "j < length (wk_heap h)" for j
    using heap(3) members [of j] that by (cases "j \<in> set order") simp_all
  then have "wake_ok (?h\<lparr>wk_heap := heap, wk_by_owner := (\<lambda>_. None)\<rparr>)"
    using heap(2) by (simp add: wake_ok_def)
  then show ?thesis using False heap closed by (simp add: wake_close_def)
qed

lemma receive_wake_ok:
  assumes "wake_ok h" and "i < length (wk_heap h)" and "receive_wake i h = Some (b, h')"
  shows "wake_ok h'"
  using assms
  by (auto simp: receive_wake_def Let_def wake_ok_def registered_def nth_list_update split: if_splits)

lemma wake_run_ok:
  assumes "wake_ok h" and "wake_call_ok h c"
  shows "\<exists>h'. wake_run c h = Inr h' \<and> wake_ok h'"
proof (cases c)
  case (WakeRegister ow)
  then show ?thesis using wake_register_run [OF assms(1), of ow] by auto
next
  case (WakePublish ow)
  then show ?thesis using wake_publish_run [OF assms(1), of ow] by auto
next
  case (WakeUnregister s)
  then show ?thesis using wake_unregister_run [OF assms(1), of s] assms(2) by fastforce
next
  case (WakeClose order)
  then show ?thesis using wake_close_run [OF assms(1), of order] assms(2) by auto
next
  case (WakeReceive i)
  then show ?thesis using receive_wake_ok [OF assms(1), of i] assms by (auto split: option.splits)
qed

lemma wake_reachable_ok: "wake_reachable h \<Longrightarrow> wake_ok h"
proof (induction rule: wake_reachable.induct)
  case (call h c h')
  then show ?case using wake_run_ok [of h c] by auto
qed (rule wake_ok_new)

section \<open>A pending wake-up stays\<close>

fun wake_runs :: "wake_call list \<Rightarrow> wake_hub \<Rightarrow> wake_hub \<Rightarrow> bool" where
  "wake_runs [] h h' = (h' = h)"
| "wake_runs (c # cs) h h' = (wake_call_ok h c \<and> (\<exists>h1. wake_run c h = Inr h1 \<and> wake_runs cs h1 h'))"

lemma pending_stays:
  assumes ok: "wake_ok h" and call: "wake_call_ok h c" and run: "wake_run c h = Inr h'"
    and i: "i < length (wk_heap h)" "ws_pending (wk_heap h ! i)" and c: "c \<noteq> WakeReceive i"
  shows "i < length (wk_heap h') \<and> ws_pending (wk_heap h' ! i)"
proof (cases c)
  case (WakeRegister ow)
  then show ?thesis using wake_register_run [OF ok, of ow] run i by (auto simp: nth_append)
next
  case (WakePublish ow)
  then show ?thesis using wake_publish_run [OF ok, of ow] run i by auto
next
  case (WakeUnregister s)
  then show ?thesis using wake_unregister_run [OF ok, of s] call run i by fastforce
next
  case (WakeClose order)
  then show ?thesis using wake_close_run [OF ok, of order] call run i by auto
next
  case (WakeReceive j)
  then show ?thesis using c i run
    by (auto simp: receive_wake_def Let_def nth_list_update split: option.splits if_splits)
qed

lemma pending_stays_runs:
  "wake_runs cs h h' \<Longrightarrow> wake_ok h \<Longrightarrow> i < length (wk_heap h) \<Longrightarrow> ws_pending (wk_heap h ! i) \<Longrightarrow>
     WakeReceive i \<notin> set cs \<Longrightarrow> i < length (wk_heap h') \<and> ws_pending (wk_heap h' ! i)"
proof (induction cs arbitrary: h)
  case (Cons c cs)
  then obtain h1 where h1: "wake_call_ok h c" "wake_run c h = Inr h1" "wake_runs cs h1 h'" by auto
  have "wake_ok h1" using wake_run_ok [OF Cons.prems(2) h1(1)] h1(2) by auto
  moreover have "i < length (wk_heap h1) \<and> ws_pending (wk_heap h1 ! i)"
    using pending_stays [OF Cons.prems(2) h1(1,2) Cons.prems(3,4)] Cons.prems(5) by auto
  ultimately show ?case using Cons.IH [OF h1(3)] Cons.prems(5) by auto
qed simp

end
