(* ===== verification/Redis.thy ===== *)
theory Redis
  imports GoStrings Errors "HOL-Library.AList"
begin

text \<open>
  Coordination through Redis (\<open>internal/realtime/redis.go\<close>): the fixed window of the rate limit and
  the connection leases. The two are Lua scripts that Redis runs atomically. Redis itself is not
  part of the repository: its commands are a record that the scripts take as an argument, over a
  state of any type, and what the scripts rely on of their documentation are the two locales. Times
  and durations are in milliseconds, as in the scripts.
\<close>

section \<open>Commands\<close>

text \<open>The first argument of each command is the time of the Redis server.\<close>

record 's redis_commands =
  rd_get :: "int \<Rightarrow> string \<Rightarrow> 's \<Rightarrow> int option"
  rd_set_px :: "int \<Rightarrow> string \<Rightarrow> int \<Rightarrow> int \<Rightarrow> 's \<Rightarrow> 's"
  rd_pttl :: "int \<Rightarrow> string \<Rightarrow> 's \<Rightarrow> int"
  rd_incr :: "int \<Rightarrow> string \<Rightarrow> 's \<Rightarrow> 's"
  rd_zremrangebyscore :: "int \<Rightarrow> string \<Rightarrow> int \<Rightarrow> 's \<Rightarrow> 's"
  rd_zcard :: "int \<Rightarrow> string \<Rightarrow> 's \<Rightarrow> nat"
  rd_zadd :: "int \<Rightarrow> string \<Rightarrow> int \<Rightarrow> string \<Rightarrow> 's \<Rightarrow> 's"
  rd_zscore :: "int \<Rightarrow> string \<Rightarrow> string \<Rightarrow> 's \<Rightarrow> int option"
  rd_zrem :: "int \<Rightarrow> string \<Rightarrow> string \<Rightarrow> 's \<Rightarrow> 's"
  rd_pexpire :: "int \<Rightarrow> string \<Rightarrow> int \<Rightarrow> 's \<Rightarrow> 's"

section \<open>Scripts\<close>

text \<open>\<open>fixedWindowScript\<close> with \<open>KEYS[1]\<close>, the limit \<open>ARGV[1]\<close> and the window \<open>ARGV[2]\<close>.\<close>

definition fixed_window_script :: "'s redis_commands \<Rightarrow> int \<Rightarrow> string \<Rightarrow> int \<Rightarrow> int \<Rightarrow> 's \<Rightarrow> int \<times> 's" where
  "fixed_window_script C now key limit window s =
     (case rd_get C now key s of
        None \<Rightarrow> (0, rd_set_px C now key 1 window s)
      | Some current \<Rightarrow>
          if current \<ge> limit then
            (let ttl = rd_pttl C now key s in (if ttl < 1 then 1000 else ttl, s))
          else (0, rd_incr C now key s))"

text \<open>\<open>acquireLeaseScript\<close>: now, expiry, maximum, member, life of the key.\<close>

definition acquire_lease_script ::
  "'s redis_commands \<Rightarrow> int \<Rightarrow> string \<Rightarrow> int \<Rightarrow> int \<Rightarrow> int \<Rightarrow> string \<Rightarrow> int \<Rightarrow> 's \<Rightarrow> int \<times> 's" where
  "acquire_lease_script C now key argv1 argv2 argv3 argv4 argv5 s =
     (let s1 = rd_zremrangebyscore C now key argv1 s in
      if int (rd_zcard C now key s1) \<ge> argv3 then (0, s1)
      else (1, rd_pexpire C now key argv5 (rd_zadd C now key argv2 argv4 s1)))"

definition refresh_lease_script ::
  "'s redis_commands \<Rightarrow> int \<Rightarrow> string \<Rightarrow> string \<Rightarrow> int \<Rightarrow> int \<Rightarrow> 's \<Rightarrow> int \<times> 's" where
  "refresh_lease_script C now key argv1 argv2 argv3 s =
     (if rd_zscore C now key argv1 s = None then (0, s)
      else (1, rd_pexpire C now key argv3 (rd_zadd C now key argv2 argv1 s)))"

section \<open>Methods of the client\<close>

text \<open>
  The client has the prefix of its keys. The outside of a call: the time of the Redis server, the
  clock of the process, how many attempts ran on the server and lost their reply (the client library
  may then try again), and whether the last attempt fails before it runs. A call that fails may so
  have had its effect, and one that succeeds may have had it more than once.
\<close>

record redis_call =
  rc_server_now :: int
  rc_process_now :: int
  rc_lost :: nat
  rc_failure :: "err option"

definition redis_attempts :: "redis_call \<Rightarrow> ('s \<Rightarrow> 'r \<times> 's) \<Rightarrow> 's \<Rightarrow> (err + 'r) \<times> 's" where
  "redis_attempts env command s =
     (let s1 = ((\<lambda>s. snd (command s)) ^^ rc_lost env) s in
      case rc_failure env of
        Some e \<Rightarrow> (Inl e, s1)
      | None \<Rightarrow> (let (reply, s2) = command s1 in (Inr reply, s2)))"

datatype connection_error = ErrConnectionLimit | RedisFailure err

definition default_lease_ttl :: int where "default_lease_ttl = 75000"

definition rate_key :: "string \<Rightarrow> string \<Rightarrow> string \<Rightarrow> string" where
  "rate_key prefix operation ow = prefix @ ''rate:'' @ operation @ '':'' @ ow"

definition connections_key :: "string \<Rightarrow> string \<Rightarrow> string" where
  "connections_key prefix ow = prefix @ ''connections:'' @ ow"

definition check_fixed_window ::
  "'s redis_commands \<Rightarrow> string \<Rightarrow> redis_call \<Rightarrow> string \<Rightarrow> string \<Rightarrow> int \<Rightarrow> int \<Rightarrow> 's \<Rightarrow> (err + int) \<times> 's" where
  "check_fixed_window C prefix env operation ow limit window s =
     redis_attempts env (fixed_window_script C (rc_server_now env) (rate_key prefix operation ow) limit window) s"

definition acquire_connection ::
  "'s redis_commands \<Rightarrow> string \<Rightarrow> redis_call \<Rightarrow> string \<Rightarrow> string \<Rightarrow> int \<Rightarrow> int \<Rightarrow> 's \<Rightarrow> (connection_error + unit) \<times> 's" where
  "acquire_connection C prefix env ow connection max_connections ttl s =
     (let now = rc_process_now env;
          (reply, s') = redis_attempts env (acquire_lease_script C (rc_server_now env) (connections_key prefix ow)
                          now (now + ttl) max_connections connection (2 * ttl)) s
      in (case reply of
            Inl e \<Rightarrow> Inl (RedisFailure e)
          | Inr result \<Rightarrow> if result \<noteq> 1 then Inl ErrConnectionLimit else Inr (), s'))"

definition refresh_connection ::
  "'s redis_commands \<Rightarrow> string \<Rightarrow> redis_call \<Rightarrow> string \<Rightarrow> string \<Rightarrow> int \<Rightarrow> 's \<Rightarrow> (err + bool) \<times> 's" where
  "refresh_connection C prefix env ow connection ttl s =
     (let (reply, s') = redis_attempts env (refresh_lease_script C (rc_server_now env) (connections_key prefix ow)
                          connection (rc_process_now env + ttl) (2 * ttl)) s
      in (case reply of Inl e \<Rightarrow> Inl e | Inr result \<Rightarrow> Inr (result = 1), s'))"

definition release_connection ::
  "'s redis_commands \<Rightarrow> string \<Rightarrow> redis_call \<Rightarrow> string \<Rightarrow> string \<Rightarrow> 's \<Rightarrow> (err + unit) \<times> 's" where
  "release_connection C prefix env ow connection s =
     redis_attempts env (\<lambda>s. ((), rd_zrem C (rc_server_now env) (connections_key prefix ow) connection s)) s"

text \<open>
  \<open>RetryAfterSeconds\<close>, on milliseconds: rounded up, at least one. The code rounds a number of
  nanoseconds that is a multiple of a million, which is the same.
\<close>

definition retry_after_seconds :: "int \<Rightarrow> int" where
  "retry_after_seconds delay = (let seconds = (delay + 999) div 1000 in if seconds < 1 then 1 else seconds)"

section \<open>What the documentation of Redis promises\<close>

text \<open>
  A counter key has a value and the time at which it expires. \<open>view\<close> is what is stored; an expired
  entry may still be there but no command sees it.
\<close>

locale redis_counters =
  fixes C :: "'s redis_commands" and view :: "'s \<Rightarrow> string \<Rightarrow> (int \<times> int) option"
  assumes get: "rd_get C now key s = (case view s key of Some (v, e) \<Rightarrow> if now < e then Some v else None | None \<Rightarrow> None)"
    and set_px: "view (rd_set_px C now key v px s) = (view s)(key \<mapsto> (v, now + px))"
    and pttl: "view s key = Some (v, e) \<Longrightarrow> now < e \<Longrightarrow> rd_pttl C now key s = e - now"
    and incr: "view s key = Some (v, e) \<Longrightarrow> now < e \<Longrightarrow> view (rd_incr C now key s) = (view s)(key \<mapsto> (v + 1, e))"
begin

text \<open>The script, case by case: a new window, a request in it, a request beyond it.\<close>

lemma window_new:
  assumes "view s key = None \<or> (\<exists>v e. view s key = Some (v, e) \<and> e \<le> now)"
  shows "fst (fixed_window_script C now key limit window s) = 0"
    and "view (snd (fixed_window_script C now key limit window s)) = (view s)(key \<mapsto> (1, now + window))"
  using assms by (auto simp: fixed_window_script_def get set_px)

lemma window_more:
  assumes "view s key = Some (v, e)" and "now < e" and "v < limit"
  shows "fst (fixed_window_script C now key limit window s) = 0"
    and "view (snd (fixed_window_script C now key limit window s)) = (view s)(key \<mapsto> (v + 1, e))"
  using assms by (auto simp: fixed_window_script_def get incr)

lemma window_full:
  assumes "view s key = Some (v, e)" and "now < e" and "limit \<le> v"
  shows "fixed_window_script C now key limit window s = (e - now, s)"
  using assms by (simp add: fixed_window_script_def get pttl)

end

text \<open>The leases that have not run out by the clock of a process.\<close>

definition unexpired :: "int \<Rightarrow> (string \<Rightarrow> int option) \<Rightarrow> string \<Rightarrow> int option" where
  "unexpired t l = (\<lambda>m. case l m of Some sc \<Rightarrow> if sc \<le> t then None else Some sc | None \<Rightarrow> None)"

text \<open>
  A sorted set has scores, and the key may expire as a whole. \<open>leases\<close> is what is in the set at a
  time of the server.
\<close>

locale redis_sorted_sets =
  fixes C :: "'s redis_commands" and leases :: "int \<Rightarrow> 's \<Rightarrow> string \<Rightarrow> string \<Rightarrow> int option"
  assumes fin: "finite (dom (leases now s key))"
    and expiry: "now \<le> later \<Longrightarrow> leases later s key = leases now s key \<or> leases later s key = Map.empty"
    and zremrangebyscore: "leases now (rd_zremrangebyscore C now key mx s) key
          = (\<lambda>m. case leases now s key m of Some sc \<Rightarrow> if sc \<le> mx then None else Some sc | None \<Rightarrow> None)"
    and zcard: "rd_zcard C now key s = card (dom (leases now s key))"
    and zadd: "leases now (rd_zadd C now key sc m s) key = (leases now s key)(m \<mapsto> sc)"
    and zscore: "rd_zscore C now key m s = leases now s key m"
    and zrem: "leases now (rd_zrem C now key m s) key = (leases now s key)(m := None)"
    and pexpire: "0 < ms \<Longrightarrow> leases now (rd_pexpire C now key ms s) key = leases now s key"
    and others: "key' \<noteq> key \<Longrightarrow> leases now (rd_zremrangebyscore C now key mx s) key' = leases now s key'"
      "key' \<noteq> key \<Longrightarrow> leases now (rd_zadd C now key sc m s) key' = leases now s key'"
      "key' \<noteq> key \<Longrightarrow> leases now (rd_zrem C now key m s) key' = leases now s key'"
      "key' \<noteq> key \<Longrightarrow> leases now (rd_pexpire C now key ms s) key' = leases now s key'"
begin

lemma acquire_script:
  assumes "0 < life"
  shows "acquire_lease_script C now key t ends mx m life s =
    (if int (card (dom (unexpired t (leases now s key)))) \<ge> mx
     then (0, rd_zremrangebyscore C now key t s)
     else (1, rd_pexpire C now key life (rd_zadd C now key ends m (rd_zremrangebyscore C now key t s))))"
    and "leases now (snd (acquire_lease_script C now key t ends mx m life s)) key =
      (if int (card (dom (unexpired t (leases now s key)))) \<ge> mx then unexpired t (leases now s key)
       else (unexpired t (leases now s key))(m \<mapsto> ends))"
  using assms by (simp_all add: acquire_lease_script_def Let_def zcard zremrangebyscore unexpired_def zadd pexpire)

lemma refresh_script:
  assumes "0 < life"
  shows "leases now (snd (refresh_lease_script C now key m ends life s)) key =
      (if leases now s key m = None then leases now s key else (leases now s key)(m \<mapsto> ends))"
    and "fst (refresh_lease_script C now key m ends life s) = (if leases now s key m = None then 0 else 1)"
  using assms by (simp_all add: refresh_lease_script_def zscore zadd pexpire)

end

section \<open>A server in memory\<close>

text \<open>
  The promises can be kept: a server that holds counters and sorted sets in tables, each entry with
  its time of expiry, and looks at that time in every command.
\<close>

record memory_redis =
  mr_counters :: "string \<Rightarrow> (int \<times> int) option"
  mr_sets :: "string \<Rightarrow> ((string \<times> int) list \<times> int option) option"

definition empty_redis :: memory_redis where
  "empty_redis = \<lparr>mr_counters = Map.empty, mr_sets = Map.empty\<rparr>"

definition mr_set :: "int \<Rightarrow> string \<Rightarrow> memory_redis \<Rightarrow> (string \<times> int) list \<times> int option" where
  "mr_set now key s =
     (case mr_sets s key of
        None \<Rightarrow> ([], None)
      | Some (l, e) \<Rightarrow> (case e of Some t \<Rightarrow> if t \<le> now then ([], None) else (l, e) | None \<Rightarrow> (l, e)))"

definition mr_change :: "int \<Rightarrow> string \<Rightarrow> ((string \<times> int) list \<Rightarrow> (string \<times> int) list) \<Rightarrow> memory_redis \<Rightarrow> memory_redis" where
  "mr_change now key f s =
     (let (l, e) = mr_set now key s in s\<lparr>mr_sets := (mr_sets s)(key \<mapsto> (f (AList.clearjunk l), e))\<rparr>)"

definition memory_commands :: "memory_redis redis_commands" where
  "memory_commands =
     \<lparr>rd_get = (\<lambda>now key s. case mr_counters s key of Some (v, e) \<Rightarrow> if now < e then Some v else None | None \<Rightarrow> None),
      rd_set_px = (\<lambda>now key v px s. s\<lparr>mr_counters := (mr_counters s)(key \<mapsto> (v, now + px))\<rparr>),
      rd_pttl = (\<lambda>now key s. case mr_counters s key of Some (v, e) \<Rightarrow> if now < e then e - now else -2 | None \<Rightarrow> -2),
      rd_incr = (\<lambda>now key s. case mr_counters s key of
          Some (v, e) \<Rightarrow> s\<lparr>mr_counters := (mr_counters s)(key \<mapsto> (v + 1, e))\<rparr> | None \<Rightarrow> s),
      rd_zremrangebyscore = (\<lambda>now key mx. mr_change now key (filter (\<lambda>(m, sc). \<not> sc \<le> mx))),
      rd_zcard = (\<lambda>now key s. card (fst ` set (fst (mr_set now key s)))),
      rd_zadd = (\<lambda>now key sc m. mr_change now key (\<lambda>l. (m, sc) # filter (\<lambda>e. fst e \<noteq> m) l)),
      rd_zscore = (\<lambda>now key m s. map_of (fst (mr_set now key s)) m),
      rd_zrem = (\<lambda>now key m. mr_change now key (filter (\<lambda>e. fst e \<noteq> m))),
      rd_pexpire = (\<lambda>now key ms s. let (l, e) = mr_set now key s in s\<lparr>mr_sets := (mr_sets s)(key \<mapsto> (l, Some (now + ms)))\<rparr>)\<rparr>"

definition mr_leases :: "int \<Rightarrow> memory_redis \<Rightarrow> string \<Rightarrow> string \<Rightarrow> int option" where
  "mr_leases now s key = map_of (fst (mr_set now key s))"

interpretation memory_counters: redis_counters memory_commands mr_counters
  by unfold_locales (auto simp: memory_commands_def split: option.splits)

lemma mr_set_change:
  "mr_set now key' (mr_change now key f s) = (if key' = key then (f (AList.clearjunk (fst (mr_set now key s))), snd (mr_set now key s)) else mr_set now key' s)"
  by (cases "mr_set now key s") (auto simp: mr_change_def mr_set_def split: option.splits if_splits prod.splits)

lemma map_of_filter_key: "map_of (filter (\<lambda>e. fst e \<noteq> m) l) = (map_of l)(m := None)"
  by (induction l) (auto simp: fun_eq_iff)

lemma map_of_filter_value:
  "distinct (map fst l) \<Longrightarrow>
     map_of (filter (\<lambda>(m, sc). P sc) l) k = (case map_of l k of Some sc \<Rightarrow> if P sc then Some sc else None | None \<Rightarrow> None)"
proof (induction l)
  case (Cons x l)
  have "map_of l (fst x) = None" using Cons.prems by (simp add: map_of_eq_None_iff)
  with Cons show ?case by (cases x) (auto split: option.splits)
qed simp

interpretation memory_sets: redis_sorted_sets memory_commands mr_leases
proof
  fix now later :: int and key key' :: string and s :: memory_redis and mx sc ms :: int and m :: string
  show "finite (dom (mr_leases now s key))" by (simp add: mr_leases_def finite_dom_map_of)
  show "now \<le> later \<Longrightarrow> mr_leases later s key = mr_leases now s key \<or> mr_leases later s key = Map.empty"
    by (auto simp: mr_leases_def mr_set_def split: option.splits prod.splits)
  show "mr_leases now (rd_zremrangebyscore memory_commands now key mx s) key
      = (\<lambda>m. case mr_leases now s key m of Some sc \<Rightarrow> if sc \<le> mx then None else Some sc | None \<Rightarrow> None)"
  proof
    fix k
    show "mr_leases now (rd_zremrangebyscore memory_commands now key mx s) key k
        = (case mr_leases now s key k of Some sc \<Rightarrow> if sc \<le> mx then None else Some sc | None \<Rightarrow> None)"
      using map_of_filter_value [of "AList.clearjunk (fst (mr_set now key s))" "\<lambda>sc. \<not> sc \<le> mx" k]
      by (auto simp: mr_leases_def memory_commands_def mr_set_change distinct_clearjunk map_of_clearjunk split: option.splits)
  qed
  show "rd_zcard memory_commands now key s = card (dom (mr_leases now s key))"
    by (simp add: memory_commands_def mr_leases_def dom_map_of_conv_image_fst)
  show "mr_leases now (rd_zadd memory_commands now key sc m s) key = (mr_leases now s key)(m \<mapsto> sc)"
    by (simp add: memory_commands_def mr_leases_def mr_set_change map_of_filter_key map_of_clearjunk)
  show "rd_zscore memory_commands now key m s = mr_leases now s key m"
    by (simp add: memory_commands_def mr_leases_def)
  show "mr_leases now (rd_zrem memory_commands now key m s) key = (mr_leases now s key)(m := None)"
    by (simp add: memory_commands_def mr_leases_def mr_set_change map_of_filter_key map_of_clearjunk)
  show "0 < ms \<Longrightarrow> mr_leases now (rd_pexpire memory_commands now key ms s) key = mr_leases now s key"
    by (cases "mr_set now key s") (simp add: memory_commands_def mr_leases_def mr_set_def)
  show "key' \<noteq> key \<Longrightarrow> mr_leases now (rd_zremrangebyscore memory_commands now key mx s) key' = mr_leases now s key'"
    "key' \<noteq> key \<Longrightarrow> mr_leases now (rd_zadd memory_commands now key sc m s) key' = mr_leases now s key'"
    "key' \<noteq> key \<Longrightarrow> mr_leases now (rd_zrem memory_commands now key m s) key' = mr_leases now s key'"
    by (simp_all add: memory_commands_def mr_leases_def mr_set_change)
  show "key' \<noteq> key \<Longrightarrow> mr_leases now (rd_pexpire memory_commands now key ms s) key' = mr_leases now s key'"
    by (cases "mr_set now key s") (simp add: memory_commands_def mr_leases_def mr_set_def)
qed

section \<open>Runs\<close>

text \<open>Requests under one key of the rate limit, one per time of the list, and their answers.\<close>

fun window_run :: "'s redis_commands \<Rightarrow> string \<Rightarrow> string \<Rightarrow> string \<Rightarrow> int \<Rightarrow> int \<Rightarrow> int list \<Rightarrow> 's \<Rightarrow> (err + int) list" where
  "window_run C prefix operation ow limit window [] s = []"
| "window_run C prefix operation ow limit window (t # ts) s =
     (let (result, s') = check_fixed_window C prefix
            \<lparr>rc_server_now = t, rc_process_now = t, rc_lost = 0, rc_failure = None\<rparr> operation ow limit window s
      in result # window_run C prefix operation ow limit window ts s')"

context redis_counters begin

lemma window_run_inside:
  assumes "view s (rate_key prefix operation ow) = Some (v, e)" and "\<forall>t \<in> set ts. t < e"
  shows "window_run C prefix operation ow limit window ts s
    = map (\<lambda>(i, t). Inr (if v + int i < limit then 0 else e - t)) (enumerate 0 ts)"
  using assms
proof (induction ts arbitrary: s v)
  case (Cons t ts)
  let ?key = "rate_key prefix operation ow"
  have t: "t < e" using Cons.prems(2) by simp
  have shift: "map (\<lambda>(i, t). Inr (if v + int i < limit then 0 else e - t) :: err + int) (enumerate (Suc 0) ts)
      = map (\<lambda>(i, t). Inr (if v + 1 + int i < limit then 0 else e - t)) (enumerate 0 ts)"
    by (rule nth_equalityI) (auto simp: nth_enumerate_eq ac_simps)
  show ?case
  proof (cases "v < limit")
    case True
    note W = window_more [OF Cons.prems(1) t True, of window]
    then have "view (snd (fixed_window_script C t ?key limit window s)) ?key = Some (v + 1, e)" by simp
    from Cons.IH [OF this] Cons.prems(2) W(1) True show ?thesis
      by (cases "fixed_window_script C t ?key limit window s") (simp add: check_fixed_window_def redis_attempts_def shift)
  next
    case False
    then have "fixed_window_script C t ?key limit window s = (e - t, s)"
      using window_full [OF Cons.prems(1) t] by simp
    moreover have "map (\<lambda>(i, t). Inr (e - t) :: err + int) (enumerate (Suc 0) ts) = map (\<lambda>(i, t). Inr (e - t)) (enumerate 0 ts)"
      by (rule nth_equalityI) (auto simp: nth_enumerate_eq)
    ultimately show ?thesis using Cons.IH [OF Cons.prems(1)] Cons.prems(2) False
      by (simp add: check_fixed_window_def redis_attempts_def)
  qed
qed simp

lemma window_run_exact:
  assumes "view s (rate_key prefix operation ow) = None \<or> (\<exists>v e. view s (rate_key prefix operation ow) = Some (v, e) \<and> e \<le> t)"
    and "1 \<le> limit" and "0 < window" and "\<forall>u \<in> set ts. u < t + window"
  shows "window_run C prefix operation ow limit window (t # ts) s
    = map (\<lambda>(i, u). Inr (if int i < limit then 0 else t + window - u)) (enumerate 0 (t # ts))"
proof -
  let ?key = "rate_key prefix operation ow"
  note N = window_new [OF assms(1), of limit window]
  then have v: "view (snd (fixed_window_script C t ?key limit window s)) ?key = Some (1, t + window)" by simp
  have "map (\<lambda>(i, u). Inr (if int i < limit then 0 else t + window - u) :: err + int) (enumerate (Suc 0) ts)
      = map (\<lambda>(i, u). Inr (if 1 + int i < limit then 0 else t + window - u)) (enumerate 0 ts)"
    by (rule nth_equalityI) (auto simp: nth_enumerate_eq ac_simps)
  with window_run_inside [OF v assms(4), of limit window] N(1) assms(2) show ?thesis
    by (cases "fixed_window_script C t ?key limit window s") (simp add: check_fixed_window_def redis_attempts_def)
qed

end

text \<open>Calls on the leases of any owners, by any processes with any clocks.\<close>

datatype lease_call =
    AcquireLease string string
  | RefreshLease string string
  | ReleaseLease string string

fun lease_step :: "'s redis_commands \<Rightarrow> string \<Rightarrow> int \<Rightarrow> int \<Rightarrow> redis_call \<Rightarrow> lease_call \<Rightarrow> 's \<Rightarrow> 's" where
  "lease_step C prefix mx ttl env (AcquireLease ow connection) s = snd (acquire_connection C prefix env ow connection mx ttl s)"
| "lease_step C prefix mx ttl env (RefreshLease ow connection) s = snd (refresh_connection C prefix env ow connection ttl s)"
| "lease_step C prefix mx ttl env (ReleaseLease ow connection) s = snd (release_connection C prefix env ow connection s)"

fun lease_run :: "'s redis_commands \<Rightarrow> string \<Rightarrow> int \<Rightarrow> int \<Rightarrow> (redis_call \<times> lease_call) list \<Rightarrow> 's \<Rightarrow> 's" where
  "lease_run C prefix mx ttl [] s = s"
| "lease_run C prefix mx ttl ((env, c) # calls) s = lease_run C prefix mx ttl calls (lease_step C prefix mx ttl env c s)"

text \<open>What one attempt of a call does to the server, and that a call is a number of attempts.\<close>

fun lease_attempt :: "'s redis_commands \<Rightarrow> string \<Rightarrow> int \<Rightarrow> int \<Rightarrow> redis_call \<Rightarrow> lease_call \<Rightarrow> 's \<Rightarrow> 's" where
  "lease_attempt C prefix mx ttl env (AcquireLease ow m) s =
     snd (acquire_lease_script C (rc_server_now env) (connections_key prefix ow) (rc_process_now env)
       (rc_process_now env + ttl) mx m (2 * ttl) s)"
| "lease_attempt C prefix mx ttl env (RefreshLease ow m) s =
     snd (refresh_lease_script C (rc_server_now env) (connections_key prefix ow) m (rc_process_now env + ttl) (2 * ttl) s)"
| "lease_attempt C prefix mx ttl env (ReleaseLease ow m) s =
     rd_zrem C (rc_server_now env) (connections_key prefix ow) m s"

definition attempts_of :: "redis_call \<Rightarrow> nat" where
  "attempts_of env = rc_lost env + (case rc_failure env of None \<Rightarrow> 1 | Some _ \<Rightarrow> 0)"

lemma redis_attempts_state: "snd (redis_attempts env command s) = ((\<lambda>s. snd (command s)) ^^ attempts_of env) s"
  by (simp add: redis_attempts_def attempts_of_def Let_def split: option.splits prod.splits)

lemma lease_step_attempts:
  "lease_step C prefix mx ttl env c s = (lease_attempt C prefix mx ttl env c ^^ attempts_of env) s"
proof (cases c)
  case (AcquireLease ow m)
  have "lease_attempt C prefix mx ttl env c = (\<lambda>s. snd (acquire_lease_script C (rc_server_now env) (connections_key prefix ow)
      (rc_process_now env) (rc_process_now env + ttl) mx m (2 * ttl) s))" by (simp add: AcquireLease fun_eq_iff)
  then show ?thesis
    by (simp add: AcquireLease acquire_connection_def Let_def case_prod_beta redis_attempts_state)
next
  case (RefreshLease ow m)
  have "lease_attempt C prefix mx ttl env c = (\<lambda>s. snd (refresh_lease_script C (rc_server_now env) (connections_key prefix ow)
      m (rc_process_now env + ttl) (2 * ttl) s))" by (simp add: RefreshLease fun_eq_iff)
  then show ?thesis
    by (simp add: RefreshLease refresh_connection_def Let_def case_prod_beta redis_attempts_state)
next
  case (ReleaseLease ow m)
  have "lease_attempt C prefix mx ttl env c = (\<lambda>s. rd_zrem C (rc_server_now env) (connections_key prefix ow) m s)"
    by (simp add: ReleaseLease fun_eq_iff)
  then show ?thesis by (simp add: ReleaseLease release_connection_def redis_attempts_state)
qed

lemma connections_key_inj [simp]: "connections_key prefix ow = connections_key prefix ow' \<longleftrightarrow> ow = ow'"
  by (simp add: connections_key_def)

context redis_sorted_sets begin

lemma unexpired_card: "card (dom (unexpired t (leases now s key))) \<le> card (dom (leases now s key))"
  by (rule card_mono [OF fin]) (auto simp: unexpired_def split: option.splits if_splits)

lemma unexpired_finite: "finite (dom (unexpired t (leases now s key)))"
  by (rule finite_subset [OF _ fin [of now s key]]) (auto simp: unexpired_def split: option.splits if_splits)

lemma card_later: "now \<le> later \<Longrightarrow> card (dom (leases later s key)) \<le> card (dom (leases now s key))"
  using expiry [of now later s key] by auto

lemma lease_attempt_bound:
  assumes "0 < ttl" and b: "\<And>ow. int (card (dom (leases (rc_server_now env) s (connections_key prefix ow)))) \<le> mx"
  shows "int (card (dom (leases (rc_server_now env) (lease_attempt C prefix mx ttl env c s) (connections_key prefix ow)))) \<le> mx"
proof -
  let ?t = "rc_server_now env" and ?key = "connections_key prefix"
  have life: "0 < 2 * ttl" using assms(1) by simp
  show ?thesis
  proof (cases c)
    case (AcquireLease o2 m)
    let ?u = "unexpired (rc_process_now env) (leases ?t s (?key o2))"
    note A = acquire_script [OF life, of ?t "?key o2" "rc_process_now env" "rc_process_now env + ttl" mx m s]
    show ?thesis
    proof (cases "ow = o2")
      case True
      have "card (dom (?u(m \<mapsto> e))) \<le> Suc (card (dom ?u))" for e
        using unexpired_finite by (simp add: card_insert_if)
      then have "int (card (dom (?u(m \<mapsto> e)))) \<le> mx" if "\<not> int (card (dom ?u)) \<ge> mx" for e
        using that by (smt (verit, best) of_nat_Suc of_nat_le_iff)
      moreover have "int (card (dom ?u)) \<le> mx"
        using b [of o2] unexpired_card [of "rc_process_now env" ?t s "?key o2"] by linarith
      ultimately show ?thesis using A(2) True by (simp add: AcquireLease del: dom_fun_upd)
    next
      case False
      then have "?key ow \<noteq> ?key o2" by simp
      then have "leases ?t (lease_attempt C prefix mx ttl env c s) (?key ow) = leases ?t s (?key ow)"
        by (auto simp: AcquireLease A(1) others)
      with b show ?thesis by simp
    qed
  next
    case (RefreshLease o2 m)
    note R = refresh_script [OF life, of ?t "?key o2" m "rc_process_now env + ttl" s]
    show ?thesis
    proof (cases "ow = o2")
      case True
      have "dom (leases ?t (lease_attempt C prefix mx ttl env c s) (?key o2)) = dom (leases ?t s (?key o2))"
        unfolding RefreshLease lease_attempt.simps R(1) by auto
      with b True show ?thesis by simp
    next
      case False
      then have "?key ow \<noteq> ?key o2" by simp
      then have "leases ?t (lease_attempt C prefix mx ttl env c s) (?key ow) = leases ?t s (?key ow)"
        by (auto simp: RefreshLease refresh_lease_script_def others)
      with b show ?thesis by simp
    qed
  next
    case (ReleaseLease o2 m)
    show ?thesis
    proof (cases "ow = o2")
      case True
      have "card (dom ((leases ?t s (?key o2))(m := None))) \<le> card (dom (leases ?t s (?key o2)))"
        by (rule card_mono [OF fin]) auto
      with b [of o2] True show ?thesis by (simp add: ReleaseLease zrem del: dom_fun_upd)
    next
      case False
      then have "?key ow \<noteq> ?key o2" by simp
      with b show ?thesis by (simp add: ReleaseLease others)
    qed
  qed
qed

lemma lease_step_bound:
  assumes "0 < ttl" and now: "now \<le> rc_server_now env"
    and bound: "\<forall>ow. int (card (dom (leases now s (connections_key prefix ow)))) \<le> mx"
  shows "int (card (dom (leases (rc_server_now env) (lease_step C prefix mx ttl env c s) (connections_key prefix ow)))) \<le> mx"
proof -
  have b: "int (card (dom (leases (rc_server_now env) s (connections_key prefix o'))))  \<le> mx" for o'
    using bound card_later [OF now, of s "connections_key prefix o'"] by (meson dual_order.trans of_nat_le_iff)
  have "int (card (dom (leases (rc_server_now env) ((lease_attempt C prefix mx ttl env c ^^ n) s) (connections_key prefix o')))) \<le> mx"
    for n o'
    by (induction n arbitrary: o') (simp_all add: b lease_attempt_bound [OF assms(1)])
  then show ?thesis by (simp add: lease_step_attempts)
qed

lemma lease_run_bound:
  assumes "0 < ttl"
  shows "\<forall>ow. int (card (dom (leases now s (connections_key prefix ow)))) \<le> mx \<Longrightarrow>
    sorted (now # map (\<lambda>(env, c). rc_server_now env) calls @ [later]) \<Longrightarrow>
    int (card (dom (leases later (lease_run C prefix mx ttl calls s) (connections_key prefix ow)))) \<le> mx"
proof (induction calls arbitrary: now s)
  case Nil
  then have "card (dom (leases later s (connections_key prefix ow))) \<le> card (dom (leases now s (connections_key prefix ow)))"
    using card_later by simp
  moreover have "int (card (dom (leases now s (connections_key prefix ow)))) \<le> mx" using Nil(1) by blast
  ultimately show ?case by simp
next
  case (Cons x calls)
  obtain env c where x: "x = (env, c)" by (cases x)
  have "\<forall>ow. int (card (dom (leases (rc_server_now env) (lease_step C prefix mx ttl env c s) (connections_key prefix ow)))) \<le> mx"
    using lease_step_bound [OF assms _ Cons.prems(1)] Cons.prems(2) by (auto simp: x)
  then show ?case using Cons.IH [of "rc_server_now env"] Cons.prems(2) by (auto simp: x)
qed

end

end
