(* ===== verification/RealtimeProps.thy ===== *)
theory RealtimeProps
  imports OutboxSpec WakeHub Redis SseProps
begin

text \<open>
  The properties of the realtime side: the hubs, the limits kept in Redis, and the way of a hint
  from a committed transaction to the publisher.
\<close>

section \<open>The wake hub\<close>

text \<open>
  C19. The wake hub never panics: in every state that calls of its methods lead to, in any order,
  every further call of a method on a subscription of the hub returns; so no channel is closed twice
  and nothing is sent on a closed one, although \<open>Unregister\<close> and \<open>Close\<close> both close. And an open
  subscription is always registered.
\<close>

theorem wake_hub_never_panics:
  assumes "wake_reachable h" and "wake_call_ok h c"
  shows "(\<exists>h'. wake_run c h = Inr h')
    \<and> (\<forall>i. i < length (wk_heap h) \<longrightarrow> registered h i = (\<not> ws_closed (wk_heap h ! i)))
    \<and> (wk_closed h \<longrightarrow> wk_by_owner h = (\<lambda>_. None))"
proof -
  have ok: "wake_ok h" by (rule wake_reachable_ok [OF assms(1)])
  then have "\<exists>h'. wake_run c h = Inr h'" using wake_run_ok [OF _ assms(2)] by blast
  moreover have "registered h i = (\<not> ws_closed (wk_heap h ! i))" if "i < length (wk_heap h)" for i
    using ok that unfolding wake_ok_def registered_def by blast
  ultimately show ?thesis using ok by (simp add: wake_ok_def)
qed

definition ex_wake_hub :: wake_hub where
  "ex_wake_hub = \<lparr>wk_heap = [\<lparr>ws_owner_key = ''a'', ws_pending = False, ws_closed = False\<rparr>],
     wk_by_owner = [''a'' \<mapsto> [(0, ())]], wk_closed = False\<rparr>"

lemma ex_wake_hub_reachable: "wake_reachable ex_wake_hub"
proof -
  have "wake_run (WakeRegister ''a'') new_wake_hub = Inr ex_wake_hub"
    by (simp add: wake_register_def new_wake_hub_def ex_wake_hub_def om_put_def om_entries_def)
  then show ?thesis by (rule wake_reachable.call [OF wake_reachable.start, rotated]) simp
qed

lemma wake_hub_never_panics_witness:
  "\<exists>h1. wake_run (WakeUnregister (Some 0)) ex_wake_hub = Inr h1
    \<and> (\<exists>h2. wake_run (WakeUnregister (Some 0)) h1 = Inr h2)"
proof -
  have call: "wake_call_ok ex_wake_hub (WakeUnregister (Some 0))" by (simp add: ex_wake_hub_def)
  from wake_hub_never_panics [OF ex_wake_hub_reachable call] obtain h1 where
    h1: "wake_run (WakeUnregister (Some 0)) ex_wake_hub = Inr h1" by blast
  have "wake_reachable h1" by (rule wake_reachable.call [OF ex_wake_hub_reachable call h1])
  moreover have "wake_call_ok h1 (WakeUnregister (Some 0))"
    using h1 by (auto simp: ex_wake_hub_def wake_unregister_def om_find_def om_entries_def om_delete_def close_channel_def)
  ultimately show ?thesis using h1 wake_hub_never_panics [of h1 "WakeUnregister (Some 0)"] by blast
qed

text \<open>
  No wake-up is lost: after \<open>Publish\<close> for an owner, every open subscription of that owner gets a
  notification at its next receive, however many other calls come in between (they may even close
  it); and no subscription of another owner is touched.
\<close>

theorem wake_up_is_not_lost:
  assumes reach: "wake_reachable h" and publish: "wake_publish ow h = Inr ((), h1)"
    and sub: "i < length (wk_heap h)" "ws_owner_key (wk_heap h ! i) = ow" "\<not> ws_closed (wk_heap h ! i)"
    and between: "wake_runs cs h1 h2" "WakeReceive i \<notin> set cs"
  shows "(\<exists>h3. receive_wake i h2 = Some (True, h3))
    \<and> (\<forall>j < length (wk_heap h). ws_owner_key (wk_heap h ! j) \<noteq> ow \<longrightarrow> wk_heap h1 ! j = wk_heap h ! j)"
proof -
  have ok: "wake_ok h" by (rule wake_reachable_ok [OF reach])
  from wake_publish_run [OF ok, of ow] publish have
    ok1: "wake_ok h1" and len: "length (wk_heap h1) = length (wk_heap h)"
    and heap: "\<forall>j < length (wk_heap h). wk_heap h1 ! j =
         (if registered h j \<and> ws_owner_key (wk_heap h ! j) = ow then (wk_heap h ! j)\<lparr>ws_pending := True\<rparr> else wk_heap h ! j)"
    by auto
  have "registered h i" using ok sub by (simp add: wake_ok_def)
  with heap sub have "ws_pending (wk_heap h1 ! i)" by simp
  from pending_stays_runs [OF between(1) ok1 _ this between(2)] sub(1) len
  have "ws_pending (wk_heap h2 ! i)" by simp
  with heap show ?thesis by (simp add: receive_wake_def Let_def)
qed

lemma wake_up_is_not_lost_witness:
  "\<exists>h1 h2 h3. wake_publish ''a'' ex_wake_hub = Inr ((), h1)
    \<and> wake_runs [WakeRegister ''b'', WakeUnregister (Some 0)] h1 h2 \<and> receive_wake 0 h2 = Some (True, h3)"
proof -
  define h1 where "h1 = ex_wake_hub\<lparr>wk_heap := [\<lparr>ws_owner_key = ''a'', ws_pending = True, ws_closed = False\<rparr>]\<rparr>"
  have pub: "wake_publish ''a'' ex_wake_hub = Inr ((), h1)"
    by (simp add: wake_publish_def h1_def ex_wake_hub_def om_entries_def offer_wake_def tx_bind_def tx_return_def)
  obtain h2 where runs: "wake_runs [WakeRegister ''b'', WakeUnregister (Some 0)] h1 h2"
    by (simp add: h1_def ex_wake_hub_def wake_register_def wake_unregister_def om_find_def om_entries_def
        om_put_def om_delete_def close_channel_def Let_def)
  have "\<exists>h3. receive_wake 0 h2 = Some (True, h3)"
    using wake_up_is_not_lost [OF ex_wake_hub_reachable pub _ _ _ runs, of 0] by (simp add: ex_wake_hub_def)
  with pub runs show ?thesis by blast
qed

section \<open>The connection hub\<close>

text \<open>
  C20. A broadcast reaches exactly the peers it is meant for: every active peer that is registered
  for the owner of the hint, except the connection the change came from, has the payload appended
  to its queue if there is room; every other peer, in particular every peer of another owner, is
  as it was.
\<close>

theorem broadcast_reaches_active_peers:
  assumes "hub_reachable h" and "p < length (hb_heap h)"
  defines "pr \<equiv> hb_heap h ! p"
  shows "hb_heap (broadcast hint payload h) ! p =
    (if om_find (hb_by_owner h) (ht_owner_key hint) (pr_id pr) = Some p
        \<and> pr_owner_key pr = ht_owner_key hint \<and> pr_id pr \<noteq> ht_origin_connection_id hint
        \<and> pr_active pr \<and> length (pr_send pr) < 32
     then pr\<lparr>pr_send := pr_send pr @ [payload]\<rparr> else pr)"
proof -
  have ok: "hub_ok h" by (rule hub_reachable_ok [OF assms(1)])
  then have "om_find (hb_by_owner h) (ht_owner_key hint) (pr_id pr) = Some p \<Longrightarrow> pr_owner_key pr = ht_owner_key hint"
    unfolding hub_ok_def pr_def by blast
  with broadcast_spec [OF ok assms(2), of hint payload] show ?thesis
    by (auto simp: pr_def broadcast_change_def offer_payload_def peer_queue_size_def)
qed

definition ex_hub :: hub where
  "ex_hub = \<lparr>hb_heap = [new_peer ''c1'' ''a'', new_peer ''c2'' ''a''],
     hb_by_owner = [''a'' \<mapsto> [(''c1'', 0), (''c2'', 1)]]\<rparr>"

lemma ex_hub_reachable: "hub_reachable ex_hub"
proof -
  define h1 where "h1 = snd (allocate_peer ''c1'' ''a'' new_hub)"
  define h2 where "h2 = snd (allocate_peer ''c2'' ''a'' h1)"
  have h2: "h2 = \<lparr>hb_heap = [new_peer ''c1'' ''a'', new_peer ''c2'' ''a''], hb_by_owner = (\<lambda>_. None)\<rparr>"
    by (simp add: h2_def h1_def allocate_peer_def new_hub_def)
  have r2: "hub_reachable h2" unfolding h2_def h1_def by (intro hub_call [OF _ step_allocate] hub_start)
  have r3: "hub_reachable (hub_register 0 h2)" by (rule hub_call [OF r2 step_register]) (simp add: h2)
  have "hub_reachable (hub_register 1 (hub_register 0 h2))"
    by (rule hub_call [OF r3 step_register]) (simp add: h2 hub_register_def Let_def)
  moreover have "hub_register 1 (hub_register 0 h2) = ex_hub"
    by (simp add: h2 ex_hub_def hub_register_def Let_def new_peer_def om_put_def om_entries_def)
  ultimately show ?thesis by simp
qed

definition ex_hint :: hint where
  "ex_hint = \<lparr>ht_owner_key = ''a'', ht_baseline_id = ''b'', ht_server_cursor = 1, ht_server_version = 1,
     ht_origin_connection_id = ''c1''\<rparr>"

lemma broadcast_reaches_active_peers_witness:
  "pr_send (hb_heap (broadcast ex_hint ''x'' ex_hub) ! 0) = []
    \<and> pr_send (hb_heap (broadcast ex_hint ''x'' ex_hub) ! 1) = [''x'']"
  using broadcast_reaches_active_peers [OF ex_hub_reachable, of 0 ex_hint "''x''"]
    broadcast_reaches_active_peers [OF ex_hub_reachable, of 1 ex_hint "''x''"]
  by (simp add: ex_hub_def new_peer_def ex_hint_def om_find_def om_entries_def)

text \<open>
  The send queues are bounded: in every state the hub can reach no peer has more than 32
  messages waiting, and a registered peer is registered under its own owner key and id.
\<close>

theorem send_queues_bounded:
  assumes "hub_reachable h"
  shows "(p < length (hb_heap h) \<longrightarrow> length (pr_send (hb_heap h ! p)) \<le> 32)
    \<and> (om_find (hb_by_owner h) ow i = Some q \<longrightarrow>
         q < length (hb_heap h) \<and> pr_id (hb_heap h ! q) = i \<and> pr_owner_key (hb_heap h ! q) = ow)"
  using hub_reachable_ok [OF assms] by (simp add: hub_ok_def peer_queue_size_def)

lemma send_queues_bounded_witness:
  "pr_owner_key (hb_heap ex_hub ! 1) = ''a''"
  using send_queues_bounded [OF ex_hub_reachable, of 0 "''a''" "''c2''" 1]
  by (simp add: ex_hub_def om_find_def om_entries_def)

section \<open>Limits kept in Redis\<close>

text \<open>
  C21. The rate limit is a fixed window, exactly: with a Redis that keeps the promises of its
  documentation, of the requests within \<open>window\<close> milliseconds of the first one under a key, the first
  \<open>limit\<close> are let through and every later one is told the time that is left of the window.
\<close>

theorem fixed_window_exact:
  assumes "redis_counters C view"
    and "view s (rate_key prefix operation ow) = None" and "1 \<le> limit" and "0 < window"
    and "\<forall>u \<in> set ts. u < t + window"
  shows "window_run C prefix operation ow limit window (t # ts) s
    = map (\<lambda>(i, u). Inr (if int i < limit then 0 else t + window - u)) (enumerate 0 (t # ts))"
  by (rule redis_counters.window_run_exact [OF assms(1)]) (use assms in auto)

lemma fixed_window_exact_witness:
  "window_run memory_commands ''p:'' ''resolve'' ''a'' 3 60000 [1000, 1000, 2000, 3000, 50000] empty_redis
    = [Inr 0, Inr 0, Inr 0, Inr 58000, Inr 11000]"
  using fixed_window_exact [OF memory_counters.redis_counters_axioms, of empty_redis "''p:''" "''resolve''" "''a''"
      3 60000 "[1000, 2000, 3000, 50000]" 1000]
  by (simp add: empty_redis_def)

text \<open>
  C22. No owner ever has more connection leases than the limit: with a Redis that keeps the promises
  of its documentation, whatever processes acquire, refresh and release leases, in any order, with
  clocks that need not agree and with calls that fail.
\<close>

theorem connection_leases_bounded:
  assumes "redis_sorted_sets C leases" and "0 < ttl"
    and "\<forall>ow. int (card (dom (leases now s (connections_key prefix ow)))) \<le> mx"
    and "sorted (now # map (\<lambda>(env, c). rc_server_now env) calls @ [later])"
  shows "int (card (dom (leases later (lease_run C prefix mx ttl calls s) (connections_key prefix ow)))) \<le> mx"
  by (rule redis_sorted_sets.lease_run_bound [OF assms])

definition ex_lease_calls :: "(redis_call \<times> lease_call) list" where
  "ex_lease_calls = map (\<lambda>i. (\<lparr>rc_server_now = int i, rc_process_now = 5 - int i, rc_lost = 0, rc_failure = None\<rparr>,
     AcquireLease ''a'' (replicate i CHR ''x''))) [0, 1, 2]"

lemma connection_leases_bounded_witness:
  "int (card (dom (mr_leases 9 (lease_run memory_commands ''p:'' 2 default_lease_ttl ex_lease_calls empty_redis)
     (connections_key ''p:'' ''a'')))) \<le> 2"
  by (rule connection_leases_bounded [OF memory_sets.redis_sorted_sets_axioms, where now = 0])
    (simp_all add: default_lease_ttl_def mr_leases_def mr_set_def empty_redis_def ex_lease_calls_def)

section \<open>The outbox\<close>

text \<open>
  C23. The publisher is honest, in every state that calls of the service and rounds of any publishers
  lead to, whatever fails: the invariant of the database holds, the ids of the outbox are strictly
  increasing, a row that is marked as published has been delivered, and every hint that was
  delivered is that of a row of the outbox.
\<close>

theorem published_means_delivered:
  assumes "backend_reachable (s, log)"
  shows "db_inv s \<and> sorted_wrt (<) (map ob_id (db_outbox s))
    \<and> (\<forall>row \<in> set (db_outbox s). ob_published_at_ms row \<noteq> None \<longrightarrow> hint_of row \<in> set log)
    \<and> set log \<subseteq> hint_of ` set (db_outbox s)"
  using backend_reachable_ok [OF assms] by (simp add: backend_ok_def delivered_ok_def outbox_ok_def)

text \<open>A publisher whose first round fails although the hint is delivered, then one that works.\<close>

definition ex_timeout :: publish_env where
  "ex_timeout = ex_publisher\<lparr>pe_failure := Some (True, ''timeout'')\<rparr>"

lemma ex_publisher_healthy: "publisher_healthy ex_publisher"
  by (simp add: publisher_healthy_def ex_publisher_def ex_env_def)

lemma ex_backend:
  obtains res s where "exchange ex_env ex_service ex_meta (Some ex_exchange) empty_db = (Inr res, s)"
    and "backend_reachable (s, [])"
proof -
  obtain res s where run: "exchange ex_env ex_service ex_meta (Some ex_exchange) empty_db = (Inr res, s)"
    using ex_exchange_runs by blast
  have "backend_step (empty_db, []) (s, [])" by (intro backend_service step_exchange [OF run])
  with run that show thesis using backend_call [OF backend_start] by blast
qed

theorem published_means_delivered_witness:
  "\<exists>res s. exchange ex_env ex_service ex_meta (Some ex_exchange) empty_db = (Inr res, s)
    \<and> set (snd (run_outbox [ex_timeout, ex_publisher] (s, [])))
        \<subseteq> hint_of ` set (db_outbox (fst (run_outbox [ex_timeout, ex_publisher] (s, []))))"
proof -
  obtain res s where run: "exchange ex_env ex_service ex_meta (Some ex_exchange) empty_db = (Inr res, s)"
    and reach: "backend_reachable (s, [])" by (rule ex_backend)
  from reach have "backend_reachable (snd (publish_one ex_publisher (snd (publish_one ex_timeout (s, [])))))"
    by (intro backend_call [OF _ backend_publish])
  then have "backend_reachable (run_outbox [ex_timeout, ex_publisher] (s, []))" by simp
  with published_means_delivered [of "fst (run_outbox [ex_timeout, ex_publisher] (s, []))"
      "snd (run_outbox [ex_timeout, ex_publisher] (s, []))"] run show ?thesis
    by (intro exI [of _ res] exI [of _ s]) simp
qed

text \<open>
  C24. The outbox drains: as many rounds in which everything works as there are pending rows deliver
  the hint of each of them once, in the order of their ids, and leave nothing pending.
\<close>

theorem outbox_drains_in_order:
  assumes "list_all publisher_healthy envs" and "backend_reachable (s, log0)" and "length envs = length (pending s)"
    and "\<forall>r \<in> set (pending s). ob_publish_attempts r + 1 < 2 ^ 32"
  shows "\<exists>s'. run_outbox envs (s, log) = (s', log @ map hint_of (pending s)) \<and> pending s' = []
    \<and> sorted_wrt (<) (map ob_id (pending s))"
proof -
  have ok: "outbox_ok s"
    using backend_reachable_ok [OF assms(2)] by (simp add: backend_ok_def delivered_ok_def)
  then have "sorted_wrt (<) (map ob_id (pending s))"
    by (simp add: outbox_ok_def pending_def filter_sort_key_strict)
  with run_outbox_drains [OF assms(1) ok assms(3,4), of log] show ?thesis by blast
qed

theorem outbox_drains_in_order_witness:
  "\<exists>res s s'. exchange ex_env ex_service ex_meta (Some ex_exchange) empty_db = (Inr res, s)
    \<and> run_outbox (replicate (length (pending s)) ex_publisher) (s, []) = (s', map hint_of (pending s))"
proof -
  obtain res s where run: "exchange ex_env ex_service ex_meta (Some ex_exchange) empty_db = (Inr res, s)"
    and reach: "backend_reachable (s, [])" by (rule ex_backend)
  have "\<forall>r \<in> set (db_outbox s). ob_publish_attempts r = 0"
    using operations_logs(1) [OF run] by (auto simp: logs_grow_def new_events_def empty_db_def)
  then have "\<forall>r \<in> set (pending s). ob_publish_attempts r + 1 < 2 ^ 32" by (simp add: pending_def)
  with outbox_drains_in_order [OF _ reach, of "replicate (length (pending s)) ex_publisher" "[]"] run show ?thesis
    by (auto simp: list_all_iff ex_publisher_healthy)
qed

text \<open>An exchange that changed something appends one row to the outbox.\<close>

lemma exchange_appends_event:
  assumes run: "exchange env sv md (Some r) s = (Inr res, s')" and inv: "db_inv s"
    and match: "\<not> sp_baseline_mismatch (er_response res)" and changed: "er_state_changed res"
  obtains ev where "db_outbox s' = db_outbox s @ [ev]" and "ob_published_at_ms ev = None"
    and "ob_publish_attempts ev = 0"
    and "ob_owner ev = md_owner_key md" and "ob_baseline_id ev = er_baseline_id res"
    and "ob_server_cursor ev = er_server_cursor res" and "ob_server_version ev = er_server_version res"
    and "ob_origin ev = (if md_origin_connection_id md \<noteq> [] then Some (md_origin_connection_id md) else None)"
proof -
  let ?ow = "md_owner_key md"
  from exchange_queues_event [OF run inv match, THEN conjunct1] obtain ev where
    events: "a_events (abs_owner ?ow s') = a_events (abs_owner ?ow s) @ (if er_state_changed res then [ev] else [])" and
    ev: "ob_owner ev = ?ow" "ob_baseline_id ev = er_baseline_id res" "ob_server_cursor ev = er_server_cursor res"
      "ob_server_version ev = er_server_version res" "ob_published_at_ms ev = None"
      "ob_origin ev = (if md_origin_connection_id md \<noteq> [] then Some (md_origin_connection_id md) else None)" by blast
  from operations_logs(1) [OF run] obtain ys where ys: "db_outbox s' = db_outbox s @ ys"
    and fresh: "\<forall>r \<in> set ys. ob_publish_attempts r = 0" by (auto simp: logs_grow_def new_events_def)
  have "only_owner ?ow s s'" by (rule operations_only(1) [OF run])
  then have "a_events (abs_owner o' s') = a_events (abs_owner o' s)" if "o' \<noteq> ?ow" for o'
    using that by (simp add: only_owner_def)
  then have none: "filter (\<lambda>r. ob_owner r = o') ys = []" if "o' \<noteq> ?ow" for o' using that ys by (simp add: abs_sel)
  have "\<forall>r \<in> set ys. ob_owner r = ?ow" using none unfolding filter_empty_conv by blast
  then have "ys = filter (\<lambda>r. ob_owner r = ?ow) ys" by (simp add: filter_id_conv)
  also have "\<dots> = [ev]" using events ys changed by (simp add: abs_sel)
  finally have "ys = [ev]" .
  then show thesis using ys ev fresh that by simp
qed

text \<open>
  From the commit to the hint: an exchange that changed something leaves one more row in the
  outbox, behind those that were pending, and when the outbox has drained the last hint that was
  delivered is that of this exchange, with its owner and connection, and the baseline, the cursor and the
  version the client was answered with.
\<close>

lemma exchange_hint_published:
  assumes reach: "backend_reachable (s, log)" and run: "exchange env sv md (Some r) s = (Inr res, s')"
    and match: "\<not> sp_baseline_mismatch (er_response res)" and changed: "er_state_changed res"
    and envs: "list_all publisher_healthy envs" "length envs = length (pending s) + 1"
    and attempts: "\<forall>r \<in> set (pending s). ob_publish_attempts r + 1 < 2 ^ 32"
  shows "\<exists>s'' h. run_outbox envs (s', log) = (s'', log @ map hint_of (pending s) @ [h]) \<and> pending s'' = []
    \<and> ht_origin_connection_id h = md_origin_connection_id md \<and> ht_owner_key h = md_owner_key md \<and> ht_baseline_id h = er_baseline_id res
    \<and> ht_server_cursor h = er_server_cursor res \<and> ht_server_version h = er_server_version res"
proof -
  have ok: "backend_ok (s, log)" by (rule backend_reachable_ok [OF reach])
  then have inv: "db_inv s" by (simp add: backend_ok_def)
  obtain ev where ev: "db_outbox s' = db_outbox s @ [ev]" "ob_published_at_ms ev = None" "ob_publish_attempts ev = 0"
      and head: "ob_owner ev = md_owner_key md" "ob_baseline_id ev = er_baseline_id res"
      "ob_server_cursor ev = er_server_cursor res" "ob_server_version ev = er_server_version res"
      "ob_origin ev = (if md_origin_connection_id md \<noteq> [] then Some (md_origin_connection_id md) else None)"
    by (rule exchange_appends_event [OF run inv match changed])
  have "backend_ok (s', log)" by (rule backend_step_ok [OF backend_service [OF step_exchange [OF run]] ok])
  then have out: "outbox_ok s'" by (simp add: backend_ok_def delivered_ok_def)
  have p: "pending s' = pending s @ [ev]" using ev by (simp add: pending_def)
  have "\<exists>s''. run_outbox envs (s', log) = (s'', log @ map hint_of (pending s')) \<and> pending s'' = [] \<and> outbox_ok s''"
    by (rule run_outbox_drains [OF envs(1) out]) (use envs(2) attempts ev(3) p in auto)
  then show ?thesis using head by (auto simp: p hint_of_def)
qed

end
