(* ===== verification/Frames.thy ===== *)
theory Frames
  imports JsonText Validation Sse
begin

text \<open>
  The frames of the WebSocket (\<open>internal/httpapi/frames.go\<close>): decoding what a client sends, with the
  limits on the frame, on the encoded and on the decoded message, and encoding results, hints and
  errors.
\<close>

section \<open>Limits\<close>

definition max_sync_envelope_bytes :: nat where
  "max_sync_envelope_bytes = (max_protobuf_bytes * 4 + 2) div 3 + 128"

definition max_web_socket_frame :: nat where
  "max_web_socket_frame = max_sync_envelope_bytes + 512"

section \<open>Types\<close>

record frame_error =
  fe_code :: string
  fe_close_code :: nat
  fe_message :: string

definition frame_error :: "string \<Rightarrow> nat \<Rightarrow> string \<Rightarrow> frame_error" where
  "frame_error message close_code code =
     \<lparr>fe_code = (if code = [] then ''INVALID_ARGUMENT'' else code), fe_close_code = close_code, fe_message = message\<rparr>"

record client_frame =
  cf_version :: int
  cf_request_id :: string
  cf_type :: string
  cf_protobuf :: string
  cf_active :: bool

record wire_frame =
  wf_version :: int
  wf_request_id :: string
  wf_type :: string
  wf_protobuf :: string
  wf_active :: "bool option"
  wf_baseline_id :: string
  wf_server_cursor :: u64
  wf_server_version :: u64
  wf_error_code :: string
  wf_retry_after_ms :: u64

definition empty_frame :: wire_frame where
  "empty_frame = \<lparr>wf_version = 0, wf_request_id = [], wf_type = [], wf_protobuf = [], wf_active = None,
     wf_baseline_id = [], wf_server_cursor = 0, wf_server_version = 0, wf_error_code = [], wf_retry_after_ms = 0\<rparr>"

text \<open>The tags of the struct.\<close>

definition wire_frame_fields :: "wire_frame struct" where
  "wire_frame_fields =
     [(''version'', int_field (\<lambda>n f. f\<lparr>wf_version := n\<rparr>)),
      (''requestId'', string_field (\<lambda>s f. f\<lparr>wf_request_id := s\<rparr>)),
      (''type'', string_field (\<lambda>s f. f\<lparr>wf_type := s\<rparr>)),
      (''protobuf'', string_field (\<lambda>s f. f\<lparr>wf_protobuf := s\<rparr>)),
      (''active'', bool_pointer_field (\<lambda>b f. f\<lparr>wf_active := b\<rparr>)),
      (''baselineId'', string_field (\<lambda>s f. f\<lparr>wf_baseline_id := s\<rparr>)),
      (''serverCursor'', uint_field (\<lambda>n f. f\<lparr>wf_server_cursor := n\<rparr>)),
      (''serverVersion'', uint_field (\<lambda>n f. f\<lparr>wf_server_version := n\<rparr>)),
      (''code'', string_field (\<lambda>s f. f\<lparr>wf_error_code := s\<rparr>)),
      (''retryAfterMs'', uint_field (\<lambda>n f. f\<lparr>wf_retry_after_ms := n\<rparr>))]"

definition json_int :: "int \<Rightarrow> jvalue" where
  "json_int n = JvNumber (if n < 0 then CHR ''-'' # decimal (nat (- n)) else decimal (nat n))"

text \<open>The members \<open>json.Marshal\<close> writes: all but the empty ones that are tagged \<open>omitempty\<close>.\<close>

definition frame_members :: "wire_frame \<Rightarrow> (string \<times> jvalue) list" where
  "frame_members f =
     [(''version'', json_int (wf_version f))]
     @ omit_string ''requestId'' (wf_request_id f)
     @ [(''type'', JvString (wf_type f))]
     @ omit_string ''protobuf'' (wf_protobuf f)
     @ (case wf_active f of None \<Rightarrow> [] | Some b \<Rightarrow> [(''active'', JvBool b)])
     @ omit_string ''baselineId'' (wf_baseline_id f)
     @ omit_uint ''serverCursor'' (wf_server_cursor f)
     @ omit_uint ''serverVersion'' (wf_server_version f)
     @ omit_string ''code'' (wf_error_code f)
     @ omit_uint ''retryAfterMs'' (wf_retry_after_ms f)"

definition marshal_frame :: "wire_frame \<Rightarrow> string" where
  "marshal_frame f = json_object (map text_member (frame_members f))"

section \<open>Decoding\<close>

definition decode_client_frame :: "string \<Rightarrow> frame_error + client_frame" where
  "decode_client_frame message =
     (if length message > max_web_socket_frame then Inl (frame_error ''frame too large'' 1009 [])
      else
        (case unmarshal wire_frame_fields message empty_frame of
           None \<Rightarrow> Inl (frame_error ''invalid JSON'' 1007 [])
         | Some frame \<Rightarrow>
             if wf_version frame \<noteq> 1 then Inl (frame_error ''unsupported version'' 0 ''UNSUPPORTED_VERSION'')
             else if wf_type frame = ''activity'' then
               (case wf_active frame of
                  None \<Rightarrow> Inl (frame_error ''missing activity'' 0 [])
                | Some active \<Rightarrow>
                    Inr \<lparr>cf_version = wf_version frame, cf_request_id = [], cf_type = wf_type frame,
                         cf_protobuf = [], cf_active = active\<rparr>)
             else if wf_type frame \<noteq> ''exchange'' \<and> wf_type frame \<noteq> ''resolve'' then
               Inl (frame_error ''unsupported request type'' 0 [])
             else if \<not> request_id_pattern (wf_request_id frame) then Inl (frame_error ''invalid requestId'' 0 [])
             else if length (wf_protobuf frame) > max_sync_envelope_bytes then
               Inl (frame_error ''protobuf envelope too large'' 1009 [])
             else
               (case base64_decode (wf_protobuf frame) of
                  None \<Rightarrow> Inl (frame_error ''invalid protobuf base64'' 0 [])
                | Some protobuf \<Rightarrow>
                    if length protobuf > max_protobuf_bytes then Inl (frame_error ''protobuf too large'' 1009 [])
                    else Inr \<lparr>cf_version = wf_version frame, cf_request_id = wf_request_id frame,
                              cf_type = wf_type frame, cf_protobuf = protobuf, cf_active = False\<rparr>)))"

section \<open>Encoding\<close>

definition encode_server_result :: "string \<Rightarrow> string \<Rightarrow> string \<Rightarrow> err + string" where
  "encode_server_result result_type request_id protobuf =
     (if result_type \<noteq> ''exchange_result'' \<and> result_type \<noteq> ''resolve_result'' then
        Inl (ErrExternal ''unsupported result type'')
      else if \<not> request_id_pattern request_id \<or> length protobuf > max_protobuf_bytes then
        Inl (ErrExternal ''invalid result'')
      else Inr (marshal_frame (empty_frame\<lparr>wf_version := 1, wf_request_id := request_id, wf_type := result_type,
                                           wf_protobuf := base64_encode protobuf\<rparr>)))"

definition encode_sync_hint :: "string \<Rightarrow> u64 \<Rightarrow> u64 \<Rightarrow> err + string" where
  "encode_sync_hint baseline_id cursor version =
     (if \<not> baseline_id_pattern baseline_id then Inl (ErrExternal ''invalid baseline ID'')
      else Inr (marshal_frame (empty_frame\<lparr>wf_version := 1, wf_type := ''sync_hint'', wf_baseline_id := baseline_id,
                                           wf_server_cursor := cursor, wf_server_version := version\<rparr>)))"

definition allowed_codes :: "string list" where
  "allowed_codes = [''INVALID_ARGUMENT'', ''UNSUPPORTED_VERSION'', ''RATE_LIMITED'', ''FAILED_PRECONDITION'',
     ''AUTH_REQUIRED'', ''INTERNAL'']"

definition encode_server_error :: "string \<Rightarrow> string \<Rightarrow> u64 \<Rightarrow> err + string" where
  "encode_server_error request_id code retry_after_ms =
     (if code \<notin> set allowed_codes \<or> (request_id \<noteq> [] \<and> \<not> request_id_pattern request_id) then
        Inl (ErrExternal ''invalid error frame'')
      else Inr (marshal_frame (empty_frame\<lparr>wf_version := 1, wf_request_id := request_id, wf_type := ''error'',
                                           wf_error_code := code, wf_retry_after_ms := retry_after_ms\<rparr>)))"

text \<open>\<open>mustServerError\<close> ignores the error and gives no bytes then.\<close>

definition must_server_error :: "string \<Rightarrow> string \<Rightarrow> u64 \<Rightarrow> string" where
  "must_server_error request_id code retry_after_ms =
     (case encode_server_error request_id code retry_after_ms of Inl _ \<Rightarrow> [] | Inr message \<Rightarrow> message)"

section \<open>Frames are read back\<close>

definition frame_safe :: "wire_frame \<Rightarrow> bool" where
  "frame_safe f \<longleftrightarrow> 0 \<le> wf_version f \<and> wf_version f < 2 ^ 63 \<and> list_all json_safe (wf_request_id f)
     \<and> list_all json_safe (wf_type f) \<and> list_all json_safe (wf_protobuf f) \<and> list_all json_safe (wf_baseline_id f)
     \<and> list_all json_safe (wf_error_code f)"

lemma frame_members_flat:
  assumes "frame_safe f"
  shows "flat_members (frame_members f)"
proof -
  have "flat_value (json_int (wf_version f))" using assms by (auto simp: json_int_def frame_safe_def)
  then show ?thesis using assms
    by (simp add: frame_members_def flat_omit frame_safe_def json_safe_def in_range_def split: option.splits)
qed

lemma frame_fields:
  "field_of wire_frame_fields ''version'' = Some (int_field (\<lambda>n f. f\<lparr>wf_version := n\<rparr>))"
  "field_of wire_frame_fields ''requestId'' = Some (string_field (\<lambda>s f. f\<lparr>wf_request_id := s\<rparr>))"
  "field_of wire_frame_fields ''type'' = Some (string_field (\<lambda>s f. f\<lparr>wf_type := s\<rparr>))"
  "field_of wire_frame_fields ''protobuf'' = Some (string_field (\<lambda>s f. f\<lparr>wf_protobuf := s\<rparr>))"
  "field_of wire_frame_fields ''active'' = Some (bool_pointer_field (\<lambda>b f. f\<lparr>wf_active := b\<rparr>))"
  "field_of wire_frame_fields ''baselineId'' = Some (string_field (\<lambda>s f. f\<lparr>wf_baseline_id := s\<rparr>))"
  "field_of wire_frame_fields ''serverCursor'' = Some (uint_field (\<lambda>n f. f\<lparr>wf_server_cursor := n\<rparr>))"
  "field_of wire_frame_fields ''serverVersion'' = Some (uint_field (\<lambda>n f. f\<lparr>wf_server_version := n\<rparr>))"
  "field_of wire_frame_fields ''code'' = Some (string_field (\<lambda>s f. f\<lparr>wf_error_code := s\<rparr>))"
  "field_of wire_frame_fields ''retryAfterMs'' = Some (uint_field (\<lambda>n f. f\<lparr>wf_retry_after_ms := n\<rparr>))"
  by (simp_all add: field_of_def wire_frame_fields_def)

lemma parse_decimal: "n < 2 ^ 63 \<Longrightarrow> parse_int (decimal n) = Some (int n)"
proof -
  assume n: "n < 2 ^ 63"
  obtain c cs where d: "decimal n = c # cs" using decimal_digits by (cases "decimal n") blast+
  have digits: "list_all is_digit (c # cs) \<and> decimal_value (c # cs) = n" using decimal_digits [of n] d by simp
  then have "\<not> has_prefix (c # cs) ''-''" by (auto simp: has_prefix_def is_digit_def in_range_def)
  with digits have "parse_int (decimal n) = (if int n < 2 ^ 63 then Some (int n) else None)"
    unfolding d by (simp add: parse_int_def)
  moreover have "int n < 2 ^ 63" using n by (metis of_nat_less_iff of_nat_numeral of_nat_power)
  ultimately show ?thesis by simp
qed

lemma decode_frame_members:
  assumes "frame_safe f"
  shows "decode_members wire_frame_fields (frame_members f) empty_frame = Some f"
proof -
  have v: "parse_int (decimal (nat (wf_version f))) = Some (wf_version f)"
  proof -
    have "nat (wf_version f) < 2 ^ 63" using assms by (simp add: frame_safe_def nat_less_iff)
    from parse_decimal [OF this] assms show ?thesis by (simp add: frame_safe_def)
  qed
  then have version: "decode_members wire_frame_fields [(''version'', json_int (wf_version f))] empty_frame
      = Some (empty_frame\<lparr>wf_version := wf_version f\<rparr>)"
    using assms by (simp add: frame_safe_def json_int_def frame_fields)
  have rest: "decode_members wire_frame_fields [(''type'', JvString s)] r = Some (r\<lparr>wf_type := s\<rparr>)"
    "decode_members wire_frame_fields (case a of None \<Rightarrow> [] | Some b \<Rightarrow> [(''active'', JvBool b)]) r
      = Some (case a of None \<Rightarrow> r | Some b \<Rightarrow> r\<lparr>wf_active := Some b\<rparr>)" for s a r
    by (simp_all add: frame_fields split: option.splits)
  show ?thesis
    unfolding frame_members_def decode_members_append version rest option.case
    by (cases "wf_active f") (simp_all add: decode_omit_string decode_omit_uint frame_fields rest decode_members_append empty_frame_def)
qed

lemma unmarshal_marshal_frame: "frame_safe f \<Longrightarrow> unmarshal wire_frame_fields (marshal_frame f) empty_frame = Some f"
  by (simp add: marshal_frame_def unmarshal_flat frame_members_flat decode_frame_members)

section \<open>What is accepted\<close>

definition request_frame :: "string \<Rightarrow> string \<Rightarrow> string \<Rightarrow> wire_frame" where
  "request_frame kind request_id payload =
     empty_frame\<lparr>wf_version := 1, wf_request_id := request_id, wf_type := kind, wf_protobuf := base64_encode payload\<rparr>"

lemma pattern_safe:
  "request_id_pattern s \<Longrightarrow> list_all json_safe s \<and> length s \<le> 128 \<and> s \<noteq> []"
  "baseline_id_pattern s \<Longrightarrow> list_all json_safe s \<and> length s = 41"
proof -
  assume "request_id_pattern s"
  then show "list_all json_safe s \<and> length s \<le> 128 \<and> s \<noteq> []"
    by (auto simp: request_id_pattern_def list_all_iff json_plain_def intro!: json_plain_safe)
next
  assume s: "baseline_id_pattern s"
  have nine: "length ''baseline_'' = 9" by simp
  from s have parts: "take 9 s = ''baseline_''" "length (drop 9 s) = 32" "list_all is_lower_hex (drop 9 s)"
    unfolding baseline_id_pattern_def has_prefix_def nine by blast+
  have "json_safe c" if "is_lower_hex c" for c
    using that by (intro json_plain_safe) (auto simp: json_plain_def is_lower_hex_def is_id_char_def in_range_def)
  then have "list_all json_safe (drop 9 s)" using parts(3) by (simp add: list_all_iff)
  moreover have "list_all json_safe (take 9 s)" unfolding parts(1) by (simp add: json_safe_def in_range_def)
  ultimately have "list_all json_safe (take 9 s @ drop 9 s)" by (simp only: list_all_append)
  then show "list_all json_safe s \<and> length s = 41" using parts(2) by simp
qed

lemma base64_safe: "list_all json_safe (base64_encode s)"
  using base64_plain by (rule list.pred_mono_strong) (rule json_plain_safe)

text \<open>The length of what is written.\<close>

definition member_length :: "string \<times> jvalue \<Rightarrow> nat" where
  "member_length m = length (text_member m)"

lemma join_length:
  "xs \<noteq> [] \<Longrightarrow> length (join_with '','' xs) + 1 = sum_list (map length xs) + length xs"
  by (induction "'',''::string" xs rule: join_with.induct) auto

lemma object_length:
  "ms \<noteq> [] \<Longrightarrow> length (json_object (map text_member ms)) = sum_list (map member_length ms) + length ms + 1"
  using join_length [of "map text_member ms"]
  by (simp add: json_object_def member_length_def [abs_def] comp_def del: join_with.simps)

lemma member_lengths:
  assumes "list_all json_safe name"
  shows "member_length (name, JvNumber s) = length name + 3 + length s"
    and "list_all json_safe s \<Longrightarrow> member_length (name, JvString s) = length name + 5 + length s"
  using assms by (simp_all add: member_length_def text_member_def json_member_def json_quote_safe)

lemma decimal_length: "0 < k \<Longrightarrow> n < 10 ^ k \<Longrightarrow> length (decimal n) \<le> k"
proof (induction k arbitrary: n)
  case (Suc k)
  show ?case
  proof (cases "n < 10")
    case False
    then have "0 < k" using Suc.prems(2) by (cases k) auto
    moreover have "n div 10 < 10 ^ k" using Suc.prems(2) by (simp add: less_mult_imp_div_less mult.commute)
    ultimately have "length (decimal (n div 10)) \<le> k" by (rule Suc.IH)
    then show ?thesis using False by (simp add: decimal.simps [of n])
  qed (simp add: decimal.simps [of n])
qed simp

lemma uint_length: "length (format_uint n) \<le> 20"
proof -
  have "unat n < 2 ^ LENGTH(64)" by (rule unsigned_less)
  then have "unat n < 10 ^ 20" by simp
  then show ?thesis unfolding format_uint_def by (intro decimal_length) simp_all
qed

text \<open>A frame with the largest message is within the limits, for requests as for results.\<close>

lemma request_frame_length:
  assumes "request_id_pattern request_id" and "list_all json_safe kind" and "length kind \<le> 20"
    and "length payload \<le> max_protobuf_bytes"
  shows "length (marshal_frame (request_frame kind request_id payload)) \<le> max_web_socket_frame"
proof -
  let ?b = "base64_encode payload"
  have rid: "list_all json_safe request_id" "length request_id \<le> 128" "request_id \<noteq> []"
    using pattern_safe(1) [OF assms(1)] by simp_all
  have "(length payload + 2) div 3 * 4 \<le> (max_protobuf_bytes + 2) div 3 * 4"
    using assms(4) by (intro mult_le_mono1 div_le_mono) simp
  then have b: "length ?b \<le> 699052" by (simp add: base64_encode_length max_protobuf_bytes_def)
  have one: "decimal 1 = ''1''" by code_simp
  define tail where "tail = omit_string ''protobuf'' ?b"
  have tail: "sum_list (map member_length tail) + length tail \<le> length ?b + 14"
    by (simp add: tail_def omit_string_def member_lengths base64_safe json_safe_def in_range_def)
  have "frame_members (request_frame kind request_id payload)
      = [(''version'', JvNumber ''1''), (''requestId'', JvString request_id), (''type'', JvString kind)] @ tail"
    using rid(3) by (simp add: frame_members_def request_frame_def empty_frame_def json_int_def one [unfolded One_nat_def] omit_string_def
        omit_uint_def tail_def)
  then have "length (marshal_frame (request_frame kind request_id payload))
      = 11 + (14 + length request_id) + (9 + length kind) + 3 + 1 + (sum_list (map member_length tail) + length tail)"
    using object_length [of "[(''version'', JvNumber ''1''), (''requestId'', JvString request_id), (''type'', JvString kind)] @ tail"]
    by (simp add: marshal_frame_def member_lengths rid(1) assms(2) json_safe_def in_range_def)
  then show ?thesis using tail b rid(2) assms(3)
    by (simp add: max_web_socket_frame_def max_sync_envelope_bytes_def max_protobuf_bytes_def)
qed

lemma request_frame_safe:
  "request_id_pattern request_id \<Longrightarrow> list_all json_safe kind \<Longrightarrow> frame_safe (request_frame kind request_id payload)"
  by (simp add: frame_safe_def request_frame_def empty_frame_def pattern_safe(1) base64_safe)

lemma decode_request_frame:
  assumes rid: "request_id_pattern request_id" and kind: "kind \<in> {''exchange'', ''resolve''}"
    and size: "length payload \<le> max_protobuf_bytes"
  shows "decode_client_frame (marshal_frame (request_frame kind request_id payload))
    = Inr \<lparr>cf_version = 1, cf_request_id = request_id, cf_type = kind, cf_protobuf = payload, cf_active = False\<rparr>"
proof -
  have safe: "list_all json_safe kind" and len: "length kind \<le> 20"
    using kind by (auto simp: json_safe_def in_range_def)
  have "(length payload + 2) div 3 * 4 \<le> (max_protobuf_bytes + 2) div 3 * 4"
    using size by (intro mult_le_mono1 div_le_mono) simp
  then have "length (base64_encode payload) \<le> max_sync_envelope_bytes"
    by (simp add: base64_encode_length max_protobuf_bytes_def max_sync_envelope_bytes_def)
  moreover have "kind \<noteq> ''activity''" using kind by auto
  ultimately show ?thesis
    using request_frame_length [OF rid safe len size] rid kind size
    by (simp add: decode_client_frame_def unmarshal_marshal_frame [OF request_frame_safe [OF rid safe]])
      (auto simp: request_frame_def empty_frame_def)
qed

section \<open>What the server sends\<close>

lemma encode_server_result_cases:
  "encode_server_result t i protobuf = Inr m \<longleftrightarrow>
     t \<in> {''exchange_result'', ''resolve_result''} \<and> request_id_pattern i \<and> length protobuf \<le> max_protobuf_bytes
     \<and> m = marshal_frame (request_frame t i protobuf)"
  by (auto simp: encode_server_result_def request_frame_def)

lemma server_result_frame:
  assumes "encode_server_result t i protobuf = Inr m"
  shows "length m \<le> max_web_socket_frame"
    and "unmarshal wire_frame_fields m empty_frame = Some (request_frame t i protobuf)"
proof -
  from assms have t: "t \<in> {''exchange_result'', ''resolve_result''}" and i: "request_id_pattern i"
    and size: "length protobuf \<le> max_protobuf_bytes" and m: "m = marshal_frame (request_frame t i protobuf)"
    unfolding encode_server_result_cases by blast+
  have safe: "list_all json_safe t" and len: "length t \<le> 20" using t by (auto simp: json_safe_def in_range_def)
  show "length m \<le> max_web_socket_frame" unfolding m by (rule request_frame_length [OF i safe len size])
  show "unmarshal wire_frame_fields m empty_frame = Some (request_frame t i protobuf)"
    unfolding m by (rule unmarshal_marshal_frame [OF request_frame_safe [OF i safe]])
qed

definition error_frame :: "string \<Rightarrow> string \<Rightarrow> u64 \<Rightarrow> wire_frame" where
  "error_frame i code retry = empty_frame\<lparr>wf_version := 1, wf_request_id := i, wf_type := ''error'',
     wf_error_code := code, wf_retry_after_ms := retry\<rparr>"

lemma must_server_error_frame:
  assumes "code \<in> set allowed_codes" and "i = [] \<or> request_id_pattern i"
  shows "unmarshal wire_frame_fields (must_server_error i code retry) empty_frame = Some (error_frame i code retry)"
proof -
  have "list_all json_safe c" if "c \<in> set allowed_codes" for c
    using that by (auto simp: allowed_codes_def json_safe_def in_range_def)
  then have "frame_safe (error_frame i code retry)" using assms pattern_safe(1) [of i]
    by (auto simp: frame_safe_def error_frame_def empty_frame_def json_safe_def in_range_def)
  note unmarshal_marshal_frame [OF this]
  moreover have "must_server_error i code retry = marshal_frame (error_frame i code retry)"
    using assms by (auto simp: must_server_error_def encode_server_error_def error_frame_def)
  ultimately show ?thesis by simp
qed

text \<open>Every error of the decoder has a code the server may send.\<close>

lemma decode_client_frame_cases:
  assumes "decode_client_frame message = r"
  shows "(case r of
      Inl e \<Rightarrow> fe_code e \<in> set allowed_codes \<and> fe_close_code e \<in> {0, 1007, 1009}
    | Inr f \<Rightarrow> length message \<le> max_web_socket_frame \<and> cf_version f = 1 \<and>
        (if cf_type f = ''activity'' then cf_request_id f = [] \<and> cf_protobuf f = []
         else cf_type f \<in> {''exchange'', ''resolve''} \<and> request_id_pattern (cf_request_id f)
           \<and> length (cf_protobuf f) \<le> max_protobuf_bytes \<and> \<not> cf_active f))"
  using assms
  by (auto simp: decode_client_frame_def frame_error_def allowed_codes_def Let_def
      split: if_splits option.splits)

end
