(* ===== verification/Hints.thy ===== *)
theory Hints
  imports Frames WakeHub Hub OutboxSpec
begin

text \<open>
  The way of a hint through Redis: \<open>PublishHint\<close> and \<open>SubscribeHints\<close> of
  \<open>internal/realtime/redis.go\<close>, and \<open>runHintSubscriber\<close> of \<open>cmd/study-list-api/main.go\<close>, which wakes the
  event streams and broadcasts to the WebSocket peers.
\<close>

section \<open>Messages\<close>

definition hint_fields :: "hint struct" where
  "hint_fields =
     [(''ownerKey'', string_field (\<lambda>s h. h\<lparr>ht_owner_key := s\<rparr>)),
      (''baselineId'', string_field (\<lambda>s h. h\<lparr>ht_baseline_id := s\<rparr>)),
      (''serverCursor'', uint_field (\<lambda>n h. h\<lparr>ht_server_cursor := n\<rparr>)),
      (''serverVersion'', uint_field (\<lambda>n h. h\<lparr>ht_server_version := n\<rparr>)),
      (''originConnectionId'', string_field (\<lambda>s h. h\<lparr>ht_origin_connection_id := s\<rparr>))]"

definition empty_hint :: hint where
  "empty_hint = \<lparr>ht_owner_key = [], ht_baseline_id = [], ht_server_cursor = 0, ht_server_version = 0,
     ht_origin_connection_id = []\<rparr>"

definition hint_members :: "hint \<Rightarrow> (string \<times> jvalue) list" where
  "hint_members h =
     [(''ownerKey'', JvString (ht_owner_key h)), (''baselineId'', JvString (ht_baseline_id h)),
      (''serverCursor'', json_uint (ht_server_cursor h)), (''serverVersion'', json_uint (ht_server_version h))]
     @ omit_string ''originConnectionId'' (ht_origin_connection_id h)"

text \<open>The payload \<open>PublishHint\<close> sends, and what \<open>SubscribeHints\<close> hands to its callback.\<close>

definition hint_payload :: "hint \<Rightarrow> string" where
  "hint_payload h = json_object (map text_member (hint_members h))"

definition receive_hint :: "string \<Rightarrow> hint option" where
  "receive_hint payload =
     (case unmarshal hint_fields payload empty_hint of
        None \<Rightarrow> None
      | Some h \<Rightarrow> if ht_owner_key h \<noteq> [] \<and> ht_baseline_id h \<noteq> [] then Some h else None)"

definition hint_safe :: "hint \<Rightarrow> bool" where
  "hint_safe h \<longleftrightarrow> list_all json_safe (ht_owner_key h) \<and> list_all json_safe (ht_baseline_id h)
     \<and> list_all json_safe (ht_origin_connection_id h)"

lemma hint_field_names:
  "field_of hint_fields ''ownerKey'' = Some (string_field (\<lambda>s h. h\<lparr>ht_owner_key := s\<rparr>))"
  "field_of hint_fields ''baselineId'' = Some (string_field (\<lambda>s h. h\<lparr>ht_baseline_id := s\<rparr>))"
  "field_of hint_fields ''serverCursor'' = Some (uint_field (\<lambda>n h. h\<lparr>ht_server_cursor := n\<rparr>))"
  "field_of hint_fields ''serverVersion'' = Some (uint_field (\<lambda>n h. h\<lparr>ht_server_version := n\<rparr>))"
  "field_of hint_fields ''originConnectionId'' = Some (string_field (\<lambda>s h. h\<lparr>ht_origin_connection_id := s\<rparr>))"
  by (simp_all add: field_of_def hint_fields_def)

lemma receive_hint_payload:
  assumes "hint_safe h" and "ht_owner_key h \<noteq> []" and "ht_baseline_id h \<noteq> []"
  shows "receive_hint (hint_payload h) = Some h"
proof -
  have "flat_members (hint_members h)"
    using assms(1) by (simp add: hint_members_def flat_omit hint_safe_def json_safe_def in_range_def json_uint_def
        format_uint_def) blast
  moreover have "decode_members hint_fields (hint_members h) empty_hint = Some h"
    by (simp add: hint_members_def hint_field_names json_uint_def decode_omit_string empty_hint_def)
  ultimately show ?thesis
    using assms(2,3) by (simp add: receive_hint_def hint_payload_def unmarshal_flat)
qed

section \<open>The subscriber\<close>

text \<open>
  The callback: wake the streams of the owner, then broadcast the frame, unless it cannot be
  encoded. The two hubs are the state.
\<close>

record hubs =
  hs_wake :: wake_hub
  hs_hub :: hub

definition on_hint :: "hint \<Rightarrow> hubs \<Rightarrow> panic + hubs" where
  "on_hint h hs =
     (case wake_publish (ht_owner_key h) (hs_wake hs) of
        Inl p \<Rightarrow> Inl p
      | Inr (_, wake') \<Rightarrow>
          (case encode_sync_hint (ht_baseline_id h) (ht_server_cursor h) (ht_server_version h) of
             Inl _ \<Rightarrow> Inr (hs\<lparr>hs_wake := wake'\<rparr>)
           | Inr payload \<Rightarrow> Inr \<lparr>hs_wake = wake', hs_hub = broadcast h payload (hs_hub hs)\<rparr>))"

definition on_message :: "string \<Rightarrow> hubs \<Rightarrow> panic + hubs" where
  "on_message payload hs = (case receive_hint payload of None \<Rightarrow> Inr hs | Some h \<Rightarrow> on_hint h hs)"

lemma on_hint_run:
  assumes wake: "wake_ok (hs_wake hs)" and hub: "hub_ok (hs_hub hs)" and b: "baseline_id_pattern (ht_baseline_id h)"
  obtains hs' payload where "on_hint h hs = Inr hs'" and "wake_ok (hs_wake hs')"
    and "encode_sync_hint (ht_baseline_id h) (ht_server_cursor h) (ht_server_version h) = Inr payload"
    and "hs_hub hs' = broadcast h payload (hs_hub hs)"
    and "wake_publish (ht_owner_key h) (hs_wake hs) = Inr ((), hs_wake hs')"
proof -
  obtain heap where pub: "wake_publish (ht_owner_key h) (hs_wake hs) = Inr ((), (hs_wake hs)\<lparr>wk_heap := heap\<rparr>)"
    and ok: "wake_ok ((hs_wake hs)\<lparr>wk_heap := heap\<rparr>)" using wake_publish_run [OF wake] by blast
  obtain payload where enc: "encode_sync_hint (ht_baseline_id h) (ht_server_cursor h) (ht_server_version h) = Inr payload"
    using b by (simp add: encode_sync_hint_def)
  show thesis
    by (rule that [of "\<lparr>hs_wake = (hs_wake hs)\<lparr>wk_heap := heap\<rparr>, hs_hub = broadcast h payload (hs_hub hs)\<rparr>" payload])
      (simp_all add: on_hint_def pub enc ok)
qed

text \<open>A hint frame as a peer reads it.\<close>

lemma sync_hint_frame:
  assumes "encode_sync_hint b c v = Inr payload"
  shows "unmarshal wire_frame_fields payload empty_frame
    = Some (empty_frame\<lparr>wf_version := 1, wf_type := ''sync_hint'', wf_baseline_id := b,
        wf_server_cursor := c, wf_server_version := v\<rparr>)"
proof -
  from assms have b: "baseline_id_pattern b" and p: "payload = marshal_frame (empty_frame\<lparr>wf_version := 1,
      wf_type := ''sync_hint'', wf_baseline_id := b, wf_server_cursor := c, wf_server_version := v\<rparr>)"
    by (auto simp: encode_sync_hint_def split: if_splits)
  show ?thesis unfolding p
    by (rule unmarshal_marshal_frame)
      (simp add: frame_safe_def empty_frame_def pattern_safe(2) [OF b] json_safe_def in_range_def)
qed

end
