(* ===== verification/Subscriber.thy ===== *)
theory Subscriber
  imports Hints
begin

text \<open>
  The goroutine that serves the hints: \<open>runHintSubscriber\<close> of \<open>cmd/study-list-api/main.go\<close> around \<open>SubscribeHints\<close> of
  \<open>internal/realtime/redis.go\<close>. Every place where it waits is a phase, and what it waits for is an event: the
  answer of Redis, a message, the end of the channel or of the context, the timer. The hubs are shared:
  registrations, reads and sends of other goroutines come in between, in any order.
\<close>

section \<open>The loop\<close>

datatype subscriber_phase =
    SubLoop  \<comment> \<open>the head of the loop of \<open>runHintSubscriber\<close>\<close>
  | SubReceive  \<comment> \<open>subscribed, before the answer of Redis\<close>
  | SubListen  \<comment> \<open>in the \<open>select\<close> of \<open>SubscribeHints\<close>\<close>
  | SubReturned  \<comment> \<open>\<open>SubscribeHints\<close> has returned its error\<close>
  | SubPause  \<comment> \<open>in the \<open>select\<close> before the next attempt\<close>
  | SubStopped
  | SubPanicked panic

record subscriber =
  sb_phase :: subscriber_phase
  sb_cancelled :: bool  \<comment> \<open>\<open>ctx.Err() != nil\<close>\<close>
  sb_hubs :: hubs

definition new_subscriber :: subscriber where
  "new_subscriber = \<lparr>sb_phase = SubLoop, sb_cancelled = False, sb_hubs = \<lparr>hs_wake = new_wake_hub, hs_hub = new_hub\<rparr>\<rparr>"

datatype subscriber_event =
    LoopHead
  | ReceiveOk
  | ReceiveFailed
  | MessageArrives string
  | ChannelClosed
  | ContextDone
  | CheckContext
  | TimerFires

text \<open>A message in the \<open>select\<close>: what is no hint is dropped, a hint goes to the callback.\<close>

definition hear_message :: "string \<Rightarrow> subscriber \<Rightarrow> subscriber" where
  "hear_message payload s =
     (case on_message payload (sb_hubs s) of
        Inl p \<Rightarrow> s\<lparr>sb_phase := SubPanicked p\<rparr>
      | Inr hs \<Rightarrow> s\<lparr>sb_hubs := hs\<rparr>)"

text \<open>
  The next state, when the goroutine waits for this event and the event can happen: inside of
  \<open>SubscribeHints\<close>, and in the loop around it.
\<close>

definition subscribe_run :: "subscriber_event \<Rightarrow> subscriber \<Rightarrow> subscriber option" where
  "subscribe_run e s =
     (case (e, sb_phase s) of
        (ReceiveOk, SubReceive) \<Rightarrow> Some (s\<lparr>sb_phase := SubListen\<rparr>)
      | (ReceiveFailed, SubReceive) \<Rightarrow> Some (s\<lparr>sb_phase := SubReturned\<rparr>)
      | (MessageArrives payload, SubListen) \<Rightarrow> Some (hear_message payload s)
      | (ChannelClosed, SubListen) \<Rightarrow> Some (s\<lparr>sb_phase := SubReturned\<rparr>)
      | (ContextDone, SubListen) \<Rightarrow> if sb_cancelled s then Some (s\<lparr>sb_phase := SubReturned\<rparr>) else None
      | _ \<Rightarrow> None)"

definition subscriber_run :: "subscriber_event \<Rightarrow> subscriber \<Rightarrow> subscriber option" where
  "subscriber_run e s =
     (case (e, sb_phase s) of
        (LoopHead, SubLoop) \<Rightarrow> Some (s\<lparr>sb_phase := if sb_cancelled s then SubStopped else SubReceive\<rparr>)
      | (CheckContext, SubReturned) \<Rightarrow> Some (s\<lparr>sb_phase := if sb_cancelled s then SubStopped else SubPause\<rparr>)
      | (ContextDone, SubPause) \<Rightarrow> if sb_cancelled s then Some (s\<lparr>sb_phase := SubStopped\<rparr>) else None
      | (TimerFires, SubPause) \<Rightarrow> Some (s\<lparr>sb_phase := SubLoop\<rparr>)
      | _ \<Rightarrow> subscribe_run e s)"

fun subscriber_runs :: "subscriber_event list \<Rightarrow> subscriber \<Rightarrow> subscriber option" where
  "subscriber_runs [] s = Some s"
| "subscriber_runs (e # es) s = (case subscriber_run e s of None \<Rightarrow> None | Some s' \<Rightarrow> subscriber_runs es s')"

lemma subscriber_runs_append:
  "subscriber_runs (es @ fs) s = (case subscriber_runs es s of None \<Rightarrow> None | Some s' \<Rightarrow> subscriber_runs fs s')"
  by (induction es arbitrary: s) (simp_all split: option.splits)

section \<open>The goroutine among the others\<close>

inductive subscriber_step :: "subscriber \<Rightarrow> subscriber \<Rightarrow> bool" where
  own: "subscriber_run e s = Some s' \<Longrightarrow> subscriber_step s s'"
| cancelled: "subscriber_step s (s\<lparr>sb_cancelled := True\<rparr>)"
| other_wake: "wake_call_ok (hs_wake (sb_hubs s)) c \<Longrightarrow> wake_run c (hs_wake (sb_hubs s)) = Inr wake \<Longrightarrow>
     subscriber_step s (s\<lparr>sb_hubs := (sb_hubs s)\<lparr>hs_wake := wake\<rparr>\<rparr>)"
| other_hub: "hub_step (hs_hub (sb_hubs s)) h \<Longrightarrow> subscriber_step s (s\<lparr>sb_hubs := (sb_hubs s)\<lparr>hs_hub := h\<rparr>\<rparr>)"

inductive subscriber_reachable :: "subscriber \<Rightarrow> bool" where
  subscriber_start: "subscriber_reachable new_subscriber"
| subscriber_next: "subscriber_reachable s \<Longrightarrow> subscriber_step s s' \<Longrightarrow> subscriber_reachable s'"

section \<open>What always holds\<close>

text \<open>The hubs are in order, the goroutine has not panicked, and it stops only after the context has ended.\<close>

definition hubs_ok :: "hubs \<Rightarrow> bool" where
  "hubs_ok hs \<longleftrightarrow> wake_ok (hs_wake hs) \<and> hub_ok (hs_hub hs)"

definition subscriber_ok :: "subscriber \<Rightarrow> bool" where
  "subscriber_ok s \<longleftrightarrow> hubs_ok (sb_hubs s) \<and> (\<forall>p. sb_phase s \<noteq> SubPanicked p)
     \<and> (sb_phase s = SubStopped \<longrightarrow> sb_cancelled s)"

lemma broadcast_ok:
  assumes "hub_ok h"
  shows "hub_ok (broadcast hint payload h)"
proof -
  have "hub_ok (fold (broadcast_to hint payload) ps h)"
    if "\<forall>p \<in> set ps. p < length (hb_heap h)" "hub_ok h" for ps and h :: hub
    using that
  proof (induction ps arbitrary: h)
    case (Cons p ps)
    have len: "length (hb_heap (broadcast_to hint payload p h)) = length (hb_heap h)"
      by (simp add: broadcast_to_def Let_def update_peer_def)
    from Cons show ?case using broadcast_to_ok [of h p hint payload] len by simp
  qed simp
  moreover have "\<forall>p \<in> set (broadcast_targets hint h). p < length (hb_heap h)"
    using broadcast_targets_facts(2) [OF assms] assms unfolding hub_ok_def by blast
  ultimately show ?thesis using assms by (simp add: broadcast_def)
qed

lemma on_message_ok:
  assumes "hubs_ok hs"
  shows "\<exists>hs'. on_message payload hs = Inr hs' \<and> hubs_ok hs'"
proof (cases "receive_hint payload")
  case None
  with assms show ?thesis by (simp add: on_message_def)
next
  case (Some h)
  obtain heap where "wake_publish (ht_owner_key h) (hs_wake hs) = Inr ((), (hs_wake hs)\<lparr>wk_heap := heap\<rparr>)"
    "wake_ok ((hs_wake hs)\<lparr>wk_heap := heap\<rparr>)"
    using wake_publish_run [of "hs_wake hs"] assms unfolding hubs_ok_def by blast
  with Some assms show ?thesis
    by (auto simp: on_message_def on_hint_def hubs_ok_def broadcast_ok split: sum.splits)
qed

lemma hear_message_ok:
  assumes "subscriber_ok s" and "sb_phase s = SubListen"
  shows "\<exists>hs. on_message payload (sb_hubs s) = Inr hs \<and> hear_message payload s = s\<lparr>sb_hubs := hs\<rparr> \<and> hubs_ok hs"
  using on_message_ok [of "sb_hubs s" payload] assms by (auto simp: subscriber_ok_def hear_message_def)

lemma subscriber_run_ok:
  assumes "subscriber_ok s" and "subscriber_run e s = Some s'"
  shows "subscriber_ok s'"
proof -
  have "subscriber_ok (hear_message payload s)" if "sb_phase s = SubListen" for payload
    using hear_message_ok [OF assms(1) that, of payload] that by (auto simp: subscriber_ok_def)
  with assms show ?thesis
    by (cases e; cases "sb_phase s") (auto simp: subscriber_run_def subscribe_run_def subscriber_ok_def split: if_splits)
qed

lemma subscriber_step_ok:
  assumes "subscriber_step s s'" and "subscriber_ok s"
  shows "subscriber_ok s'"
  using assms(1)
proof cases
  case (own e)
  then show ?thesis using subscriber_run_ok assms(2) by blast
next
  case (other_wake c wake)
  then have "wake_ok wake" using wake_run_ok [OF _ other_wake(2)] assms(2) by (auto simp: subscriber_ok_def hubs_ok_def)
  with other_wake(1) assms(2) show ?thesis by (simp add: subscriber_ok_def hubs_ok_def)
next
  case (other_hub h)
  then show ?thesis using hub_step_ok assms(2) by (auto simp: subscriber_ok_def hubs_ok_def)
qed (use assms(2) in \<open>auto simp: subscriber_ok_def\<close>)

lemma subscriber_reachable_ok: "subscriber_reachable s \<Longrightarrow> subscriber_ok s"
proof (induction rule: subscriber_reachable.induct)
  case subscriber_start
  then show ?case
    by (simp add: subscriber_ok_def hubs_ok_def new_subscriber_def wake_ok_new hub_reachable_ok [OF hub_start])
next
  case (subscriber_next s s')
  then show ?case using subscriber_step_ok by blast
qed

section \<open>It keeps listening\<close>

text \<open>The events of the goroutine that do not touch the hubs.\<close>

definition quiet_event :: "subscriber_event \<Rightarrow> bool" where
  "quiet_event e \<longleftrightarrow> (\<forall>payload. e \<noteq> MessageArrives payload)"

text \<open>Wherever it is, the goroutine listens again, when the context lives and Redis answers.\<close>

lemma subscriber_listens_again:
  assumes "subscriber_ok s" and "\<not> sb_cancelled s"
  shows "\<exists>es. length es \<le> 4 \<and> list_all quiet_event es \<and> subscriber_runs es s = Some (s\<lparr>sb_phase := SubListen\<rparr>)"
proof -
  define es where "es = (case sb_phase s of
      SubLoop \<Rightarrow> [LoopHead, ReceiveOk] | SubReceive \<Rightarrow> [ReceiveOk] | SubListen \<Rightarrow> []
    | SubReturned \<Rightarrow> [CheckContext, TimerFires, LoopHead, ReceiveOk] | _ \<Rightarrow> [TimerFires, LoopHead, ReceiveOk])"
  have "subscriber_runs es s = Some (s\<lparr>sb_phase := SubListen\<rparr>)"
    using assms by (auto simp: es_def subscriber_run_def subscribe_run_def subscriber_ok_def split: subscriber_phase.splits)
  moreover have "length es \<le> 4 \<and> list_all quiet_event es"
    by (simp add: es_def quiet_event_def split: subscriber_phase.splits)
  ultimately show ?thesis by blast
qed

text \<open>When the context has ended, it can stop: at the next \<open>select\<close> that picks the end of the context.\<close>

lemma subscriber_stops:
  assumes "subscriber_ok s" and "sb_cancelled s"
  shows "\<exists>es. length es \<le> 3 \<and> list_all quiet_event es \<and> subscriber_runs es s = Some (s\<lparr>sb_phase := SubStopped\<rparr>)"
proof -
  define es where "es = (case sb_phase s of
      SubLoop \<Rightarrow> [LoopHead] | SubReceive \<Rightarrow> [ReceiveFailed, CheckContext] | SubListen \<Rightarrow> [ContextDone, CheckContext]
    | SubReturned \<Rightarrow> [CheckContext] | SubPause \<Rightarrow> [ContextDone] | _ \<Rightarrow> [])"
  have "subscriber_runs es s = Some (s\<lparr>sb_phase := SubStopped\<rparr>)"
    using assms by (auto simp: es_def subscriber_run_def subscribe_run_def subscriber_ok_def split: subscriber_phase.splits)
  moreover have "length es \<le> 3 \<and> list_all quiet_event es"
    by (simp add: es_def quiet_event_def split: subscriber_phase.splits)
  ultimately show ?thesis by blast
qed

text \<open>The goroutine may find the hubs in any state that their calls reach.\<close>

lemma subscriber_any_hubs:
  assumes wake: "wake_reachable w" and hub: "hub_reachable h"
  shows "subscriber_reachable (new_subscriber\<lparr>sb_hubs := \<lparr>hs_wake = w, hs_hub = h\<rparr>\<rparr>)"
proof -
  have woken: "subscriber_reachable (new_subscriber\<lparr>sb_hubs := \<lparr>hs_wake = w, hs_hub = new_hub\<rparr>\<rparr>)"
    using wake
  proof (induction rule: wake_reachable.induct)
    case start
    have "new_subscriber\<lparr>sb_hubs := \<lparr>hs_wake = new_wake_hub, hs_hub = new_hub\<rparr>\<rparr> = new_subscriber"
      by (simp add: new_subscriber_def)
    then show ?case using subscriber_start by simp
  next
    case (call w c w')
    show ?case using subscriber_next [OF call.IH subscriber_step.other_wake [of _ c w']] call.hyps by simp
  qed
  show ?thesis
    using hub
  proof (induction rule: hub_reachable.induct)
    case (hub_call h h')
    show ?case using subscriber_next [OF hub_call.IH subscriber_step.other_hub [of _ h']] hub_call.hyps by simp
  qed (rule woken)
qed

end
