(* ===== verification/Sha256.thy ===== *)
theory Sha256
  imports Encoding
begin

text \<open>
  What the code uses of \<open>crypto/sha256\<close> and of \<open>base64.RawURLEncoding\<close>: the digest of a byte string as
  FIPS 180-4 defines it, executable on 32-bit words, and the unpadded alphabet for URLs.
\<close>

section \<open>Words of 32 bits\<close>

unbundle bit_operations_syntax

definition rotate_right :: "nat \<Rightarrow> u32 \<Rightarrow> u32" where
  "rotate_right n x = drop_bit n x OR push_bit (32 - n) x"

definition sigma0 :: "u32 \<Rightarrow> u32" where
  "sigma0 x = rotate_right 7 x XOR rotate_right 18 x XOR drop_bit 3 x"

definition sigma1 :: "u32 \<Rightarrow> u32" where
  "sigma1 x = rotate_right 17 x XOR rotate_right 19 x XOR drop_bit 10 x"

definition big_sigma0 :: "u32 \<Rightarrow> u32" where
  "big_sigma0 x = rotate_right 2 x XOR rotate_right 13 x XOR rotate_right 22 x"

definition big_sigma1 :: "u32 \<Rightarrow> u32" where
  "big_sigma1 x = rotate_right 6 x XOR rotate_right 11 x XOR rotate_right 25 x"

definition choice_word :: "u32 \<Rightarrow> u32 \<Rightarrow> u32 \<Rightarrow> u32" where
  "choice_word x y z = (x AND y) XOR (NOT x AND z)"

definition majority_word :: "u32 \<Rightarrow> u32 \<Rightarrow> u32 \<Rightarrow> u32" where
  "majority_word x y z = (x AND y) XOR (x AND z) XOR (y AND z)"

text \<open>
  The constants: the first 32 bits of the fractional parts of the cube roots of the first 64 primes, and
  of the square roots of the first 8 primes. \<open>integer_root e n\<close> is the greatest number below \<open>2 ^ 40\<close>
  whose power is at most \<open>n\<close>, one bit after the other.
\<close>

definition small_primes :: "nat list" where
  "small_primes = filter (\<lambda>n. list_all (\<lambda>d. n mod d \<noteq> 0) [2..<n]) [2..<312]"

definition integer_root :: "nat \<Rightarrow> nat \<Rightarrow> nat" where
  "integer_root e n = fold (\<lambda>i x. if (x + 2 ^ i) ^ e \<le> n then x + 2 ^ i else x) (rev [0..<40]) 0"

definition root_fraction :: "nat \<Rightarrow> nat \<Rightarrow> u32" where
  "root_fraction e p = of_nat (integer_root e (p * 2 ^ (32 * e)))"

definition round_constants :: "u32 list" where
  "round_constants = map (root_fraction 3) small_primes"

section \<open>The digest\<close>

text \<open>The eight working variables.\<close>

datatype digest_state = Digest u32 u32 u32 u32 u32 u32 u32 u32

fun digest_of_words :: "u32 list \<Rightarrow> digest_state" where
  "digest_of_words (a # b # c # d # e # f # g # h # _) = Digest a b c d e f g h"
| "digest_of_words _ = Digest 0 0 0 0 0 0 0 0"

definition initial_digest :: digest_state where
  "initial_digest = digest_of_words (map (root_fraction 2) (take 8 small_primes))"

fun digest_round :: "u32 \<Rightarrow> u32 \<Rightarrow> digest_state \<Rightarrow> digest_state" where
  "digest_round k w (Digest a b c d e f g h) =
     (let t1 = h + big_sigma1 e + choice_word e f g + k + w; t2 = big_sigma0 a + majority_word a b c
      in Digest (t1 + t2) a b c (d + t1) e f g)"

fun add_digest :: "digest_state \<Rightarrow> digest_state \<Rightarrow> digest_state" where
  "add_digest (Digest a b c d e f g h) (Digest a' b' c' d' e' f' g' h') =
     Digest (a + a') (b + b') (c + c') (d + d') (e + e') (f + f') (g + g') (h + h')"

text \<open>The message schedule, the newest word first.\<close>

fun extend_schedule :: "nat \<Rightarrow> u32 list \<Rightarrow> u32 list" where
  "extend_schedule 0 ws = ws"
| "extend_schedule (Suc n) ws =
     extend_schedule n ((sigma1 (ws ! 1) + ws ! 6 + sigma0 (ws ! 14) + ws ! 15) # ws)"

definition schedule :: "u32 list \<Rightarrow> u32 list" where
  "schedule block = rev (extend_schedule 48 (rev block))"

definition compress :: "digest_state \<Rightarrow> u32 list \<Rightarrow> digest_state" where
  "compress st block =
     add_digest st (fold (\<lambda>(k, w). digest_round k w) (zip round_constants (schedule block)) st)"

text \<open>Bytes, most significant first.\<close>

fun big_endian_words :: "8 word list \<Rightarrow> u32 list" where
  "big_endian_words (a # b # c # d # bs) =
     (push_bit 24 (ucast a) OR push_bit 16 (ucast b) OR push_bit 8 (ucast c) OR ucast d) # big_endian_words bs"
| "big_endian_words _ = []"

definition word_bytes :: "u32 \<Rightarrow> 8 word list" where
  "word_bytes x = [ucast (drop_bit 24 x), ucast (drop_bit 16 x), ucast (drop_bit 8 x), ucast x]"

definition pad_message :: "8 word list \<Rightarrow> 8 word list" where
  "pad_message m =
     (let bits = 8 * length m in
      m @ [0x80] @ replicate ((119 - length m mod 64) mod 64) 0
        @ map (\<lambda>i. of_nat (bits div 256 ^ i)) (rev [0..<8]))"

fun blocks :: "nat \<Rightarrow> u32 list \<Rightarrow> u32 list list" where
  "blocks 0 ws = []"
| "blocks (Suc n) ws = take 16 ws # blocks n (drop 16 ws)"

fun digest_bytes :: "digest_state \<Rightarrow> 8 word list" where
  "digest_bytes (Digest a b c d e f g h) = concat (map word_bytes [a, b, c, d, e, f, g, h])"

definition message_bytes :: "string \<Rightarrow> 8 word list" where
  "message_bytes s = map of_char s"

definition sha256 :: "string \<Rightarrow> 8 word list" where
  "sha256 s =
     (let ws = big_endian_words (pad_message (message_bytes s))
      in digest_bytes (fold (\<lambda>block st. compress st block) (blocks (length ws div 16) ws) initial_digest))"

lemma sha256_length [simp]: "length (sha256 s) = 32"
proof -
  have "length (digest_bytes st) = 32" for st by (cases st) (simp add: word_bytes_def)
  then show ?thesis by (simp add: sha256_def Let_def)
qed

lemma padded_whole_blocks: "length (pad_message m) mod 64 = 0"
proof -
  define k where "k = length m mod 64"
  have k: "k < 64" by (simp add: k_def)
  have "length (pad_message m) = length m + 9 + (119 - k) mod 64" by (simp add: pad_message_def k_def Let_def)
  also have "\<dots> = 64 * (length m div 64) + (k + 9 + (119 - k) mod 64)" by (simp add: k_def)
  finally have whole: "length (pad_message m) mod 64 = (k + 9 + (119 - k) mod 64) mod 64" by simp
  show ?thesis
  proof (cases "k < 56")
    case True
    then have "(119 - k) mod 64 = 55 - k" by (simp add: mod_if)
    with True whole show ?thesis by simp
  next
    case False
    with k have "(119 - k) mod 64 = 119 - k" by simp
    with k whole show ?thesis by simp
  qed
qed

section \<open>Unpadded base64 for URLs\<close>

definition url_char :: "char \<Rightarrow> char" where
  "url_char c = (if c = CHR ''+'' then CHR ''-'' else if c = CHR ''/'' then CHR ''_'' else c)"

definition base64_url_encode :: "string \<Rightarrow> string" where
  "base64_url_encode s = map url_char (filter (\<lambda>c. c \<noteq> pad) (base64_encode s))"

definition bytes_string :: "8 word list \<Rightarrow> string" where
  "bytes_string bs = map (\<lambda>b. char_of (unat b)) bs"

end
