(* ===== verification/Config.thy ===== *)
theory Config
  imports Url
begin

text \<open>
  The configuration (\<open>internal/config/config.go\<close>): reading the environment, the normalisation of the base
  URL and of the origins, and the checks of the commands.
\<close>

section \<open>Types\<close>

definition default_public_base_url :: string where
  "default_public_base_url = ''https://api.luminet.cn/hifumi/''"

definition default_frontend_origins :: string where
  "default_frontend_origins = ''https://stellafortuna.hifumi.luminet.cn,https://stellafortuna.luminet.cn''"

definition default_frontend_return :: string where
  "default_frontend_return = ''https://stellafortuna.luminet.cn/''"

definition default_redis_key_prefix :: string where "default_redis_key_prefix = ''study-list:prod:''"
definition default_http_addr :: string where "default_http_addr = '':8080''"
definition default_session_audience :: string where "default_session_audience = ''stellafortuna''"
definition minimum_signing_secret_len :: nat where "minimum_signing_secret_len = 32"

record config =
  cg_http_addr :: string
  cg_public_base_url :: go_url
  cg_frontend_origins :: "string list"
  cg_frontend_return_url :: go_url
  cg_mysql_dsn :: string
  cg_redis_url :: string
  cg_redis_key_prefix :: string
  cg_client_id :: string
  cg_client_secret :: string
  cg_session_secret :: string
  cg_session_audience :: string
  cg_trusted_proxy_cidrs :: "string list"
  cg_log_level :: string
  cg_shutdown_timeout :: int  \<comment> \<open>milliseconds\<close>

datatype config_error =
    InvalidPublicBaseURL
  | NoFrontendOrigin
  | InvalidFrontendOrigin string
  | InvalidFrontendReturnURL
  | FrontendReturnNotListed
  | RequiredVariable string
  | SessionSecretTooShort
  | InvalidTrustedProxyCIDR string

section \<open>Normalisation\<close>

definition split_csv :: "string \<Rightarrow> string list" where
  "split_csv v = filter (\<lambda>item. item \<noteq> []) (map trim_space (split_on CHR 0x2C v))"

definition list_contains :: "string list \<Rightarrow> string \<Rightarrow> bool" where
  "list_contains values v = list_ex (\<lambda>existing. existing = v) values"

definition append_unique :: "string list \<Rightarrow> string \<Rightarrow> string list" where
  "append_unique values v = (if list_contains values v then values else values @ [v])"

definition normalized_base_url :: "string \<Rightarrow> config_error + go_url" where
  "normalized_base_url raw =
     (case url_parse raw of
        None \<Rightarrow> Inl InvalidPublicBaseURL
      | Some u \<Rightarrow>
          if gu_scheme u \<noteq> ''https'' \<or> gu_host u = [] \<or> gu_raw_query u \<noteq> [] \<or> gu_fragment u \<noteq> []
          then Inl InvalidPublicBaseURL
          else Inr (if has_suffix (gu_path u) ''/'' then u else u\<lparr>gu_path := gu_path u @ ''/''\<rparr>))"

definition normalized_origin :: "string \<Rightarrow> config_error + string" where
  "normalized_origin raw =
     (case url_parse raw of
        None \<Rightarrow> Inl (InvalidFrontendOrigin raw)
      | Some u \<Rightarrow>
          if gu_scheme u \<noteq> ''https'' \<or> gu_host u = [] \<or> (gu_path u \<noteq> [] \<and> gu_path u \<noteq> ''/'')
             \<or> gu_raw_query u \<noteq> [] \<or> gu_fragment u \<noteq> []
          then Inl (InvalidFrontendOrigin raw)
          else Inr (url_origin u))"

fun normalize_items :: "string list \<Rightarrow> string list \<Rightarrow> config_error + string list" where
  "normalize_items [] origins = Inr origins"
| "normalize_items (item # items) origins =
     (case normalized_origin item of
        Inl e \<Rightarrow> Inl e
      | Inr origin \<Rightarrow> normalize_items items (append_unique origins origin))"

definition normalized_origins :: "string \<Rightarrow> config_error + string list" where
  "normalized_origins raw =
     (let items = split_csv raw in if items = [] then Inl NoFrontendOrigin else normalize_items items [])"

section \<open>Loading\<close>

text \<open>\<open>lookup\<close> is \<open>os.LookupEnv\<close>.\<close>

definition config_value :: "(string \<Rightarrow> string option) \<Rightarrow> string \<Rightarrow> string \<Rightarrow> string" where
  "config_value lookup name fallback =
     (case lookup name of
        Some raw \<Rightarrow> if trim_space raw \<noteq> [] then trim_space raw else fallback
      | None \<Rightarrow> fallback)"

text \<open>
  \<open>to_lower\<close> changes ASCII letters only: the level is compared with three ASCII words, and no other
  character has a lower case among their letters.
\<close>

definition load_from :: "(string \<Rightarrow> string option) \<Rightarrow> config_error + config" where
  "load_from lookup =
     (let val = config_value lookup in
      case normalized_base_url (val ''PUBLIC_BASE_URL'' default_public_base_url) of
        Inl e \<Rightarrow> Inl e
      | Inr public_base \<Rightarrow>
          (case normalized_origins (val ''FRONTEND_ORIGINS'' default_frontend_origins) of
             Inl e \<Rightarrow> Inl e
           | Inr origins \<Rightarrow>
               (case url_parse (val ''FRONTEND_RETURN_URL'' default_frontend_return) of
                  None \<Rightarrow> Inl InvalidFrontendReturnURL
                | Some return_url \<Rightarrow>
                    if gu_scheme return_url \<noteq> ''https'' \<or> gu_host return_url = [] \<or> gu_user return_url \<noteq> None
                    then Inl InvalidFrontendReturnURL
                    else if \<not> list_contains origins (url_origin return_url) then Inl FrontendReturnNotListed
                    else Inr
                      \<lparr>cg_http_addr = val ''HTTP_ADDR'' default_http_addr,
                       cg_public_base_url = public_base,
                       cg_frontend_origins = origins,
                       cg_frontend_return_url = return_url,
                       cg_mysql_dsn = val ''MYSQL_DSN'' [],
                       cg_redis_url = val ''REDIS_URL'' [],
                       cg_redis_key_prefix = val ''REDIS_KEY_PREFIX'' default_redis_key_prefix,
                       cg_client_id = val ''LINUXDO_CLIENT_ID'' [],
                       cg_client_secret = val ''LINUXDO_CLIENT_SECRET'' [],
                       cg_session_secret = val ''SESSION_JWT_SECRET'' [],
                       cg_session_audience = val ''SESSION_AUDIENCE'' default_session_audience,
                       cg_trusted_proxy_cidrs = split_csv (val ''TRUSTED_PROXY_CIDRS'' []),
                       cg_log_level = to_lower (val ''LOG_LEVEL'' ''info''),
                       cg_shutdown_timeout = 30 * 1000\<rparr>)))"

section \<open>Checks\<close>

text \<open>
  The required variables stand in a Go map, whose order of iteration is not defined: \<open>order\<close> is the
  order in which the loop meets them.
\<close>

definition required_variables :: "config \<Rightarrow> (string \<times> string) list" where
  "required_variables c =
     [(''MYSQL_DSN'', cg_mysql_dsn c), (''REDIS_URL'', cg_redis_url c), (''LINUXDO_CLIENT_ID'', cg_client_id c),
      (''LINUXDO_CLIENT_SECRET'', cg_client_secret c), (''SESSION_JWT_SECRET'', cg_session_secret c)]"

fun require_all :: "(string \<times> string) list \<Rightarrow> config_error + unit" where
  "require_all [] = Inr ()"
| "require_all ((name, v) # rest) =
     (if trim_space v = [] then Inl (RequiredVariable name) else require_all rest)"

fun check_cidrs :: "string list \<Rightarrow> config_error + unit" where
  "check_cidrs [] = Inr ()"
| "check_cidrs (v # rest) =
     (if parse_cidr v \<noteq> None then check_cidrs rest else Inl (InvalidTrustedProxyCIDR v))"

definition validate_serve ::
  "((string \<times> string) list \<Rightarrow> (string \<times> string) list) \<Rightarrow> config \<Rightarrow> config_error + unit" where
  "validate_serve order c =
     (case require_all (order (required_variables c)) of
        Inl e \<Rightarrow> Inl e
      | Inr _ \<Rightarrow>
          if length (cg_session_secret c) < minimum_signing_secret_len then Inl SessionSecretTooShort
          else check_cidrs (cg_trusted_proxy_cidrs c))"

definition validate_migrate :: "config \<Rightarrow> config_error + unit" where
  "validate_migrate c = (if trim_space (cg_mysql_dsn c) = [] then Inl (RequiredVariable ''MYSQL_DSN'') else Inr ())"

section \<open>Paths\<close>

definition public_issuer :: "config \<Rightarrow> string" where
  "public_issuer c = trim_suffix (url_string (cg_public_base_url c)) ''/''"

definition public_path :: "config \<Rightarrow> string \<Rightarrow> string" where
  "public_path c relative = trim_suffix (gu_path (cg_public_base_url c)) ''/'' @ ''/'' @ trim_prefix relative ''/''"

definition public_url :: "config \<Rightarrow> string \<Rightarrow> string" where
  "public_url c relative = url_string (url_resolve (cg_public_base_url c) (trim_prefix relative ''/''))"

section \<open>What is loaded is well-formed\<close>

lemma list_contains_iff [simp]: "list_contains values v \<longleftrightarrow> v \<in> set values"
  by (auto simp: list_contains_def list_ex_iff)

lemma append_unique_set [simp]: "set (append_unique values v) = insert v (set values)"
  by (auto simp: append_unique_def)

lemma append_unique_distinct: "distinct values \<Longrightarrow> distinct (append_unique values v)"
  by (simp add: append_unique_def)

text \<open>An origin is that of an \<open>https\<close> URL.\<close>

definition https_origin :: "string \<Rightarrow> bool" where
  "https_origin origin \<longleftrightarrow> (\<exists>host. host \<noteq> [] \<and> origin = ''https://'' @ host)"

lemma normalized_origin_https: "normalized_origin raw = Inr origin \<Longrightarrow> https_origin origin"
  by (auto simp: normalized_origin_def https_origin_def url_origin_def split: option.splits if_splits)

lemma normalize_items_ok:
  "normalize_items items origins = Inr result \<Longrightarrow> distinct origins \<Longrightarrow> (\<forall>x \<in> set origins. https_origin x) \<Longrightarrow>
     distinct result \<and> (\<forall>x \<in> set result. https_origin x) \<and> set origins \<subseteq> set result \<and> (items \<noteq> [] \<longrightarrow> result \<noteq> [])"
proof (induction items arbitrary: origins)
  case (Cons item items)
  then obtain origin where origin: "normalized_origin item = Inr origin"
      "normalize_items items (append_unique origins origin) = Inr result"
    by (auto split: sum.splits)
  from Cons.IH [OF this(2)] Cons.prems(2,3) normalized_origin_https [OF origin(1)]
  show ?case by (auto simp: append_unique_distinct)
qed simp

lemma normalized_origins_ok:
  assumes "normalized_origins raw = Inr origins"
  shows "origins \<noteq> [] \<and> distinct origins \<and> (\<forall>x \<in> set origins. https_origin x)"
  using assms normalize_items_ok [of "split_csv raw" "[]" origins]
  by (auto simp: normalized_origins_def Let_def split: if_splits)

lemma require_all_ok: "require_all vars = Inr () \<longleftrightarrow> (\<forall>(name, v) \<in> set vars. trim_space v \<noteq> [])"
  by (induction vars rule: require_all.induct) auto

lemma check_cidrs_ok: "check_cidrs vs = Inr () \<longleftrightarrow> (\<forall>v \<in> set vs. parse_cidr v \<noteq> None)"
  by (induction vs rule: check_cidrs.induct) auto

end
