(* ===== verification/Tokens.thy ===== *)
theory Tokens
  imports Sha256
begin

text \<open>
  The session and the OAuth state tokens (\<open>internal/auth/token.go\<close>). The JWT library is a record of
  functions that the definitions take as an argument: it signs and parses sets of claims and checks
  the registered ones as its options say. What its documentation promises is the predicate
  \<open>jwt_documented\<close>, a hypothesis of the lemmas that need it. Times are in milliseconds.
\<close>

section \<open>Claims\<close>

text \<open>The embedded \<open>jwt.RegisteredClaims\<close> is the parent record of both kinds of claims.\<close>

record registered_claims =
  rg_issuer :: string
  rg_subject :: string
  rg_audience :: "string list"
  rg_expires_at :: "int option"
  rg_not_before :: "int option"
  rg_issued_at :: "int option"

record session_claims = registered_claims +
  sc_username :: string
  sc_name :: string
  sc_avatar_url :: string
  sc_email :: string

record oauth_claims = registered_claims +
  oc_purpose :: string
  oc_state :: string
  oc_verifier :: string
  oc_return_to :: string

record profile =
  pf_subject :: string
  pf_username :: string
  pf_display_name :: string
  pf_avatar_url :: string
  pf_email :: string

definition profile_text_ok :: "profile \<Rightarrow> bool" where
  "profile_text_ok pf \<longleftrightarrow> valid_utf8 (pf_subject pf) \<and> valid_utf8 (pf_username pf) \<and> valid_utf8 (pf_display_name pf)
     \<and> valid_utf8 (pf_avatar_url pf) \<and> valid_utf8 (pf_email pf)"

text \<open>
  A set of claims as it stands in a token: the members by the names of the tags, without those that
  are empty and tagged \<open>omitempty\<close>.
\<close>

datatype claim = ClaimText string | ClaimTexts "string list" | ClaimTime int

type_synonym payload = "(string \<times> claim) list"

definition omit_text :: "string \<Rightarrow> string \<Rightarrow> payload" where
  "omit_text name v = (if v = [] then [] else [(name, ClaimText v)])"

definition omit_time :: "string \<Rightarrow> int option \<Rightarrow> payload" where
  "omit_time name v = (case v of None \<Rightarrow> [] | Some t \<Rightarrow> [(name, ClaimTime t)])"

definition registered_payload :: "'a registered_claims_scheme \<Rightarrow> payload" where
  "registered_payload c =
     omit_text ''iss'' (rg_issuer c) @ omit_text ''sub'' (rg_subject c)
     @ (if rg_audience c = [] then [] else [(''aud'', ClaimTexts (rg_audience c))])
     @ omit_time ''exp'' (rg_expires_at c) @ omit_time ''nbf'' (rg_not_before c) @ omit_time ''iat'' (rg_issued_at c)"

definition session_payload :: "session_claims \<Rightarrow> payload" where
  "session_payload c =
     omit_text ''username'' (sc_username c) @ omit_text ''name'' (sc_name c)
     @ omit_text ''avatarUrl'' (sc_avatar_url c) @ omit_text ''email'' (sc_email c) @ registered_payload c"

definition oauth_payload :: "oauth_claims \<Rightarrow> payload" where
  "oauth_payload c =
     [(''purpose'', ClaimText (oc_purpose c)), (''state'', ClaimText (oc_state c)), (''verifier'', ClaimText (oc_verifier c))]
     @ omit_text ''returnTo'' (oc_return_to c) @ registered_payload c"

text \<open>The claims of a token whose members have the types of the struct; a member that is missing is empty.\<close>

definition text_claim :: "payload \<Rightarrow> string \<Rightarrow> string" where
  "text_claim p name = (case map_of p name of Some (ClaimText s) \<Rightarrow> s | _ \<Rightarrow> [])"

definition time_claim :: "payload \<Rightarrow> string \<Rightarrow> int option" where
  "time_claim p name = (case map_of p name of Some (ClaimTime t) \<Rightarrow> Some t | _ \<Rightarrow> None)"

definition audience_claim :: "payload \<Rightarrow> string list" where
  "audience_claim p = (case map_of p ''aud'' of Some (ClaimTexts vs) \<Rightarrow> vs | _ \<Rightarrow> [])"

definition read_session :: "payload \<Rightarrow> session_claims" where
  "read_session p =
     \<lparr>rg_issuer = text_claim p ''iss'', rg_subject = text_claim p ''sub'', rg_audience = audience_claim p,
      rg_expires_at = time_claim p ''exp'', rg_not_before = time_claim p ''nbf'', rg_issued_at = time_claim p ''iat'',
      sc_username = text_claim p ''username'', sc_name = text_claim p ''name'',
      sc_avatar_url = text_claim p ''avatarUrl'', sc_email = text_claim p ''email''\<rparr>"

definition read_oauth :: "payload \<Rightarrow> oauth_claims" where
  "read_oauth p =
     \<lparr>rg_issuer = text_claim p ''iss'', rg_subject = text_claim p ''sub'', rg_audience = audience_claim p,
      rg_expires_at = time_claim p ''exp'', rg_not_before = time_claim p ''nbf'', rg_issued_at = time_claim p ''iat'',
      oc_purpose = text_claim p ''purpose'', oc_state = text_claim p ''state'',
      oc_verifier = text_claim p ''verifier'', oc_return_to = text_claim p ''returnTo''\<rparr>"

section \<open>The library\<close>

record jwt_options =
  jo_methods :: "string list"
  jo_issuer :: "string option"
  jo_audience :: string
  jo_expiration_required :: bool
  jo_leeway :: int
  jo_now :: int

text \<open>
  \<open>SignedString\<close> with the method HS256; \<open>ParseWithClaims\<close> with a key function that is given the method of
  the token, the result with the field \<open>Valid\<close>; \<open>NewNumericDate\<close>.
\<close>

record jwt_library =
  jwt_sign :: "string \<Rightarrow> payload \<Rightarrow> err + string"
  jwt_parse :: "jwt_options \<Rightarrow> (string \<Rightarrow> string option) \<Rightarrow> string \<Rightarrow> (payload \<times> bool) option"
  jwt_date :: "int \<Rightarrow> int"

section \<open>The manager\<close>

definition session_lifetime :: int where "session_lifetime = 31 * 24 * 60 * 60 * 1000"
definition oauth_lifetime :: int where "oauth_lifetime = 10 * 60 * 1000"

record token_manager =
  tm_secret :: string
  tm_issuer :: string
  tm_audience :: string

datatype manager_error = ShortSigningSecret | MissingIssuerOrAudience

definition new_manager :: "string \<Rightarrow> string \<Rightarrow> string \<Rightarrow> manager_error + token_manager" where
  "new_manager secret issuer audience =
     (if length secret < 32 then Inl ShortSigningSecret
      else if issuer = [] \<or> audience = [] then Inl MissingIssuerOrAudience
      else Inr \<lparr>tm_secret = secret, tm_issuer = issuer, tm_audience = audience\<rparr>)"

definition session_claims_for :: "jwt_library \<Rightarrow> token_manager \<Rightarrow> int \<Rightarrow> profile \<Rightarrow> session_claims" where
  "session_claims_for L m now pf =
     \<lparr>rg_issuer = tm_issuer m, rg_subject = pf_subject pf, rg_audience = [tm_audience m],
      rg_expires_at = Some (jwt_date L (now + session_lifetime)),
      rg_not_before = Some (jwt_date L (now - 5 * 1000)), rg_issued_at = Some (jwt_date L now),
      sc_username = pf_username pf, sc_name = pf_display_name pf, sc_avatar_url = pf_avatar_url pf,
      sc_email = pf_email pf\<rparr>"

text \<open>\<open>SignSession\<close>: the token and when it expires.\<close>

definition sign_session :: "jwt_library \<Rightarrow> token_manager \<Rightarrow> int \<Rightarrow> profile \<Rightarrow> err + string \<times> int" where
  "sign_session L m now pf =
     (case jwt_sign L (tm_secret m) (session_payload (session_claims_for L m now pf)) of
        Inl e \<Rightarrow> Inl e
      | Inr token \<Rightarrow> Inr (token, now + session_lifetime))"

definition key_function :: "token_manager \<Rightarrow> string \<Rightarrow> string option" where
  "key_function m alg = (if alg \<noteq> ''HS256'' then None else Some (tm_secret m))"

definition session_options :: "token_manager \<Rightarrow> int \<Rightarrow> jwt_options" where
  "session_options m now =
     \<lparr>jo_methods = [''HS256''], jo_issuer = None, jo_audience = tm_audience m, jo_expiration_required = True,
      jo_leeway = 5 * 1000, jo_now = now\<rparr>"

definition verify_session :: "jwt_library \<Rightarrow> token_manager \<Rightarrow> int \<Rightarrow> string \<Rightarrow> session_claims option" where
  "verify_session L m now raw =
     (case jwt_parse L (session_options m now) (key_function m) raw of
        None \<Rightarrow> None
      | Some (p, valid) \<Rightarrow>
          (let claims = read_session p in
           if \<not> valid \<or> rg_subject claims = [] then None
           else if rg_issuer claims \<noteq> tm_issuer m then None
           else Some claims))"

definition oauth_purpose :: string where "oauth_purpose = ''linuxdo-oauth''"

definition oauth_claims_for :: "jwt_library \<Rightarrow> token_manager \<Rightarrow> int \<Rightarrow> string \<Rightarrow> string \<Rightarrow> string \<Rightarrow> oauth_claims" where
  "oauth_claims_for L m now state verifier return_to =
     \<lparr>rg_issuer = tm_issuer m, rg_subject = [], rg_audience = [tm_audience m],
      rg_expires_at = Some (jwt_date L (now + oauth_lifetime)),
      rg_not_before = Some (jwt_date L (now - 5 * 1000)), rg_issued_at = Some (jwt_date L now),
      oc_purpose = oauth_purpose, oc_state = state, oc_verifier = verifier, oc_return_to = return_to\<rparr>"

definition sign_oauth_state ::
  "jwt_library \<Rightarrow> token_manager \<Rightarrow> int \<Rightarrow> string \<Rightarrow> string \<Rightarrow> string \<Rightarrow> err + string" where
  "sign_oauth_state L m now state verifier return_to =
     jwt_sign L (tm_secret m) (oauth_payload (oauth_claims_for L m now state verifier return_to))"

definition oauth_options :: "token_manager \<Rightarrow> int \<Rightarrow> jwt_options" where
  "oauth_options m now = (session_options m now)\<lparr>jo_issuer := Some (tm_issuer m)\<rparr>"

definition verify_oauth_state :: "jwt_library \<Rightarrow> token_manager \<Rightarrow> int \<Rightarrow> string \<Rightarrow> string \<Rightarrow> oauth_claims option" where
  "verify_oauth_state L m now raw expected_state =
     (case jwt_parse L (oauth_options m now) (key_function m) raw of
        None \<Rightarrow> None
      | Some (p, valid) \<Rightarrow>
          (let claims = read_oauth p in
           if \<not> valid \<or> oc_purpose claims \<noteq> oauth_purpose \<or> oc_state claims = []
              \<or> oc_state claims \<noteq> expected_state \<or> oc_verifier claims = []
           then None else Some claims))"

section \<open>Helpers\<close>

definition random_base64_url :: "err + 8 word list \<Rightarrow> err + string" where
  "random_base64_url random =
     (case random of Inl e \<Rightarrow> Inl e | Inr bytes \<Rightarrow> Inr (base64_url_encode (bytes_string bytes)))"

definition pkce_challenge :: "string \<Rightarrow> string" where
  "pkce_challenge verifier = base64_url_encode (bytes_string (sha256 verifier))"

definition owner_key_of :: "string \<Rightarrow> string" where
  "owner_key_of subject = hex_encode (sha256 (''linuxdo:'' @ subject))"

section \<open>What the library promises\<close>

text \<open>The validation of the registered claims, as the options ask for it.\<close>

definition payload_valid :: "jwt_options \<Rightarrow> payload \<Rightarrow> bool" where
  "payload_valid opts p \<longleftrightarrow>
     (case time_claim p ''exp'' of
        None \<Rightarrow> \<not> jo_expiration_required opts
      | Some t \<Rightarrow> jo_now opts < t + jo_leeway opts)
     \<and> (case time_claim p ''nbf'' of None \<Rightarrow> True | Some t \<Rightarrow> t - jo_leeway opts \<le> jo_now opts)
     \<and> jo_audience opts \<in> set (audience_claim p)
     \<and> (case jo_issuer opts of None \<Rightarrow> True | Some issuer \<Rightarrow> text_claim p ''iss'' = issuer)"

text \<open>Text goes through JSON unchanged when it is valid UTF-8.\<close>

fun claim_text_ok :: "claim \<Rightarrow> bool" where
  "claim_text_ok (ClaimText s) = valid_utf8 s"
| "claim_text_ok (ClaimTexts vs) = list_all valid_utf8 vs"
| "claim_text_ok (ClaimTime t) = True"

text \<open>
  Signing with a key succeeds; a token that was signed with the key the key function gives parses to
  its claims when they are valid, and is refused when they are not; what parses has been validated;
  a numeric date is the whole second.
\<close>

definition jwt_documented :: "jwt_library \<Rightarrow> bool" where
  "jwt_documented L \<longleftrightarrow>
     (\<forall>secret p. secret \<noteq> [] \<longrightarrow> (\<exists>token. jwt_sign L secret p = Inr token))
     \<and> (\<forall>secret p token opts key. jwt_sign L secret p = Inr token \<longrightarrow> list_all (claim_text_ok \<circ> snd) p
          \<longrightarrow> ''HS256'' \<in> set (jo_methods opts) \<longrightarrow> key ''HS256'' = Some secret
          \<longrightarrow> jwt_parse L opts key token = (if payload_valid opts p then Some (p, True) else None))
     \<and> (\<forall>opts key token p valid. jwt_parse L opts key token = Some (p, valid) \<longrightarrow> payload_valid opts p)
     \<and> (\<forall>t. jwt_date L t \<le> t \<and> t < jwt_date L t + 1000)"

lemma jwt_laws:
  assumes "jwt_documented L"
  shows "secret \<noteq> [] \<Longrightarrow> \<exists>token. jwt_sign L secret p = Inr token"
    and "jwt_sign L secret p = Inr token \<Longrightarrow> list_all (claim_text_ok \<circ> snd) p \<Longrightarrow> ''HS256'' \<in> set (jo_methods opts)
      \<Longrightarrow> key ''HS256'' = Some secret
      \<Longrightarrow> jwt_parse L opts key token = (if payload_valid opts p then Some (p, True) else None)"
    and "jwt_parse L opts key token = Some (p, valid) \<Longrightarrow> payload_valid opts p"
    and "jwt_date L t \<le> t" and "t < jwt_date L t + 1000"
  using assms unfolding jwt_documented_def by blast+

section \<open>Reading back what was signed\<close>

lemma map_of_omit [simp]:
  "map_of (omit_text n v) k = (if k = n \<and> v \<noteq> [] then Some (ClaimText v) else None)"
  "map_of (omit_time n t) k = (if k = n \<and> t \<noteq> None then Some (ClaimTime (the t)) else None)"
  by (auto simp: omit_text_def omit_time_def split: option.splits)

lemma map_of_registered:
  "map_of (registered_payload c) k =
     (if k = ''iss'' \<and> rg_issuer c \<noteq> [] then Some (ClaimText (rg_issuer c))
      else if k = ''sub'' \<and> rg_subject c \<noteq> [] then Some (ClaimText (rg_subject c))
      else if k = ''aud'' \<and> rg_audience c \<noteq> [] then Some (ClaimTexts (rg_audience c))
      else if k = ''exp'' \<and> rg_expires_at c \<noteq> None then Some (ClaimTime (the (rg_expires_at c)))
      else if k = ''nbf'' \<and> rg_not_before c \<noteq> None then Some (ClaimTime (the (rg_not_before c)))
      else if k = ''iat'' \<and> rg_issued_at c \<noteq> None then Some (ClaimTime (the (rg_issued_at c)))
      else None)"
  by (simp add: registered_payload_def map_add_def)

lemmas read_claims = text_claim_def time_claim_def audience_claim_def map_of_registered map_add_def

lemma read_registered:
  "text_claim (registered_payload c) ''iss'' = rg_issuer c" "text_claim (registered_payload c) ''sub'' = rg_subject c"
  "audience_claim (registered_payload c) = rg_audience c" "time_claim (registered_payload c) ''exp'' = rg_expires_at c"
  "time_claim (registered_payload c) ''nbf'' = rg_not_before c" "time_claim (registered_payload c) ''iat'' = rg_issued_at c"
  by (simp_all add: read_claims)

lemma read_session_payload: "read_session (session_payload c) = c"
  by (cases c) (simp add: read_session_def session_payload_def read_claims)

lemma read_oauth_payload: "read_oauth (oauth_payload c) = c"
  by (cases c) (simp add: read_oauth_def oauth_payload_def read_claims)

text \<open>A session has no purpose; a state has the subject of its registered claims, which is empty.\<close>

lemma read_other_kind:
  "oc_purpose (read_oauth (session_payload c)) = []" "rg_subject (read_session (oauth_payload d)) = rg_subject d"
  by (simp_all add: read_oauth_def read_session_def session_payload_def oauth_payload_def read_claims)

lemma payload_valid_registered:
  "payload_valid opts (session_payload c) \<longleftrightarrow> payload_valid opts (registered_payload c)"
  "payload_valid opts (oauth_payload d) \<longleftrightarrow> payload_valid opts (registered_payload d)"
  by (simp_all add: payload_valid_def session_payload_def oauth_payload_def read_claims cong: option.case_cong)

lemma payload_valid_fields:
  "payload_valid opts (registered_payload c) \<longleftrightarrow>
     (case rg_expires_at c of None \<Rightarrow> \<not> jo_expiration_required opts | Some t \<Rightarrow> jo_now opts < t + jo_leeway opts)
     \<and> (case rg_not_before c of None \<Rightarrow> True | Some t \<Rightarrow> t - jo_leeway opts \<le> jo_now opts)
     \<and> jo_audience opts \<in> set (rg_audience c)
     \<and> (case jo_issuer opts of None \<Rightarrow> True | Some issuer \<Rightarrow> rg_issuer c = issuer)"
  by (simp add: payload_valid_def read_registered cong: option.case_cong)

lemma new_manager_ok:
  "new_manager secret issuer audience = Inr m \<Longrightarrow> 32 \<le> length (tm_secret m) \<and> tm_issuer m \<noteq> [] \<and> tm_audience m \<noteq> []"
  by (auto simp: new_manager_def split: if_splits)

text \<open>What the session verifier and the state verifier accept.\<close>

lemma verify_session_some:
  assumes "jwt_documented L" and "verify_session L m now raw = Some claims"
  shows "rg_subject claims \<noteq> [] \<and> rg_issuer claims = tm_issuer m \<and> tm_audience m \<in> set (rg_audience claims)
    \<and> (\<exists>t. rg_expires_at claims = Some t \<and> now < t + 5000)"
proof -
  from assms(2) obtain p valid where p: "jwt_parse L (session_options m now) (key_function m) raw = Some (p, valid)"
    and claims: "claims = read_session p" "rg_subject claims \<noteq> []" "rg_issuer claims = tm_issuer m"
    by (auto simp: verify_session_def Let_def split: option.splits prod.splits if_splits)
  from jwt_laws(3) [OF assms(1) p] have "payload_valid (session_options m now) p" .
  then show ?thesis using claims
    by (auto simp: payload_valid_def session_options_def read_session_def split: option.splits)
qed

end
