(* ===== verification/OAuth.thy ===== *)
theory OAuth
  imports Tokens Progress Url
begin

text \<open>
  The login through Linux DO (\<open>internal/auth/oauth.go\<close>): the authorization request with PKCE, the exchange
  of the code, and the profile. The HTTP client is an argument: what the other side answers to a
  request, or that the request fails.
\<close>

section \<open>Query strings\<close>

text \<open>\<open>url.QueryEscape\<close> and \<open>url.Values.Encode\<close> of values with one entry for each key.\<close>

definition is_unreserved :: "char \<Rightarrow> bool" where
  "is_unreserved c \<longleftrightarrow> in_range c 48 57 \<or> in_range c 65 90 \<or> in_range c 97 122 \<or> c \<in> set ''-_.~''"

definition query_escape_char :: "char \<Rightarrow> string" where
  "query_escape_char c =
     (if is_unreserved c then [c]
      else if c = CHR '' '' then ''+''
      else [CHR 0x25, upper_hex_digit (of_char c div 16), upper_hex_digit (of_char c mod 16)])"

definition query_escape :: "string \<Rightarrow> string" where
  "query_escape s = concat (map query_escape_char s)"

definition encode_values :: "(string \<times> string) list \<Rightarrow> string" where
  "encode_values vs =
     join_with ''&'' (map (\<lambda>(k, v). query_escape k @ ''='' @ query_escape v) (sort_key fst vs))"

text \<open>\<open>url.QueryUnescape\<close> and \<open>url.ParseQuery\<close> with its errors ignored, as \<open>URL.Query\<close> does; \<open>Set\<close> and \<open>Encode\<close>.\<close>

fun query_unescape :: "string \<Rightarrow> string option" where
  "query_unescape [] = Some []"
| "query_unescape (c # cs) =
     (if c = CHR 0x25 then
        (case cs of
           h # l # rest \<Rightarrow>
             if is_hex h \<and> is_hex l then map_option (Cons (char_of (unhex h * 16 + unhex l))) (query_unescape rest)
             else None
         | _ \<Rightarrow> None)
      else map_option (Cons (if c = CHR ''+'' then CHR '' '' else c)) (query_unescape cs))"

definition query_pair :: "string \<Rightarrow> (string \<times> string) option" where
  "query_pair part =
     (if part = [] \<or> CHR '';'' \<in> set part then None
      else
        (let k = takeWhile (\<lambda>c. c \<noteq> CHR ''='') part; v = drop (length k + 1) part in
         case (query_unescape k, query_unescape v) of
           (Some k', Some v') \<Rightarrow> Some (k', v')
         | _ \<Rightarrow> None))"

definition parse_query :: "string \<Rightarrow> (string \<times> string) list" where
  "parse_query raw = List.map_filter query_pair (split_on CHR ''&'' raw)"

definition set_query :: "string \<Rightarrow> string \<Rightarrow> string \<Rightarrow> string" where
  "set_query raw k v = encode_values (filter (\<lambda>(k', _). k' \<noteq> k) (parse_query raw) @ [(k, v)])"

section \<open>The first JSON value of a stream\<close>

text \<open>
  \<open>json.Decoder.Decode\<close> takes the first value and leaves what follows. No proper beginning of an object, an array
  or a word is a value; for a number the value found may be shorter than the number, which is of the
  wrong type for the targets here in either case.
\<close>

definition json_first :: "string \<Rightarrow> jvalue option" where
  "json_first s =
     (case filter (\<lambda>v. v \<noteq> None) (map (\<lambda>n. json_parse (take n s)) [0..<length s + 1]) of
        [] \<Rightarrow> None
      | v # _ \<Rightarrow> v)"

section \<open>Types\<close>

definition authorization_endpoint :: string where
  "authorization_endpoint = ''https://connect.linux.do/oauth2/authorize''"

definition token_endpoint :: string where "token_endpoint = ''https://connect.linux.do/oauth2/token''"
definition user_endpoint :: string where "user_endpoint = ''https://connect.linux.do/api/user''"

record login =
  lg_authorization_url :: string
  lg_state_token :: string
  lg_state :: string

record oauth_provider =
  ap_client_id :: string
  ap_client_secret :: string
  ap_redirect_uri :: string
  ap_frontend_url :: string
  ap_tokens :: token_manager

record upstream_request =
  uq_method :: string
  uq_url :: string
  uq_headers :: "(string \<times> string) list"
  uq_body :: string

type_synonym http_client = "upstream_request \<Rightarrow> err + nat \<times> string"

section \<open>Beginning a login\<close>

definition begin_login ::
  "jwt_library \<Rightarrow> oauth_provider \<Rightarrow> int \<Rightarrow> err + 8 word list \<Rightarrow> err + 8 word list \<Rightarrow> string \<Rightarrow> err + login" where
  "begin_login L P now random1 random2 return_to =
     (case random_base64_url random1 of
        Inl e \<Rightarrow> Inl e
      | Inr state \<Rightarrow>
          (case random_base64_url random2 of
             Inl e \<Rightarrow> Inl e
           | Inr verifier \<Rightarrow>
               (let target = (if trim_space return_to = [] then ap_frontend_url P else return_to) in
                case sign_oauth_state L (ap_tokens P) now state verifier target of
                  Inl e \<Rightarrow> Inl e
                | Inr state_token \<Rightarrow>
                    Inr \<lparr>lg_authorization_url = authorization_endpoint @ ''?'' @ encode_values
                           [(''client_id'', ap_client_id P), (''redirect_uri'', ap_redirect_uri P),
                            (''response_type'', ''code''), (''scope'', ''openid profile email''), (''state'', state),
                            (''code_challenge'', pkce_challenge verifier), (''code_challenge_method'', ''S256'')],
                         lg_state_token = state_token, lg_state = state\<rparr>)))"

section \<open>Profiles\<close>

text \<open>\<open>fmt.Sprint\<close> of a decoded JSON value; maps are printed in the order of their keys.\<close>

fun sprint :: "go_json \<Rightarrow> json \<Rightarrow> string" where
  "sprint J JNull = ''<nil>''"
| "sprint J (JBool b) = (if b then ''true'' else ''false'')"
| "sprint J (JNumber f) = format_float J f"
| "sprint J (JString s) = s"
| "sprint J (JArray vs) = ''['' @ join_with '' '' (map (sprint J) vs) @ '']''"
| "sprint J (JObject ms) =
     (let printed = map (\<lambda>(k, v). (k, sprint J v)) ms;
          keys = sort (remdups (map fst printed))
      in ''map['' @ join_with '' '' (map (\<lambda>k. k @ '':'' @ (case map_of printed k of None \<Rightarrow> [] | Some v \<Rightarrow> v)) keys) @ '']'')"

fun first_of :: "go_json \<Rightarrow> (string \<times> json) list \<Rightarrow> string list \<Rightarrow> string" where
  "first_of J payload [] = []"
| "first_of J payload (key # keys) =
     (case map_of payload key of
        None \<Rightarrow> first_of J payload keys
      | Some v \<Rightarrow>
          (let text = trim_space (sprint J v)
           in if text \<noteq> [] \<and> text \<noteq> ''<nil>'' then text else first_of J payload keys))"

text \<open>\<open>Linux DO\<close> and the word for user, in UTF-8.\<close>

definition default_display_name :: string where
  "default_display_name = ''Linux DO '' @ [CHR 0xE7, CHR 0x94, CHR 0xA8, CHR 0xE6, CHR 0x88, CHR 0xB7]"

definition normalize_profile :: "go_json \<Rightarrow> (string \<times> json) list \<Rightarrow> profile" where
  "normalize_profile J payload =
     (let username = first_of J payload [''username'', ''login''];
          name = first_of J payload [''displayName'', ''name'', ''username'', ''login'']
      in \<lparr>pf_subject = first_of J payload [''subject'', ''sub'', ''id''],
          pf_username = username,
          pf_display_name = (if name = [] then default_display_name else name),
          pf_avatar_url = first_of J payload [''avatarUrl'', ''avatar_url''],
          pf_email = first_of J payload [''email'']\<rparr>)"

section \<open>Completing a login\<close>

definition fetch_json :: "http_client \<Rightarrow> upstream_request \<Rightarrow> err + jvalue" where
  "fetch_json client request =
     (case client request of
        Inl e \<Rightarrow> Inl e
      | Inr (status, body) \<Rightarrow>
          if status < 200 \<or> 300 \<le> status then Inl (ErrExternal ''linux do oauth upstream'')
          else
            (case json_first (take (2 ^ 20) body) of
               None \<Rightarrow> Inl (ErrExternal ''decode linux do response'')
             | Some v \<Rightarrow> Inr v))"

definition token_request :: "oauth_provider \<Rightarrow> string \<Rightarrow> oauth_claims \<Rightarrow> upstream_request" where
  "token_request P code state =
     \<lparr>uq_method = ''POST'', uq_url = token_endpoint,
      uq_headers = [(''content-type'', ''application/x-www-form-urlencoded''), (''accept'', ''application/json'')],
      uq_body = encode_values
        [(''grant_type'', ''authorization_code''), (''code'', code), (''redirect_uri'', ap_redirect_uri P),
         (''code_verifier'', oc_verifier state), (''client_id'', ap_client_id P), (''client_secret'', ap_client_secret P)]\<rparr>"

definition profile_request :: "string \<Rightarrow> upstream_request" where
  "profile_request access_token =
     \<lparr>uq_method = ''GET'', uq_url = user_endpoint,
      uq_headers = [(''authorization'', ''Bearer '' @ access_token), (''accept'', ''application/json'')], uq_body = []\<rparr>"

text \<open>Decoding into a struct with the access token, and into a \<open>map[string]any\<close>, which \<open>null\<close> leaves empty.\<close>

definition access_token_of :: "jvalue \<Rightarrow> string option" where
  "access_token_of v = decode_struct [(''access_token'', string_field (\<lambda>s _. s))] v []"

fun payload_of :: "go_json \<Rightarrow> jvalue \<Rightarrow> (string \<times> json) list option" where
  "payload_of J JvNull = Some []"
| "payload_of J v = (case json_of J v of Some (JObject ms) \<Rightarrow> Some ms | _ \<Rightarrow> None)"

definition complete_login ::
  "go_json \<Rightarrow> oauth_provider \<Rightarrow> http_client \<Rightarrow> string \<Rightarrow> oauth_claims \<Rightarrow> err + profile" where
  "complete_login J P client code state =
     (case fetch_json client (token_request P code state) of
        Inl e \<Rightarrow> Inl e
      | Inr v \<Rightarrow>
          (case access_token_of v of
             None \<Rightarrow> Inl (ErrExternal ''decode linux do response'')
           | Some token \<Rightarrow>
               if token = [] then Inl (ErrExternal ''linux do token response did not contain access_token'')
               else
                 (case fetch_json client (profile_request token) of
                    Inl e \<Rightarrow> Inl e
                  | Inr v \<Rightarrow>
                      (case payload_of J v of
                         None \<Rightarrow> Inl (ErrExternal ''decode linux do response'')
                       | Some payload \<Rightarrow>
                           (let pf = normalize_profile J payload in
                            if pf_subject pf = [] then Inl (ErrExternal ''linux do profile did not contain a subject'')
                            else Inr pf)))))"

end
