(* ===== verification/Profiles.thy ===== *)
theory Profiles
  imports Store Tokens JsonText
begin

text \<open>
  The profiles of users (\<open>internal/store/mysql/profile.go\<close>): one row of \<open>user_profiles\<close> for every owner,
  written at each login and each session request. The state is the database and the rows of the table.
\<close>

section \<open>The table\<close>

record profile_row =
  pw_owner :: string
  pw_subject :: string
  pw_username :: string
  pw_display_name :: string
  pw_avatar_url :: string
  pw_email :: "string option"
  pw_created_at_ms :: u64
  pw_updated_at_ms :: u64
  pw_last_login_at_ms :: u64

text \<open>The unique key on the subject, whose collation ignores trailing blanks.\<close>

definition subject_key :: "profile_row \<Rightarrow> string" where
  "subject_key r = pad_key (pw_subject r)"

section \<open>Normalisation\<close>

text \<open>\<open>truncate\<close>: a string that is cut is written again from its runes.\<close>

definition truncate_runes :: "string \<Rightarrow> nat \<Rightarrow> string" where
  "truncate_runes s maximum =
     (if rune_count s \<le> maximum then s else concat (map utf8_encode (take maximum (runes s))))"

definition fallback_display_name :: string where
  "fallback_display_name = ''Linux DO '' @ [CHR 0xE7, CHR 0x94, CHR 0xA8, CHR 0xE6, CHR 0x88, CHR 0xB7]"

definition normalized_profile :: "profile \<Rightarrow> profile" where
  "normalized_profile pf =
     (let username = truncate_runes (trim_space (pf_username pf)) 128;
          name = truncate_runes (trim_space (pf_display_name pf)) 256;
          name1 = (if name = [] then username else name);
          name2 = (if name1 = [] then fallback_display_name else name1)
      in \<lparr>pf_subject = truncate_runes (trim_space (pf_subject pf)) 128,
          pf_username = username, pf_display_name = name2,
          pf_avatar_url = truncate_runes (trim_space (pf_avatar_url pf)) 2048,
          pf_email = truncate_runes (trim_space (pf_email pf)) 320\<rparr>)"

definition max_profile_future_skew :: u64 where
  "max_profile_future_skew = 5 * 60 * 1000"

definition clamp_login :: "u64 \<Rightarrow> u64 \<Rightarrow> u64" where
  "clamp_login now last_login =
     (let login = (if last_login = 0 then now else last_login); maximum = now + max_profile_future_skew
      in if login > maximum then maximum else login)"

section \<open>The statements\<close>

text \<open>The row of the \<open>INSERT\<close>, with what the columns make of its values.\<close>

definition profile_values :: "string \<Rightarrow> profile \<Rightarrow> u64 \<Rightarrow> u64 \<Rightarrow> sql_error + profile_row" where
  "profile_values ow pf now login =
     (case text_column 128 (pf_subject pf) of
        Inl e \<Rightarrow> Inl e
      | Inr subject \<Rightarrow>
     (case text_column 128 (pf_username pf) of
        Inl e \<Rightarrow> Inl e
      | Inr username \<Rightarrow>
     (case text_column 256 (pf_display_name pf) of
        Inl e \<Rightarrow> Inl e
      | Inr name \<Rightarrow>
     (case text_column 2048 (pf_avatar_url pf) of
        Inl e \<Rightarrow> Inl e
      | Inr avatar \<Rightarrow>
     (case (if pf_email pf = [] then Inr None else map_sum id Some (text_column 320 (pf_email pf))) of
        Inl e \<Rightarrow> Inl e
      | Inr email \<Rightarrow>
          Inr \<lparr>pw_owner = ow, pw_subject = subject, pw_username = username, pw_display_name = name,
               pw_avatar_url = avatar, pw_email = email, pw_created_at_ms = now, pw_updated_at_ms = now,
               pw_last_login_at_ms = login\<rparr>)))))"

text \<open>The assignments of \<open>ON DUPLICATE KEY UPDATE\<close>.\<close>

definition overwrite_profile :: "profile_row \<Rightarrow> profile_row \<Rightarrow> profile_row" where
  "overwrite_profile old new =
     old\<lparr>pw_subject := pw_subject new, pw_username := pw_username new, pw_display_name := pw_display_name new,
         pw_avatar_url := pw_avatar_url new,
         pw_email := (case pw_email new of None \<Rightarrow> pw_email old | Some e \<Rightarrow> Some e),
         pw_updated_at_ms := pw_updated_at_ms new,
         pw_last_login_at_ms := max (pw_last_login_at_ms old) (pw_last_login_at_ms new)\<rparr>"

text \<open>
  The table has two unique keys. The row with the owner is updated when there is one, which fails
  when another row has the subject; else the row with the subject, whoever owns it; else the row
  is inserted.
\<close>

definition upsert_profile_row :: "profile_row \<Rightarrow> profile_row list \<Rightarrow> sql_error + profile_row list" where
  "upsert_profile_row new rows =
     (if \<exists>r \<in> set rows. pw_owner r = pw_owner new then
        (if \<exists>r \<in> set rows. pw_owner r \<noteq> pw_owner new \<and> subject_key r = subject_key new then Inl DuplicateEntry
         else Inr (map (\<lambda>r. if pw_owner r = pw_owner new then overwrite_profile r new else r) rows))
      else Inr (upsert_row subject_key overwrite_profile new rows))"

definition stored_profile :: "profile_row \<Rightarrow> profile" where
  "stored_profile r =
     \<lparr>pf_subject = pw_subject r, pf_username = pw_username r, pf_display_name = pw_display_name r,
      pf_avatar_url = pw_avatar_url r, pf_email = (case pw_email r of None \<Rightarrow> [] | Some e \<Rightarrow> e)\<rparr>"

text \<open>The body of the transaction: the owner, the row, and reading the row back.\<close>

definition profile_transaction ::
  "string \<Rightarrow> profile \<Rightarrow> u64 \<Rightarrow> u64 \<Rightarrow> db \<times> profile_row list \<Rightarrow> err + profile \<times> (db \<times> profile_row list)" where
  "profile_transaction ow pf now login sp =
     (let (s, rows) = sp in
      case ensure_owner ow now s of
        Inl e \<Rightarrow> Inl e
      | Inr (_, s') \<Rightarrow>
          (case profile_values ow pf now login of
             Inl e \<Rightarrow> Inl (SqlError e)
           | Inr new \<Rightarrow>
               (case upsert_profile_row new rows of
                  Inl e \<Rightarrow> Inl (SqlError e)
                | Inr rows' \<Rightarrow>
                    (case query_row (filter (\<lambda>r. pw_owner r = ow) rows') of
                       Inl e \<Rightarrow> Inl e
                     | Inr r \<Rightarrow> Inr (stored_profile r, (s', rows'))))))"

text \<open>\<open>UpsertProfile\<close>; \<open>env_now\<close> is the clock.\<close>

definition upsert_profile ::
  "tx_env \<Rightarrow> string \<Rightarrow> profile \<Rightarrow> u64 \<Rightarrow> db \<times> profile_row list \<Rightarrow> (err + profile) \<times> (db \<times> profile_row list)" where
  "upsert_profile env ow pf0 last_login_at_ms sp =
     (let pf = normalized_profile pf0 in
      if ow = [] \<or> pf_subject pf = [] then (Inl (ErrExternal ''owner key and Linux DO subject are required''), sp)
      else
        (let now = env_now env; login = clamp_login now last_login_at_ms in
         case env_begin_error env of
           Some e \<Rightarrow> (Inl e, sp)
         | None \<Rightarrow>
             (case profile_transaction ow pf now login sp of
                Inl e \<Rightarrow> (Inl e, sp)
              | Inr (stored, sp') \<Rightarrow>
                  (case env_commit env of
                     Committed \<Rightarrow> (Inr stored, sp')
                   | CommitRefused e \<Rightarrow> (Inl e, sp)
                   | CommitUnacknowledged e \<Rightarrow> (Inl e, sp')))))"

section \<open>The invariant\<close>

definition profiles_ok :: "profile_row list \<Rightarrow> bool" where
  "profiles_ok rows \<longleftrightarrow> distinct (map pw_owner rows) \<and> distinct (map subject_key rows)
     \<and> (\<forall>r \<in> set rows. profile_text_ok (stored_profile r))"

lemma text_column_some: "map_sum id Some (text_column n s) = Inr (Some e) \<Longrightarrow> valid_utf8 e"
  by (cases "text_column n s") (auto dest: text_column_valid)

lemma profile_values_text: "profile_values ow pf now login = Inr new \<Longrightarrow> profile_text_ok (stored_profile new)"
  by (auto simp: profile_values_def profile_text_ok_def stored_profile_def dest: text_column_valid text_column_some
      split: sum.splits if_splits option.splits)

lemma overwrite_profile_text:
  "profile_text_ok (stored_profile old) \<Longrightarrow> profile_text_ok (stored_profile new)
     \<Longrightarrow> profile_text_ok (stored_profile (overwrite_profile old new))"
  by (auto simp: profile_text_ok_def stored_profile_def overwrite_profile_def split: option.splits)

lemma overwrite_profile_simps [simp]:
  "pw_owner (overwrite_profile old new) = pw_owner old" "pw_subject (overwrite_profile old new) = pw_subject new"
  "subject_key (overwrite_profile old new) = subject_key new"
  by (simp_all add: overwrite_profile_def subject_key_def)

lemma distinct_map_update:
  assumes "distinct (map f xs)" and "\<And>x. x \<in> set xs \<Longrightarrow> P x \<Longrightarrow> f (g x) = k"
    and "\<And>x. x \<in> set xs \<Longrightarrow> \<not> P x \<Longrightarrow> f x \<noteq> k" and "\<And>x y. x \<in> set xs \<Longrightarrow> y \<in> set xs \<Longrightarrow> P x \<Longrightarrow> P y \<Longrightarrow> x = y"
  shows "distinct (map f (map (\<lambda>x. if P x then g x else x) xs))"
  using assms
proof (induction xs)
  case (Cons x xs)
  have rest: "distinct (map f (map (\<lambda>x. if P x then g x else x) xs))" using Cons by simp
  have "f (if P x then g x else x) \<notin> (\<lambda>x. f (if P x then g x else x)) ` set xs"
  proof
    assume "f (if P x then g x else x) \<in> (\<lambda>x. f (if P x then g x else x)) ` set xs"
    then obtain y where y: "y \<in> set xs" "f (if P x then g x else x) = f (if P y then g y else y)" by auto
    have "x \<noteq> y" using Cons.prems(1) y(1) by auto
    have "f x \<noteq> f y" using Cons.prems(1) y(1) by auto
    then show False
      using y Cons.prems(2,3) [of x] Cons.prems(2,3) [of y] Cons.prems(4) [of x y] \<open>x \<noteq> y\<close> by (auto split: if_splits)
  qed
  with rest show ?case by (auto simp: comp_def)
qed simp

lemma upsert_profile_row_ok:
  assumes ok: "profiles_ok rows" and run: "upsert_profile_row new rows = Inr rows'"
    and valid: "profile_text_ok (stored_profile new)"
  shows "profiles_ok rows'"
proof (cases "\<exists>r \<in> set rows. pw_owner r = pw_owner new")
  case True
  with run have rows': "rows' = map (\<lambda>r. if pw_owner r = pw_owner new then overwrite_profile r new else r) rows"
    and other: "\<forall>r \<in> set rows. pw_owner r \<noteq> pw_owner new \<longrightarrow> subject_key r \<noteq> subject_key new"
    by (auto simp: upsert_profile_row_def split: if_splits)
  have unique: "x = y" if "x \<in> set rows" "y \<in> set rows" "pw_owner x = pw_owner new" "pw_owner y = pw_owner new" for x y
    using ok that unfolding profiles_ok_def distinct_map inj_on_def by metis
  have "map pw_owner rows' = map pw_owner rows" unfolding rows' by simp
  moreover have "distinct (map subject_key rows')" unfolding rows'
    by (rule distinct_map_update [where k = "subject_key new"]) (use ok other unique in \<open>auto simp: profiles_ok_def\<close>)
  moreover have "\<forall>r \<in> set rows'. profile_text_ok (stored_profile r)"
    using ok valid by (auto simp: rows' profiles_ok_def overwrite_profile_text)
  ultimately show ?thesis using ok by (simp add: profiles_ok_def)
next
  case new: False
  with run have rows': "rows' = upsert_row subject_key overwrite_profile new rows"
    by (simp add: upsert_profile_row_def)
  show ?thesis
  proof (cases "\<exists>r \<in> set rows. subject_key r = subject_key new")
    case True
    then have rows'': "rows' = map (\<lambda>r. if subject_key r = subject_key new then overwrite_profile r new else r) rows"
      by (simp add: rows' upsert_row_def)
    have "map pw_owner rows' = map pw_owner rows" "map subject_key rows' = map subject_key rows" unfolding rows'' by auto
    moreover have "\<forall>r \<in> set rows'. profile_text_ok (stored_profile r)"
      using ok valid by (auto simp: rows'' profiles_ok_def overwrite_profile_text)
    ultimately show ?thesis using ok by (simp add: profiles_ok_def)
  next
    case False
    with new ok valid show ?thesis by (auto simp: rows' upsert_row_def profiles_ok_def)
  qed
qed

section \<open>What an upsert does\<close>

lemma query_row_owner:
  assumes "profiles_ok rows" and "r \<in> set rows"
  shows "query_row (filter (\<lambda>x. pw_owner x = pw_owner r) rows) = Inr r"
proof -
  have "\<forall>x \<in> set rows. pw_owner x = pw_owner r \<longrightarrow> x = r"
    using assms by (auto simp: profiles_ok_def distinct_map inj_on_def)
  then have "filter (\<lambda>x. pw_owner x = pw_owner r) rows = filter (\<lambda>x. x = r) rows"
    using assms(2) by (intro filter_cong) auto
  moreover have "filter (\<lambda>x. x = r) rows \<noteq> []" using assms(2) by (auto simp: filter_empty_conv)
  then obtain a as where "filter (\<lambda>x. x = r) rows = a # as" by (cases "filter (\<lambda>x. x = r) rows") auto
  moreover from this have "a \<in> set (filter (\<lambda>x. x = r) rows)" by simp
  then have "a = r" by simp
  ultimately show ?thesis by (simp add: query_row_def)
qed

text \<open>
  A transaction that succeeds has written the row of its owner and no other: when the subject is in
  the row of somebody else, that row is updated, but the owner is not found and everything is
  undone.
\<close>

lemma profile_transaction_cases:
  assumes ok: "profiles_ok rows" and run: "profile_transaction ow pf now login (s, rows) = Inr (stored, (s', rows'))"
  obtains new r where "profile_values ow pf now login = Inr new" and "ensure_owner ow now s = Inr ((), s')"
    and "r \<in> set rows'" and "pw_owner r = ow" and "stored = stored_profile r" and "profiles_ok rows'"
    and "r = (case find (\<lambda>x. pw_owner x = ow) rows of None \<Rightarrow> new | Some old \<Rightarrow> overwrite_profile old new)"
    and "filter (\<lambda>x. pw_owner x \<noteq> ow) rows' = filter (\<lambda>x. pw_owner x \<noteq> ow) rows"
proof -
  from run obtain new where owner: "ensure_owner ow now s = Inr ((), s')"
    and new: "profile_values ow pf now login = Inr new" and up: "upsert_profile_row new rows = Inr rows'"
    and q: "\<exists>r. query_row (filter (\<lambda>x. pw_owner x = ow) rows') = Inr r \<and> stored = stored_profile r"
    by (auto simp: profile_transaction_def split: sum.splits prod.splits)
  have ow: "pw_owner new = ow" using new by (auto simp: profile_values_def split: sum.splits)
  have ok': "profiles_ok rows'" using upsert_profile_row_ok [OF ok up profile_values_text [OF new]] .
  from q obtain r where r: "query_row (filter (\<lambda>x. pw_owner x = ow) rows') = Inr r" "stored = stored_profile r" by blast
  from r(1) have "r \<in> set (filter (\<lambda>x. pw_owner x = ow) rows')"
    by (auto simp: query_row_def split: list.splits simp del: set_filter)
  then have in': "r \<in> set rows'" "pw_owner r = ow" by simp_all
  show thesis
  proof (cases "\<exists>x \<in> set rows. pw_owner x = ow")
    case True
    then have "find (\<lambda>x. pw_owner x = ow) rows \<noteq> None" by (auto simp: find_None_iff)
    then obtain old where old: "find (\<lambda>x. pw_owner x = ow) rows = Some old" by blast
    then have mem: "old \<in> set rows" "pw_owner old = ow" by (auto simp: find_Some_iff)
    from up True ow have rows': "rows' = map (\<lambda>x. if pw_owner x = ow then overwrite_profile x new else x) rows"
      by (auto simp: upsert_profile_row_def split: if_splits)
    have "overwrite_profile old new \<in> set rows'" unfolding rows' using mem by force
    then have "r = overwrite_profile old new"
      using ok' in' mem(2) unfolding profiles_ok_def distinct_map inj_on_def by force
    moreover have "filter (\<lambda>x. pw_owner x \<noteq> ow) rows' = filter (\<lambda>x. pw_owner x \<noteq> ow) rows"
      unfolding rows' by (induction rows) auto
    ultimately show thesis using that [OF new owner in' r(2) ok'] old by simp
  next
    case False
    then have none: "find (\<lambda>x. pw_owner x = ow) rows = None" by (auto simp: find_None_iff)
    from up False ow have rows': "rows' = upsert_row subject_key overwrite_profile new rows"
      by (simp add: upsert_profile_row_def)
    have absent: "\<not> (\<exists>x \<in> set rows. subject_key x = subject_key new)"
    proof
      assume "\<exists>x \<in> set rows. subject_key x = subject_key new"
      then have "map pw_owner rows' = map pw_owner rows" unfolding rows' upsert_row_def by auto
      then have "pw_owner ` set rows' = pw_owner ` set rows" by (metis set_map)
      with in' False show False by (metis image_iff)
    qed
    then have rows'': "rows' = rows @ [new]" by (simp add: rows' upsert_row_def)
    with in' False have "r = new" by auto
    moreover have "filter (\<lambda>x. pw_owner x \<noteq> ow) rows' = filter (\<lambda>x. pw_owner x \<noteq> ow) rows" using ow by (simp add: rows'')
    ultimately show thesis using that [OF new owner in' r(2) ok'] none by simp
  qed
qed

end
