(* ===== verification/Transport.thy ===== *)
theory Transport
  imports Frames Redis Batches Hub Config OAuth Profiles
begin

text \<open>
  What the HTTP handlers and the WebSocket share (\<open>internal/httpapi\<close>): the dependencies of the server,
  requests and responses, decoding and running a synchronisation call under the rate limit. The
  protobuf runtime, the JWT library, Redis and the HTTP client of the login are fields of the
  server, so every definition takes them as arguments.
\<close>

section \<open>The server\<close>

record proto_codec =
  pc_read_sync :: "string \<Rightarrow> sync_request option"
  pc_read_diff :: "string \<Rightarrow> diff_request option"
  pc_read_resolve :: "string \<Rightarrow> resolve_request option"
  pc_write_sync :: "sync_response \<Rightarrow> err + string"
  pc_write_diff :: "diff_response \<Rightarrow> err + string"
  pc_write_resolve :: "resolve_response \<Rightarrow> err + string"

record build_info =
  bi_version :: string
  bi_commit :: string
  bi_build_time :: string

record 's server =
  srv_config :: config
  srv_jwt :: jwt_library
  srv_tokens :: token_manager
  srv_oauth :: oauth_provider
  srv_http_client :: http_client
  srv_json :: go_json
  srv_proto :: proto_codec
  srv_redis :: "'s redis_commands"
  srv_redis_prefix :: string
  srv_service :: service
  srv_build :: build_info
  srv_trusted_proxies :: "ip_net list"

text \<open>What the server works on, and the outside of one call.\<close>

record 's world =
  wd_db :: db
  wd_profiles :: "profile_row list"
  wd_redis :: 's
  wd_hub :: hub

record call_env =
  ce_now :: int  \<comment> \<open>the server's clock, in milliseconds\<close>
  ce_tx :: tx_env
  ce_redis :: redis_call

section \<open>Requests and responses\<close>

text \<open>
  A request as \<open>net/http\<close> and \<open>mime.ParseMediaType\<close> give it: \<^const>\<open>None\<close> is a content type that does not
  parse; the cookies are those of the \<open>Cookie\<close> header in order; the body may break off with an error.
\<close>

record http_request =
  hr_method :: string
  hr_path :: string
  hr_query :: "(string \<times> string) list"
  hr_origin :: string
  hr_referer :: string
  hr_media_type :: "string option"
  hr_content_length :: int
  hr_cookies :: "(string \<times> string) list"
  hr_body :: string
  hr_body_breaks :: bool

text \<open>A cookie as \<open>http.SetCookie\<close> is given it; the flags \<open>HttpOnly\<close>, \<open>Secure\<close> and \<open>SameSite=Lax\<close>.\<close>

record cookie =
  ck_name :: string
  ck_value :: string
  ck_path :: string
  ck_max_age :: int
  ck_http_only :: bool
  ck_secure :: bool
  ck_same_site_lax :: bool

record http_response =
  rs_status :: nat
  rs_headers :: "(string \<times> string) list"
  rs_cookies :: "cookie list"
  rs_body :: string

definition write_json :: "nat \<Rightarrow> (string \<times> jvalue) list \<Rightarrow> http_response" where
  "write_json status members =
     \<lparr>rs_status = status, rs_headers = [(''Content-Type'', ''application/json; charset=utf-8'')], rs_cookies = [],
      rs_body = json_object (map text_member members) @ newline\<rparr>"

definition write_api_error :: "nat \<Rightarrow> string \<Rightarrow> http_response" where
  "write_api_error status code = write_json status [(''error'', JvString code)]"

definition with_header :: "string \<Rightarrow> string \<Rightarrow> http_response \<Rightarrow> http_response" where
  "with_header name v r = r\<lparr>rs_headers := (name, v) # rs_headers r\<rparr>"

section \<open>Origins\<close>

definition is_allowed_frontend_origin :: "'s server \<Rightarrow> string \<Rightarrow> bool" where
  "is_allowed_frontend_origin srv origin \<longleftrightarrow> list_ex (\<lambda>allowed. origin = allowed) (cg_frontend_origins (srv_config srv))"

definition allowed_referer_origin :: "'s server \<Rightarrow> http_request \<Rightarrow> string \<times> bool" where
  "allowed_referer_origin srv r =
     (let raw = trim_space (hr_referer r) in
      if raw = [] then ([], False)
      else
        (case url_parse raw of
           None \<Rightarrow> ([], False)
         | Some referer \<Rightarrow>
             if gu_scheme referer \<noteq> ''https'' \<or> gu_host referer = [] \<or> gu_user referer \<noteq> None then ([], False)
             else (let origin = url_origin referer
                   in (origin, is_allowed_frontend_origin srv origin))))"

definition valid_referer_for_origin :: "'s server \<Rightarrow> http_request \<Rightarrow> bool \<Rightarrow> bool" where
  "valid_referer_for_origin srv r required =
     (if trim_space (hr_referer r) = [] then \<not> required
      else (let (referer_origin, ok) = allowed_referer_origin srv r in ok \<and> referer_origin = hr_origin r))"

definition valid_state_origin :: "'s server \<Rightarrow> http_request \<Rightarrow> bool" where
  "valid_state_origin srv r \<longleftrightarrow>
     is_allowed_frontend_origin srv (hr_origin r) \<and> valid_referer_for_origin srv r True"

definition requires_browser_source :: "'s server \<Rightarrow> string \<Rightarrow> bool" where
  "requires_browser_source srv path \<longleftrightarrow>
     path \<in> set (map (public_path (srv_config srv)) [''v1/auth/session'', ''v1/auth/logout'', ''v1/sync/exchange'',
       ''v1/sync/diff'', ''v1/sync/events'', ''v1/sync/resolve''])"

text \<open>The CORS middleware: a response that ends the request, or the headers the handler starts with.\<close>

definition cors :: "'s server \<Rightarrow> http_request \<Rightarrow> http_response + (string \<times> string) list" where
  "cors srv r =
     (let origin = hr_origin r;
          is_api = has_prefix (hr_path r) (public_path (srv_config srv) ''v1/'');
          requires_source = requires_browser_source srv (hr_path r) \<and> hr_method r \<noteq> ''OPTIONS'';
          allowed = is_allowed_frontend_origin srv origin;
          headers = (if allowed then
              [(''Access-Control-Allow-Origin'', origin), (''Access-Control-Allow-Credentials'', ''true''),
               (''Access-Control-Expose-Headers'', ''Retry-After, X-Request-Id''), (''Vary'', ''Origin'')] else [])
      in
      if (requires_source \<and> \<not> allowed) \<or> (is_api \<and> origin \<noteq> [] \<and> \<not> allowed)
      then Inl (write_api_error 403 ''invalid_origin'')
      else if requires_source \<and> \<not> valid_referer_for_origin srv r True
      then Inl (write_api_error 403 ''invalid_referer'')
      else if hr_path r = public_path (srv_config srv) ''v1/sync/ws'' \<and> \<not> valid_referer_for_origin srv r False
      then Inl (write_api_error 403 ''invalid_referer'')
      else if hr_method r = ''OPTIONS'' \<and> has_prefix (hr_path r) (public_path (srv_config srv) ''v1/'') then
        (if \<not> allowed then Inl (write_api_error 403 ''invalid_origin'')
         else Inl \<lparr>rs_status = 204, rs_headers = headers @
                [(''Access-Control-Allow-Methods'', ''GET, POST, OPTIONS''),
                 (''Access-Control-Allow-Headers'', ''Content-Type''), (''Access-Control-Max-Age'', ''600'')],
               rs_cookies = [], rs_body = []\<rparr>)
      else Inr headers)"

section \<open>Sessions\<close>

definition session_cookie_name :: string where "session_cookie_name = ''stella_session''"

definition authenticate :: "'s server \<Rightarrow> int \<Rightarrow> http_request \<Rightarrow> (session_claims \<times> string) option" where
  "authenticate srv now r =
     (case map_of (hr_cookies r) session_cookie_name of
        None \<Rightarrow> None
      | Some token \<Rightarrow>
          (case verify_session (srv_jwt srv) (srv_tokens srv) now token of
             None \<Rightarrow> None
           | Some claims \<Rightarrow> Some (claims, owner_key_of (rg_subject claims))))"

lemma owner_key_valid: "validate_owner_key (owner_key_of subject) = Inr ()"
  by (simp add: validate_owner_key_def owner_key_pattern_def owner_key_of_def hex_encode_length hex_encode_lower)

section \<open>A synchronisation call\<close>

datatype sync_call =
    CallExchange sync_request
  | CallDiff diff_request
  | CallResolve resolve_request

text \<open>A body that is no message, or a message that is refused.\<close>

datatype call_error = InvalidMessage | InvalidRequest err

definition decode_sync_call :: "proto_codec \<Rightarrow> string \<Rightarrow> string \<Rightarrow> string \<Rightarrow> call_error + sync_call" where
  "decode_sync_call codec operation ow body =
     (if operation = ''exchange'' then
        (case pc_read_sync codec body of
           None \<Rightarrow> Inl InvalidMessage
         | Some request \<Rightarrow>
             (case validate_exchange_request ow (Some request) of
                Inl e \<Rightarrow> Inl (InvalidRequest e) | Inr _ \<Rightarrow> Inr (CallExchange request)))
      else if operation = ''diff'' then
        (case pc_read_diff codec body of
           None \<Rightarrow> Inl InvalidMessage
         | Some request \<Rightarrow>
             (case validate_diff_request ow (Some request) of
                Inl e \<Rightarrow> Inl (InvalidRequest e) | Inr _ \<Rightarrow> Inr (CallDiff request)))
      else
        (case pc_read_resolve codec body of
           None \<Rightarrow> Inl InvalidMessage
         | Some request \<Rightarrow>
             (case validate_resolve_envelope ow (Some request) of
                Inl e \<Rightarrow> Inl (InvalidRequest e) | Inr _ \<Rightarrow> Inr (CallResolve request))))"

text \<open>The limit and the window of an operation, and the name its requests are counted under.\<close>

definition call_limit :: "string \<Rightarrow> int \<times> int" where
  "call_limit operation = (if operation = ''resolve'' then (3, 60 * 1000) else (8, 10 * 1000))"

definition rate_operation :: "string \<Rightarrow> string" where
  "rate_operation operation = (if operation = ''diff'' then ''exchange'' else operation)"

definition check_call_rate ::
  "'s server \<Rightarrow> call_env \<Rightarrow> string \<Rightarrow> string \<Rightarrow> 's world \<Rightarrow> (err + int) \<times> 's world" where
  "check_call_rate srv env operation ow w =
     (let (limit, window) = call_limit operation;
          (result, redis') = check_fixed_window (srv_redis srv) (srv_redis_prefix srv) (ce_redis env)
                               (rate_operation operation) ow limit window (wd_redis w)
      in (result, w\<lparr>wd_redis := redis'\<rparr>))"

text \<open>Running the call, and marshalling its answer: the first error is the service's, the second the codec's.\<close>

definition run_sync_call ::
  "'s server \<Rightarrow> call_env \<Rightarrow> command_metadata \<Rightarrow> sync_call \<Rightarrow> 's world \<Rightarrow> (err + (err + string)) \<times> 's world" where
  "run_sync_call srv env md call w =
     (case call of
        CallExchange request \<Rightarrow>
          (let (result, s') = exchange (ce_tx env) (srv_service srv) md (Some request) (wd_db w)
           in (case result of Inl e \<Rightarrow> Inl e | Inr res \<Rightarrow> Inr (pc_write_sync (srv_proto srv) (er_response res)),
               w\<lparr>wd_db := s'\<rparr>))
      | CallDiff request \<Rightarrow>
          (let (result, s') = diff (ce_tx env) (srv_service srv) md (Some request) (wd_db w)
           in (case result of Inl e \<Rightarrow> Inl e | Inr res \<Rightarrow> Inr (pc_write_diff (srv_proto srv) (df_response res)),
               w\<lparr>wd_db := s'\<rparr>))
      | CallResolve request \<Rightarrow>
          (let (result, s') = resolve_baseline (ce_tx env) (srv_service srv) md (Some request) (wd_db w)
           in (case result of Inl e \<Rightarrow> Inl e | Inr res \<Rightarrow> Inr (pc_write_resolve (srv_proto srv) (rl_response res)),
               w\<lparr>wd_db := s'\<rparr>)))"

lemma run_sync_call_only:
  "run_sync_call srv env md call w = (res, w') \<Longrightarrow>
     only_owner (md_owner_key md) (wd_db w) (wd_db w') \<and> wd_redis w' = wd_redis w \<and> wd_hub w' = wd_hub w"
  by (auto simp: run_sync_call_def split: sync_call.splits prod.splits dest: operations_only)

lemma run_sync_call_refused:
  assumes run: "run_sync_call srv env md call w = (Inl e, w')"
    and commit: "\<And>e'. env_commit (ce_tx env) \<noteq> CommitUnacknowledged e'"
  shows "w' = w"
proof -
  note R = operations_refused [OF commit]
  show ?thesis
    using run by (cases call) (auto simp: run_sync_call_def split: prod.splits sum.splits dest: R)
qed

end
