(* ===== verification/Http.thy ===== *)
theory Http
  imports Transport
begin

text \<open>
  The synchronisation endpoints (\<open>exchange\<close>, \<open>diff\<close> and \<open>resolve\<close> of \<open>internal/httpapi/server.go\<close>, all
  through \<open>handleSyncHTTP\<close>): the JSON envelope with its limits, the guards in the order of the code,
  the rate limit, the call and the answer. Logging has no effect on the state and is left out.
\<close>

section \<open>The envelope\<close>

datatype envelope_error = EnvelopeMediaType | EnvelopeTooLarge | EnvelopeInvalid

record json_envelope =
  ev_protobuf :: string

definition envelope_struct :: "json_envelope struct" where
  "envelope_struct = [(''protobuf'', string_field (\<lambda>s v. v\<lparr>ev_protobuf := s\<rparr>))]"

text \<open>
  \<open>decodeLimitedJSON\<close>: at most one byte more than the limit is read; the body is one JSON value
  and nothing else but white space.
\<close>

definition decode_limited_json :: "'r struct \<Rightarrow> http_request \<Rightarrow> nat \<Rightarrow> 'r \<Rightarrow> envelope_error + 'r" where
  "decode_limited_json st r limit target =
     (let data = take (limit + 1) (hr_body r) in
      if length data \<le> limit \<and> hr_body_breaks r then Inl EnvelopeInvalid
      else if length data > limit then Inl EnvelopeTooLarge
      else (case unmarshal st data target of None \<Rightarrow> Inl EnvelopeInvalid | Some v \<Rightarrow> Inr v))"

definition read_protobuf_envelope :: "http_request \<Rightarrow> envelope_error + string" where
  "read_protobuf_envelope r =
     (if hr_media_type r \<noteq> Some ''application/json'' then Inl EnvelopeMediaType
      else if hr_content_length r > int max_sync_envelope_bytes then Inl EnvelopeTooLarge
      else
        (case decode_limited_json envelope_struct r max_sync_envelope_bytes \<lparr>ev_protobuf = []\<rparr> of
           Inl e \<Rightarrow> if e = EnvelopeTooLarge then Inl e else Inl EnvelopeInvalid
         | Inr envelope \<Rightarrow>
             if ev_protobuf envelope = [] then Inl EnvelopeInvalid
             else if length (ev_protobuf envelope) > max_sync_envelope_bytes then Inl EnvelopeTooLarge
             else
               (case base64_decode (ev_protobuf envelope) of
                  None \<Rightarrow> Inl EnvelopeInvalid
                | Some body \<Rightarrow> if length body > max_protobuf_bytes then Inl EnvelopeTooLarge else Inr body)))"

definition write_envelope_error :: "envelope_error \<Rightarrow> http_response" where
  "write_envelope_error e =
     (case e of
        EnvelopeMediaType \<Rightarrow> write_api_error 415 ''json_base64_protobuf_required''
      | EnvelopeTooLarge \<Rightarrow> write_api_error 413 ''sync_payload_too_large''
      | EnvelopeInvalid \<Rightarrow> write_api_error 400 ''invalid_sync_envelope'')"

section \<open>Errors of the service\<close>

definition internal_error :: http_response where
  "internal_error = write_api_error 500 ''internal_error''"

definition write_sync_error :: "err \<Rightarrow> http_response" where
  "write_sync_error e =
     (case e of
        ErrResponseTooLarge \<Rightarrow> write_api_error 413 ''sync_response_too_large''
      | OperationError code _ \<Rightarrow> write_api_error 400 (to_lower (error_code_string code))
      | _ \<Rightarrow> internal_error)"

definition write_call_error :: "call_error \<Rightarrow> http_response" where
  "write_call_error e =
     (case e of
        InvalidMessage \<Rightarrow> write_api_error 400 ''invalid_sync_envelope''
      | InvalidRequest e \<Rightarrow> write_sync_error e)"

section \<open>The handler\<close>

text \<open>The answer to a call that the service has run.\<close>

definition write_sync_answer :: "err + (err + string) \<Rightarrow> http_response" where
  "write_sync_answer answer =
     (case answer of
        Inl e \<Rightarrow> write_sync_error e
      | Inr (Inl e) \<Rightarrow> internal_error
      | Inr (Inr encoded) \<Rightarrow>
          if length encoded > max_protobuf_bytes then write_api_error 413 ''sync_response_too_large''
          else with_header ''Cache-Control'' ''no-store'' (write_json 200 [(''protobuf'', JvString (base64_encode encoded))]))"

definition handle_sync_http ::
  "'s server \<Rightarrow> call_env \<Rightarrow> string \<Rightarrow> http_request \<Rightarrow> 's world \<Rightarrow> http_response \<times> 's world" where
  "handle_sync_http srv env operation r w =
     (if \<not> valid_state_origin srv r then (write_api_error 403 ''invalid_origin'', w)
      else
        (case authenticate srv (ce_now env) r of
           None \<Rightarrow> (write_api_error 401 ''authentication_required'', w)
         | Some (_, ow) \<Rightarrow>
             (case read_protobuf_envelope r of
                Inl e \<Rightarrow> (write_envelope_error e, w)
              | Inr body \<Rightarrow>
                  (case decode_sync_call (srv_proto srv) operation ow body of
                     Inl e \<Rightarrow> (write_call_error e, w)
                   | Inr call \<Rightarrow>
                       (case check_call_rate srv env operation ow w of
                          (Inl e, w1) \<Rightarrow> (write_api_error 503 ''redis_unavailable'', w1)
                        | (Inr retry, w1) \<Rightarrow>
                            if retry > 0 then
                              (with_header ''Retry-After'' (decimal (nat (retry_after_seconds retry)))
                                 (write_api_error 429 ''sync_rate_limited''), w1)
                            else
                              (let (answer, w2) = run_sync_call srv env
                                     \<lparr>md_owner_key = ow, md_origin_connection_id = []\<rparr> call w1
                               in (write_sync_answer answer, w2)))))))"

section \<open>How a request ends\<close>

text \<open>
  Every way through the handler: it is refused before anything is touched, or by the rate limit,
  or the service runs.
\<close>

definition admitted :: "'s server \<Rightarrow> int \<Rightarrow> string \<Rightarrow> http_request \<Rightarrow> string \<Rightarrow> sync_call \<Rightarrow> bool" where
  "admitted srv now operation r ow call \<longleftrightarrow>
     valid_state_origin srv r
     \<and> (\<exists>claims. authenticate srv now r = Some (claims, ow))
     \<and> (\<exists>body. read_protobuf_envelope r = Inr body \<and> decode_sync_call (srv_proto srv) operation ow body = Inr call)"

lemma write_api_error_status [simp]:
  "rs_status (write_api_error n c) = n" "rs_status (with_header h v resp) = rs_status resp"
  "rs_status (write_json n ms) = n" "rs_status internal_error = 500"
  by (simp_all add: write_api_error_def write_json_def with_header_def internal_error_def)

lemma error_statuses:
  "rs_status (write_envelope_error e) \<in> {400, 413, 415}" "rs_status (write_sync_error e') \<in> {400, 413, 500}"
  "rs_status (write_call_error e'') \<in> {400, 413, 500}"
  by (simp_all add: write_envelope_error_def write_sync_error_def write_call_error_def
      split: envelope_error.splits err.splits call_error.splits)

lemma handle_sync_http_cases:
  assumes "handle_sync_http srv env operation r w = (response, w')"
  shows "(w' = w \<and> rs_status response \<in> {400, 401, 403, 413, 415, 500} \<and> (\<forall>ow call. \<not> admitted srv (ce_now env) operation r ow call))
    \<or> (\<exists>ow call retry w1. admitted srv (ce_now env) operation r ow call \<and> check_call_rate srv env operation ow w = (retry, w1)
         \<and> ((\<exists>e. retry = Inl e \<and> response = write_api_error 503 ''redis_unavailable'' \<and> w' = w1)
          \<or> (\<exists>ms. retry = Inr ms \<and> 0 < ms \<and> rs_status response = 429 \<and> w' = w1)
          \<or> (\<exists>ms answer. retry = Inr ms \<and> \<not> 0 < ms \<and> response = write_sync_answer answer
               \<and> run_sync_call srv env \<lparr>md_owner_key = ow, md_origin_connection_id = []\<rparr> call w1 = (answer, w'))))"
proof (cases "\<exists>ow call. admitted srv (ce_now env) operation r ow call")
  case False
  then have none: "\<forall>ow call. \<not> admitted srv (ce_now env) operation r ow call" by blast
  have "w' = w \<and> rs_status response \<in> {400, 401, 403, 413, 415, 500}"
  proof (cases "valid_state_origin srv r")
    case True
    show ?thesis
    proof (cases "authenticate srv (ce_now env) r")
      case None
      with True assms show ?thesis by (auto simp: handle_sync_http_def)
    next
      case (Some a)
      obtain claims ow where a: "a = (claims, ow)" by (cases a)
      show ?thesis
      proof (cases "read_protobuf_envelope r")
        case (Inl e)
        with True Some a assms error_statuses(1) [of e] show ?thesis by (auto simp: handle_sync_http_def)
      next
        case (Inr body)
        with none True Some a obtain e where "decode_sync_call (srv_proto srv) operation ow body = Inl e"
          by (cases "decode_sync_call (srv_proto srv) operation ow body") (auto simp: admitted_def)
        with Inr True Some a assms error_statuses(3) [of e] show ?thesis by (auto simp: handle_sync_http_def)
      qed
    qed
  qed (use assms in \<open>auto simp: handle_sync_http_def\<close>)
  with none show ?thesis by blast
next
  case True
  then obtain ow call where adm: "admitted srv (ce_now env) operation r ow call" by blast
  obtain retry w1 where rate: "check_call_rate srv env operation ow w = (retry, w1)" by fastforce
  have "(\<exists>e. retry = Inl e \<and> response = write_api_error 503 ''redis_unavailable'' \<and> w' = w1)
          \<or> (\<exists>ms. retry = Inr ms \<and> 0 < ms \<and> rs_status response = 429 \<and> w' = w1)
          \<or> (\<exists>ms answer. retry = Inr ms \<and> \<not> 0 < ms \<and> response = write_sync_answer answer
               \<and> run_sync_call srv env \<lparr>md_owner_key = ow, md_origin_connection_id = []\<rparr> call w1 = (answer, w'))"
    using adm assms rate
    by (cases retry) (auto simp: admitted_def handle_sync_http_def split: if_splits prod.splits)
  with adm rate show ?thesis by blast
qed

lemma handle_sync_http_consider:
  assumes "handle_sync_http srv env operation r w = (response, w')"
  obtains (refused) "w' = w" "rs_status response \<noteq> 200" "\<forall>ow call. \<not> admitted srv (ce_now env) operation r ow call"
  | (limited) ow call retry w1 where "admitted srv (ce_now env) operation r ow call"
      "check_call_rate srv env operation ow w = (retry, w1)" "w' = w1" "rs_status response \<noteq> 200"
  | (ran) ow call ms w1 answer where "admitted srv (ce_now env) operation r ow call"
      "check_call_rate srv env operation ow w = (Inr ms, w1)" "ms \<le> 0" "response = write_sync_answer answer"
      "run_sync_call srv env \<lparr>md_owner_key = ow, md_origin_connection_id = []\<rparr> call w1 = (answer, w')"
  using handle_sync_http_cases [OF assms]
proof (elim disjE exE conjE)
  assume "w' = w" "rs_status response \<in> {400, 401, 403, 413, 415, 500}" "\<forall>ow call. \<not> admitted srv (ce_now env) operation r ow call"
  then show thesis by (intro refused) auto
next
  fix ow call retry w1 e
  assume "admitted srv (ce_now env) operation r ow call" "check_call_rate srv env operation ow w = (retry, w1)"
    "response = write_api_error 503 ''redis_unavailable''" "w' = w1"
  then show thesis by (intro limited) simp_all
next
  fix ow call retry w1 ms
  assume "admitted srv (ce_now env) operation r ow call" "check_call_rate srv env operation ow w = (retry, w1)"
    "rs_status response = 429" "w' = w1"
  then show thesis by (intro limited) simp_all
next
  fix ow call retry w1 ms answer
  assume "admitted srv (ce_now env) operation r ow call" "check_call_rate srv env operation ow w = (retry, w1)"
    "retry = Inr ms" "\<not> 0 < ms" "response = write_sync_answer answer"
    "run_sync_call srv env \<lparr>md_owner_key = ow, md_origin_connection_id = []\<rparr> call w1 = (answer, w')"
  then show thesis by (intro ran) (simp_all add: not_less)
qed

section \<open>What the client reads\<close>

lemma protobuf_member_flat: "flat_members [(''protobuf'', JvString (base64_encode s))]"
  by (simp add: flat_omit base64_safe json_safe_def in_range_def)

lemma write_sync_answer_ok:
  assumes "rs_status (write_sync_answer answer) = 200"
  obtains encoded where "answer = Inr (Inr encoded)" and "length encoded \<le> max_protobuf_bytes"
    and "unmarshal envelope_struct (rs_body (write_sync_answer answer)) \<lparr>ev_protobuf = []\<rparr>
      = Some \<lparr>ev_protobuf = base64_encode encoded\<rparr>"
proof -
  from assms obtain encoded where a: "answer = Inr (Inr encoded)" and size: "length encoded \<le> max_protobuf_bytes"
    using error_statuses(2)
    by (auto simp: write_sync_answer_def write_sync_error_def split: sum.splits if_splits err.splits)
  have body: "rs_body (write_sync_answer answer)
      = json_object (map text_member [(''protobuf'', JvString (base64_encode encoded))]) @ [CHR 0x0A]"
    using a size by (simp add: write_sync_answer_def with_header_def write_json_def newline_def)
  have "decode_members envelope_struct [(''protobuf'', JvString (base64_encode encoded))] \<lparr>ev_protobuf = []\<rparr>
      = Some \<lparr>ev_protobuf = base64_encode encoded\<rparr>" by (simp add: envelope_struct_def field_of_def)
  with that [OF a size] show thesis
    unfolding body unmarshal_flat_line [OF protobuf_member_flat] by blast
qed

text \<open>An envelope as a client writes it.\<close>

definition protobuf_envelope :: "string \<Rightarrow> string" where
  "protobuf_envelope payload = json_object (map text_member [(''protobuf'', JvString (base64_encode payload))])"

lemma read_protobuf_envelope_ok:
  assumes body: "hr_body r = protobuf_envelope payload" and "hr_media_type r = Some ''application/json''"
    and "hr_content_length r \<le> int (length (hr_body r))" and "\<not> hr_body_breaks r"
    and size: "length payload \<le> max_protobuf_bytes" and ne: "payload \<noteq> []"
  shows "read_protobuf_envelope r = Inr payload"
proof -
  have "(length payload + 2) div 3 * 4 \<le> (max_protobuf_bytes + 2) div 3 * 4"
    using size by (intro mult_le_mono1 div_le_mono) simp
  then have b: "length (base64_encode payload) \<le> 699052" by (simp add: base64_encode_length max_protobuf_bytes_def)
  have "length (protobuf_envelope payload) = length (base64_encode payload) + 15"
    using object_length [of "[(''protobuf'', JvString (base64_encode payload))]"]
    by (simp add: protobuf_envelope_def member_lengths base64_safe json_safe_def in_range_def)
  then have len: "length (hr_body r) \<le> max_sync_envelope_bytes"
    and b': "length (base64_encode payload) \<le> max_sync_envelope_bytes"
    using b body by (simp_all add: max_sync_envelope_bytes_def max_protobuf_bytes_def)
  have "unmarshal envelope_struct (hr_body r) \<lparr>ev_protobuf = []\<rparr> = Some \<lparr>ev_protobuf = base64_encode payload\<rparr>"
    unfolding body protobuf_envelope_def unmarshal_flat [OF protobuf_member_flat]
    by (simp add: envelope_struct_def field_of_def)
  moreover have "base64_encode payload \<noteq> []"
  proof -
    have "0 < (length payload + 2) div 3" using ne by (cases payload) simp_all
    then have "0 < length (base64_encode payload)" by (simp add: base64_encode_length)
    then show ?thesis by auto
  qed
  ultimately show ?thesis using assms len b'
    by (simp add: read_protobuf_envelope_def decode_limited_json_def Let_def)
qed

end
