(* ===== verification/WebSocket.thy ===== *)
theory WebSocket
  imports Transport
begin

text \<open>
  The WebSocket endpoint (\<open>internal/httpapi/websocket.go\<close>): what a connection does with the messages
  it reads, and the synchronisation calls among them. Every answer goes into the send queue of the
  connection's peer, which drops it when it is full. The state is the world of the server, with the
  hub that holds the queues.
\<close>

section \<open>Answers\<close>

definition enqueue_ws :: "nat \<Rightarrow> string \<Rightarrow> 's world \<Rightarrow> bool \<times> 's world" where
  "enqueue_ws p message w =
     (let h = wd_hub w; (sent, _) = offer_payload message (hb_heap h ! p)
      in (sent, w\<lparr>wd_hub := update_peer p (\<lambda>pr. snd (offer_payload message pr)) h\<rparr>))"

text \<open>An answer whose fate the code ignores.\<close>

definition answer_ws :: "nat \<Rightarrow> string \<Rightarrow> 's world \<Rightarrow> 's world" where
  "answer_ws p message w = snd (enqueue_ws p message w)"

definition enqueue_operation_error :: "nat \<Rightarrow> string \<Rightarrow> err \<Rightarrow> 's world \<Rightarrow> bool \<times> 's world" where
  "enqueue_operation_error p request_id e w =
     (case e of
        OperationError code _ \<Rightarrow> (True, answer_ws p (must_server_error request_id (error_code_string code) 0) w)
      | _ \<Rightarrow> (False, answer_ws p (must_server_error request_id ''INTERNAL'' 0) w))"

text \<open>The request id of a frame that could not be decoded.\<close>

definition recover_request_id :: "string \<Rightarrow> string" where
  "recover_request_id message =
     (case unmarshal [(''requestId'', string_field (\<lambda>s _. s))] message [] of
        None \<Rightarrow> []
      | Some request_id \<Rightarrow> if request_id_pattern request_id then request_id else [])"

definition has_subprotocol :: "string \<Rightarrow> string \<Rightarrow> bool" where
  "has_subprotocol header expected = list_ex (\<lambda>candidate. trim_space candidate = expected) (split_on CHR 0x2C header)"

section \<open>Calls\<close>

definition result_type :: "sync_call \<Rightarrow> string" where
  "result_type call = (case call of CallResolve _ \<Rightarrow> ''resolve_result'' | _ \<Rightarrow> ''exchange_result'')"

text \<open>\<open>processWebSocketRPC\<close>: whether the connection goes on.\<close>

definition process_rpc ::
  "'s server \<Rightarrow> call_env \<Rightarrow> nat \<Rightarrow> string \<Rightarrow> string \<Rightarrow> client_frame \<Rightarrow> 's world \<Rightarrow> bool \<times> 's world" where
  "process_rpc srv env p ow connection frame w =
     (let request_id = cf_request_id frame; kind = (if cf_type frame = ''exchange'' then ''exchange'' else ''resolve'') in
      case decode_sync_call (srv_proto srv) kind ow (cf_protobuf frame) of
        Inl InvalidMessage \<Rightarrow> (True, answer_ws p (must_server_error request_id ''INVALID_ARGUMENT'' 0) w)
      | Inl (InvalidRequest e) \<Rightarrow> enqueue_operation_error p request_id e w
      | Inr call \<Rightarrow>
          (case check_call_rate srv env (cf_type frame) ow w of
             (Inl e, w1) \<Rightarrow> (False, answer_ws p (must_server_error request_id ''INTERNAL'' 0) w1)
           | (Inr retry, w1) \<Rightarrow>
               if retry > 0 then
                 (True, answer_ws p (must_server_error request_id ''RATE_LIMITED'' (of_int retry)) w1)
               else
                 (case run_sync_call srv env \<lparr>md_owner_key = ow, md_origin_connection_id = connection\<rparr> call w1 of
                    (Inl e, w2) \<Rightarrow> enqueue_operation_error p request_id e w2
                  | (Inr (Inl e), w2) \<Rightarrow> (False, answer_ws p (must_server_error request_id ''INTERNAL'' 0) w2)
                  | (Inr (Inr encoded), w2) \<Rightarrow>
                      (case encode_server_result (result_type call) request_id encoded of
                         Inl e \<Rightarrow> (False, answer_ws p (must_server_error request_id ''INTERNAL'' 0) w2)
                       | Inr message \<Rightarrow> enqueue_ws p message w2))))"

section \<open>Messages\<close>

text \<open>The close status and reason a connection ends with.\<close>

type_synonym ws_close = "nat \<times> string"

definition set_peer_active :: "nat \<Rightarrow> bool \<Rightarrow> 's world \<Rightarrow> 's world" where
  "set_peer_active p active w = w\<lparr>wd_hub := set_active p active (wd_hub w)\<rparr>"

text \<open>One round of the read loop on a message that has arrived; \<open>text\<close> is whether it is a text message.\<close>

definition handle_message ::
  "'s server \<Rightarrow> call_env \<Rightarrow> nat \<Rightarrow> string \<Rightarrow> string \<Rightarrow> bool \<Rightarrow> string \<Rightarrow> 's world \<Rightarrow> ws_close option \<times> 's world" where
  "handle_message srv env p ow connection is_text message w =
     (if \<not> is_text then (Some (1003, ''Text frames required''), w)
      else if message = ''ping'' then
        (let (sent, w') = enqueue_ws p ''pong'' w
         in (if sent then None else Some (1008, ''Slow connection''), w'))
      else
        (case decode_client_frame message of
           Inl e \<Rightarrow>
             if fe_close_code e \<noteq> 0 then (Some (fe_close_code e, ''Invalid sync frame''), w)
             else (None, answer_ws p (must_server_error (recover_request_id message) (fe_code e) 0) w)
         | Inr frame \<Rightarrow>
             if cf_type frame = ''activity'' then (None, set_peer_active p (cf_active frame) w)
             else
               (let (goes_on, w') = process_rpc srv env p ow connection frame w
                in (if goes_on then None else Some (1011, ''Internal sync error''), w'))))"

text \<open>The read loop on the messages of a connection, each with the outside of its call.\<close>

fun read_loop ::
  "'s server \<Rightarrow> nat \<Rightarrow> string \<Rightarrow> string \<Rightarrow> (call_env \<times> bool \<times> string) list \<Rightarrow> 's world \<Rightarrow> ws_close option \<times> 's world" where
  "read_loop srv p ow connection [] w = (None, w)"
| "read_loop srv p ow connection ((env, is_text, message) # messages) w =
     (case handle_message srv env p ow connection is_text message w of
        (Some close, w') \<Rightarrow> (Some close, w')
      | (None, w') \<Rightarrow> read_loop srv p ow connection messages w')"

section \<open>Opening and closing\<close>

definition max_connections_per_owner :: int where "max_connections_per_owner = 8"

text \<open>
  The upgrade: a response that refuses it (\<^const>\<open>None\<close> when \<open>websocket.Accept\<close> has failed and written
  one of its own), or the peer of the new connection and its owner. The lease that was acquired is
  released when the upgrade fails.
\<close>

record upgrade =
  up_now :: int
  up_request :: http_request
  up_upgrade :: string
  up_protocols :: string
  up_connection :: string
  up_accepted :: bool

definition open_web_socket ::
  "'s server \<Rightarrow> redis_call \<Rightarrow> redis_call \<Rightarrow> upgrade \<Rightarrow> 's world \<Rightarrow> (http_response option + nat \<times> string) \<times> 's world" where
  "open_web_socket srv env release_env u w =
     (let r = up_request u; connection = up_connection u in
      if \<not> equal_fold (up_upgrade u) ''websocket'' then
        (Inl (Some (with_header ''Upgrade'' ''websocket'' (write_api_error 426 ''websocket_upgrade_required''))), w)
      else if \<not> is_allowed_frontend_origin srv (hr_origin r) then (Inl (Some (write_api_error 403 ''invalid_origin'')), w)
      else if \<not> valid_referer_for_origin srv r False then (Inl (Some (write_api_error 403 ''invalid_referer'')), w)
      else if \<not> has_subprotocol (up_protocols u) ''stella-sync-v1'' then
        (Inl (Some (write_api_error 400 ''websocket_subprotocol_required'')), w)
      else
        (case authenticate srv (up_now u) r of
           None \<Rightarrow> (Inl (Some (write_api_error 401 ''authentication_required'')), w)
         | Some (claims, ow) \<Rightarrow>
             (case acquire_connection (srv_redis srv) (srv_redis_prefix srv) env ow connection
                     max_connections_per_owner default_lease_ttl (wd_redis w) of
                (Inl ErrConnectionLimit, redis') \<Rightarrow>
                  (Inl (Some (with_header ''Retry-After'' ''5'' (write_api_error 429 ''websocket_connection_limit''))),
                   w\<lparr>wd_redis := redis'\<rparr>)
              | (Inl (RedisFailure e), redis') \<Rightarrow>
                  (Inl (Some (write_api_error 503 ''redis_unavailable'')), w\<lparr>wd_redis := redis'\<rparr>)
              | (Inr _, redis') \<Rightarrow>
                  if \<not> up_accepted u then
                    (Inl None, w\<lparr>wd_redis := snd (release_connection (srv_redis srv) (srv_redis_prefix srv) release_env ow
                                                  connection redis')\<rparr>)
                  else
                    (let (p, h) = allocate_peer connection ow (wd_hub w)
                     in (Inr (p, ow), w\<lparr>wd_redis := redis', wd_hub := hub_register p h\<rparr>)))))"

text \<open>The deferred calls: the peer leaves the hub, the lease is released.\<close>

definition close_web_socket ::
  "'s server \<Rightarrow> redis_call \<Rightarrow> nat \<Rightarrow> string \<Rightarrow> string \<Rightarrow> 's world \<Rightarrow> 's world" where
  "close_web_socket srv env p ow connection w =
     w\<lparr>wd_hub := hub_unregister p (wd_hub w),
       wd_redis := snd (release_connection (srv_redis srv) (srv_redis_prefix srv) env ow connection (wd_redis w))\<rparr>"

text \<open>
  How a connection ends when a read fails: the writer failed, the lease was lost, the session has
  expired (the peer is told), or the peer closed with a status.
\<close>

definition read_failed :: "bool \<Rightarrow> bool \<Rightarrow> bool \<Rightarrow> nat option \<Rightarrow> ws_close \<times> string option" where
  "read_failed writer_failed lease_failed expired peer_status =
     (if writer_failed then ((1011, ''WebSocket write failed''), None)
      else if lease_failed then ((1011, ''Connection lease unavailable''), None)
      else if expired then ((4001, ''Authentication required''), Some (must_server_error [] ''AUTH_REQUIRED'' 0))
      else case peer_status of
        Some status \<Rightarrow> ((status, ''peer closed''), None)
      | None \<Rightarrow> ((1000, ''connection closed''), None))"

section \<open>One answer for every call\<close>

definition peer_at :: "nat \<Rightarrow> 's world \<Rightarrow> peer" where
  "peer_at p w = hb_heap (wd_hub w) ! p"

text \<open>What an answer does to the hub: one message more for the peer, if there is room.\<close>

definition got_message :: "nat \<Rightarrow> string \<Rightarrow> hub \<Rightarrow> hub" where
  "got_message p m h = update_peer p (\<lambda>pr. snd (offer_payload m pr)) h"

lemma answer_ws_eq: "answer_ws p m w = w\<lparr>wd_hub := got_message p m (wd_hub w)\<rparr>"
  by (simp add: answer_ws_def enqueue_ws_def got_message_def Let_def split: prod.splits)

lemma enqueue_ws_eq: "enqueue_ws p m w = (length (pr_send (peer_at p w)) < peer_queue_size, answer_ws p m w)"
  by (auto simp: answer_ws_def enqueue_ws_def offer_payload_def peer_at_def Let_def split: prod.splits)

lemma check_call_rate_only:
  "check_call_rate srv env operation ow w = (r, w') \<Longrightarrow> wd_db w' = wd_db w \<and> wd_hub w' = wd_hub w"
  by (auto simp: check_call_rate_def Let_def split: prod.splits)

lemma codes_allowed:
  "error_code_string code \<in> set allowed_codes" "''INTERNAL'' \<in> set allowed_codes"
  "''RATE_LIMITED'' \<in> set allowed_codes" "''INVALID_ARGUMENT'' \<in> set allowed_codes"
  by (cases code) (simp_all add: allowed_codes_def)

text \<open>The message is an error frame or a result frame with the id of the request.\<close>

definition answers :: "string \<Rightarrow> bool \<Rightarrow> string \<Rightarrow> bool" where
  "answers request_id goes_on m \<longleftrightarrow>
     (\<exists>f. unmarshal wire_frame_fields m empty_frame = Some f \<and> wf_version f = 1 \<and> wf_request_id f = request_id
        \<and> (wf_type f = ''error'' \<or> (goes_on \<and> wf_type f \<in> {''exchange_result'', ''resolve_result''}
             \<and> (\<exists>encoded. base64_decode (wf_protobuf f) = Some encoded \<and> length encoded \<le> max_protobuf_bytes))))"

lemma error_answers:
  "code \<in> set allowed_codes \<Longrightarrow> request_id_pattern i \<Longrightarrow> answers i goes_on (must_server_error i code retry)"
  by (simp add: answers_def must_server_error_frame) (simp add: error_frame_def empty_frame_def)

lemma result_answers:
  assumes "encode_server_result t i encoded = Inr m"
  shows "answers i True m"
  using server_result_frame(2) [OF assms] assms unfolding encode_server_result_cases
  by (auto simp: answers_def request_frame_def empty_frame_def)

lemma enqueue_operation_error_answers:
  assumes "request_id_pattern i" and "enqueue_operation_error p i e w = (goes_on, w')"
  shows "\<exists>m. answers i goes_on m \<and> w' = answer_ws p m w"
proof -
  from assms(2) consider code where "w' = answer_ws p (must_server_error i (error_code_string code) 0) w"
    | "w' = answer_ws p (must_server_error i ''INTERNAL'' 0) w"
    by (auto simp: enqueue_operation_error_def split: err.splits)
  then show ?thesis
    using error_answers [OF codes_allowed(1) assms(1)] error_answers [OF codes_allowed(2) assms(1)] by cases blast+
qed

lemma process_rpc_answers:
  assumes run: "process_rpc srv env p ow connection frame w = (goes_on, w')"
    and i: "request_id_pattern (cf_request_id frame)"
  shows "\<exists>m. answers (cf_request_id frame) (goes_on \<or> peer_queue_size \<le> length (pr_send (peer_at p w))) m
    \<and> wd_hub w' = got_message p m (wd_hub w) \<and> only_owner ow (wd_db w) (wd_db w')"
proof -
  let ?i = "cf_request_id frame" and ?kind = "if cf_type frame = ''exchange'' then ''exchange'' else ''resolve''"
  note E = enqueue_operation_error_answers [OF i]
  note A = error_answers [OF _ i]
  let ?b = "goes_on \<or> peer_queue_size \<le> length (pr_send (peer_at p w))"
  have weaker: "answers ?i goes_on m \<Longrightarrow> answers ?i ?b m" for m by (auto simp: answers_def)
  have same: "only_owner ow s s" for s by (simp add: only_owner_def)
  show ?thesis
  proof (cases "decode_sync_call (srv_proto srv) ?kind ow (cf_protobuf frame)")
    case (Inl e)
    show ?thesis
    proof (cases e)
      case InvalidMessage
      with Inl run have "goes_on" "w' = answer_ws p (must_server_error ?i ''INVALID_ARGUMENT'' 0) w"
        by (simp_all add: process_rpc_def)
      then show ?thesis using A [OF codes_allowed(4)] same by (auto simp: answer_ws_eq)
    next
      case (InvalidRequest e)
      with Inl run E [of p e w goes_on w'] show ?thesis
        using same weaker by (fastforce simp: process_rpc_def answer_ws_eq)
    qed
  next
    case call: (Inr call)
    obtain retry w1 where rate: "check_call_rate srv env (cf_type frame) ow w = (retry, w1)" by fastforce
    have w1: "wd_db w1 = wd_db w" "wd_hub w1 = wd_hub w" using check_call_rate_only [OF rate] by simp_all
    show ?thesis
    proof (cases retry)
      case (Inl e)
      with call rate run have "w' = answer_ws p (must_server_error ?i ''INTERNAL'' 0) w1" by (simp add: process_rpc_def)
      then show ?thesis using A [OF codes_allowed(2)] same w1 by (auto simp: answer_ws_eq)
    next
      case (Inr ms)
      show ?thesis
      proof (cases "0 < ms")
        case True
        with Inr call rate run have "w' = answer_ws p (must_server_error ?i ''RATE_LIMITED'' (of_int ms)) w1"
          by (simp add: process_rpc_def)
        then show ?thesis using A [OF codes_allowed(3)] same w1 by (auto simp: answer_ws_eq)
      next
        case False
        let ?md = "\<lparr>md_owner_key = ow, md_origin_connection_id = connection\<rparr>"
        obtain answer w2 where ran: "run_sync_call srv env ?md call w1 = (answer, w2)" by fastforce
        have w2: "only_owner ow (wd_db w) (wd_db w2)" "wd_hub w2 = wd_hub w"
          using run_sync_call_only [OF ran] w1 by simp_all
        have rest: "(goes_on, w') = (case answer of
            Inl e \<Rightarrow> enqueue_operation_error p ?i e w2
          | Inr (Inl e) \<Rightarrow> (False, answer_ws p (must_server_error ?i ''INTERNAL'' 0) w2)
          | Inr (Inr encoded) \<Rightarrow>
              (case encode_server_result (result_type call) ?i encoded of
                 Inl e \<Rightarrow> (False, answer_ws p (must_server_error ?i ''INTERNAL'' 0) w2)
               | Inr message \<Rightarrow> enqueue_ws p message w2))"
          using run call rate Inr False ran by (auto simp: process_rpc_def split: sum.splits)
        have "\<exists>m. answers ?i ?b m \<and> w' = answer_ws p m w2"
        proof (cases answer)
          case (Inl e)
          with rest E [of p e w2 goes_on w'] weaker show ?thesis by auto
        next
          case out: (Inr out)
          show ?thesis
          proof (cases out)
            case (Inl e)
            with rest out A [OF codes_allowed(2)] show ?thesis by auto
          next
            case (Inr encoded)
            show ?thesis
            proof (cases "encode_server_result (result_type call) ?i encoded")
              case (Inl e)
              with rest out Inr A [OF codes_allowed(2)] show ?thesis by auto
            next
              case enc: (Inr m)
              with rest out Inr w2(2) have "?b" "w' = answer_ws p m w2"
                by (auto simp: enqueue_ws_eq peer_at_def)
              then show ?thesis using result_answers [OF enc] by auto
            qed
          qed
        qed
        then show ?thesis using w2 by (auto simp: answer_ws_eq)
      qed
    qed
  qed
qed

end
