(* ===== verification/Events.thy ===== *)
theory Events
  imports SseLog WebSocket WakeHub
begin

text \<open>
  The handler of the event stream around \<open>sendFeed\<close> (\<open>events\<close> of \<open>internal/httpapi/sse.go\<close>): its guards, and
  the loop that serves wake-ups, the timers and the end of the session. What the \<open>select\<close> statement picks
  is a list of stream events, with the databases that the reads of a round see; the lease is that of
  the \<open>Redis\<close> theory, the subscription that of the wake hub.
\<close>

section \<open>Opening a stream\<close>

definition accepts_event_stream :: "string \<Rightarrow> bool" where
  "accepts_event_stream accept =
     list_ex (\<lambda>v. equal_fold (trim_space (before_first CHR 0x3B v)) ''text/event-stream'') (split_on CHR 0x2C accept)"

text \<open>The values of the query parameters \<open>baselineId\<close> and \<open>cursor\<close>.\<close>

definition parse_event_cursor :: "string list \<Rightarrow> string list \<Rightarrow> (string \<times> u64) option" where
  "parse_event_cursor baselines cursors =
     (if length baselines \<noteq> 1 \<or> length cursors \<noteq> 1 \<or> \<not> baseline_id_pattern (hd baselines) \<or> hd cursors = [] then None
      else
        (case parse_uint (hd cursors) of
           None \<Rightarrow> None
         | Some cursor \<Rightarrow> if cursor > max_safe_integer then None else Some (hd baselines, cursor)))"

record stream_request =
  sq_request :: http_request
  sq_accept :: string
  sq_baselines :: "string list"
  sq_cursors :: "string list"

record open_stream =
  os_owner :: string
  os_baseline :: string
  os_cursor :: u64
  os_expires_at :: "int option"
  os_subscription :: nat

text \<open>
  The guards up to the subscription: the response that ends the request, or the open stream. \<open>now\<close> is
  the server's clock and \<open>connection\<close> the new request id.
\<close>

definition open_events ::
  "'s server \<Rightarrow> redis_call \<Rightarrow> int \<Rightarrow> string \<Rightarrow> stream_request \<Rightarrow> 's \<times> wake_hub
     \<Rightarrow> panic + (http_response + open_stream) \<times> ('s \<times> wake_hub)" where
  "open_events srv env now connection q sw =
     (let (redis, wake) = sw; r = sq_request q in
      if \<not> valid_state_origin srv r then Inr (Inl (write_api_error 403 ''invalid_origin''), sw)
      else if \<not> accepts_event_stream (sq_accept q) then Inr (Inl (write_api_error 406 ''event_stream_required''), sw)
      else
        (case parse_event_cursor (sq_baselines q) (sq_cursors q) of
           None \<Rightarrow> Inr (Inl (write_api_error 400 ''invalid_sync_cursor''), sw)
         | Some (baseline, cursor) \<Rightarrow>
             (case authenticate srv now r of
                None \<Rightarrow> Inr (Inl (write_api_error 401 ''authentication_required''), sw)
              | Some (claims, ow) \<Rightarrow>
                  if (case rg_expires_at claims of None \<Rightarrow> False | Some t \<Rightarrow> \<not> now < t)
                  then Inr (Inl (write_api_error 401 ''authentication_required''), sw)
                  else
                    (case acquire_connection (srv_redis srv) (srv_redis_prefix srv) env ow connection
                            max_connections_per_owner default_lease_ttl redis of
                       (Inl ErrConnectionLimit, redis') \<Rightarrow>
                         Inr (Inl (with_header ''Retry-After'' ''5'' (write_api_error 429 ''sync_connection_limit'')), (redis', wake))
                     | (Inl (RedisFailure e), redis') \<Rightarrow>
                         Inr (Inl (write_api_error 503 ''redis_unavailable''), (redis', wake))
                     | (Inr _, redis') \<Rightarrow>
                         (case wake_register ow wake of
                            Inl p \<Rightarrow> Inl p
                          | Inr (subscription, wake') \<Rightarrow>
                              Inr (Inr \<lparr>os_owner = ow, os_baseline = baseline, os_cursor = cursor,
                                        os_expires_at = rg_expires_at claims, os_subscription = subscription\<rparr>,
                                   (redis', wake')))))))"

text \<open>The deferred calls when the handler returns: the subscription is closed and the lease released.\<close>

definition close_events ::
  "'s server \<Rightarrow> redis_call \<Rightarrow> string \<Rightarrow> open_stream \<Rightarrow> 's \<times> wake_hub \<Rightarrow> panic + ('s \<times> wake_hub)" where
  "close_events srv env connection st sw =
     (let (redis, wake) = sw in
      case wake_unregister (Some (os_subscription st)) wake of
        Inl p \<Rightarrow> Inl p
      | Inr (_, wake') \<Rightarrow>
          Inr (snd (release_connection (srv_redis srv) (srv_redis_prefix srv) env (os_owner st) connection redis), wake'))"

section \<open>The loop\<close>

text \<open>What the \<open>select\<close> picks; a wake-up with \<^const>\<open>False\<close> is the closed channel of the subscription.\<close>

datatype stream_event =
    ClientGone
  | SessionExpired
  | LeaseLost err
  | HeartbeatTick
  | WakeUp bool "(tx_env \<times> db) list"
  | ReconcileTick "(tx_env \<times> db) list"

fun event_reads :: "stream_event \<Rightarrow> (tx_env \<times> db) list" where
  "event_reads (WakeUp ok reads) = reads"
| "event_reads (ReconcileTick reads) = reads"
| "event_reads _ = []"

definition stream_unavailable :: "network \<Rightarrow> err \<Rightarrow> sse_writer \<Rightarrow> sse_writer" where
  "stream_unavailable net e w =
     (case e of ErrSSEWrite _ \<Rightarrow> w | _ \<Rightarrow> snd (write_sse_error net ''unavailable'' ''unavailable'' w))"

text \<open>Whether the loop goes on, the cursor and the connection; \<^const>\<open>None\<close> when the reads given do not suffice.\<close>

type_synonym stream_state = "bool \<times> u64 \<times> sse_writer"

definition feed_step ::
  "marshal \<Rightarrow> network \<Rightarrow> string \<Rightarrow> string \<Rightarrow> (tx_env \<times> db) list \<Rightarrow> bool \<Rightarrow> u64 \<Rightarrow> sse_writer \<Rightarrow> stream_state option" where
  "feed_step M net ow b reads send_ready c w =
     (case send_feed M net ow b reads c send_ready w of
        None \<Rightarrow> None
      | Some ((c', terminal, e), w') \<Rightarrow>
          (case e of
             Some e \<Rightarrow> Some (False, c', stream_unavailable net e w')
           | None \<Rightarrow> Some (\<not> terminal, c', w')))"

definition stream_step ::
  "marshal \<Rightarrow> network \<Rightarrow> string \<Rightarrow> string \<Rightarrow> stream_event \<Rightarrow> u64 \<Rightarrow> sse_writer \<Rightarrow> stream_state option" where
  "stream_step M net ow b event c w =
     (case event of
        ClientGone \<Rightarrow> Some (False, c, w)
      | SessionExpired \<Rightarrow> Some (False, c, snd (write_sse_error net ''auth_required'' ''auth_required'' w))
      | LeaseLost e \<Rightarrow> Some (False, c, stream_unavailable net e w)
      | HeartbeatTick \<Rightarrow>
          (case write_sse_comment net ''heartbeat'' w of
             (Inl e, w') \<Rightarrow> Some (False, c, w')
           | (Inr _, w') \<Rightarrow> Some (True, c, w'))
      | WakeUp ok reads \<Rightarrow> if \<not> ok then Some (False, c, w) else feed_step M net ow b reads False c w
      | ReconcileTick reads \<Rightarrow> feed_step M net ow b reads False c w)"

fun stream_loop ::
  "marshal \<Rightarrow> network \<Rightarrow> string \<Rightarrow> string \<Rightarrow> stream_event list \<Rightarrow> stream_state \<Rightarrow> stream_state option" where
  "stream_loop M net ow b [] st = Some st"
| "stream_loop M net ow b (event # events) (live, c, w) =
     (if \<not> live then Some (live, c, w)
      else
        (case stream_step M net ow b event c w of
           None \<Rightarrow> None
         | Some st \<Rightarrow> stream_loop M net ow b events st))"

text \<open>The whole stream: the initial feed, with the ready event, then the loop.\<close>

definition run_stream ::
  "marshal \<Rightarrow> network \<Rightarrow> string \<Rightarrow> string \<Rightarrow> u64 \<Rightarrow> (tx_env \<times> db) list \<Rightarrow> stream_event list \<Rightarrow> sse_writer \<Rightarrow> stream_state option" where
  "run_stream M net ow b c reads events w =
     (case feed_step M net ow b reads True c w of
        None \<Rightarrow> None
      | Some st \<Rightarrow> stream_loop M net ow b events st)"

section \<open>What is on the wire\<close>

text \<open>The complete items of a stream: events of the feed and comments.\<close>

datatype stream_item = ItemEvent sse_event | ItemComment string

fun item_bytes :: "marshal \<Rightarrow> stream_item \<Rightarrow> string" where
  "item_bytes M (ItemEvent ev) = sse_event_bytes M ev"
| "item_bytes M (ItemComment text) = '': '' @ text @ newline @ newline"

fun item_changes :: "stream_item \<Rightarrow> change list" where
  "item_changes (ItemEvent ev) = event_changes ev"
| "item_changes (ItemComment text) = []"

text \<open>The changes that were sent are a segment of the log of one of the databases read.\<close>

definition sent_by :: "string \<Rightarrow> string \<Rightarrow> (tx_env \<times> db) list \<Rightarrow> u64 \<Rightarrow> change list \<Rightarrow> u64 \<Rightarrow> bool" where
  "sent_by ow b reads c sent c1 \<longleftrightarrow>
     (sent = [] \<and> c1 = c)
     \<or> (\<exists>(env, s) \<in> set reads. a_baseline (abs_owner ow s) = Some b \<and> length sent \<le> length (log_after (abs_owner ow s) c)
          \<and> sent = take (length sent) (log_after (abs_owner ow s) c) \<and> c1 = c + of_nat (length sent))"

lemma sent_from_by:
  assumes "sent_from M (abs_owner ow s) b c evs c1" and "(env, s) \<in> set reads"
  shows "sent_by ow b reads c (concat (map event_changes evs)) c1"
proof (cases evs)
  case Nil
  with assms(1) show ?thesis by (simp add: sent_by_def)
next
  case (Cons ev rest)
  with assms show ?thesis
    unfolding sent_by_def sent_from_def Let_def by (intro disjI2 bexI [of _ "(env, s)"]) auto
qed

lemma consistent_reads_append:
  "consistent_reads (xs @ ys) \<longleftrightarrow> consistent_reads xs \<and> consistent_reads ys
     \<and> (\<forall>x \<in> set xs. \<forall>y \<in> set ys. service_step\<^sup>*\<^sup>* (snd x) (snd y))"
  by (auto simp: consistent_reads_def sorted_wrt_append)

lemma sent_by_append:
  assumes one: "sent_by ow b xs c sent c1" and two: "sent_by ow b ys c1 sent2 c2" and reads: "consistent_reads (xs @ ys)"
  shows "sent_by ow b (xs @ ys) c (sent @ sent2) c2"
proof (cases "sent2 = [] \<and> c2 = c1")
  case True
  with one show ?thesis by (auto simp: sent_by_def)
next
  case again: False
  with two obtain env2 s2 where s2: "(env2, s2) \<in> set ys" "a_baseline (abs_owner ow s2) = Some b"
    "length sent2 \<le> length (log_after (abs_owner ow s2) c1)" "sent2 = take (length sent2) (log_after (abs_owner ow s2) c1)"
    "c2 = c1 + of_nat (length sent2)" unfolding sent_by_def by blast
  let ?B = "abs_owner ow s2"
  have "length sent \<le> length (log_after ?B c) \<and> sent = take (length sent) (log_after ?B c) \<and> c1 = c + of_nat (length sent)"
  proof (cases "sent = [] \<and> c1 = c")
    case False
    with one obtain env1 s1 where s1: "(env1, s1) \<in> set xs" "a_baseline (abs_owner ow s1) = Some b"
      "length sent \<le> length (log_after (abs_owner ow s1) c)" "sent = take (length sent) (log_after (abs_owner ow s1) c)"
      "c1 = c + of_nat (length sent)" unfolding sent_by_def by blast
    let ?A = "abs_owner ow s1"
    have steps: "service_step\<^sup>*\<^sup>* s1 s2"
      using reads s1(1) s2(1) unfolding consistent_reads_append by fastforce
    have inv: "db_inv s1" "db_inv s2"
      using reads s1(1) s2(1) unfolding consistent_reads_append by (auto simp: consistent_reads_def list_all_iff)
    note P = log_after_prefix [OF log_ok_of_inv [OF inv(1)] log_ok_of_inv [OF inv(2)] log_grows [OF steps inv(1) s1(2) s2(2)]]
    have "sent = take (length sent) (take (length (log_after ?A c)) (log_after ?B c))" using s1(4) P(2) by metis
    also have "\<dots> = take (length sent) (log_after ?B c)" using s1(3) by (simp add: min_def del: length_log_after)
    finally have "sent = take (length sent) (log_after ?B c)" .
    moreover have "length sent \<le> length (log_after ?B c)" using s1(3) P(1) by (simp add: word_le_nat_alt)
    ultimately show ?thesis using s1(5) by blast
  qed simp
  then have one': "length sent \<le> length (log_after ?B c)" "sent = take (length sent) (log_after ?B c)"
    "c1 = c + of_nat (length sent)" by blast+
  have drop: "log_after ?B c1 = drop (length sent) (log_after ?B c)" unfolding one'(3) by (rule log_after_drop [OF one'(1)])
  have "sent @ sent2 = take (length sent) (log_after ?B c) @ take (length sent2) (drop (length sent) (log_after ?B c))"
    using one'(2) s2(4) drop by metis
  also have "\<dots> = take (length (sent @ sent2)) (log_after ?B c)" unfolding length_append take_add by (rule refl)
  finally have all: "sent @ sent2 = take (length (sent @ sent2)) (log_after ?B c)" .
  have len: "length (sent @ sent2) \<le> length (log_after ?B c)"
    using one'(1) s2(3) drop by (simp del: length_log_after)
  have "c2 = c + of_nat (length (sent @ sent2))" using one'(3) s2(5) by simp
  with s2(1,2) all len show ?thesis
    unfolding sent_by_def by (intro disjI2 bexI [of _ "(env2, s2)"]) (simp_all del: length_append length_log_after)
qed

text \<open>A feed, a step and the loop: complete items, and behind them at most what ends the stream.\<close>

definition stream_wrote ::
  "marshal \<Rightarrow> string \<Rightarrow> string \<Rightarrow> (tx_env \<times> db) list \<Rightarrow> u64 \<Rightarrow> sse_writer \<Rightarrow> stream_state \<Rightarrow> bool" where
  "stream_wrote M ow b reads c w st = (case st of (live, c1, w') \<Rightarrow>
     \<exists>items p. wr_bytes w' = wr_bytes w @ concat (map (item_bytes M) items) @ p \<and> (live \<longrightarrow> p = [])
       \<and> sent_by ow b reads c (concat (map item_changes items)) c1)"

lemma write_sse_grows:
  assumes "write_sse_error net event code w = (r, w')"
  shows "\<exists>p. wr_bytes w' = wr_bytes w @ p"
proof -
  have put: "\<exists>p. wr_bytes w2 = wr_bytes w1 @ p" if "sse_put net chunk w1 = (x, w2)" for chunk w1 x w2
    using sse_put_cases [OF that] by auto
  from assms put show ?thesis
    unfolding write_sse_error_def write_sse_def
    by (auto split: prod.splits sum.splits) (metis append.assoc)+
qed

lemma feed_step_wrote:
  assumes run: "feed_step M net ow b reads send_ready c w = Some st" and reads: "consistent_reads reads"
  shows "stream_wrote M ow b reads c w st"
proof -
  from run obtain c1 terminal e w1 where
    feed: "send_feed M net ow b reads c send_ready w = Some ((c1, terminal, e), w1)"
    and st: "st = (case e of Some e \<Rightarrow> (False, c1, stream_unavailable net e w1) | None \<Rightarrow> (\<not> terminal, c1, w1))"
    by (auto simp: feed_step_def split: option.splits)
  from send_feed_result [OF feed reads] obtain evs fin p env s where
    bytes: "wr_bytes w1 = wr_bytes w @ concat (map (sse_event_bytes M) (evs @ fin)) @ p"
    and s: "(env, s) \<in> set reads" and sent: "sent_from M (abs_owner ow s) b c evs c1"
    and fin: "feed_ending M b send_ready c1 terminal e fin" and p: "e = None \<longrightarrow> p = []" by blast
  let ?items = "map ItemEvent (evs @ fin)"
  have "concat (map event_changes fin) = []"
    using fin by (auto simp: feed_ending_def list_all_iff event_changes_def)
  then have changes: "concat (map item_changes ?items) = concat (map event_changes evs)" by (simp add: comp_def)
  have items: "wr_bytes w1 = wr_bytes w @ concat (map (item_bytes M) ?items) @ p" using bytes by (simp add: comp_def)
  have seg: "sent_by ow b reads c (concat (map item_changes ?items)) c1"
    unfolding changes by (rule sent_from_by [OF sent s])
  show ?thesis
  proof (cases e)
    case None
    with items seg p st show ?thesis by (auto simp: stream_wrote_def intro!: exI [of _ ?items])
  next
    case (Some x)
    have "\<exists>q. wr_bytes (stream_unavailable net x w1) = wr_bytes w1 @ q"
      using write_sse_grows [of net "''unavailable''" "''unavailable''" w1]
      by (auto simp: stream_unavailable_def split: err.splits) (metis prod.collapse)+
    then obtain q where "wr_bytes (stream_unavailable net x w1) = wr_bytes w1 @ q" by blast
    with items seg Some st show ?thesis
      by (auto simp: stream_wrote_def intro!: exI [of _ ?items] exI [of _ "p @ q"])
  qed
qed

lemma stream_wrote_nothing: "wr_bytes w' = wr_bytes w @ p \<Longrightarrow> stream_wrote M ow b [] c w (False, c, w')"
  unfolding stream_wrote_def by (simp add: sent_by_def) (intro exI [of _ "[]"] exI [of _ p], simp)

lemma write_sse_comment_wrote:
  assumes "write_sse_comment net text w = (r, w')"
  shows "case r of
      Inr _ \<Rightarrow> wr_bytes w' = wr_bytes w @ item_bytes M (ItemComment text)
    | Inl e \<Rightarrow> \<exists>p. wr_bytes w' = wr_bytes w @ p"
proof -
  obtain x w1 where one: "sse_put net ('': '' @ text @ newline @ newline) w = (x, w1)" by fastforce
  obtain y w2 where two: "sse_put net [] w1 = (y, w2)" by fastforce
  from assms one two sse_put_cases [OF one] sse_put_cases [OF two] show ?thesis
    by (cases x) (auto simp: write_sse_comment_def split: sum.splits)
qed

lemma stream_step_wrote:
  assumes run: "stream_step M net ow b event c w = Some st" and reads: "consistent_reads (event_reads event)"
  shows "stream_wrote M ow b (event_reads event) c w st"
proof (cases event)
  case ClientGone
  then show ?thesis using run stream_wrote_nothing [of w w "[]"] by (auto simp: stream_step_def)
next
  case SessionExpired
  obtain r w' where x: "write_sse_error net ''auth_required'' ''auth_required'' w = (r, w')" by fastforce
  from write_sse_grows [OF x] SessionExpired run x show ?thesis
    by (auto simp: stream_step_def intro: stream_wrote_nothing)
next
  case (LeaseLost e)
  have "\<exists>q. wr_bytes (stream_unavailable net e w) = wr_bytes w @ q"
    using write_sse_grows [of net "''unavailable''" "''unavailable''" w]
    by (auto simp: stream_unavailable_def split: err.splits) (metis prod.collapse)+
  with LeaseLost run show ?thesis by (auto simp: stream_step_def intro: stream_wrote_nothing)
next
  case HeartbeatTick
  obtain r w' where x: "write_sse_comment net ''heartbeat'' w = (r, w')" by fastforce
  note W = write_sse_comment_wrote [OF x, of M]
  show ?thesis
  proof (cases r)
    case (Inl e)
    with W HeartbeatTick run x show ?thesis by (auto simp: stream_step_def intro: stream_wrote_nothing)
  next
    case (Inr u)
    with W HeartbeatTick run x show ?thesis
      by (auto simp: stream_step_def stream_wrote_def sent_by_def intro!: exI [of _ "[ItemComment ''heartbeat'']"])
  qed
next
  case (WakeUp ok rs)
  show ?thesis
  proof (cases ok)
    case True
    with WakeUp run have "feed_step M net ow b rs False c w = Some st" by (simp add: stream_step_def)
    from feed_step_wrote [OF this] reads WakeUp show ?thesis by simp
  next
    case False
    with WakeUp run have "st = (False, c, w)" by (simp add: stream_step_def)
    then show ?thesis by (auto simp: stream_wrote_def sent_by_def intro!: exI [of _ "[]"])
  qed
next
  case (ReconcileTick rs)
  with run have "feed_step M net ow b rs False c w = Some st" by (simp add: stream_step_def)
  from feed_step_wrote [OF this] reads ReconcileTick show ?thesis by simp
qed

lemma stream_wrote_append:
  assumes one: "stream_wrote M ow b xs c w (True, c1, w1)" and two: "stream_wrote M ow b ys c1 w1 st"
    and reads: "consistent_reads (xs @ ys)"
  shows "stream_wrote M ow b (xs @ ys) c w st"
proof -
  obtain live c2 w2 where st: "st = (live, c2, w2)" by (cases st)
  from one obtain items where i: "wr_bytes w1 = wr_bytes w @ concat (map (item_bytes M) items)"
    "sent_by ow b xs c (concat (map item_changes items)) c1" by (auto simp: stream_wrote_def)
  from two obtain items2 p where j: "wr_bytes w2 = wr_bytes w1 @ concat (map (item_bytes M) items2) @ p"
    "live \<longrightarrow> p = []" "sent_by ow b ys c1 (concat (map item_changes items2)) c2"
    by (auto simp: stream_wrote_def st)
  from sent_by_append [OF i(2) j(3) reads] i(1) j(1,2) show ?thesis
    unfolding stream_wrote_def st by (auto intro!: exI [of _ "items @ items2"] exI [of _ p])
qed

lemma stream_wrote_more:
  assumes "stream_wrote M ow b xs c w st" and "set xs \<subseteq> set ys"
  shows "stream_wrote M ow b ys c w st"
proof -
  have "sent_by ow b ys c sent c1" if "sent_by ow b xs c sent c1" for sent c1
    using that assms(2) unfolding sent_by_def by blast
  with assms(1) show ?thesis unfolding stream_wrote_def by (cases st) blast
qed

lemma stream_loop_wrote:
  "stream_loop M net ow b events (live, c, w) = Some st \<Longrightarrow> live \<Longrightarrow>
     consistent_reads (concat (map event_reads events)) \<Longrightarrow> stream_wrote M ow b (concat (map event_reads events)) c w st"
proof (induction events arbitrary: live c w)
  case Nil
  then show ?case by (auto simp: stream_wrote_def sent_by_def intro!: exI [of _ "[]"])
next
  case (Cons event events)
  let ?xs = "event_reads event" and ?ys = "concat (map event_reads events)"
  have reads: "consistent_reads (?xs @ ?ys)" using Cons.prems(3) by simp
  then have xs: "consistent_reads ?xs" and ys: "consistent_reads ?ys" by (simp_all add: consistent_reads_append)
  from Cons.prems(1,2) obtain live1 c1 w1 where
    step: "stream_step M net ow b event c w = Some (live1, c1, w1)"
    and rest: "stream_loop M net ow b events (live1, c1, w1) = Some st" by (auto split: option.splits)
  note S = stream_step_wrote [OF step xs]
  show ?case
  proof (cases live1)
    case True
    with S have "stream_wrote M ow b ?xs c w (True, c1, w1)" by simp
    from stream_wrote_append [OF this Cons.IH [OF rest True ys] reads] show ?thesis by simp
  next
    case False
    then have "st = (live1, c1, w1)" using rest by (cases events) simp_all
    with stream_wrote_more [OF S, of "?xs @ ?ys"] show ?thesis by simp
  qed
qed

lemma run_stream_wrote:
  assumes run: "run_stream M net ow b c reads events w = Some st"
    and all: "consistent_reads (reads @ concat (map event_reads events))"
  shows "stream_wrote M ow b (reads @ concat (map event_reads events)) c w st"
proof -
  from run obtain live c1 w1 where first: "feed_step M net ow b reads True c w = Some (live, c1, w1)"
    and rest: "stream_loop M net ow b events (live, c1, w1) = Some st"
    by (auto simp: run_stream_def split: option.splits)
  have cs: "consistent_reads reads" "consistent_reads (concat (map event_reads events))"
    using all by (simp_all add: consistent_reads_append)
  note F = feed_step_wrote [OF first cs(1)]
  show ?thesis
  proof (cases live)
    case True
    with F have "stream_wrote M ow b reads c w (True, c1, w1)" by simp
    from stream_wrote_append [OF this stream_loop_wrote [OF rest True cs(2)] all] show ?thesis .
  next
    case False
    then have "st = (live, c1, w1)" using rest by (cases events) simp_all
    with stream_wrote_more [OF F] show ?thesis by simp
  qed
qed

end
