(* ===== verification/TransportProps.thy ===== *)
theory TransportProps
  imports Http WebSocket Subscriber UrlLemmas Events RealtimeProps TokenProps
begin

text \<open>
  The properties of the transport: frames and their limits, the way of a hint to the connections of
  its owner, and what an HTTP request or a WebSocket call can do.
\<close>

section \<open>Frames\<close>

text \<open>
  C25. What a client sends is what the server decodes: a request frame with any message of at most
  512 KiB is within all the limits and decodes to its type, its request id and the message. And what
  the decoder lets through is well-formed: version 1, a request with a valid id and at most 512 KiB of
  message, or an activity frame; every error it gives has a code the server may send and closes the
  connection with 1007, 1009 or not at all.
\<close>

theorem client_frame_round_trip:
  assumes "request_id_pattern request_id" and "kind \<in> {''exchange'', ''resolve''}"
    and "length payload \<le> max_protobuf_bytes"
  shows "decode_client_frame (marshal_frame (request_frame kind request_id payload))
    = Inr \<lparr>cf_version = 1, cf_request_id = request_id, cf_type = kind, cf_protobuf = payload, cf_active = False\<rparr>
    \<and> (\<forall>message. case decode_client_frame message of
        Inl e \<Rightarrow> fe_code e \<in> set allowed_codes \<and> fe_close_code e \<in> {0, 1007, 1009}
      | Inr f \<Rightarrow> length message \<le> max_web_socket_frame \<and> cf_version f = 1 \<and>
          (if cf_type f = ''activity'' then cf_request_id f = [] \<and> cf_protobuf f = []
           else cf_type f \<in> {''exchange'', ''resolve''} \<and> request_id_pattern (cf_request_id f)
             \<and> length (cf_protobuf f) \<le> max_protobuf_bytes \<and> \<not> cf_active f))"
  using decode_request_frame [OF assms] decode_client_frame_cases [OF refl] by simp

lemma ex_request_id: "request_id_pattern ''request-0001''"
  by code_simp

theorem client_frame_round_trip_witness:
  "decode_client_frame (marshal_frame (request_frame ''exchange'' ''request-0001'' (replicate 524288 CHR ''x'')))
    = Inr \<lparr>cf_version = 1, cf_request_id = ''request-0001'', cf_type = ''exchange'',
         cf_protobuf = replicate 524288 CHR ''x'', cf_active = False\<rparr>"
  by (rule conjunct1 [OF client_frame_round_trip [OF ex_request_id]]) (simp_all add: max_protobuf_bytes_def)

text \<open>
  Every result the server encodes is within the limit on frames, and the client that reads it
  gets its type, its request id and the message.
\<close>

theorem server_results_fit:
  assumes "encode_server_result kind request_id protobuf = Inr m"
  shows "length m \<le> max_web_socket_frame
    \<and> (\<exists>f. unmarshal wire_frame_fields m empty_frame = Some f \<and> wf_version f = 1 \<and> wf_type f = kind
        \<and> wf_request_id f = request_id \<and> base64_decode (wf_protobuf f) = Some protobuf)"
  using server_result_frame [OF assms] by (simp add: request_frame_def)

theorem server_results_fit_witness:
  "\<exists>m. encode_server_result ''exchange_result'' ''request-0001'' ''abc'' = Inr m \<and> length m \<le> max_web_socket_frame"
proof -
  have "encode_server_result ''exchange_result'' ''request-0001'' ''abc''
      = Inr (marshal_frame (request_frame ''exchange_result'' ''request-0001'' ''abc''))"
    using ex_request_id by (simp add: encode_server_result_cases max_protobuf_bytes_def)
  then show ?thesis using server_results_fit by blast
qed

section \<open>Hints\<close>

text \<open>The payload of a hint, received: the hubs afterwards.\<close>

lemma on_message_delivers:
  assumes hubs: "hubs_ok hs" and ow: "owner_key_pattern (ht_owner_key h)" and b: "baseline_id_pattern (ht_baseline_id h)"
    and origin: "list_all json_safe (ht_origin_connection_id h)"
  shows "\<exists>hs' payload. on_message (hint_payload h) hs = Inr hs'
    \<and> (\<forall>i < length (wk_heap (hs_wake hs)). ws_owner_key (wk_heap (hs_wake hs) ! i) = ht_owner_key h
         \<and> \<not> ws_closed (wk_heap (hs_wake hs) ! i) \<longrightarrow> ws_pending (wk_heap (hs_wake hs') ! i))
    \<and> (\<forall>p < length (hb_heap (hs_hub hs)). let pr = hb_heap (hs_hub hs) ! p in
         om_find (hb_by_owner (hs_hub hs)) (ht_owner_key h) (pr_id pr) = Some p
         \<and> pr_id pr \<noteq> ht_origin_connection_id h \<and> pr_active pr \<and> length (pr_send pr) < 32
         \<longrightarrow> pr_send (hb_heap (hs_hub hs') ! p) = pr_send pr @ [payload])
    \<and> unmarshal wire_frame_fields payload empty_frame
        = Some (empty_frame\<lparr>wf_version := 1, wf_type := ''sync_hint'', wf_baseline_id := ht_baseline_id h,
            wf_server_cursor := ht_server_cursor h, wf_server_version := ht_server_version h\<rparr>)"
proof -
  have wok: "wake_ok (hs_wake hs)" and hok: "hub_ok (hs_hub hs)"
    using hubs by (simp_all add: hubs_ok_def)
  have "list_all json_safe (ht_owner_key h)"
  proof -
    have "json_safe c" if "is_lower_hex c" for c
      using that by (intro json_plain_safe) (auto simp: json_plain_def is_lower_hex_def is_id_char_def in_range_def)
    with ow show ?thesis by (simp add: owner_key_pattern_def list_all_iff)
  qed
  then have "hint_safe h" using origin pattern_safe(2) [OF b] by (simp add: hint_safe_def)
  then have rcv: "receive_hint (hint_payload h) = Some h"
    using ow b pattern_safe(2) [OF b] by (intro receive_hint_payload) (auto simp: owner_key_pattern_def)
  obtain hs' payload where run: "on_hint h hs = Inr hs'"
    and enc: "encode_sync_hint (ht_baseline_id h) (ht_server_cursor h) (ht_server_version h) = Inr payload"
    and hub': "hs_hub hs' = broadcast h payload (hs_hub hs)"
    and pub: "wake_publish (ht_owner_key h) (hs_wake hs) = Inr ((), hs_wake hs')"
    using on_hint_run [OF wok hok b] by metis
  have streams: "ws_pending (wk_heap (hs_wake hs') ! i)"
    if "i < length (wk_heap (hs_wake hs))" "ws_owner_key (wk_heap (hs_wake hs) ! i) = ht_owner_key h"
      "\<not> ws_closed (wk_heap (hs_wake hs) ! i)" for i
    using wake_publish_run [OF wok, of "ht_owner_key h"] pub that wok by (auto simp: wake_ok_def)
  have peers: "pr_send (hb_heap (hs_hub hs') ! p) = pr_send pr @ [payload]"
    if "p < length (hb_heap (hs_hub hs))" "pr = hb_heap (hs_hub hs) ! p"
      "om_find (hb_by_owner (hs_hub hs)) (ht_owner_key h) (pr_id pr) = Some p" "pr_id pr \<noteq> ht_origin_connection_id h"
      "pr_active pr" "length (pr_send pr) < 32" for p pr
    using broadcast_spec [OF hok that(1), of h payload] that
    by (simp add: hub' broadcast_change_def offer_payload_def peer_queue_size_def)
  show ?thesis
    using run streams peers sync_hint_frame [OF enc]
    by (intro exI [of _ hs'] exI [of _ payload]) (simp add: on_message_def rcv Let_def)
qed

text \<open>
  C26. From the publisher to the connections: the subscriber has not panicked, whatever the messages and
  the other goroutines did, and stops only after its context has ended. Until then, wherever it is, at most
  four steps of its own lead to where it listens, with the hubs as they were; and there the payload of
  a hint leaves every open event stream of the owner with a wake-up and every active WebSocket peer of the
  owner that has room, but for the origin of the change, with a frame that tells the baseline, the
  cursor and the version.
\<close>

theorem hint_reaches_connections:
  assumes reach: "subscriber_reachable s" and live: "\<not> sb_cancelled s"
    and ow: "owner_key_pattern (ht_owner_key h)" and b: "baseline_id_pattern (ht_baseline_id h)"
    and origin: "list_all json_safe (ht_origin_connection_id h)"
  shows "sb_phase s \<noteq> SubStopped \<and> (\<forall>p. sb_phase s \<noteq> SubPanicked p)
    \<and> (\<exists>es hs' payload. length es \<le> 4 \<and> list_all quiet_event es
    \<and> subscriber_runs (es @ [MessageArrives (hint_payload h)]) s = Some (s\<lparr>sb_phase := SubListen, sb_hubs := hs'\<rparr>)
    \<and> (\<forall>i < length (wk_heap (hs_wake (sb_hubs s))). ws_owner_key (wk_heap (hs_wake (sb_hubs s)) ! i) = ht_owner_key h
         \<and> \<not> ws_closed (wk_heap (hs_wake (sb_hubs s)) ! i) \<longrightarrow> ws_pending (wk_heap (hs_wake hs') ! i))
    \<and> (\<forall>p < length (hb_heap (hs_hub (sb_hubs s))). let pr = hb_heap (hs_hub (sb_hubs s)) ! p in
         om_find (hb_by_owner (hs_hub (sb_hubs s))) (ht_owner_key h) (pr_id pr) = Some p
         \<and> pr_id pr \<noteq> ht_origin_connection_id h \<and> pr_active pr \<and> length (pr_send pr) < 32
         \<longrightarrow> pr_send (hb_heap (hs_hub hs') ! p) = pr_send pr @ [payload])
    \<and> unmarshal wire_frame_fields payload empty_frame
        = Some (empty_frame\<lparr>wf_version := 1, wf_type := ''sync_hint'', wf_baseline_id := ht_baseline_id h,
            wf_server_cursor := ht_server_cursor h, wf_server_version := ht_server_version h\<rparr>))"
proof -
  have ok: "subscriber_ok s" using subscriber_reachable_ok [OF reach] .
  obtain es where es: "length es \<le> 4" "list_all quiet_event es" "subscriber_runs es s = Some (s\<lparr>sb_phase := SubListen\<rparr>)"
    using subscriber_listens_again [OF ok live] by blast
  have hear: "subscriber_runs (es @ [MessageArrives payload]) s = Some (s\<lparr>sb_phase := SubListen, sb_hubs := hs'\<rparr>)"
    if "on_message payload (sb_hubs s) = Inr hs'" for payload hs'
    using es(3) that by (simp add: subscriber_runs_append subscriber_run_def subscribe_run_def hear_message_def)
  have "hubs_ok (sb_hubs s)" and safe: "sb_phase s \<noteq> SubStopped \<and> (\<forall>p. sb_phase s \<noteq> SubPanicked p)"
    using ok live by (simp_all add: subscriber_ok_def)
  then show ?thesis
    using on_message_delivers [OF _ ow b origin, of "sb_hubs s"] es(1,2) hear by fast
qed

text \<open>One event stream and one peer of the owner.\<close>

definition ex_hubs :: hubs where
  "ex_hubs = \<lparr>hs_wake = \<lparr>wk_heap = [\<lparr>ws_owner_key = ex_owner, ws_pending = False, ws_closed = False\<rparr>],
       wk_by_owner = [ex_owner \<mapsto> [(0, ())]], wk_closed = False\<rparr>,
     hs_hub = \<lparr>hb_heap = [new_peer ''tab-2'' ex_owner], hb_by_owner = [ex_owner \<mapsto> [(''tab-2'', 0)]]\<rparr>\<rparr>"

definition ex_safe_hint :: hint where
  "ex_safe_hint = \<lparr>ht_owner_key = ex_owner, ht_baseline_id = ex_baseline, ht_server_cursor = 7, ht_server_version = 3,
     ht_origin_connection_id = ''tab-1''\<rparr>"

lemma ex_hubs_reachable: "wake_reachable (hs_wake ex_hubs)" "hub_reachable (hs_hub ex_hubs)"
proof -
  have "wake_run (WakeRegister ex_owner) new_wake_hub = Inr (hs_wake ex_hubs)"
    by (simp add: wake_register_def new_wake_hub_def ex_hubs_def om_put_def om_entries_def)
  then show "wake_reachable (hs_wake ex_hubs)" by (rule wake_reachable.call [OF wake_reachable.start, rotated]) simp
  define h1 where "h1 = snd (allocate_peer ''tab-2'' ex_owner new_hub)"
  have h1: "h1 = \<lparr>hb_heap = [new_peer ''tab-2'' ex_owner], hb_by_owner = (\<lambda>_. None)\<rparr>"
    by (simp add: h1_def allocate_peer_def new_hub_def)
  have "hub_reachable h1" unfolding h1_def by (rule hub_call [OF hub_start step_allocate])
  then have "hub_reachable (hub_register 0 h1)" by (rule hub_call [OF _ step_register]) (simp add: h1)
  moreover have "hub_register 0 h1 = hs_hub ex_hubs"
    by (simp add: h1 ex_hubs_def hub_register_def Let_def new_peer_def om_put_def om_entries_def)
  ultimately show "hub_reachable (hs_hub ex_hubs)" by simp
qed

theorem hint_reaches_connections_witness:
  "\<exists>es s' payload. subscriber_runs (es @ [MessageArrives (hint_payload ex_safe_hint)]) (new_subscriber\<lparr>sb_hubs := ex_hubs\<rparr>) = Some s'
    \<and> sb_phase s' = SubListen \<and> ws_pending (wk_heap (hs_wake (sb_hubs s')) ! 0)
    \<and> pr_send (hb_heap (hs_hub (sb_hubs s')) ! 0) = [payload]"
proof -
  let ?s = "new_subscriber\<lparr>sb_hubs := ex_hubs\<rparr>"
  have reach: "subscriber_reachable ?s"
    using subscriber_any_hubs [OF ex_hubs_reachable] by (simp add: ex_hubs_def)
  have live: "\<not> sb_cancelled ?s" by (simp add: new_subscriber_def)
  have "owner_key_pattern ex_owner" "baseline_id_pattern ex_baseline" by code_simp+
  from hint_reaches_connections [OF reach live, of ex_safe_hint] this obtain es hs' payload where
    run: "subscriber_runs (es @ [MessageArrives (hint_payload ex_safe_hint)]) ?s = Some (?s\<lparr>sb_phase := SubListen, sb_hubs := hs'\<rparr>)"
    and streams: "\<forall>i < length (wk_heap (hs_wake ex_hubs)). ws_owner_key (wk_heap (hs_wake ex_hubs) ! i) = ex_owner
         \<and> \<not> ws_closed (wk_heap (hs_wake ex_hubs) ! i) \<longrightarrow> ws_pending (wk_heap (hs_wake hs') ! i)"
    and peers: "\<forall>p < length (hb_heap (hs_hub ex_hubs)). let pr = hb_heap (hs_hub ex_hubs) ! p in
         om_find (hb_by_owner (hs_hub ex_hubs)) ex_owner (pr_id pr) = Some p
         \<and> pr_id pr \<noteq> ''tab-1'' \<and> pr_active pr \<and> length (pr_send pr) < 32
         \<longrightarrow> pr_send (hb_heap (hs_hub hs') ! p) = pr_send pr @ [payload]"
    by (auto simp: ex_safe_hint_def json_safe_def in_range_def)
  from streams [rule_format, of 0] peers [rule_format, of 0]
  have "ws_pending (wk_heap (hs_wake hs') ! 0)" "pr_send (hb_heap (hs_hub hs') ! 0) = [payload]"
    by (auto simp: ex_hubs_def new_peer_def om_find_def om_entries_def Let_def)
  with run show ?thesis by (intro exI [of _ es] exI [of _ "?s\<lparr>sb_phase := SubListen, sb_hubs := hs'\<rparr>"] exI [of _ payload]) simp
qed

section \<open>HTTP\<close>


definition ex_codec :: proto_codec where
  "ex_codec = \<lparr>pc_read_sync = (\<lambda>_. Some ex_exchange), pc_read_diff = (\<lambda>_. Some ex_diff), pc_read_resolve = (\<lambda>_. None),
     pc_write_sync = (\<lambda>_. Inr ''answer''), pc_write_diff = (\<lambda>_. Inr ''answer''), pc_write_resolve = (\<lambda>_. Inr ''answer'')\<rparr>"

text \<open>An environment, and the configuration it gives.\<close>

definition ex_public_base :: go_url where
  "ex_public_base = empty_url\<lparr>gu_scheme := ''https'', gu_host := ''api'', gu_path := ''/hifumi/''\<rparr>"

definition ex_return_url :: go_url where
  "ex_return_url = empty_url\<lparr>gu_scheme := ''https'', gu_host := ''app'', gu_path := ''/''\<rparr>"

definition ex_config :: config where
  "ex_config =
     \<lparr>cg_http_addr = default_http_addr, cg_public_base_url = ex_public_base, cg_frontend_origins = [''https://app''],
      cg_frontend_return_url = ex_return_url,
      cg_mysql_dsn = ''dsn'', cg_redis_url = ''redis'', cg_redis_key_prefix = ''p:'', cg_client_id = ''id'',
      cg_client_secret = ''secret'', cg_session_secret = tm_secret ex_manager, cg_session_audience = tm_audience ex_manager,
      cg_trusted_proxy_cidrs = [''10.0.0.0/8''], cg_log_level = ''info'', cg_shutdown_timeout = 30000\<rparr>"

definition ex_lookup :: "string \<Rightarrow> string option" where
  "ex_lookup = map_of
     [(''PUBLIC_BASE_URL'', ''https://api/hifumi/''), (''FRONTEND_ORIGINS'', ''https://app''), (''FRONTEND_RETURN_URL'', ''https://app/''),
      (''MYSQL_DSN'', ''dsn''), (''REDIS_URL'', ''redis''), (''REDIS_KEY_PREFIX'', ''p:''), (''LINUXDO_CLIENT_ID'', ''id''),
      (''LINUXDO_CLIENT_SECRET'', ''secret''), (''SESSION_JWT_SECRET'', tm_secret ex_manager), (''TRUSTED_PROXY_CIDRS'', ''10.0.0.0/8'')]"

lemma ex_parsed:
  "url_parse ''https://api/hifumi/'' = Some ex_public_base" "url_parse ''https://app/'' = Some ex_return_url"
  "url_parse ''https://app'' = Some (ex_return_url\<lparr>gu_path := []\<rparr>)"
  by code_simp+

lemma ex_config_trimmed:
  "trim_space ''https://api/hifumi/'' = ''https://api/hifumi/''" "trim_space ''https://app'' = ''https://app''"
  "trim_space ''https://app/'' = ''https://app/''" "trim_space ''dsn'' = ''dsn''" "trim_space ''redis'' = ''redis''"
  "trim_space ''p:'' = ''p:''" "trim_space ''id'' = ''id''" "trim_space ''secret'' = ''secret''"
  "trim_space (tm_secret ex_manager) = tm_secret ex_manager" "trim_space ''10.0.0.0/8'' = ''10.0.0.0/8''"
  by (rule trim_space_ascii; simp add: is_space_rune_def ex_manager_def list_all_iff)+

lemma ex_config_loaded: "load_from ex_lookup = Inr ex_config"
proof -
  have base: "normalized_base_url ''https://api/hifumi/'' = Inr ex_public_base"
    by (simp add: normalized_base_url_def ex_parsed) (simp add: ex_public_base_def empty_url_def has_suffix_def)
  have csv: "split_csv ''https://app'' = [''https://app'']" "split_csv ''10.0.0.0/8'' = [''10.0.0.0/8'']"
    by (simp_all add: split_csv_def ex_config_trimmed)
  have origins: "normalized_origins ''https://app'' = Inr [''https://app'']"
    by (simp add: normalized_origins_def csv normalized_origin_def ex_parsed append_unique_def)
      (simp add: ex_return_url_def empty_url_def url_origin_def)
  have return_url: "gu_scheme ex_return_url = ''https''" "gu_host ex_return_url \<noteq> []" "gu_user ex_return_url = None"
    "url_origin ex_return_url = ''https://app''"
    by (simp_all add: ex_return_url_def empty_url_def url_origin_def)
  have secret: "tm_secret ex_manager \<noteq> []" by (simp add: ex_manager_def)
  have level: "to_lower ''info'' = ''info''" by code_simp
  show ?thesis
    by (simp add: load_from_def Let_def config_value_def ex_lookup_def ex_config_trimmed base origins ex_parsed return_url csv secret level)
      (simp add: ex_config_def ex_manager_def default_session_audience_def)
qed

definition ex_provider :: oauth_provider where
  "ex_provider = \<lparr>ap_client_id = ''id'', ap_client_secret = ''secret'', ap_redirect_uri = ''https://api/hifumi/v1/auth/callback'',
     ap_frontend_url = ''https://app/'', ap_tokens = ex_manager\<rparr>"

definition ex_server :: "memory_redis server" where
  "ex_server =
     \<lparr>srv_config = ex_config, srv_jwt = paper_jwt, srv_tokens = ex_manager, srv_oauth = ex_provider,
      srv_http_client = (\<lambda>_. Inl (ErrExternal ''offline'')), srv_json = ex_json, srv_proto = ex_codec,
      srv_redis = memory_commands, srv_redis_prefix = ''p:'', srv_service = ex_service,
      srv_build = \<lparr>bi_version = ''dev'', bi_commit = ''unknown'', bi_build_time = ''unknown''\<rparr>,
      srv_trusted_proxies = [\<lparr>in_ip = [10, 0, 0, 0], in_mask = [255, 0, 0, 0]\<rparr>]\<rparr>"

definition ex_call_env :: call_env where
  "ex_call_env = \<lparr>ce_now = 0, ce_tx = ex_env,
     ce_redis = \<lparr>rc_server_now = 0, rc_process_now = 0, rc_lost = 0, rc_failure = None\<rparr>\<rparr>"

definition ex_world :: "memory_redis world" where
  "ex_world = \<lparr>wd_db = empty_db, wd_profiles = [], wd_redis = empty_redis, wd_hub = ex_hub\<rparr>"

definition ex_request :: http_request where
  "ex_request = \<lparr>hr_method = ''POST'', hr_path = ''/hifumi/v1/sync/exchange'', hr_query = [], hr_origin = ''https://app'',
     hr_referer = ''https://app/'', hr_media_type = Some ''application/json'', hr_content_length = -1,
     hr_cookies = [(''stella_session'', ex_token)], hr_body = protobuf_envelope ''abc'', hr_body_breaks = False\<rparr>"


text \<open>
  C28. A synchronisation request over HTTP acts for the user it is authenticated as, and for nobody
  else: nothing is touched unless origin and referer are allowed, the session is valid and the
  request is well-formed; then only the data of the owner of the session may change; and the answer
  200 means that the rate limit let it through and that the body is the envelope of the service's
  answer.
\<close>

theorem http_sync_is_guarded:
  assumes run: "handle_sync_http srv env operation r w = (response, w')"
  shows "((\<forall>ow call. \<not> admitted srv (ce_now env) operation r ow call) \<longrightarrow> w' = w)
    \<and> (\<forall>ow call. admitted srv (ce_now env) operation r ow call \<longrightarrow> only_owner ow (wd_db w) (wd_db w'))
    \<and> (rs_status response = 200 \<longrightarrow> (\<exists>ow call ms w1 encoded. admitted srv (ce_now env) operation r ow call
         \<and> check_call_rate srv env operation ow w = (Inr ms, w1) \<and> ms \<le> 0
         \<and> run_sync_call srv env \<lparr>md_owner_key = ow, md_origin_connection_id = []\<rparr> call w1 = (Inr (Inr encoded), w')
         \<and> unmarshal envelope_struct (rs_body response) \<lparr>ev_protobuf = []\<rparr> = Some \<lparr>ev_protobuf = base64_encode encoded\<rparr>
         \<and> base64_decode (base64_encode encoded) = Some encoded))"
proof (cases rule: handle_sync_http_consider [OF run, case_names refused limited ran])
  case refused
  then show ?thesis by blast
next
  case (limited ow call retry w1)
  have "only_owner ow' (wd_db w) (wd_db w')" for ow'
    using check_call_rate_only [OF limited(2)] limited(3) by (simp add: only_owner_def)
  with limited(1,4) show ?thesis by blast
next
  case (ran ow call ms w1 answer)
  have unique: "ow' = ow" if "admitted srv (ce_now env) operation r ow' call'" for ow' call'
    using that ran(1) by (auto simp: admitted_def)
  have only: "only_owner ow (wd_db w) (wd_db w')"
    using run_sync_call_only [OF ran(5)] check_call_rate_only [OF ran(2)] by simp
  have "\<exists>encoded. answer = Inr (Inr encoded)
      \<and> unmarshal envelope_struct (rs_body response) \<lparr>ev_protobuf = []\<rparr> = Some \<lparr>ev_protobuf = base64_encode encoded\<rparr>"
    if "rs_status response = 200"
    using write_sync_answer_ok [of answer] that ran(4) by metis
  then have "rs_status response = 200 \<longrightarrow> (\<exists>ow call ms w1 encoded. admitted srv (ce_now env) operation r ow call
         \<and> check_call_rate srv env operation ow w = (Inr ms, w1) \<and> ms \<le> 0
         \<and> run_sync_call srv env \<lparr>md_owner_key = ow, md_origin_connection_id = []\<rparr> call w1 = (Inr (Inr encoded), w')
         \<and> unmarshal envelope_struct (rs_body response) \<lparr>ev_protobuf = []\<rparr> = Some \<lparr>ev_protobuf = base64_encode encoded\<rparr>
         \<and> base64_decode (base64_encode encoded) = Some encoded)"
    using ran(1,2,3,5) base64_round_trip by blast
  moreover have "\<forall>ow call. admitted srv (ce_now env) operation r ow call \<longrightarrow> only_owner ow (wd_db w) (wd_db w')"
    using unique only by blast
  ultimately show ?thesis using ran(1) by blast
qed

definition ex_session_owner :: string where
  "ex_session_owner = owner_key_of ''1''"

lemma ex_authenticated: "\<exists>claims. authenticate ex_server 0 ex_request = Some (claims, ex_session_owner)"
  using ex_session by (simp add: authenticate_def ex_request_def ex_server_def session_cookie_name_def ex_session_owner_def
      session_claims_for_def ex_user_def)

lemma ex_origin: "valid_state_origin ex_server ex_request"
proof -
  have "gu_scheme ex_return_url = ''https''" "gu_host ex_return_url \<noteq> []" "gu_user ex_return_url = None"
    "url_origin ex_return_url = ''https://app''"
    by (simp_all add: ex_return_url_def empty_url_def url_origin_def)
  then show ?thesis
    by (simp add: valid_state_origin_def is_allowed_frontend_origin_def valid_referer_for_origin_def ex_config_trimmed
        allowed_referer_origin_def Let_def ex_parsed ex_server_def ex_request_def ex_config_def)
qed

lemma ex_request_admitted: "admitted ex_server 0 ''exchange'' ex_request ex_session_owner (CallExchange ex_exchange)"
proof -
  have body: "read_protobuf_envelope ex_request = Inr ''abc''"
    by (rule read_protobuf_envelope_ok) (simp_all add: ex_request_def max_protobuf_bytes_def)
  have "validate_exchange_request ex_session_owner (Some ex_exchange) = Inr ()"
    using ex_exchange_valid owner_key_valid by (simp add: validate_exchange_request_def ex_session_owner_def split: sum.splits)
  then have "decode_sync_call (srv_proto ex_server) ''exchange'' ex_session_owner ''abc'' = Inr (CallExchange ex_exchange)"
    by (simp add: decode_sync_call_def ex_server_def ex_codec_def)
  with body ex_origin ex_authenticated show ?thesis by (auto simp: admitted_def)
qed

theorem http_sync_is_guarded_witness:
  "only_owner ex_session_owner empty_db (wd_db (snd (handle_sync_http ex_server ex_call_env ''exchange'' ex_request ex_world)))"
proof -
  obtain response w' where run: "handle_sync_http ex_server ex_call_env ''exchange'' ex_request ex_world = (response, w')"
    by fastforce
  have "admitted ex_server (ce_now ex_call_env) ''exchange'' ex_request ex_session_owner (CallExchange ex_exchange)"
    using ex_request_admitted by (simp add: ex_call_env_def)
  with http_sync_is_guarded [OF run] have "only_owner ex_session_owner (wd_db ex_world) (wd_db w')" by blast
  with run show ?thesis by (simp add: ex_world_def)
qed

section \<open>WebSocket calls\<close>


definition ex_frame :: client_frame where
  "ex_frame = \<lparr>cf_version = 1, cf_request_id = ''request-0001'', cf_type = ''exchange'', cf_protobuf = ''abc'', cf_active = False\<rparr>"


text \<open>A bad message on a full queue: the connection goes on and its client never hears of the call.\<close>

definition ex_full_world :: "memory_redis world" where
  "ex_full_world = ex_world\<lparr>wd_hub := update_peer 0 (\<lambda>pr. pr\<lparr>pr_send := replicate 32 ''hint''\<rparr>) ex_hub\<rparr>"

lemma ex_dropped_answer:
  "process_rpc ex_server ex_call_env 0 ex_owner ''c1'' (ex_frame\<lparr>cf_type := ''resolve''\<rparr>) ex_full_world = (True, ex_full_world)"
proof -
  have "answer_ws 0 m ex_full_world = ex_full_world" for m
    by (simp add: answer_ws_eq got_message_def ex_full_world_def update_peer_def offer_payload_def peer_queue_size_def
        ex_world_def ex_hub_def)
  then show ?thesis
    by (simp add: process_rpc_def decode_sync_call_def ex_server_def ex_codec_def ex_frame_def)
qed

section \<open>The event stream\<close>

text \<open>
  C31. A whole event stream is gapless: over all the rounds of a connection, the initial feed,
  wake-ups, reconciliations and heartbeats in any order, whatever calls of the service come in
  between and wherever a write fails, the stream is a sequence of complete items that together hold
  the next operations of the owner's log after the cursor the client came with, none missing and none
  twice, up to the cursor the server has reached; behind them there is nothing as long as the
  stream is live.
\<close>

theorem event_stream_is_gapless:
  assumes "run_stream M net ow b c reads events w = Some (live, c1, w')"
    and "consistent_reads (reads @ concat (map event_reads events))"
  shows "\<exists>items rest. wr_bytes w' = wr_bytes w @ concat (map (item_bytes M) items) @ rest \<and> (live \<longrightarrow> rest = [])
    \<and> (let sent = concat (map item_changes items) in
         (sent = [] \<and> c1 = c)
         \<or> (\<exists>(env, s) \<in> set (reads @ concat (map event_reads events)). a_baseline (abs_owner ow s) = Some b
              \<and> length sent \<le> length (log_after (abs_owner ow s) c)
              \<and> sent = take (length sent) (log_after (abs_owner ow s) c) \<and> c1 = c + of_nat (length sent)))"
  using run_stream_wrote [OF assms] unfolding stream_wrote_def sent_by_def Let_def by simp

theorem event_stream_is_gapless_witness:
  "\<exists>s' live c1 w' items rest. run_stream ex_brief ex_network ex_owner ex_baseline 0 (replicate 2 (ex_env, s'))
        [HeartbeatTick, ClientGone] ex_writer = Some (live, c1, w')
    \<and> wr_bytes w' = concat (map (item_bytes ex_brief) items) @ rest"
proof -
  obtain s' where s': "db_inv s'" "a_baseline (abs_owner ex_owner s') = Some ex_baseline"
    "a_cursor (abs_owner ex_owner s') = 1" using ex_single_db by blast
  obtain c1 w1 where feed: "send_feed ex_brief ex_network ex_owner ex_baseline (replicate 2 (ex_env, s')) 0 True ex_writer
      = Some ((c1, False, None), w1)"
    using send_feed_delivers [OF s'(1) ex_ready ex_network_def ex_feed_fits ex_feed_valid _ s'(2), of 0 2 True ex_writer]
    by (auto simp: s'(3) max_safe_integer_def)
  obtain x w2 where beat: "write_sse_comment ex_network ''heartbeat'' w1 = (x, w2)" by fastforce
  have run: "run_stream ex_brief ex_network ex_owner ex_baseline 0 (replicate 2 (ex_env, s'))
        [HeartbeatTick, ClientGone] ex_writer = Some (False, c1, w2)"
    by (cases x) (simp_all add: run_stream_def feed_step_def feed stream_step_def beat)
  have "consistent_reads (replicate 2 (ex_env, s') @ concat (map event_reads [HeartbeatTick, ClientGone]))"
    using ex_reads [OF s'(1)] by simp
  from event_stream_is_gapless [OF run this] obtain items rest
    where "wr_bytes w2 = concat (map (item_bytes ex_brief) items) @ rest" by (auto simp: ex_writer_def)
  with run show ?thesis by blast
qed

end
