(* ===== verification/Connection.thy ===== *)
theory Connection
  imports TransportProps
begin

text \<open>
  The life of a WebSocket connection (\<open>webSocket\<close> and \<open>refreshLease\<close> of \<open>internal/httpapi/websocket.go\<close>). Three
  goroutines share it: one writes the messages of the peer's queue, one refreshes the lease, one reads.
  Each round of one of them is a step, and the rest of the process (other connections, broadcasts,
  the database, Redis) takes steps in between.
\<close>

section \<open>State\<close>

text \<open>
  What was written to the socket, the errors in the channels \<open>writeErrors\<close> and \<open>leaseErrors\<close> (either one has
  cancelled the context), and the close status with which the read loop has returned.
\<close>

record 's connection =
  cn_world :: "'s world"
  cn_sent :: "string list"
  cn_write_failed :: bool
  cn_lease_failed :: bool
  cn_closed :: "ws_close option"

definition start_connection :: "'s world \<Rightarrow> 's connection" where
  "start_connection w =
     \<lparr>cn_world = w, cn_sent = [], cn_write_failed = False, cn_lease_failed = False, cn_closed = None\<rparr>"

text \<open>One tick of \<open>refreshLease\<close>: a lease that cannot be refreshed, or is gone, ends it.\<close>

definition lease_tick :: "'s server \<Rightarrow> redis_call \<Rightarrow> string \<Rightarrow> string \<Rightarrow> 's world \<Rightarrow> bool \<times> 's world" where
  "lease_tick srv env ow connection w =
     (let (refreshed, redis') = refresh_connection (srv_redis srv) (srv_redis_prefix srv) env ow connection
                                  default_lease_ttl (wd_redis w)
      in (refreshed = Inr True, w\<lparr>wd_redis := redis'\<rparr>))"

definition session_expired :: "int option \<Rightarrow> int \<Rightarrow> bool" where
  "session_expired expires now = (case expires of None \<Rightarrow> False | Some t \<Rightarrow> t \<le> now)"

text \<open>What the rest of the process leaves of a peer: it may only add messages while there is room.\<close>

definition peer_grows :: "nat \<Rightarrow> hub \<Rightarrow> hub \<Rightarrow> bool" where
  "peer_grows p h h' \<longleftrightarrow>
     (p < length (hb_heap h) \<longrightarrow> p < length (hb_heap h')
        \<and> pr_id (hb_heap h' ! p) = pr_id (hb_heap h ! p) \<and> pr_owner_key (hb_heap h' ! p) = pr_owner_key (hb_heap h ! p)
        \<and> (\<exists>ms. pr_send (hb_heap h' ! p) = pr_send (hb_heap h ! p) @ ms)
        \<and> (length (pr_send (hb_heap h ! p)) \<le> peer_queue_size \<longrightarrow> length (pr_send (hb_heap h' ! p)) \<le> peer_queue_size))"

section \<open>Steps\<close>

text \<open>
  Once an error is in its channel the context is cancelled: the writer may still lose a message, but nothing is
  written, and the next read fails. When both channels hold an error the select picks either.
\<close>

inductive ws_step ::
  "'s server \<Rightarrow> nat \<Rightarrow> string \<Rightarrow> string \<Rightarrow> int option \<Rightarrow> 's connection \<Rightarrow> 's connection \<Rightarrow> bool"
  for srv p ow connection expires where
  writer_writes: "cn_closed c = None \<Longrightarrow> \<not> cn_write_failed c \<Longrightarrow> \<not> cn_lease_failed c \<Longrightarrow>
     take_message p (wd_hub (cn_world c)) = Some (m, h) \<Longrightarrow>
     ws_step srv p ow connection expires c (c\<lparr>cn_world := (cn_world c)\<lparr>wd_hub := h\<rparr>, cn_sent := cn_sent c @ [m]\<rparr>)"
| writer_fails: "cn_closed c = None \<Longrightarrow> \<not> cn_write_failed c \<Longrightarrow>
     take_message p (wd_hub (cn_world c)) = Some (m, h) \<Longrightarrow>
     ws_step srv p ow connection expires c (c\<lparr>cn_world := (cn_world c)\<lparr>wd_hub := h\<rparr>, cn_write_failed := True\<rparr>)"
| lease_refreshed: "cn_closed c = None \<Longrightarrow> \<not> cn_write_failed c \<Longrightarrow> \<not> cn_lease_failed c \<Longrightarrow>
     lease_tick srv env ow connection (cn_world c) = (True, w) \<Longrightarrow>
     ws_step srv p ow connection expires c (c\<lparr>cn_world := w\<rparr>)"
| lease_lost: "cn_closed c = None \<Longrightarrow> \<not> cn_lease_failed c \<Longrightarrow>
     lease_tick srv env ow connection (cn_world c) = (False, w) \<Longrightarrow>
     ws_step srv p ow connection expires c (c\<lparr>cn_world := w, cn_lease_failed := True\<rparr>)"
| message_read: "cn_closed c = None \<Longrightarrow> \<not> cn_write_failed c \<Longrightarrow> \<not> cn_lease_failed c \<Longrightarrow>
     handle_message srv env p ow connection is_text message (cn_world c) = (close, w) \<Longrightarrow>
     ws_step srv p ow connection expires c (c\<lparr>cn_world := w, cn_closed := close\<rparr>)"
| read_fails: "cn_closed c = None \<Longrightarrow>
     read_failed (cn_write_failed c) (cn_lease_failed c) (session_expired expires now) status = (close, farewell) \<Longrightarrow>
     written = [] \<or> farewell = Some message \<and> written = [message] \<Longrightarrow>
     ws_step srv p ow connection expires c (c\<lparr>cn_sent := cn_sent c @ written, cn_closed := Some close\<rparr>)"
| lease_reported: "cn_closed c = None \<Longrightarrow> cn_write_failed c \<Longrightarrow> cn_lease_failed c \<Longrightarrow>
     ws_step srv p ow connection expires c (c\<lparr>cn_closed := Some (1011, ''Connection lease unavailable'')\<rparr>)"
| elsewhere: "cn_closed c = None \<Longrightarrow> peer_grows p (wd_hub (cn_world c)) (wd_hub w) \<Longrightarrow>
     ws_step srv p ow connection expires c (c\<lparr>cn_world := w\<rparr>)"

text \<open>The statuses the handler itself closes a connection with.\<close>

definition handler_statuses :: "nat list" where
  "handler_statuses = [1000, 1003, 1007, 1008, 1009, 1011, 4001]"

section \<open>What a step does\<close>

lemma peer_grows_refl [simp]: "peer_grows p h h"
  by (auto simp: peer_grows_def)

lemma got_message_grows: "peer_grows p h (got_message p m h)"
  by (auto simp: peer_grows_def got_message_def update_peer_def offer_payload_def)

lemma set_active_grows: "peer_grows p h (set_active p active h)"
  by (auto simp: peer_grows_def set_active_def update_peer_def)

text \<open>The steps of the hub that are not the writer's of this peer are steps of the rest of the process.\<close>

lemma update_peer_grows:
  assumes "\<And>pr. pr_id (f pr) = pr_id pr \<and> pr_owner_key (f pr) = pr_owner_key pr \<and> (\<exists>ms. pr_send (f pr) = pr_send pr @ ms)
    \<and> (length (pr_send pr) \<le> peer_queue_size \<longrightarrow> length (pr_send (f pr)) \<le> peer_queue_size)"
  shows "peer_grows p h (update_peer q f h)"
  using assms by (cases "q = p") (auto simp: peer_grows_def update_peer_def)

lemma hub_step_grows:
  assumes "hub_step h h'" and "\<And>m. take_message p h \<noteq> Some (m, h')"
  shows "peer_grows p h h'"
  using assms
proof (cases rule: hub_step.cases)
  case (step_allocate i ow)
  then show ?thesis by (auto simp: peer_grows_def allocate_peer_def nth_append)
next
  case (step_enqueue q payload)
  then show ?thesis by (auto intro!: update_peer_grows simp: offer_payload_def)
next
  case (step_broadcast_to q hint payload)
  then show ?thesis
    by (auto simp: broadcast_to_def Let_def offer_payload_def intro!: update_peer_grows)
next
  case (step_active q active)
  then show ?thesis by (auto simp: set_active_def intro!: update_peer_grows)
next
  case (step_take q m)
  then have "q \<noteq> p" using assms(2) by metis
  with step_take show ?thesis
    by (auto simp: take_message_def peer_grows_def update_peer_def split: list.splits)
qed (auto simp: peer_grows_def hub_register_def hub_unregister_def Let_def)

lemma answer_grows: "peer_grows p (wd_hub w) (wd_hub (answer_ws p m w))"
  by (simp add: answer_ws_eq got_message_grows)

lemma operation_error_grows: "enqueue_operation_error p i e w = (goes_on, w') \<Longrightarrow> peer_grows p (wd_hub w) (wd_hub w')"
  by (auto simp: enqueue_operation_error_def answer_grows split: err.splits)

lemma process_rpc_grows:
  assumes run: "process_rpc srv env p ow connection frame w = (goes_on, w')"
  shows "peer_grows p (wd_hub w) (wd_hub w')"
proof (cases "decode_sync_call (srv_proto srv) (if cf_type frame = ''exchange'' then ''exchange'' else ''resolve'') ow (cf_protobuf frame)")
  case (Inl e)
  with run show ?thesis by (cases e) (auto simp: process_rpc_def Let_def answer_grows dest: operation_error_grows)
next
  case call: (Inr call)
  obtain retry w1 where rate: "check_call_rate srv env (cf_type frame) ow w = (retry, w1)" by fastforce
  obtain answer w2 where ran: "run_sync_call srv env \<lparr>md_owner_key = ow, md_origin_connection_id = connection\<rparr> call w1 = (answer, w2)"
    by fastforce
  have same: "wd_hub w1 = wd_hub w" "wd_hub w2 = wd_hub w"
    using check_call_rate_only [OF rate] run_sync_call_only [OF ran] by simp_all
  have refused: "retry = Inl e \<Longrightarrow> ?thesis" for e
    using run call rate same answer_grows [of p w1] by (auto simp: process_rpc_def Let_def)
  have limited: "retry = Inr ms \<Longrightarrow> 0 < ms \<Longrightarrow> ?thesis" for ms
    using run call rate same answer_grows [of p w1] by (auto simp: process_rpc_def Let_def)
  have answered: "?thesis" if "retry = Inr ms" "\<not> 0 < ms" for ms
  proof (cases answer)
    case (Inl e)
    then have "enqueue_operation_error p (cf_request_id frame) e w2 = (goes_on, w')"
      using run call rate ran that by (simp add: process_rpc_def Let_def)
    from operation_error_grows [OF this] show ?thesis using same by simp
  next
    case out: (Inr out)
    have "\<exists>m. w' = answer_ws p m w2"
    proof (cases out)
      case (Inl e)
      then show ?thesis using run call rate ran that out by (auto simp: process_rpc_def Let_def)
    next
      case (Inr encoded)
      then show ?thesis
        using run call rate ran that out
        by (cases "encode_server_result (result_type call) (cf_request_id frame) encoded")
          (auto simp: process_rpc_def Let_def enqueue_ws_eq)
    qed
    then show ?thesis using answer_grows [of p w2] same by auto
  qed
  show ?thesis using refused limited answered by (cases retry) auto
qed

text \<open>A message the connection has read: what it puts into the queue, and the statuses it closes with.\<close>

lemma handle_message_grows:
  assumes run: "handle_message srv env p ow connection is_text message w = (close, w')"
  shows "peer_grows p (wd_hub w) (wd_hub w')" and "close = Some (status, reason) \<Longrightarrow> status \<in> set handler_statuses"
proof -
  have set_active: "peer_grows p (wd_hub w) (wd_hub (set_peer_active p active w))" for active
    by (simp add: set_peer_active_def set_active_grows)
  have code: "case decode_client_frame message of Inl e \<Rightarrow> fe_close_code e \<in> {0, 1007, 1009} | Inr _ \<Rightarrow> True"
    using decode_client_frame_cases [OF refl, of message] by (auto split: sum.splits)
  show "peer_grows p (wd_hub w) (wd_hub w')"
    using run set_active answer_grows [of p w]
    by (auto simp: handle_message_def enqueue_ws_eq split: if_splits sum.splits prod.splits dest: process_rpc_grows)
  show "status \<in> set handler_statuses" if "close = Some (status, reason)"
    using run that code
    by (auto simp: handle_message_def enqueue_ws_eq handler_statuses_def split: if_splits sum.splits prod.splits)
qed

section \<open>What a connection keeps\<close>

definition connection_ok :: "nat \<Rightarrow> string \<Rightarrow> string \<Rightarrow> 's connection \<Rightarrow> bool" where
  "connection_ok p ow connection c \<longleftrightarrow>
     p < length (hb_heap (wd_hub (cn_world c)))
     \<and> pr_id (peer_at p (cn_world c)) = connection \<and> pr_owner_key (peer_at p (cn_world c)) = ow
     \<and> length (pr_send (peer_at p (cn_world c))) \<le> peer_queue_size"

lemma take_message_some:
  assumes "take_message p h = Some (m, h')" and "p < length (hb_heap h)"
  shows "length (hb_heap h') = length (hb_heap h)" "pr_send (hb_heap h ! p) = m # pr_send (hb_heap h' ! p)"
    "pr_id (hb_heap h' ! p) = pr_id (hb_heap h ! p)" "pr_owner_key (hb_heap h' ! p) = pr_owner_key (hb_heap h ! p)"
  using assms by (auto simp: take_message_def update_peer_def split: list.splits)

lemma lease_tick_hub: "lease_tick srv env ow connection w = (going, w') \<Longrightarrow> wd_hub w' = wd_hub w"
  by (auto simp: lease_tick_def Let_def split: prod.splits)

text \<open>A step of anything but the writer adds to the queue.\<close>

lemma ws_step_cases:
  assumes "ws_step srv p ow connection expires c c'"
  obtains (wrote) m h where "take_message p (wd_hub (cn_world c)) = Some (m, h)" "wd_hub (cn_world c') = h"
      "cn_sent c' = cn_sent c @ [m] \<or> cn_sent c' = cn_sent c \<and> cn_write_failed c'" "cn_closed c' = None"
  | (grew) "peer_grows p (wd_hub (cn_world c)) (wd_hub (cn_world c'))" "cn_sent c' = cn_sent c"
      "cn_write_failed c' = cn_write_failed c"
      "\<And>status reason. cn_closed c' = Some (status, reason) \<Longrightarrow> status \<in> set handler_statuses \<or> reason = ''peer closed''"
  | (closed) ms status reason where "cn_world c' = cn_world c" "cn_sent c' = cn_sent c @ ms" "cn_closed c' = Some (status, reason)"
      "status \<in> set handler_statuses \<or> reason = ''peer closed''"
  using assms
proof (cases rule: ws_step.cases)
  case (message_read env is_text message close w)
  then show ?thesis using grew handle_message_grows [OF message_read(5)] by auto
next
  case (read_fails now status close farewell written message)
  obtain code reason where close: "close = (code, reason)" by fastforce
  then have "code \<in> set handler_statuses \<or> reason = ''peer closed''"
    using read_fails(3) by (auto simp: read_failed_def handler_statuses_def split: if_splits option.splits)
  with read_fails close show ?thesis using closed by auto
next
  case lease_reported
  then show ?thesis using closed [of "[]"] by (auto simp: handler_statuses_def)
next
  case (lease_refreshed env w)
  then show ?thesis using grew lease_tick_hub [OF lease_refreshed(5)] by auto
next
  case (lease_lost env w)
  then show ?thesis using grew lease_tick_hub [OF lease_lost(4)] by auto
qed (use wrote grew in auto)

lemma ws_step_ok:
  assumes "connection_ok p ow connection c" and "ws_step srv p ow connection expires c c'"
  shows "connection_ok p ow connection c'"
  using assms(2)
proof (cases rule: ws_step_cases)
  case (wrote m h)
  then show ?thesis using assms(1) take_message_some [OF wrote(1)] by (auto simp: connection_ok_def peer_at_def)
qed (use assms(1) in \<open>auto simp: connection_ok_def peer_at_def peer_grows_def\<close>)

lemma ws_run_ok:
  "rtranclp (ws_step srv p ow connection expires) c c' \<Longrightarrow> connection_ok p ow connection c \<Longrightarrow> connection_ok p ow connection c'"
  by (induction rule: rtranclp_induct) (auto dest: ws_step_ok)

lemma ws_step_open: "ws_step srv p ow connection expires c c' \<Longrightarrow> cn_closed c = None"
  by (erule ws_step.cases) auto

lemma ws_step_failed: "ws_step srv p ow connection expires c c' \<Longrightarrow> cn_write_failed c \<Longrightarrow> cn_write_failed c'"
  by (erule ws_step.cases) auto

text \<open>The messages of the queue are written in order, each once, as long as no write fails.\<close>

lemma ws_step_order:
  assumes "connection_ok p ow connection c" and step: "ws_step srv p ow connection expires c c'"
    and "cn_closed c' = None" and "\<not> cn_write_failed c'"
  shows "\<exists>ms. cn_sent c' @ pr_send (peer_at p (cn_world c')) = cn_sent c @ pr_send (peer_at p (cn_world c)) @ ms"
  using step
proof (cases rule: ws_step_cases)
  case (wrote m h)
  then show ?thesis
    using assms(1,4) take_message_some [OF wrote(1)] by (auto simp: connection_ok_def peer_at_def)
next
  case grew
  then show ?thesis using assms(1) by (auto simp: connection_ok_def peer_at_def peer_grows_def)
qed (use assms(3) in auto)

lemma ws_run_order:
  assumes run: "rtranclp (ws_step srv p ow connection expires) c c'" and ok: "connection_ok p ow connection c"
  shows "cn_closed c' = None \<Longrightarrow> \<not> cn_write_failed c' \<Longrightarrow>
    \<exists>ms. cn_sent c' @ pr_send (peer_at p (cn_world c')) = cn_sent c @ pr_send (peer_at p (cn_world c)) @ ms"
  using run
proof (induction rule: rtranclp_induct)
  case (step d e)
  have "\<exists>ms. cn_sent d @ pr_send (peer_at p (cn_world d)) = cn_sent c @ pr_send (peer_at p (cn_world c)) @ ms"
    using step ws_step_open [OF step.hyps(2)] ws_step_failed [OF step.hyps(2)] by blast
  moreover have "\<exists>ms. cn_sent e @ pr_send (peer_at p (cn_world e)) = cn_sent d @ pr_send (peer_at p (cn_world d)) @ ms"
    using ws_step_order [OF ws_run_ok [OF step.hyps(1) ok] step.hyps(2)] step.prems by blast
  ultimately show ?case by (metis append.assoc)
qed simp

lemma ws_run_status:
  assumes "rtranclp (ws_step srv p ow connection expires) (start_connection w) c" and "cn_closed c = Some (status, reason)"
  shows "status \<in> set handler_statuses \<or> reason = ''peer closed''"
  using assms
proof (induction rule: rtranclp_induct)
  case (step d e)
  from step.hyps(2) show ?case by (cases rule: ws_step_cases) (use step.prems in auto)
qed (simp add: start_connection_def)

text \<open>A connection that was opened has a peer of its own, empty and under its id.\<close>

lemma opened_connection:
  assumes "open_web_socket srv env release_env u w = (Inr (p, ow), w1)"
  shows "connection_ok p ow (up_connection u) (start_connection w1)"
  using assms
  by (auto simp: open_web_socket_def Let_def allocate_peer_def hub_register_def connection_ok_def start_connection_def
      peer_at_def new_peer_def split: if_splits option.splits prod.splits sum.splits connection_error.splits)

text \<open>
  C30. A WebSocket connection, whatever its goroutines and the rest of the process do in between, and in
  whatever order: at most 32 messages wait for it; they are written in the order they were queued in, each
  once, until a write fails or the connection ends; it ends with a status of the handler's or with that of
  the peer; and what the deferred calls leave is no entry in the hub and no lease.
\<close>

theorem connection_lifecycle:
  assumes opened: "open_web_socket srv env release_env u w = (Inr (p, ow), w1)"
    and run: "rtranclp (ws_step srv p ow (up_connection u) expires) (start_connection w1) c"
    and redis: "redis_sorted_sets (srv_redis srv) leases" and released: "rc_failure end_env = None"
  shows "length (pr_send (peer_at p (cn_world c))) \<le> 32
    \<and> (\<forall>c'. rtranclp (ws_step srv p ow (up_connection u) expires) c c' \<longrightarrow> cn_closed c' = None \<longrightarrow> \<not> cn_write_failed c' \<longrightarrow>
         (\<exists>ms. cn_sent c' @ pr_send (peer_at p (cn_world c')) = cn_sent c @ pr_send (peer_at p (cn_world c)) @ ms))
    \<and> (\<forall>status reason. cn_closed c = Some (status, reason) \<longrightarrow> status \<in> set handler_statuses \<or> reason = ''peer closed'')
    \<and> (let w2 = close_web_socket srv end_env p ow (up_connection u) (cn_world c) in
         om_find (hb_by_owner (wd_hub w2)) ow (up_connection u) = None
         \<and> leases (rc_server_now end_env) (wd_redis w2) (connections_key (srv_redis_prefix srv) ow) (up_connection u) = None)"
proof -
  have ok: "connection_ok p ow (up_connection u) c" by (rule ws_run_ok [OF run opened_connection [OF opened]])
  have "om_find (hb_by_owner (hub_unregister p (wd_hub (cn_world c)))) ow (up_connection u) = None"
    using ok by (simp add: hub_unregister_def Let_def connection_ok_def peer_at_def owner_maps.find_delete)
  moreover have "leases (rc_server_now end_env) (snd (release_connection (srv_redis srv) (srv_redis_prefix srv) end_env ow (up_connection u) s))
      (connections_key (srv_redis_prefix srv) ow) (up_connection u) = None" for s
    using redis_sorted_sets.zrem [OF redis] released by (simp add: release_connection_def redis_attempts_def)
  ultimately show ?thesis
    using ok ws_run_order [OF _ ok] ws_run_status [OF run]
    by (auto simp: close_web_socket_def Let_def connection_ok_def peer_queue_size_def)
qed

text \<open>A connection that is asked for a sign of life, answers, and is closed by its peer.\<close>

definition ex_redis_call :: redis_call where
  "ex_redis_call = \<lparr>rc_server_now = 0, rc_process_now = 0, rc_lost = 0, rc_failure = None\<rparr>"

definition ex_upgrade :: upgrade where
  "ex_upgrade = \<lparr>up_now = 0, up_request = ex_request, up_upgrade = ''websocket'', up_protocols = ''stella-sync-v1'',
     up_connection = ''c3'', up_accepted = True\<rparr>"

lemma ex_opened:
  "\<exists>redis'. open_web_socket ex_server ex_redis_call ex_redis_call ex_upgrade ex_world
     = (Inr (2, ex_session_owner), ex_world\<lparr>wd_redis := redis', wd_hub := hub_register 2 (snd (allocate_peer ''c3'' ex_session_owner ex_hub))\<rparr>)"
proof -
  have "equal_fold ''websocket'' ''websocket''" by code_simp
  moreover have "has_subprotocol ''stella-sync-v1'' ''stella-sync-v1''"
    by (simp add: has_subprotocol_def trim_space_def is_space_rune_def decode_rune_def)
  moreover have "is_allowed_frontend_origin ex_server (hr_origin ex_request)" "valid_referer_for_origin ex_server ex_request False"
    using ex_origin by (auto simp: valid_state_origin_def valid_referer_for_origin_def)
  moreover obtain claims where "authenticate ex_server 0 ex_request = Some (claims, ex_session_owner)"
    using ex_authenticated by blast
  moreover have "\<exists>redis'. acquire_connection (srv_redis ex_server) (srv_redis_prefix ex_server) ex_redis_call ex_session_owner ''c3''
      max_connections_per_owner default_lease_ttl (wd_redis ex_world) = (Inr (), redis')"
    by (simp add: acquire_connection_def redis_attempts_def acquire_lease_script_def memory_commands_def ex_server_def ex_redis_call_def ex_world_def
        empty_redis_def mr_change_def mr_set_def max_connections_per_owner_def Let_def)
  ultimately show ?thesis
    by (auto simp: open_web_socket_def ex_upgrade_def allocate_peer_def ex_world_def ex_hub_def Let_def numeral_2_eq_2)
qed

theorem connection_lifecycle_witness:
  "\<exists>w1 c. open_web_socket ex_server ex_redis_call ex_redis_call ex_upgrade ex_world = (Inr (2, ex_session_owner), w1)
    \<and> rtranclp (ws_step ex_server 2 ex_session_owner ''c3'' None) (start_connection w1) c
    \<and> cn_sent c = [''pong''] \<and> cn_closed c = Some (1001, ''peer closed'')
    \<and> om_find (hb_by_owner (wd_hub (close_web_socket ex_server ex_redis_call 2 ex_session_owner ''c3'' (cn_world c)))) ex_session_owner ''c3'' = None"
proof -
  let ?step = "ws_step ex_server 2 ex_session_owner ''c3'' None"
  obtain w1 where opened: "open_web_socket ex_server ex_redis_call ex_redis_call ex_upgrade ex_world = (Inr (2, ex_session_owner), w1)"
    and hub: "hb_heap (wd_hub w1) = [new_peer ''c1'' ''a'', new_peer ''c2'' ''a'', new_peer ''c3'' ex_session_owner]"
    using ex_opened by (auto simp: hub_register_def allocate_peer_def ex_hub_def Let_def)
  define c1 where "c1 = (start_connection w1)\<lparr>cn_world := answer_ws 2 ''pong'' w1\<rparr>"
  have "?step (start_connection w1) ((start_connection w1)\<lparr>cn_world := answer_ws 2 ''pong'' w1, cn_closed := None\<rparr>)"
    by (rule message_read [where env = ex_call_env and is_text = True and message = "''ping''"])
      (simp_all add: start_connection_def handle_message_def enqueue_ws_eq peer_at_def hub new_peer_def peer_queue_size_def)
  then have s1: "?step (start_connection w1) c1" by (simp add: c1_def start_connection_def)
  have queue: "pr_send (hb_heap (wd_hub (cn_world c1)) ! 2) = [''pong'']"
    by (simp add: c1_def answer_ws_eq got_message_def update_peer_def offer_payload_def hub new_peer_def peer_queue_size_def)
  then obtain h where h: "take_message 2 (wd_hub (cn_world c1)) = Some (''pong'', h)" by (simp add: take_message_def)
  define c2 where "c2 = c1\<lparr>cn_world := (cn_world c1)\<lparr>wd_hub := h\<rparr>, cn_sent := cn_sent c1 @ [''pong'']\<rparr>"
  have s2: "?step c1 c2"
    unfolding c2_def by (rule writer_writes [OF _ _ _ h]) (simp_all add: c1_def start_connection_def)
  define c3 where "c3 = c2\<lparr>cn_sent := cn_sent c2 @ [], cn_closed := Some (1001, ''peer closed'')\<rparr>"
  have s3: "?step c2 c3"
    unfolding c3_def by (rule read_fails [where now = 0 and status = "Some 1001" and farewell = None])
      (simp_all add: c2_def c1_def start_connection_def read_failed_def session_expired_def)
  have run: "rtranclp ?step (start_connection w1) c3" using s1 s2 s3 by (meson rtranclp.rtrancl_into_rtrancl rtranclp.rtrancl_refl)
  have sets: "redis_sorted_sets (srv_redis ex_server) mr_leases" using memory_sets.redis_sorted_sets_axioms by (simp add: ex_server_def)
  have "rc_failure ex_redis_call = None" "up_connection ex_upgrade = ''c3''" by (simp_all add: ex_redis_call_def ex_upgrade_def)
  with connection_lifecycle [OF opened _ sets, of None c3 ex_redis_call] run
  have "om_find (hb_by_owner (wd_hub (close_web_socket ex_server ex_redis_call 2 ex_session_owner ''c3'' (cn_world c3)))) ex_session_owner ''c3'' = None"
    by (simp add: Let_def)
  with opened run show ?thesis
    by (intro exI [of _ w1] exI [of _ c3]) (simp add: c3_def c2_def c1_def start_connection_def)
qed

end
