(* ===== verification/Delivery.thy ===== *)
theory Delivery
  imports TransportProps SseProps
begin

text \<open>
  From one device to another: the components of the synchronisation put together. A mutation that an
  exchange applies becomes a row of the outbox; the publisher sends its hint; the goroutine that
  listens for hints wakes the event streams of the owner; a stream that was woken reads the log and sends
  the change to its client. Calls of other devices, other users and other publishers come in between.
\<close>

section \<open>The applied mutations of a batch\<close>

text \<open>What an exchange applied stands in the log behind the cursor the owner had before.\<close>

lemma exchange_applied_logged:
  assumes run: "exchange env sv md (Some r) s = (Inr res, s')" and inv: "db_inv s"
    and match: "\<not> sp_baseline_mismatch (er_response res)"
    and i: "i < length (sr_mutations r)" "ack_applied (sp_acks (er_response res) ! i)"
    and new: "a_receipts (abs_owner (md_owner_key md) s) (Mutation_GetOpId (sr_mutations r ! i)) = None"
    and c: "c \<le> a_cursor (abs_owner (md_owner_key md) s)"
  shows "\<exists>j \<le> i. Mutation_GetOpId (sr_mutations r ! j) = Mutation_GetOpId (sr_mutations r ! i)
    \<and> mutation_change (sr_mutations r ! j) (ack_server_cursor (sp_acks (er_response res) ! i))
        (clamp_client_time (Mutation_GetClientTimeMs (sr_mutations r ! j)) (sv_now sv))
      \<in> set (log_after (abs_owner (md_owner_key md) s') c)"
proof -
  let ?ow = "md_owner_key md" and ?S = "batch_start (md_owner_key md) (sr_baseline_id r) s"
  from exchange_summary [OF run inv match] obtain ds A l where
    ds: "decide_all (sr_device_id r) (sv_now sv) ?S (sr_mutations r) ds A"
    and closed: "batch_done sv md ?S ds A l (abs_owner ?ow s')" and ok: "tx_ok ?ow s'"
    and res: "res = exchange_answer r (batch_of ds) l (a_cursor A) (operations_after ?ow (sr_cursor r)
               (normalized_pull_limit (sr_pull_limit r) + 1) s')" by blast
  note S = batch_start_sel(1,4) [of ?ow "sr_baseline_id r" s]
  note start = batch_start_facts [OF inv]
  have logS: "log_ok ?S" using start(1) by (simp add: inv_upto_def)
  have len: "length ds = length (sr_mutations r)"
    using decide_all_recorded [OF ds start] by (auto dest: list_all2_lengthD)
  have ack: "sp_acks (er_response res) ! i = receipt_ack (d_receipt (ds ! i))"
    using i(1) len by (simp add: res exchange_answer_def Let_def batch_of_def)
  obtain j where j: "j \<le> i" "Mutation_GetOpId (sr_mutations r ! j) = Mutation_GetOpId (sr_mutations r ! i)"
    and same: "d_receipt (ds ! j) = d_receipt (ds ! i)" and set: "settles (sv_now sv) (sr_mutations r ! j) (ds ! j)"
    using decide_all_settles [OF ds start i(1)] new S by auto
  have "d_change (ds ! j) \<in> set (accepted_changes ds)"
    using set same i j(1) len by (intro accepted_changes_nth) (auto simp: ack receipt_ack_def settles_def)
  then have ch: "mutation_change (sr_mutations r ! j) (rc_server_cursor (d_receipt (ds ! i)))
        (clamp_client_time (Mutation_GetClientTimeMs (sr_mutations r ! j)) (sv_now sv)) \<in> set (accepted_changes ds)"
    using set same i(2) by (simp add: ack receipt_ack_def settles_def)
  have "a_ops A (c_cursor x) = Some x \<and> c < c_cursor x" if x: "x \<in> set (accepted_changes ds)" for x
    using accepted_logged [OF ds logS start(2) x] c S by auto
  moreover have "a_ops (abs_owner ?ow s') = a_ops A" using publish_batch_keeps [OF closed] by simp
  moreover have "log_ok (abs_owner ?ow s')"
    by (rule log_ok_of_inv) (rule service_step_inv [OF step_exchange [OF run] inv])
  ultimately have "set (accepted_changes ds) \<subseteq> set (log_after (abs_owner ?ow s') c)"
    by (auto simp: log_after_set)
  with j ch show ?thesis by (auto simp: ack receipt_ack_def)
qed

text \<open>What the answer of an exchange says of the owner, and of the request.\<close>

lemma exchange_fields:
  assumes run: "exchange env sv md (Some r) s = (Inr res, s')" and inv: "db_inv s"
    and match: "\<not> sp_baseline_mismatch (er_response res)"
  shows "validate_owner_key (md_owner_key md) = Inr ()" and "validate_baseline_id (er_baseline_id res) ''baseline_id'' = Inr ()"
    and "a_baseline (abs_owner (md_owner_key md) s') = Some (er_baseline_id res)"
    and "er_server_cursor res = a_cursor (abs_owner (md_owner_key md) s')"
    and "a_cursor (abs_owner (md_owner_key md) s) \<le> a_cursor (abs_owner (md_owner_key md) s')"
proof -
  let ?ow = "md_owner_key md" and ?S = "batch_start (md_owner_key md) (sr_baseline_id r) s"
  from exchange_summary [OF run inv match] obtain ds A l where
    ds: "decide_all (sr_device_id r) (sv_now sv) ?S (sr_mutations r) ds A"
    and closed: "batch_done sv md ?S ds A l (abs_owner ?ow s')" and l: "ln_baseline_id l = sr_baseline_id r"
    and res: "res = exchange_answer r (batch_of ds) l (a_cursor A) (operations_after ?ow (sr_cursor r)
               (normalized_pull_limit (sr_pull_limit r) + 1) s')" by blast
  have b: "er_baseline_id res = sr_baseline_id r" by (simp add: res exchange_answer_def Let_def l)
  have "validate_exchange_request ?ow (Some r) = Inr ()" using exchange_ok [OF run] by blast
  then show "validate_owner_key ?ow = Inr ()" "validate_baseline_id (er_baseline_id res) ''baseline_id'' = Inr ()"
    by (simp_all add: b validate_exchange_request_def)
  show "a_baseline (abs_owner ?ow s') = Some (er_baseline_id res)" using closed by (simp add: b batch_done_def l)
  show cur: "er_server_cursor res = a_cursor (abs_owner ?ow s')" using exchange_queues_event [OF run inv match] by simp
  note start = batch_start_facts [OF inv, of ?ow "sr_baseline_id r"]
  have "log_ok ?S" using start(1) by (simp add: inv_upto_def)
  then have "a_cursor ?S \<le> a_cursor A" using decide_all_ops [OF ds _ start(2)] by blast
  moreover have "a_cursor ?S = a_cursor (abs_owner ?ow s)" by (rule batch_start_sel)
  moreover have "er_server_cursor res = a_cursor A" by (simp add: res exchange_answer_def Let_def)
  ultimately show "a_cursor (abs_owner ?ow s) \<le> a_cursor (abs_owner ?ow s')" using cur by simp
qed

section \<open>The log while the backend goes on\<close>

lemma publish_one_abs:
  assumes "outbox_ok s" and "publish_one env (s, log) = (r, (s', log'))"
  shows "\<exists>evs. abs_owner ow s' = (abs_owner ow s)\<lparr>a_events := evs\<rparr>"
  using publish_one_frame [OF assms] by (auto simp: abs_owner_outbox)

lemma backend_step_archive:
  assumes "backend_step sl sl'" and "backend_ok sl"
  shows "a_archive (abs_owner ow (fst sl)) \<subseteq>\<^sub>m a_archive (abs_owner ow (fst sl'))"
  using assms
proof cases
  case (backend_service s s' log)
  then show ?thesis using archive_grows_steps [of s s' ow] by auto
next
  case (backend_publish env)
  obtain s log r s' log' where "sl = (s, log)" "publish_one env (s, log) = (r, (s', log'))" by (metis prod.collapse)
  moreover from this have "outbox_ok s" using assms(2) by (simp add: backend_ok_def delivered_ok_def)
  ultimately show ?thesis using publish_one_abs [of s env log r s' log' ow] backend_publish by auto
qed

lemma backend_steps:
  assumes "backend_step\<^sup>*\<^sup>* sl sl'" and "backend_ok sl"
  shows "backend_ok sl' \<and> a_archive (abs_owner ow (fst sl)) \<subseteq>\<^sub>m a_archive (abs_owner ow (fst sl'))"
  using assms
  by (induction rule: rtranclp_induct) (auto intro: backend_step_ok dest: backend_step_archive [where ow = ow] map_le_trans)

text \<open>As long as the baseline is the same, the log only grows.\<close>

lemma backend_log_grows:
  assumes steps: "backend_step\<^sup>*\<^sup>* sl sl'" and ok: "backend_ok sl"
    and "a_baseline (abs_owner ow (fst sl)) = Some b" and "a_baseline (abs_owner ow (fst sl')) = Some b"
  shows "log_after (abs_owner ow (fst sl)) c = take (length (log_after (abs_owner ow (fst sl)) c)) (log_after (abs_owner ow (fst sl')) c)"
    and "a_cursor (abs_owner ow (fst sl)) \<le> a_cursor (abs_owner ow (fst sl'))"
proof -
  let ?A = "abs_owner ow (fst sl)" and ?B = "abs_owner ow (fst sl')"
  have inv: "db_inv (fst sl)" "db_inv (fst sl')" and arch: "a_archive ?A \<subseteq>\<^sub>m a_archive ?B"
    using backend_steps [OF steps ok, of ow] ok by (auto simp: backend_ok_def)
  have "owner_inv ?A" "owner_inv ?B" using inv by (simp_all add: db_inv_def)
  then have "a_archive ?A (b, c) = a_ops ?A c" "a_archive ?B (b, c) = a_ops ?B c" for c
    using assms(3,4) by (simp_all add: archive_is_log)
  then have le: "a_ops ?A \<subseteq>\<^sub>m a_ops ?B" using arch unfolding map_le_def by (metis domIff)
  note P = log_after_prefix [OF log_ok_of_inv [OF inv(1)] log_ok_of_inv [OF inv(2)] le]
  show "log_after ?A c = take (length (log_after ?A c)) (log_after ?B c)" by (rule P(2))
  show "a_cursor ?A \<le> a_cursor ?B" by (rule P(1))
qed

lemma run_outbox_steps: "backend_step\<^sup>*\<^sup>* sl (run_outbox envs sl)"
proof (induction envs arbitrary: sl)
  case (Cons env envs)
  have "backend_step\<^sup>*\<^sup>* sl (snd (publish_one env sl))" by (rule r_into_rtranclp) (rule backend_publish)
  also have "backend_step\<^sup>*\<^sup>* (snd (publish_one env sl)) (run_outbox (env # envs) sl)"
    using Cons by (cases "publish_one env sl") simp
  finally show ?case .
qed simp

text \<open>The listener for hints wakes an open stream of the owner, from whatever state it is in.\<close>

lemma subscriber_hears:
  assumes "subscriber_reachable s" and "\<not> sb_cancelled s"
    and "owner_key_pattern (ht_owner_key h)" and "baseline_id_pattern (ht_baseline_id h)"
    and "list_all json_safe (ht_origin_connection_id h)"
    and i: "i < length (wk_heap (hs_wake (sb_hubs s)))" "ws_owner_key (wk_heap (hs_wake (sb_hubs s)) ! i) = ht_owner_key h"
      "\<not> ws_closed (wk_heap (hs_wake (sb_hubs s)) ! i)"
  shows "\<exists>es hs'. list_all quiet_event es
    \<and> subscriber_runs (es @ [MessageArrives (hint_payload h)]) s = Some (s\<lparr>sb_phase := SubListen, sb_hubs := hs'\<rparr>)
    \<and> ws_pending (wk_heap (hs_wake hs') ! i)"
proof -
  have ok: "subscriber_ok s" using subscriber_reachable_ok [OF assms(1)] .
  obtain es where es: "list_all quiet_event es" "subscriber_runs es s = Some (s\<lparr>sb_phase := SubListen\<rparr>)"
    using subscriber_listens_again [OF ok assms(2)] by blast
  obtain hs' where "on_message (hint_payload h) (sb_hubs s) = Inr hs'" "ws_pending (wk_heap (hs_wake hs') ! i)"
    using on_message_delivers [of "sb_hubs s" h] ok assms(3-5) i by (auto simp: subscriber_ok_def)
  with es show ?thesis
    by (intro exI [of _ es] exI [of _ hs']) (simp add: subscriber_runs_append subscriber_run_def subscribe_run_def hear_message_def)
qed

section \<open>Delivery\<close>

text \<open>
  C11. A change reaches the other devices. After an exchange has changed something, rounds of the publisher
  that work send its hint behind those that were waiting. In every state the listener for hints and the
  hubs can reach, the hint leaves a wake-up for every event stream of the owner that is open. A stream that
  receives it, whatever calls and publishers have done meanwhile as long as the baseline is the same,
  sends its client, at the cursor \<open>c\<close> the client had before the exchange or at an earlier one, every mutation
  that was new and was acknowledged as applied, with its value, and takes it to the head of the log. (Of
  two mutations of the batch with one \<open>op_id\<close> it is the first.) This is so when the connection and the
  reads of the stream work, the pages it reads can be marshalled, every single change fits a message, the
  head is a safe integer, no attempt counter of the outbox is full and the id of the connection the
  exchange came from needs no escape in JSON.
\<close>

theorem change_reaches_other_devices:
  assumes reach: "backend_reachable (s, log)" and run: "exchange env sv md (Some r) s = (Inr res, s')"
    and match: "\<not> sp_baseline_mismatch (er_response res)" and changed: "er_state_changed res"
    and publisher: "list_all publisher_healthy envs" "length envs = length (pending s) + 1"
      "\<forall>r \<in> set (pending s). ob_publish_attempts r + 1 < 2 ^ 32"
    and listener: "subscriber_reachable sb" "\<not> sb_cancelled sb" "list_all json_safe (md_origin_connection_id md)"
    and stream: "i < length (wk_heap (hs_wake (sb_hubs sb)))" "ws_owner_key (wk_heap (hs_wake (sb_hubs sb)) ! i) = md_owner_key md"
      "\<not> ws_closed (wk_heap (hs_wake (sb_hubs sb)) ! i)"
    and later: "backend_step\<^sup>*\<^sup>* (run_outbox envs (s', log)) (s2, log2)"
      "a_baseline (abs_owner (md_owner_key md) s2) = Some (er_baseline_id res)"
    and reader: "ready env2" "feed_fits M env2 (md_owner_key md) (er_baseline_id res) s2"
      "a_cursor (abs_owner (md_owner_key md) s2) \<le> max_safe_integer"
      "unat (a_cursor (abs_owner (md_owner_key md) s2)) - unat c < n" "c \<le> a_cursor (abs_owner (md_owner_key md) s)"
  shows "\<exists>h es hs' wake w' evs. snd (run_outbox envs (s', log)) = log @ map hint_of (pending s) @ [h]
    \<and> list_all quiet_event es
    \<and> subscriber_runs (es @ [MessageArrives (hint_payload h)]) sb = Some (sb\<lparr>sb_phase := SubListen, sb_hubs := hs'\<rparr>)
    \<and> receive_wake i (hs_wake hs') = Some (True, wake)
    \<and> stream_step M (\<lambda>_. None) (md_owner_key md) (er_baseline_id res) (WakeUp True (replicate n (env2, s2))) c w
        = Some (True, a_cursor (abs_owner (md_owner_key md) s2), w')
    \<and> wr_bytes w' = wr_bytes w @ concat (map (sse_event_bytes M) evs)
    \<and> er_server_cursor res \<le> a_cursor (abs_owner (md_owner_key md) s2)
    \<and> (\<forall>k < length (sr_mutations r). ack_applied (sp_acks (er_response res) ! k)
          \<longrightarrow> a_receipts (abs_owner (md_owner_key md) s) (Mutation_GetOpId (sr_mutations r ! k)) = None
          \<longrightarrow> (\<exists>j \<le> k. Mutation_GetOpId (sr_mutations r ! j) = Mutation_GetOpId (sr_mutations r ! k)
               \<and> mutation_change (sr_mutations r ! j) (ack_server_cursor (sp_acks (er_response res) ! k))
                   (clamp_client_time (Mutation_GetClientTimeMs (sr_mutations r ! j)) (sv_now sv))
                 \<in> set (concat (map event_changes evs))))"
proof -
  let ?ow = "md_owner_key md" and ?b = "er_baseline_id res"
  have ok: "backend_ok (s, log)" by (rule backend_reachable_ok [OF reach])
  have ok': "backend_ok (s', log)" by (rule backend_step_ok [OF backend_service [OF step_exchange [OF run]] ok])
  have inv: "db_inv s" using ok by (simp add: backend_ok_def)
  have steps: "backend_step\<^sup>*\<^sup>* (s', log) (s2, log2)" using run_outbox_steps later(1) by (rule rtranclp_trans)
  have inv2: "db_inv s2" using backend_steps [OF steps ok', of ?ow] by (simp add: backend_ok_def)
  have valid: "validate_owner_key ?ow = Inr ()" "validate_baseline_id ?b ''baseline_id'' = Inr ()"
    and base: "a_baseline (abs_owner ?ow s') = Some ?b"
    by (rule exchange_fields [OF run inv match])+
  then have patterns: "owner_key_pattern ?ow" "baseline_id_pattern ?b"
    by (simp_all add: validate_owner_key_def validate_baseline_id_def check_that_def split: if_splits)
  obtain s'' h where out: "run_outbox envs (s', log) = (s'', log @ map hint_of (pending s) @ [h])"
    and h: "ht_origin_connection_id h = md_origin_connection_id md" "ht_owner_key h = ?ow" "ht_baseline_id h = ?b"
    using exchange_hint_published [OF reach run match changed publisher] by blast
  obtain es hs' where heard: "list_all quiet_event es"
      "subscriber_runs (es @ [MessageArrives (hint_payload h)]) sb = Some (sb\<lparr>sb_phase := SubListen, sb_hubs := hs'\<rparr>)"
    and woken: "ws_pending (wk_heap (hs_wake hs') ! i)"
    using subscriber_hears [OF listener(1,2)] patterns listener(3) stream h by metis
  note grown = backend_log_grows [OF steps ok', simplified, OF base later(2)]
  have cursor: "c \<le> a_cursor (abs_owner ?ow s2)" "er_server_cursor res \<le> a_cursor (abs_owner ?ow s2)"
    using grown(2) exchange_fields(4,5) [OF run inv match] reader(5) by auto
  obtain w' evs where feed: "send_feed M (\<lambda>_. None) ?ow ?b (replicate n (env2, s2)) c False w
      = Some ((a_cursor (abs_owner ?ow s2), False, None), w')"
    and bytes: "wr_bytes w' = wr_bytes w @ concat (map (sse_event_bytes M) evs)"
    and sent: "concat (map event_changes evs) = log_after (abs_owner ?ow s2) c"
    using send_feed_delivers_log [OF inv2 reader(1) refl reader(2) valid reader(3) later(2) cursor(1) reader(4), of False w] by auto
  have sub: "set (log_after (abs_owner ?ow s') c) \<subseteq> set (concat (map event_changes evs))"
    unfolding sent using grown(1) by (metis set_take_subset)
  have applied: "\<forall>k < length (sr_mutations r). ack_applied (sp_acks (er_response res) ! k)
      \<longrightarrow> a_receipts (abs_owner ?ow s) (Mutation_GetOpId (sr_mutations r ! k)) = None
      \<longrightarrow> (\<exists>j \<le> k. Mutation_GetOpId (sr_mutations r ! j) = Mutation_GetOpId (sr_mutations r ! k)
           \<and> mutation_change (sr_mutations r ! j) (ack_server_cursor (sp_acks (er_response res) ! k))
               (clamp_client_time (Mutation_GetClientTimeMs (sr_mutations r ! j)) (sv_now sv))
             \<in> set (concat (map event_changes evs)))"
    using exchange_applied_logged [OF run inv match _ _ _ reader(5)] sub by blast
  have "\<exists>wake. receive_wake i (hs_wake hs') = Some (True, wake)" using woken by (simp add: receive_wake_def Let_def)
  moreover have "stream_step M (\<lambda>_. None) ?ow ?b (WakeUp True (replicate n (env2, s2))) c w
      = Some (True, a_cursor (abs_owner ?ow s2), w')"
    using feed by (simp add: stream_step_def feed_step_def)
  moreover have "snd (run_outbox envs (s', log)) = log @ map hint_of (pending s) @ [h]" using out by simp
  ultimately show ?thesis using heard bytes cursor(2) applied by blast
qed

text \<open>One mutation on an empty database, one stream of the same user.\<close>

lemma ex_single_answer:
  assumes run: "exchange ex_env ex_service ex_meta (Some ex_single) empty_db = (Inr res, s')"
  shows "sp_acks (er_response res) = [\<lparr>ack_op_id = ''op-00001'', ack_server_cursor = 1, ack_conflict = False, ack_applied = True\<rparr>]"
    and "er_state_changed res" and "er_baseline_id res = ex_baseline"
proof -
  from exchange_summary [OF run db_inv_empty ex_single_matches [OF run]] obtain ds A l rows n where
    ds: "decide_all ex_device 1000000 ex_start [ex_mutation ''op-00001''] ds A"
    and res: "res = exchange_answer ex_single (batch_of ds) l (a_cursor A) rows" and l: "ln_baseline_id l = ex_baseline"
    by (auto simp: ex_single_def ex_exchange_def ex_service_def ex_meta_def ex_start_def)
  from ds obtain d where d: "decides ex_device 1000000 ex_start (ex_mutation ''op-00001'') d A" and one: "ds = [d]"
    by (auto elim!: decide_all_ConsE decide_all_NilE)
  from d have "receipt_ack (d_receipt d) = \<lparr>ack_op_id = ''op-00001'', ack_server_cursor = 1, ack_conflict = False, ack_applied = True\<rparr>
      \<and> d_verdict d = Accepted"
    by cases (simp_all add: ex_start_sel receipt_ack_def ex_mutation_def Mutation_GetOpId_def)
  then show "sp_acks (er_response res) = [\<lparr>ack_op_id = ''op-00001'', ack_server_cursor = 1, ack_conflict = False, ack_applied = True\<rparr>]"
    and "er_state_changed res" and "er_baseline_id res = ex_baseline"
    by (simp_all add: res exchange_answer_def Let_def batch_of_def one l)
qed

theorem change_reaches_other_devices_witness:
  "\<exists>res s s2 h es sb wake w' evs. exchange ex_env ex_service ex_meta (Some ex_single) empty_db = (Inr res, s)
    \<and> run_outbox [ex_publisher] (s, []) = (s2, [h])
    \<and> subscriber_runs (es @ [MessageArrives (hint_payload h)]) (new_subscriber\<lparr>sb_hubs := ex_hubs\<rparr>) = Some sb
    \<and> receive_wake 0 (hs_wake (sb_hubs sb)) = Some (True, wake)
    \<and> stream_step ex_brief (\<lambda>_. None) ex_owner ex_baseline (WakeUp True (replicate 2 (ex_env, s2))) 0 ex_writer = Some (True, 1, w')
    \<and> wr_bytes w' = concat (map (sse_event_bytes ex_brief) evs)
    \<and> mutation_change (ex_mutation ''op-00001'') 1 900000 \<in> set (concat (map event_changes evs))"
proof -
  let ?sb = "new_subscriber\<lparr>sb_hubs := ex_hubs\<rparr>"
  obtain res s where run: "exchange ex_env ex_service ex_meta (Some ex_single) empty_db = (Inr res, s)"
    and s: "db_inv s" "a_baseline (abs_owner ex_owner s) = Some ex_baseline" "a_cursor (abs_owner ex_owner s) = 1"
    by (rule ex_single_db)
  note answer = ex_single_answer [OF run]
  obtain s2 log2 where out: "run_outbox [ex_publisher] (s, []) = (s2, log2)" by fastforce
  have "backend_ok (s, [])" by (rule backend_step_ok [OF backend_service [OF step_exchange [OF run]] backend_ok_empty])
  then have "outbox_ok s" by (simp add: backend_ok_def delivered_ok_def)
  from publish_one_abs [OF this, of ex_publisher "[]"] out obtain evs where
    "abs_owner ex_owner s2 = (abs_owner ex_owner s)\<lparr>a_events := evs\<rparr>" by (metis prod.collapse run_outbox.simps snd_conv)
  then have s2: "a_baseline (abs_owner ex_owner s2) = Some ex_baseline" "a_cursor (abs_owner ex_owner s2) = 1"
    using s by (simp_all add: a_baseline_def a_cursor_def)
  have listener: "subscriber_reachable ?sb" "\<not> sb_cancelled ?sb"
    using subscriber_any_hubs [OF ex_hubs_reachable] by (simp_all add: ex_hubs_def new_subscriber_def)
  have meta: "md_owner_key ex_meta = ex_owner" "list_all json_safe (md_origin_connection_id ex_meta)"
    by (simp_all add: ex_meta_def json_safe_def in_range_def)
  have none: "pending empty_db = []" "a_cursor (abs_owner ex_owner empty_db) = 0" "a_receipts (abs_owner ex_owner empty_db) op = None" for op
    by (simp add: pending_def empty_db_def) (simp_all add: abs_owner_empty a_cursor_def)
  have muts: "sr_mutations ex_single = [ex_mutation ''op-00001'']" by (simp add: ex_single_def)
  have clamp: "clamp_client_time 900000 (sv_now ex_service) = 900000" by code_simp
  have pub: "snd (publish_one ex_publisher (s, [])) = (s2, log2)" using out by simp
  have stream: "0 < length (wk_heap (hs_wake (sb_hubs ?sb)))" "ws_owner_key (wk_heap (hs_wake (sb_hubs ?sb)) ! 0) = md_owner_key ex_meta"
    "\<not> ws_closed (wk_heap (hs_wake (sb_hubs ?sb)) ! 0)" by (simp_all add: ex_hubs_def meta)
  have later: "backend_step\<^sup>*\<^sup>* (run_outbox [ex_publisher] (s, [])) (s2, log2)" unfolding out by (rule rtranclp.rtrancl_refl)
  from change_reaches_other_devices [OF backend_start run ex_single_matches [OF run] answer(2), of "[ex_publisher]" ?sb 0 s2 log2
      ex_env ex_brief 0 2 ex_writer, OF _ _ _ listener meta(2) stream later]
  obtain h es hs' wake w' evs where C:
    "log2 = [h]" "subscriber_runs (es @ [MessageArrives (hint_payload h)]) ?sb = Some (?sb\<lparr>sb_phase := SubListen, sb_hubs := hs'\<rparr>)"
    "receive_wake 0 (hs_wake hs') = Some (True, wake)"
    "stream_step ex_brief (\<lambda>_. None) ex_owner ex_baseline (WakeUp True (replicate 2 (ex_env, s2))) 0 ex_writer = Some (True, 1, w')"
    "wr_bytes w' = concat (map (sse_event_bytes ex_brief) evs)"
    "mutation_change (ex_mutation ''op-00001'') 1 900000 \<in> set (concat (map event_changes evs))"
    using ex_publisher_healthy ex_ready ex_feed_fits [of s2] s2
    by (auto simp: pub meta(1) answer none muts clamp max_safe_integer_def ex_writer_def) blast
  show ?thesis
    by (intro exI [of _ res] exI [of _ s] exI [of _ s2] exI [of _ h] exI [of _ es]
        exI [of _ "?sb\<lparr>sb_phase := SubListen, sb_hubs := hs'\<rparr>"] exI [of _ wake] exI [of _ w'] exI [of _ evs] conjI)
      (use run out C in simp_all)
qed

end
