(* ===== verification/Sessions.thy ===== *)
theory Sessions
  imports Http UrlLemmas
begin

text \<open>
  The endpoints around the session (\<open>login\<close>, \<open>callback\<close>, \<open>session\<close> and \<open>logout\<close> of \<open>internal/httpapi/server.go\<close>),
  the status endpoints, and the table of routes. A handler whose result is \<^const>\<open>None\<close> has panicked; the
  middleware answers for it.
\<close>

section \<open>Cookies and redirects\<close>

definition oauth_cookie_name :: string where "oauth_cookie_name = ''stella_oauth''"
definition cookie_path :: string where "cookie_path = ''/hifumi/''"

definition set_cookie :: "string \<Rightarrow> string \<Rightarrow> int \<Rightarrow> cookie" where
  "set_cookie name v max_age =
     \<lparr>ck_name = name, ck_value = v, ck_path = cookie_path, ck_max_age = max_age,
      ck_http_only = True, ck_secure = True, ck_same_site_lax = True\<rparr>"

definition clear_cookie :: "string \<Rightarrow> cookie" where
  "clear_cookie name = set_cookie name [] (-1)"

text \<open>\<open>http.Redirect\<close> of a GET request to an absolute URL.\<close>

definition hex_escape_non_ascii :: "string \<Rightarrow> string" where
  "hex_escape_non_ascii s =
     concat (map (\<lambda>c. if 128 \<le> (of_char c :: nat) then [CHR 0x25, hex_digit (of_char c div 16), hex_digit (of_char c mod 16)]
                      else [c]) s)"

definition html_escape_char :: "char \<Rightarrow> string" where
  "html_escape_char c =
     (if c = CHR ''&'' then ''&amp;'' else if c = CHR ''<'' then ''&lt;'' else if c = CHR ''>'' then ''&gt;''
      else if c = CHR 0x22 then ''&#34;'' else if c = CHR 0x27 then ''&#39;'' else [c])"

definition http_redirect :: "string \<Rightarrow> nat \<Rightarrow> http_response" where
  "http_redirect url status =
     \<lparr>rs_status = status,
      rs_headers = [(''Location'', hex_escape_non_ascii url), (''Content-Type'', ''text/html; charset=utf-8'')],
      rs_cookies = [],
      rs_body = ''<a href='' @ [CHR 0x22] @ concat (map html_escape_char url) @ [CHR 0x22] @ ''>Found</a>.'' @ newline @ newline\<rparr>"

definition frontend_return :: "'s server \<Rightarrow> string" where
  "frontend_return srv = url_string (cg_frontend_return_url (srv_config srv))"

definition validated_frontend_return_url :: "'s server \<Rightarrow> string \<Rightarrow> string" where
  "validated_frontend_return_url srv raw =
     (case url_parse (trim_space raw) of
        Some target \<Rightarrow>
          if gu_scheme target = ''https'' \<and> gu_host target \<noteq> [] \<and> gu_user target = None
             \<and> is_allowed_frontend_origin srv (url_origin target)
          then url_string target else frontend_return srv
      | None \<Rightarrow> frontend_return srv)"

section \<open>Login\<close>

definition handle_login ::
  "'s server \<Rightarrow> int \<Rightarrow> err + 8 word list \<Rightarrow> err + 8 word list \<Rightarrow> http_request \<Rightarrow> http_response" where
  "handle_login srv now random1 random2 r =
     (let (origin, ok) = allowed_referer_origin srv r;
          return_to = (if ok then origin @ ''/'' else frontend_return srv)
      in case begin_login (srv_jwt srv) (srv_oauth srv) now random1 random2 return_to of
           Inl e \<Rightarrow> internal_error
         | Inr lg \<Rightarrow>
             \<lparr>rs_status = 302,
              rs_headers = [(''Location'', lg_authorization_url lg), (''Cache-Control'', ''no-store'')],
              rs_cookies = [set_cookie oauth_cookie_name (lg_state_token lg) (oauth_lifetime div 1000)], rs_body = []\<rparr>)"

section \<open>Callback\<close>

definition query_get :: "http_request \<Rightarrow> string \<Rightarrow> string" where
  "query_get r name = (case map_of (hr_query r) name of None \<Rightarrow> [] | Some v \<Rightarrow> v)"

text \<open>
  The closure \<open>fail\<close>: back to the frontend with an error. The URL it parses is the text of one that was
  parsed before; if it does not parse, the code dereferences nil.
\<close>

definition fail_login :: "'s server \<Rightarrow> string \<Rightarrow> http_response option" where
  "fail_login srv return_to =
     (case url_parse (validated_frontend_return_url srv return_to) of
        None \<Rightarrow> None
      | Some target \<Rightarrow>
          (let target' = target\<lparr>gu_path := ''/day/2026-07-13'',
                 gu_raw_query := set_query (gu_raw_query target) ''auth_error'' ''oauth_failed''\<rparr>
           in Some (http_redirect (url_string target') 302)))"

definition store_profile ::
  "call_env \<Rightarrow> profile \<Rightarrow> u64 \<Rightarrow> 's world \<Rightarrow> (err + profile) \<times> 's world" where
  "store_profile env pf last_login w =
     (let (result, (s', rows')) = upsert_profile (ce_tx env) (owner_key_of (pf_subject pf)) pf last_login (wd_db w, wd_profiles w)
      in (result, w\<lparr>wd_db := s', wd_profiles := rows'\<rparr>))"

definition handle_callback ::
  "'s server \<Rightarrow> call_env \<Rightarrow> http_request \<Rightarrow> 's world \<Rightarrow> http_response option \<times> 's world" where
  "handle_callback srv env r w =
     (let home = frontend_return srv; code = query_get r ''code''; state = query_get r ''state'' in
      if query_get r ''error'' \<noteq> [] then (fail_login srv home, w)
      else if code = [] \<or> state = [] then (fail_login srv home, w)
      else
        (case map_of (hr_cookies r) oauth_cookie_name of
           None \<Rightarrow> (fail_login srv home, w)
         | Some token \<Rightarrow>
             (case verify_oauth_state (srv_jwt srv) (srv_tokens srv) (ce_now env) token state of
                None \<Rightarrow> (fail_login srv home, w)
              | Some claims \<Rightarrow>
                  (case complete_login (srv_json srv) (srv_oauth srv) (srv_http_client srv) code claims of
                     Inl e \<Rightarrow> (fail_login srv (oc_return_to claims), w)
                   | Inr pf \<Rightarrow>
                       (case store_profile env pf (of_int (ce_now env)) w of
                          (Inl e, w') \<Rightarrow> (fail_login srv (oc_return_to claims), w')
                        | (Inr stored, w') \<Rightarrow>
                            (case sign_session (srv_jwt srv) (srv_tokens srv) (ce_now env) stored of
                               Inl e \<Rightarrow> (fail_login srv (oc_return_to claims), w')
                             | Inr (token, expires) \<Rightarrow>
                                 (Some \<lparr>rs_status = 302,
                                    rs_headers = [(''Cache-Control'', ''no-store''),
                                      (''Location'', validated_frontend_return_url srv (oc_return_to claims))],
                                    rs_cookies = [set_cookie session_cookie_name token (session_lifetime div 1000),
                                      clear_cookie oauth_cookie_name],
                                    rs_body = []\<rparr>, w')))))))"

section \<open>Session and logout\<close>

definition claims_profile :: "session_claims \<Rightarrow> profile" where
  "claims_profile c =
     \<lparr>pf_subject = rg_subject c, pf_username = sc_username c, pf_display_name = sc_name c,
      pf_avatar_url = sc_avatar_url c, pf_email = sc_email c\<rparr>"

text \<open>The time of the login is that of the token, when it is past the first second of the epoch.\<close>

definition claims_login :: "session_claims \<Rightarrow> u64" where
  "claims_login c =
     (case rg_issued_at c of
        None \<Rightarrow> 0
      | Some t \<Rightarrow> if 0 < t div 1000 then of_int t else 0)"

definition handle_session :: "'s server \<Rightarrow> call_env \<Rightarrow> http_request \<Rightarrow> 's world \<Rightarrow> http_response \<times> 's world" where
  "handle_session srv env r w =
     (case authenticate srv (ce_now env) r of
        None \<Rightarrow> (write_json 200 [(''authenticated'', JvBool False), (''user'', JvNull)], w)
      | Some (claims, ow) \<Rightarrow>
          (case store_profile env (claims_profile claims) (claims_login claims) w of
             (Inl e, w') \<Rightarrow> (internal_error, w')
           | (Inr pf, w') \<Rightarrow>
               (write_json 200
                  [(''authenticated'', JvBool True),
                   (''user'', JvObject
                      [(''avatarUrl'', JvString (pf_avatar_url pf)), (''email'', JvString (pf_email pf)),
                       (''id'', JvString (pf_subject pf)), (''name'', JvString (pf_display_name pf)),
                       (''username'', JvString (pf_username pf))])], w')))"

definition handle_logout :: "'s server \<Rightarrow> http_request \<Rightarrow> http_response" where
  "handle_logout srv r =
     (if \<not> valid_state_origin srv r then write_api_error 403 ''invalid_origin''
      else (write_json 200 [(''authenticated'', JvBool False)])\<lparr>rs_cookies := [clear_cookie session_cookie_name]\<rparr>)"

section \<open>Status\<close>

definition handle_health :: http_response where
  "handle_health = write_json 200 [(''status'', JvString ''ok'')]"

text \<open>Whether MySQL and Redis answer, and whether the schema is the one expected.\<close>

definition handle_ready :: "bool \<Rightarrow> bool \<Rightarrow> bool \<Rightarrow> http_response" where
  "handle_ready mysql redis schema =
     (if \<not> mysql then write_api_error 503 ''mysql_unavailable''
      else if \<not> redis then write_api_error 503 ''redis_unavailable''
      else if \<not> schema then write_api_error 503 ''schema_not_ready''
      else write_json 200 [(''status'', JvString ''ready'')])"

definition handle_version :: "'s server \<Rightarrow> http_response" where
  "handle_version srv =
     write_json 200 [(''version'', JvString (bi_version (srv_build srv))), (''commit'', JvString (bi_commit (srv_build srv))),
       (''buildTime'', JvString (bi_build_time (srv_build srv)))]"

section \<open>Middleware and routes\<close>

text \<open>Request ids are 16 random bytes; without them, the clock in base 36.\<close>

definition new_request_id :: "err + 8 word list \<Rightarrow> string \<Rightarrow> string" where
  "new_request_id random clock_base36 =
     (case random of Inl _ \<Rightarrow> clock_base36 | Inr bytes \<Rightarrow> hex_encode bytes)"

definition add_headers :: "(string \<times> string) list \<Rightarrow> http_response \<Rightarrow> http_response" where
  "add_headers hs response = response\<lparr>rs_headers := hs @ rs_headers response\<rparr>"

definition security_headers :: "(string \<times> string) list" where
  "security_headers = [(''X-Content-Type-Options'', ''nosniff''), (''Cache-Control'', ''no-store'')]"

text \<open>A panic that has not written anything is answered with an error.\<close>

definition recovery :: "http_response option \<Rightarrow> http_response" where
  "recovery handled = (case handled of None \<Rightarrow> write_api_error 500 ''internal_error'' | Some response \<Rightarrow> response)"

text \<open>The chain of the router: the request id, the recovery, the security headers, the origin checks, the handler.\<close>

definition with_middleware ::
  "'s server \<Rightarrow> string \<Rightarrow> http_request \<Rightarrow> ('s world \<Rightarrow> http_response option \<times> 's world) \<Rightarrow> 's world
     \<Rightarrow> http_response \<times> 's world" where
  "with_middleware srv request_id r handler w =
     (let hs = (''X-Request-Id'', request_id) # security_headers in
      case cors srv r of
        Inl response \<Rightarrow> (add_headers hs response, w)
      | Inr headers \<Rightarrow> (let (handled, w') = handler w in (add_headers (hs @ headers) (recovery handled), w')))"

text \<open>
  The address of the client for the log: that of the connection, or what a trusted proxy says.
\<close>

definition client_ip :: "'s server \<Rightarrow> string \<Rightarrow> string \<Rightarrow> string" where
  "client_ip srv remote_addr forwarded =
     (let host = (case split_host_port remote_addr of None \<Rightarrow> remote_addr | Some (host, _) \<Rightarrow> host);
          trusted = (case parse_ip host of
                       None \<Rightarrow> False
                     | Some ip \<Rightarrow> list_ex (\<lambda>network. net_contains network ip) (srv_trusted_proxies srv))
      in if trusted then
           (case find (\<lambda>candidate. parse_ip candidate \<noteq> None) (map trim_space (split_on CHR 0x2C forwarded)) of
              None \<Rightarrow> host
            | Some candidate \<Rightarrow> candidate)
         else host)"

datatype endpoint =
    EndHealth | EndReady | EndVersion | EndLogin | EndCallback | EndSession | EndLogout
  | EndExchange | EndDiff | EndResolve | EndEvents | EndWebSocket | EndPreflight

text \<open>The routes with a fixed path; every other path below \<open>v1/\<close> answers preflight requests.\<close>

definition fixed_routes :: "config \<Rightarrow> ((string \<times> string) \<times> endpoint) list" where
  "fixed_routes c =
     [((''GET'', public_path c ''healthz''), EndHealth), ((''GET'', public_path c ''readyz''), EndReady),
      ((''GET'', public_path c ''version''), EndVersion), ((''GET'', public_path c ''v1/auth/login/linuxdo''), EndLogin),
      ((''GET'', public_path c ''v1/auth/callback''), EndCallback), ((''GET'', public_path c ''v1/auth/session''), EndSession),
      ((''POST'', public_path c ''v1/auth/logout''), EndLogout), ((''POST'', public_path c ''v1/sync/exchange''), EndExchange),
      ((''POST'', public_path c ''v1/sync/diff''), EndDiff), ((''POST'', public_path c ''v1/sync/resolve''), EndResolve),
      ((''GET'', public_path c ''v1/sync/events''), EndEvents), ((''GET'', public_path c ''v1/sync/ws''), EndWebSocket)]"

definition route :: "config \<Rightarrow> http_request \<Rightarrow> endpoint option" where
  "route c r =
     (case map_of (fixed_routes c) (hr_method r, hr_path r) of
        Some e \<Rightarrow> Some e
      | None \<Rightarrow>
          if hr_method r = ''OPTIONS'' \<and> has_prefix (hr_path r) (public_path c ''v1/'') then Some EndPreflight else None)"

text \<open>
  The log line of a request, written when the chain has come back: also of a request that the origin checks
  refused, or whose handler panicked. How long it took is not part of it here.
\<close>

record request_line =
  rl_line_request_id :: string
  rl_line_method :: string
  rl_line_path :: string
  rl_line_status :: nat
  rl_line_client_ip :: string

definition request_log ::
  "'s server \<Rightarrow> string \<Rightarrow> string \<Rightarrow> string \<Rightarrow> http_request \<Rightarrow> http_response \<Rightarrow> request_line" where
  "request_log srv request_id remote_addr forwarded r response =
     \<lparr>rl_line_request_id = request_id, rl_line_method = hr_method r, rl_line_path = hr_path r,
      rl_line_status = rs_status response, rl_line_client_ip = client_ip srv remote_addr forwarded\<rparr>"

text \<open>The three synchronisation handlers are one.\<close>

definition handle_exchange :: "'s server \<Rightarrow> call_env \<Rightarrow> http_request \<Rightarrow> 's world \<Rightarrow> http_response \<times> 's world" where
  "handle_exchange srv env r w = handle_sync_http srv env ''exchange'' r w"

definition handle_diff :: "'s server \<Rightarrow> call_env \<Rightarrow> http_request \<Rightarrow> 's world \<Rightarrow> http_response \<times> 's world" where
  "handle_diff srv env r w = handle_sync_http srv env ''diff'' r w"

definition handle_resolve :: "'s server \<Rightarrow> call_env \<Rightarrow> http_request \<Rightarrow> 's world \<Rightarrow> http_response \<times> 's world" where
  "handle_resolve srv env r w = handle_sync_http srv env ''resolve'' r w"

lemmas sync_forwards [simp] = handle_exchange_def handle_diff_def handle_resolve_def

text \<open>The handlers that write one response, by endpoint; the streams have theories of their own.\<close>

definition serve_request ::
  "'s server \<Rightarrow> call_env \<Rightarrow> (err + 8 word list) \<times> (err + 8 word list) \<Rightarrow> bool \<times> bool \<times> bool \<Rightarrow> string \<Rightarrow> endpoint
     \<Rightarrow> http_request \<Rightarrow> 's world \<Rightarrow> (http_response \<times> 's world) option" where
  "serve_request srv env random health request_id e r w =
     (let pure = (\<lambda>response. Some (with_middleware srv request_id r (\<lambda>w. (Some response, w)) w));
          effect = (\<lambda>handler. Some (with_middleware srv request_id r (\<lambda>w. let (x, w') = handler w in (Some x, w')) w))
      in case e of
           EndHealth \<Rightarrow> pure handle_health
         | EndReady \<Rightarrow> pure (handle_ready (fst health) (fst (snd health)) (snd (snd health)))
         | EndVersion \<Rightarrow> pure (handle_version srv)
         | EndLogin \<Rightarrow> pure (handle_login srv (ce_now env) (fst random) (snd random) r)
         | EndCallback \<Rightarrow> Some (with_middleware srv request_id r (handle_callback srv env r) w)
         | EndSession \<Rightarrow> effect (handle_session srv env r)
         | EndLogout \<Rightarrow> pure (handle_logout srv r)
         | EndExchange \<Rightarrow> effect (handle_exchange srv env r)
         | EndDiff \<Rightarrow> effect (handle_diff srv env r)
         | EndResolve \<Rightarrow> effect (handle_resolve srv env r)
         | EndPreflight \<Rightarrow> pure \<lparr>rs_status = 204, rs_headers = [], rs_cookies = [], rs_body = []\<rparr>
         | _ \<Rightarrow> None)"

section \<open>Where a login ends\<close>

lemma allowed_origin_iff [simp]:
  "is_allowed_frontend_origin srv origin \<longleftrightarrow> origin \<in> set (cg_frontend_origins (srv_config srv))"
  by (auto simp: is_allowed_frontend_origin_def list_ex_iff)

text \<open>The origins of a configuration have no percent sign: none of them is on a zone of an IPv6 address.\<close>

definition zoneless :: "config \<Rightarrow> bool" where
  "zoneless c \<longleftrightarrow> (\<forall>origin \<in> set (cg_frontend_origins c). CHR 0x25 \<notin> set origin)"

text \<open>A page of an allowed origin: its text leads to the host of the origin, and it is parsed again.\<close>

definition frontend_page :: "config \<Rightarrow> go_url \<Rightarrow> bool" where
  "frontend_page c u \<longleftrightarrow> web_url u \<and> url_origin u \<in> set (cg_frontend_origins c)
     \<and> (list_all (\<lambda>c. of_char c < (128 :: nat)) (gu_host u) \<longrightarrow> url_escape EncHost (gu_host u) = gu_host u)"

lemma frontend_page_parsed:
  assumes "zoneless c" and "url_parse raw = Some u" and "gu_scheme u = ''https''" and "gu_host u \<noteq> []" and "gu_user u = None"
    and "url_origin u \<in> set (cg_frontend_origins c)"
  shows "frontend_page c u"
proof -
  have "CHR 0x25 \<notin> set (gu_host u)" using assms(1,6) by (auto simp: zoneless_def url_origin_def)
  then show ?thesis
    using url_parse_web [OF assms(2-5)] url_parse_on_host [OF assms(2,4)] parse_host_plain assms(6)
    by (auto simp: frontend_page_def on_host_def)
qed

lemma loaded_return_page:
  assumes "load_from lookup = Inr c" and "zoneless c"
  shows "frontend_page c (cg_frontend_return_url c)"
proof -
  obtain raw where "url_parse raw = Some (cg_frontend_return_url c)" "gu_scheme (cg_frontend_return_url c) = ''https''"
    "gu_host (cg_frontend_return_url c) \<noteq> []" "gu_user (cg_frontend_return_url c) = None"
    "url_origin (cg_frontend_return_url c) \<in> set (cg_frontend_origins c)"
    using assms(1) by (auto simp: load_from_def Let_def simp del: not_None_eq split: sum.splits option.splits if_splits)
  from frontend_page_parsed [OF assms(2) this] show ?thesis .
qed

lemma validated_page:
  assumes "load_from lookup = Inr (srv_config srv)" and "zoneless (srv_config srv)"
  obtains u where "frontend_page (srv_config srv) u" and "validated_frontend_return_url srv raw = url_string u"
proof (cases "validated_frontend_return_url srv raw = frontend_return srv")
  case True
  with that [OF loaded_return_page [OF assms]] show thesis by (simp add: frontend_return_def)
next
  case False
  then obtain u where "url_parse (trim_space raw) = Some u" "gu_scheme u = ''https''" "gu_host u \<noteq> []" "gu_user u = None"
    "url_origin u \<in> set (cg_frontend_origins (srv_config srv))" "validated_frontend_return_url srv raw = url_string u"
    by (auto simp: validated_frontend_return_url_def simp del: not_None_eq split: option.splits if_splits)
  with that [OF frontend_page_parsed [OF assms(2)]] show thesis by blast
qed

lemma frontend_page_leads: "frontend_page c u \<Longrightarrow> leads_to (gu_host u) (url_string u)"
  by (rule url_string_leads) (simp_all add: frontend_page_def web_url_def)

text \<open>The error page is on the host of the page.\<close>

lemma hex_escape_plain: "list_all (\<lambda>c. of_char c < (128 :: nat)) s \<Longrightarrow> hex_escape_non_ascii s = s"
  by (induction s) (auto simp: hex_escape_non_ascii_def)

lemma escape_host_ascii: "list_all (\<lambda>c. of_char c < (128 :: nat)) (url_escape EncHost host)"
proof -
  have "of_char c < (128 :: nat)" if "c \<in> set (url_escape EncHost host)" for c
  proof (rule ccontr)
    assume "\<not> of_char c < (128 :: nat)"
    then have "\<not> is_letter c" "\<not> is_digit c" "\<not> is_hex c" "c \<noteq> CHR 0x25"
      by (auto simp: is_letter_def is_digit_def is_hex_def in_range_def)
    moreover have "list_all (\<lambda>c. of_char c < (128 :: nat)) (''-_.~'' @ CHR 0x22 # CHR 0x27 # ''!$&()*+,;=:[]<>'')" by simp
    then have "c \<notin> set ''-_.~''" "c \<notin> set (CHR 0x22 # CHR 0x27 # ''!$&()*+,;=:[]<>'')"
      using \<open>\<not> of_char c < 128\<close> unfolding list_all_iff set_append by blast+
    ultimately have "should_escape EncHost c" unfolding should_escape_def encoding.case by blast
    with escape_host_chars [OF that this] \<open>c \<noteq> CHR 0x25\<close> show False by blast
  qed
  then show ?thesis by (simp add: list_all_iff)
qed

lemma leads_to_hex_escaped:
  assumes "leads_to host location"
  shows "leads_to host (hex_escape_non_ascii location)"
proof -
  obtain rest where location: "location = ''https://'' @ url_escape EncHost host @ rest" and rest: "rest = [] \<or> hd rest \<in> set ''/?#''"
    using assms unfolding leads_to_def by blast
  have parts: "hex_escape_non_ascii (a @ b) = hex_escape_non_ascii a @ hex_escape_non_ascii b" for a b
    by (simp add: hex_escape_non_ascii_def)
  have "hex_escape_non_ascii ''https://'' = ''https://''" by (rule hex_escape_plain) simp
  then have "hex_escape_non_ascii location = ''https://'' @ url_escape EncHost host @ hex_escape_non_ascii rest"
    unfolding location parts hex_escape_plain [OF escape_host_ascii] by simp
  moreover have "hex_escape_non_ascii rest = [] \<or> hd (hex_escape_non_ascii rest) \<in> set ''/?#''"
    using rest by (cases rest) (auto simp: hex_escape_non_ascii_def)
  ultimately show ?thesis unfolding leads_to_def by blast
qed

lemma fail_login_leads:
  assumes "load_from lookup = Inr (srv_config srv)" and "zoneless (srv_config srv)"
  obtains response location u where "fail_login srv return_to = Some response" and "rs_status response = 302"
    and "rs_cookies response = []" and "map_of (rs_headers response) ''Location'' = Some location"
    and "frontend_page (srv_config srv) u" and "leads_to (gu_host u) location"
proof -
  obtain u where page: "frontend_page (srv_config srv) u" and valid: "validated_frontend_return_url srv return_to = url_string u"
    using validated_page [OF assms] by blast
  define target where "target = (reparsed u)\<lparr>gu_path := ''/day/2026-07-13'',
    gu_raw_query := set_query (gu_raw_query u) ''auth_error'' ''oauth_failed''\<rparr>"
  have "fail_login srv return_to = Some (http_redirect (url_string target) 302)"
    using page url_round_trip [of u] by (simp add: fail_login_def valid frontend_page_def target_def Let_def)
  moreover have "leads_to (gu_host u) (url_string target)"
    using page url_string_leads [of target] by (simp add: frontend_page_def web_url_def target_def)
  ultimately show thesis
    using that page leads_to_hex_escaped by (simp add: http_redirect_def)
qed

text \<open>The ways through the callback.\<close>

lemma handle_callback_cases:
  assumes "handle_callback srv env r w = (response, w')"
  obtains (failed) return_to where "response = fail_login srv return_to" "wd_redis w' = wd_redis w" "wd_hub w' = wd_hub w"
  | (stored) claims cookie pf stored token expires where
      "map_of (hr_cookies r) oauth_cookie_name = Some cookie"
      "verify_oauth_state (srv_jwt srv) (srv_tokens srv) (ce_now env) cookie (query_get r ''state'') = Some claims"
      "complete_login (srv_json srv) (srv_oauth srv) (srv_http_client srv) (query_get r ''code'') claims = Inr pf"
      "store_profile env pf (of_int (ce_now env)) w = (Inr stored, w')"
      "sign_session (srv_jwt srv) (srv_tokens srv) (ce_now env) stored = Inr (token, expires)"
      "response = Some \<lparr>rs_status = 302,
         rs_headers = [(''Cache-Control'', ''no-store''),
           (''Location'', validated_frontend_return_url srv (oc_return_to claims))],
         rs_cookies = [set_cookie session_cookie_name token (session_lifetime div 1000), clear_cookie oauth_cookie_name],
         rs_body = []\<rparr>"
  using assms
  by (auto simp: handle_callback_def Let_def store_profile_def split: if_splits option.splits sum.splits prod.splits)

end
