(* ===== verification/Migrations.thy ===== *)
theory Migrations
  imports GoStrings Errors Prelude
begin

text \<open>
  The schema migration (\<open>migrations/migrate.go\<close>). The state is the table \<open>schema_migrations\<close>, \<^const>\<open>None\<close>
  when it does not exist, and the rest of the schema, which the statements of the embedded file change;
  what MySQL makes of a statement is an argument. A statement that is answered with an error may have
  taken effect all the same, or a part of it: the reply was lost, or the deadline passed.
\<close>

section \<open>State\<close>

record 'd schema =
  sm_versions :: "(u64 \<times> bool) list option"  \<comment> \<open>version and \<open>dirty\<close>\<close>
  sm_data :: 'd

type_synonym 'd ddl = "string \<Rightarrow> 'd \<Rightarrow> err option \<times> 'd"  \<comment> \<open>the error it is answered with, and what it leaves\<close>

definition current_version :: u64 where "current_version = 1"

text \<open>
  What fails outside of the statements: the connection, the lock, and the three queries on
  \<open>schema_migrations\<close>. The two that write say whether they took effect before the error. \<open>me_created\<close> says
  whether a first statement that fails has created the table.
\<close>

record migration_env =
  me_connection :: "err option"
  me_lock :: "err + int"  \<comment> \<open>the result of \<open>GET_LOCK\<close>\<close>
  me_created :: bool
  me_read :: "err option"
  me_mark :: "(bool \<times> err) option"
  me_clean :: "(bool \<times> err) option"

section \<open>Statements\<close>

definition split_statements :: "string \<Rightarrow> string list" where
  "split_statements source = filter (\<lambda>s. s \<noteq> []) (map trim_space (split_on CHR '';'' source))"

fun run_statements :: "'d ddl \<Rightarrow> string list \<Rightarrow> 'd \<Rightarrow> err option \<times> 'd" where
  "run_statements exec [] d = (None, d)"
| "run_statements exec (s # ss) d =
     (case exec s d of
        (Some e, d') \<Rightarrow> (Some e, d')
      | (None, d') \<Rightarrow> run_statements exec ss d')"

text \<open>\<open>INSERT ... ON DUPLICATE KEY UPDATE dirty = TRUE\<close>, and the \<open>UPDATE\<close> that ends a migration.\<close>

definition mark_version :: "u64 \<Rightarrow> bool \<Rightarrow> (u64 \<times> bool) list \<Rightarrow> (u64 \<times> bool) list" where
  "mark_version v dirty rows = map (\<lambda>(x, d). if x = v then (x, dirty) else (x, d)) rows"

definition insert_version :: "u64 \<Rightarrow> (u64 \<times> bool) list \<Rightarrow> (u64 \<times> bool) list" where
  "insert_version v rows =
     (if v \<in> fst ` set rows then mark_version v True rows else rows @ [(v, True)])"

section \<open>Migration\<close>

text \<open>The first statement creates \<open>schema_migrations\<close> when it is not there.\<close>

definition migrate_up :: "migration_env \<Rightarrow> 'd ddl \<Rightarrow> string \<Rightarrow> 'd schema \<Rightarrow> (err + unit) \<times> 'd schema" where
  "migrate_up E exec source st =
     (case me_connection E of
        Some e \<Rightarrow> (Inl e, st)
      | None \<Rightarrow>
     (case me_lock E of
        Inl e \<Rightarrow> (Inl e, st)
      | Inr acquired \<Rightarrow>
          if acquired \<noteq> 1 then (Inl (ErrExternal ''migration advisory lock timed out''), st)
          else
     (case split_statements source of
        [] \<Rightarrow> (Inl (ErrExternal ''embedded migration is empty''), st)
      | first # rest \<Rightarrow>
     (let rows = (case sm_versions st of None \<Rightarrow> [] | Some rows \<Rightarrow> rows) in
     (case exec first (sm_data st) of
        (Some e, d) \<Rightarrow> (Inl e, \<lparr>sm_versions = (if me_created E then Some rows else sm_versions st), sm_data = d\<rparr>)
      | (None, d) \<Rightarrow>
          (let st1 = \<lparr>sm_versions = Some rows, sm_data = d\<rparr> in
     (case me_read E of
        Some e \<Rightarrow> (Inl e, st1)
      | None \<Rightarrow>
          if map_of rows current_version = Some False then (Inr (), st1)
          else
     (let dirty = insert_version current_version rows in
     (case me_mark E of
        Some (effect, e) \<Rightarrow> (Inl e, \<lparr>sm_versions = Some (if effect then dirty else rows), sm_data = d\<rparr>)
      | None \<Rightarrow>
          (let (failure, d') = run_statements exec rest d;
               clean = mark_version current_version False dirty in
           case failure of
             Some e \<Rightarrow> (Inl e, \<lparr>sm_versions = Some dirty, sm_data = d'\<rparr>)
           | None \<Rightarrow>
               (case me_clean E of
                  Some (effect, e) \<Rightarrow> (Inl e, \<lparr>sm_versions = Some (if effect then clean else dirty), sm_data = d'\<rparr>)
                | None \<Rightarrow> (Inr (), \<lparr>sm_versions = Some clean, sm_data = d'\<rparr>))))))))))))"

text \<open>\<open>Check\<close>: the row with the greatest version is the current one, and clean.\<close>

definition check_schema :: "'d schema \<Rightarrow> err + unit" where
  "check_schema st =
     (case sm_versions st of
        None \<Rightarrow> Inl (ErrExternal ''read schema version'')
      | Some rows \<Rightarrow>
          (case rev (sort_key fst rows) of
             [] \<Rightarrow> Inl ErrNoRows
           | (version, dirty) # _ \<Rightarrow>
               if version \<noteq> current_version \<or> dirty then Inl (ErrExternal ''schema version'') else Inr ()))"

section \<open>What a migration leaves\<close>

text \<open>The primary key of the table, and no version that this program does not know.\<close>

definition versions_ok :: "(u64 \<times> bool) list \<Rightarrow> bool" where
  "versions_ok rows \<longleftrightarrow> distinct (map fst rows) \<and> (\<forall>(v, d) \<in> set rows. v \<le> current_version)"

definition schema_ok :: "'d schema \<Rightarrow> bool" where
  "schema_ok st \<longleftrightarrow> (case sm_versions st of None \<Rightarrow> True | Some rows \<Rightarrow> versions_ok rows)"

lemma mark_version_keys [simp]: "map fst (mark_version v d rows) = map fst rows"
  by (auto simp: mark_version_def)

lemma mark_version_set [simp]: "fst ` set (mark_version v d rows) = fst ` set rows"
  by (metis mark_version_keys set_map)

lemma map_of_mark_version: "map_of (mark_version v d rows) v = map_option (\<lambda>_. d) (map_of rows v)"
proof (induction rows)
  case (Cons row rows)
  then show ?case by (cases row) (simp add: mark_version_def)
qed (simp add: mark_version_def)

lemma mark_version_lookup: "v \<in> fst ` set rows \<Longrightarrow> map_of (mark_version v d rows) v = Some d"
  by (cases "map_of rows v") (simp_all add: map_of_mark_version map_of_eq_None_iff)

lemma versions_ok_keys: "versions_ok rows \<longleftrightarrow> distinct (map fst rows) \<and> (\<forall>v \<in> fst ` set rows. v \<le> current_version)"
  by (auto simp: versions_ok_def)

lemma mark_version_ok [simp]: "versions_ok (mark_version v d rows) \<longleftrightarrow> versions_ok rows"
  by (simp only: versions_ok_keys mark_version_keys mark_version_set)

lemma insert_version_ok: "versions_ok rows \<Longrightarrow> versions_ok (insert_version current_version rows)"
  by (cases "current_version \<in> fst ` set rows")
    (auto simp: insert_version_def, auto simp: versions_ok_def)

lemma insert_version_in: "v \<in> fst ` set (insert_version v rows)"
  by (cases "v \<in> fst ` set rows") (simp_all add: insert_version_def)

lemma insert_version_lookup: "map_of (insert_version v rows) v = Some True"
proof (cases "v \<in> fst ` set rows")
  case False
  then have "map_of rows v = None" by (simp add: map_of_eq_None_iff)
  with False show ?thesis by (simp add: insert_version_def map_add_def)
qed (simp add: insert_version_def mark_version_lookup)

text \<open>The check reads the state of the current version.\<close>

lemma last_sort_key_fst:
  assumes "distinct (map fst rows)" and "(v, d) \<in> set rows" and "\<forall>(x, y) \<in> set rows. x \<le> (v :: 'a :: linorder)"
  shows "\<exists>tl. rev (sort_key fst rows) = (v, d) # tl"
proof -
  have "sort_key fst rows \<noteq> []" using assms(2) by (metis empty_iff list.set(1) set_sort)
  then obtain x y tl where r: "rev (sort_key fst rows) = (x, y) # tl"
    by (metis rev_is_Nil_conv list.exhaust surj_pair)
  then have s: "sort_key fst rows = rev tl @ [(x, y)]" by (metis rev.simps(2) rev_swap)
  have mem: "(x, y) \<in> set rows" using r by (metis list.set_intros(1) set_rev set_sort)
  have "sorted (map fst (sort_key fst rows))" by simp
  then have "\<forall>z \<in> fst ` set (rev tl). z \<le> x" unfolding s by (auto simp: sorted_append)
  moreover have "(v, d) \<in> set (rev tl @ [(x, y)])" using assms(2) s by (metis set_sort)
  ultimately have "v \<le> x" by force
  with assms(3) mem have "x = v" by fastforce
  with mem assms(1,2) have "y = d" by (metis eq_key_imp_eq_value)
  with r \<open>x = v\<close> show ?thesis by simp
qed

lemma check_schema_iff:
  assumes "versions_ok rows"
  shows "check_schema \<lparr>sm_versions = Some rows, sm_data = x\<rparr> = Inr () \<longleftrightarrow> map_of rows current_version = Some False"
proof
  assume c: "check_schema \<lparr>sm_versions = Some rows, sm_data = x\<rparr> = Inr ()"
  then obtain tl where r: "rev (sort_key fst rows) = (current_version, False) # tl"
    by (auto simp: check_schema_def split: list.splits if_splits)
  then have "(current_version, False) \<in> set rows" by (metis list.set_intros(1) set_rev set_sort)
  with assms show "map_of rows current_version = Some False" by (simp add: versions_ok_def)
next
  assume m: "map_of rows current_version = Some False"
  then have "(current_version, False) \<in> set rows" by (rule map_of_SomeD)
  with assms obtain tl where "rev (sort_key fst rows) = (current_version, False) # tl"
    using last_sort_key_fst [of rows current_version False] by (auto simp: versions_ok_def)
  then show "check_schema \<lparr>sm_versions = Some rows, sm_data = x\<rparr> = Inr ()" by (simp add: check_schema_def)
qed

text \<open>What a migration can leave in the table, in terms of the rows it found.\<close>

definition found_rows :: "'d schema \<Rightarrow> (u64 \<times> bool) list" where
  "found_rows st = (case sm_versions st of None \<Rightarrow> [] | Some rows \<Rightarrow> rows)"

lemma migrate_up_cases:
  assumes "migrate_up E exec source st = (result, st')"
  obtains (untouched) "result \<noteq> Inr ()" "sm_versions st' \<in> {sm_versions st, Some (found_rows st)}"
    | (current) "result = Inr ()" "sm_versions st' = Some (found_rows st)" "map_of (found_rows st) current_version = Some False"
    | (dirty) "result \<noteq> Inr ()" "sm_versions st' = Some (insert_version current_version (found_rows st))"
    | (clean) "sm_versions st' = Some (mark_version current_version False (insert_version current_version (found_rows st)))"
        "result = Inr () \<or> (\<exists>e. me_clean E = Some (True, e) \<and> result = Inl e)"
        "run_statements exec (split_statements source) (sm_data st) = (None, sm_data st')"
proof -
  have "result \<noteq> Inr () \<and> sm_versions st' \<in> {sm_versions st, Some (found_rows st)}
    \<or> result = Inr () \<and> sm_versions st' = Some (found_rows st) \<and> map_of (found_rows st) current_version = Some False
    \<or> result \<noteq> Inr () \<and> sm_versions st' = Some (insert_version current_version (found_rows st))
    \<or> sm_versions st' = Some (mark_version current_version False (insert_version current_version (found_rows st)))
        \<and> (result = Inr () \<or> (\<exists>e. me_clean E = Some (True, e) \<and> result = Inl e))
        \<and> run_statements exec (split_statements source) (sm_data st) = (None, sm_data st')"
    using assms unfolding migrate_up_def Let_def found_rows_def [symmetric]
    by (auto split: option.split_asm sum.split_asm list.split_asm if_split_asm prod.split_asm)
  then show thesis using untouched current dirty clean by blast
qed

lemma check_schema_rows:
  "sm_versions st = Some rows \<Longrightarrow> versions_ok rows \<Longrightarrow> check_schema st = Inr () \<longleftrightarrow> map_of rows current_version = Some False"
  using check_schema_iff [of rows "sm_data st"] by (cases st) simp

text \<open>
  A migration that succeeds leaves a schema that passes the check. One that fails makes a schema pass
  that did not only when the last statement took effect and its reply was lost; and in any case only
  when every statement of the file was answered without an error.
\<close>

lemma migrate_up_result:
  assumes ok: "schema_ok st" and run: "migrate_up E exec source st = (result, st')"
  shows "schema_ok st' \<and> (result = Inr () \<longrightarrow> check_schema st' = Inr ())
    \<and> (check_schema st' = Inr () \<longrightarrow> check_schema st \<noteq> Inr () \<longrightarrow>
         (result = Inr () \<or> (\<exists>e. me_clean E = Some (True, e) \<and> result = Inl e))
         \<and> run_statements exec (split_statements source) (sm_data st) = (None, sm_data st'))"
proof -
  let ?rows = "found_rows st"
  let ?dirty = "insert_version current_version ?rows"
  have rows: "versions_ok ?rows" using ok by (auto simp: found_rows_def schema_ok_def versions_ok_def split: option.splits)
  note dirty = insert_version_ok [OF rows]
  have before: "check_schema st = Inr ()" if "map_of ?rows current_version = Some False"
  proof -
    from that have "sm_versions st = Some ?rows" by (auto simp: found_rows_def split: option.splits)
    with check_schema_rows [OF _ rows] that show ?thesis by blast
  qed
  from run show ?thesis
  proof (cases rule: migrate_up_cases)
    case untouched
    have "schema_ok st'" using untouched(2) ok rows by (auto simp: schema_ok_def)
    moreover have "check_schema st' = Inr () \<Longrightarrow> check_schema st = Inr ()"
      using untouched(2) check_schema_rows [OF _ rows, of st'] before by (auto simp: check_schema_def)
    ultimately show ?thesis using untouched(1) by blast
  next
    case current
    with rows check_schema_rows [OF current(2) rows] before show ?thesis by (simp add: schema_ok_def)
  next
    case dirty: dirty
    with insert_version_ok [OF rows] check_schema_rows [OF dirty(2)] show ?thesis
      by (simp add: schema_ok_def insert_version_lookup)
  next
    case clean
    have "versions_ok (mark_version current_version False ?dirty)" using dirty by simp
    with clean check_schema_rows [OF clean(1)] show ?thesis
      by (simp add: schema_ok_def mark_version_lookup insert_version_in)
  qed
qed

text \<open>A schema that passes the check is not migrated again: only the first statement is run.\<close>

lemma migrate_up_current:
  assumes ok: "schema_ok st" and current: "check_schema st = Inr ()" and run: "migrate_up E exec source st = (result, st')"
  shows "sm_versions st' = sm_versions st
    \<and> (sm_data st' = sm_data st \<or> (\<exists>s rest. split_statements source = s # rest \<and> snd (exec s (sm_data st)) = sm_data st'))"
proof -
  obtain rows where rows: "sm_versions st = Some rows" using current by (auto simp: check_schema_def split: option.splits)
  then have "map_of rows current_version = Some False"
    using ok current check_schema_iff [of rows "sm_data st"] by (cases st) (simp add: schema_ok_def)
  then show ?thesis
    using run rows by (auto simp: migrate_up_def Let_def split: option.splits sum.splits list.splits if_splits prod.splits)
qed

text \<open>
  A row of a version that this program does not know stays, and no check passes while it is there.
\<close>

definition schema_keys :: "'d schema \<Rightarrow> bool" where
  "schema_keys st \<longleftrightarrow> (case sm_versions st of None \<Rightarrow> True | Some rows \<Rightarrow> distinct (map fst rows))"

definition newer_schema :: "'d schema \<Rightarrow> bool" where
  "newer_schema st \<longleftrightarrow> (case sm_versions st of None \<Rightarrow> False | Some rows \<Rightarrow> \<exists>v \<in> fst ` set rows. current_version < v)"

lemma schema_ok_split: "schema_ok st \<longleftrightarrow> schema_keys st \<and> \<not> newer_schema st"
  by (auto simp: schema_ok_def schema_keys_def newer_schema_def versions_ok_keys not_less split: option.splits)

lemma newer_schema_refused:
  assumes "newer_schema st"
  shows "check_schema st \<noteq> Inr ()"
proof -
  obtain rows v d where rows: "sm_versions st = Some rows" "(v, d) \<in> set rows" "current_version < v"
    using assms by (auto simp: newer_schema_def split: option.splits)
  then have "sort_key fst rows \<noteq> []" by (metis empty_iff list.set(1) set_sort)
  then obtain x y tl where r: "rev (sort_key fst rows) = (x, y) # tl"
    by (metis rev_is_Nil_conv list.exhaust surj_pair)
  then have s: "sort_key fst rows = rev tl @ [(x, y)]" by (metis rev.simps(2) rev_swap)
  have "sorted (map fst (sort_key fst rows))" by simp
  then have "\<forall>z \<in> fst ` set (rev tl @ [(x, y)]). z \<le> x" unfolding s by (auto simp: sorted_append)
  moreover have "(v, d) \<in> set (rev tl @ [(x, y)])" using rows(2) s by (metis set_sort)
  ultimately have "v \<le> x" by force
  with rows(3) have "x \<noteq> current_version" by auto
  then show ?thesis using rows(1) r by (simp add: check_schema_def)
qed

lemma insert_version_keys:
  "distinct (map fst rows) \<Longrightarrow> distinct (map fst (insert_version v rows))"
  "fst ` set (insert_version v rows) = insert v (fst ` set rows)"
  by (auto simp: insert_version_def)

lemma migrate_up_keys:
  assumes "schema_keys st" and "migrate_up E exec source st = (result, st')"
  shows "schema_keys st' \<and> newer_schema st' = newer_schema st"
proof -
  have rows: "distinct (map fst (found_rows st))" "newer_schema st = (\<exists>v \<in> fst ` set (found_rows st). current_version < v)"
    using assms(1) by (simp_all add: found_rows_def schema_keys_def newer_schema_def split: option.splits) force
  have kept: ?thesis if "sm_versions st' = Some r" "distinct (map fst r)" "fst ` set r \<in> {fst ` set (found_rows st),
      insert current_version (fst ` set (found_rows st))}" for r
  proof -
    have above: "(\<exists>v \<in> K'. current_version < v) = (\<exists>v \<in> K. current_version < v)"
      if "K' \<in> {K, insert current_version K}" for K K' :: "u64 set" using that by auto
    have "newer_schema st' = (\<exists>v \<in> fst ` set r. current_version < v)"
      using that(1) by (simp only: newer_schema_def option.case)
    then have "newer_schema st' = newer_schema st" unfolding rows(2) above [OF that(3)] .
    with that(1,2) show ?thesis by (simp add: schema_keys_def)
  qed
  from assms(2) show ?thesis
  proof (cases rule: migrate_up_cases)
    case untouched
    then show ?thesis
    proof (cases "sm_versions st' = sm_versions st")
      case True
      with assms(1) show ?thesis by (simp add: schema_keys_def newer_schema_def)
    next
      case False
      with untouched rows kept [of "found_rows st"] show ?thesis by simp
    qed
  next
    case current
    with rows kept [of "found_rows st"] show ?thesis by simp
  next
    case dirty
    from rows show ?thesis by (intro kept [OF dirty(2)]) (simp_all add: insert_version_keys)
  next
    case clean
    from rows show ?thesis by (intro kept [OF clean(1)]) (simp_all add: insert_version_keys)
  qed
qed

end
