(* ===== verification/SessionProps.thy ===== *)
theory SessionProps
  imports Sessions Migrations TransportProps
begin

text \<open>
  The properties of sessions, logins and profiles: how long a session token is good and for whom, what binds
  a login to the browser that began it, where the callback can send it, and what is written of a
  user. The hypotheses on the JWT library are \<^const>\<open>jwt_documented\<close>, which holds of \<^const>\<open>paper_jwt\<close>.
\<close>

section \<open>Tokens\<close>

lemma claims_profile_of [simp]: "claims_profile (session_claims_for L m now pf) = pf"
  by (cases pf) (simp add: claims_profile_def session_claims_for_def)

text \<open>
  No token passes as one of the other kind, although both are signed with the same key: a session has no
  purpose, a login no subject.
\<close>

lemma session_is_no_state:
  assumes "jwt_documented L" and "manager_ok m" and "profile_text_ok pf" and "sign_session L m now pf = Inr (token, expires)"
  shows "verify_oauth_state L m t token state = None"
  using parse_session_token [OF assms, of "oauth_options m t"]
  by (simp add: verify_oauth_state_def Let_def read_other_kind oauth_purpose_def oauth_options_def session_options_def)

lemma state_is_no_session:
  assumes "jwt_documented L" and "manager_ok m" and "valid_utf8 state" and "valid_utf8 verifier" and "valid_utf8 return_to"
    and "sign_oauth_state L m now state verifier return_to = Inr token"
  shows "verify_session L m t token = None"
  using parse_state_token [OF assms, of "session_options m t"]
  by (simp add: verify_session_def Let_def read_other_kind oauth_claims_for_def session_options_def)

text \<open>
  C32. A session token lasts 31 days and no longer: signing succeeds; until it expires the token gives back
  the profile it was signed for, under the issuer of the manager; five seconds after that, the leeway,
  it is refused; and it never opens as a login, whatever the state.
\<close>

theorem session_token_round_trip:
  assumes L: "jwt_documented L" and m: "manager_ok m" and pf: "profile_text_ok pf" "pf_subject pf \<noteq> []"
  shows "\<exists>token. sign_session L m now pf = Inr (token, now + session_lifetime)
    \<and> (\<forall>t. now \<le> t \<and> t < now + session_lifetime \<longrightarrow> (\<exists>claims. verify_session L m t token = Some claims
         \<and> claims_profile claims = pf \<and> rg_issuer claims = tm_issuer m \<and> rg_issued_at claims = Some (jwt_date L now)))
    \<and> (\<forall>t. now + session_lifetime + 5000 \<le> t \<longrightarrow> verify_session L m t token = None)
    \<and> (\<forall>t state. verify_oauth_state L m t token state = None)"
proof -
  obtain token where sign: "sign_session L m now pf = Inr (token, now + session_lifetime)"
    using jwt_laws(1) [OF L, of "tm_secret m" "session_payload (session_claims_for L m now pf)"] m
    by (auto simp: sign_session_def manager_ok_def)
  have "verify_session L m t token = Some (session_claims_for L m now pf)" if "now \<le> t" "t < now + session_lifetime" for t
    using verify_own_session [OF L m pf sign, of t] that
      jwt_laws(4) [OF L, of "now - 5000"] jwt_laws(5) [OF L, of "now + session_lifetime"] by auto
  moreover have "verify_session L m t token = None" if "now + session_lifetime + 5000 \<le> t" for t
    using verify_own_session [OF L m pf sign, of t] that jwt_laws(4) [OF L, of "now + session_lifetime"] by auto
  ultimately show ?thesis
    using sign session_is_no_state [OF L m pf(1) sign]
    by (intro exI [of _ token]) (auto simp: session_claims_for_def claims_profile_def)
qed

theorem session_token_round_trip_witness:
  "\<exists>claims. verify_session paper_jwt ex_manager 1000 ex_token = Some claims \<and> claims_profile claims = ex_user"
proof -
  have "pf_subject ex_user \<noteq> []" by (simp add: ex_user_def)
  from session_token_round_trip [OF paper_jwt_documented ex_token_texts this, of 0] ex_token_signed
  have "\<forall>t. 0 \<le> t \<and> t < session_lifetime \<longrightarrow>
      (\<exists>claims. verify_session paper_jwt ex_manager t ex_token = Some claims \<and> claims_profile claims = ex_user)" by auto
  then show ?thesis by (rule allE [of _ 1000]) (simp add: session_lifetime_def)
qed

text \<open>What the code makes of random bytes is text of one token of a query.\<close>

lemma base64_url_ok: "valid_utf8 (base64_url_encode s)" "s \<noteq> [] \<Longrightarrow> base64_url_encode s \<noteq> []"
proof -
  have "list_all (\<lambda>c. of_char c < (128 :: nat)) (base64_url_encode s)"
    using base64_plain [of s]
    by (auto simp: base64_url_encode_def url_char_def list_all_iff json_plain_def in_range_def is_digit_def is_id_char_def)
  then show "valid_utf8 (base64_url_encode s)" by (rule valid_utf8_ascii)
  have first: "base64_char (of_char c div 4) \<noteq> pad" for c
  proof -
    have "of_char c < (256 :: nat)" by simp
    then show ?thesis by (intro base64_char_plain(1)) linarith
  qed
  show "base64_url_encode s \<noteq> []" if "s \<noteq> []"
    using that first by (cases s rule: base64_encode.cases) (simp_all add: base64_url_encode_def Let_def)
qed

lemma begun_login_opens:
  assumes L: "jwt_documented L" and m: "manager_ok (ap_tokens P)" and random: "bytes1 \<noteq> []" "bytes2 \<noteq> []"
    and return_to: "valid_utf8 return_to" "trim_space return_to \<noteq> []"
    and login: "begin_login L P now (Inr bytes1) (Inr bytes2) return_to = Inr lg"
  shows "\<exists>claims. (\<forall>t. now \<le> t \<and> t < now + oauth_lifetime \<longrightarrow>
         verify_oauth_state L (ap_tokens P) t (lg_state_token lg) (lg_state lg) = Some claims)
    \<and> (\<forall>t state. state \<noteq> lg_state lg \<or> now + oauth_lifetime + 5000 \<le> t \<longrightarrow>
         verify_oauth_state L (ap_tokens P) t (lg_state_token lg) state = None)
    \<and> (\<forall>t. verify_session L (ap_tokens P) t (lg_state_token lg) = None)
    \<and> oc_return_to claims = return_to
    \<and> lg_authorization_url lg = authorization_endpoint @ ''?'' @ encode_values
         [(''client_id'', ap_client_id P), (''redirect_uri'', ap_redirect_uri P), (''response_type'', ''code''),
          (''scope'', ''openid profile email''), (''state'', lg_state lg),
          (''code_challenge'', pkce_challenge (oc_verifier claims)), (''code_challenge_method'', ''S256'')]"
proof -
  define state where "state = base64_url_encode (bytes_string bytes1)"
  define verifier where "verifier = base64_url_encode (bytes_string bytes2)"
  have texts: "valid_utf8 state" "valid_utf8 verifier" "state \<noteq> []" "verifier \<noteq> []"
    using base64_url_ok random by (simp_all add: state_def verifier_def bytes_string_def)
  obtain token where sign: "sign_oauth_state L (ap_tokens P) now state verifier return_to = Inr token"
    and lg: "lg = \<lparr>lg_authorization_url = authorization_endpoint @ ''?'' @ encode_values
         [(''client_id'', ap_client_id P), (''redirect_uri'', ap_redirect_uri P), (''response_type'', ''code''),
          (''scope'', ''openid profile email''), (''state'', state),
          (''code_challenge'', pkce_challenge verifier), (''code_challenge_method'', ''S256'')],
       lg_state_token = token, lg_state = state\<rparr>"
    using login return_to(2)
    by (auto simp: begin_login_def random_base64_url_def Let_def state_def verifier_def split: sum.splits)
  note verify = verify_own_state [OF L m texts(1,2) return_to(1) texts(3,4) sign]
  have "verify_oauth_state L (ap_tokens P) t token state
      = Some (oauth_claims_for L (ap_tokens P) now state verifier return_to)" if "now \<le> t" "t < now + oauth_lifetime" for t
    using verify [of t state] that jwt_laws(4) [OF L, of "now - 5000"] jwt_laws(5) [OF L, of "now + oauth_lifetime"] by auto
  moreover have "verify_oauth_state L (ap_tokens P) t token other = None"
    if "other \<noteq> state \<or> now + oauth_lifetime + 5000 \<le> t" for t other
    using verify [of t other] that jwt_laws(4) [OF L, of "now + oauth_lifetime"] by auto
  ultimately show ?thesis
    by (intro exI [of _ "oauth_claims_for L (ap_tokens P) now state verifier return_to"])
      (auto simp: lg oauth_claims_for_def state_is_no_session [OF L m texts(1,2) return_to(1) sign])
qed

text \<open>
  C33. A login that was begun can be completed by the browser that has its cookie, for ten minutes: the
  state in the authorization URL, and no other, opens the state token; what comes out is the page to
  return to and the verifier whose challenge is in the URL, which is the verifier the code is
  exchanged with.
\<close>

theorem login_state_round_trip:
  assumes L: "jwt_documented L" and m: "manager_ok (ap_tokens P)" and random: "bytes1 \<noteq> []" "bytes2 \<noteq> []"
    and return_to: "valid_utf8 return_to" "trim_space return_to \<noteq> []"
    and login: "begin_login L P now (Inr bytes1) (Inr bytes2) return_to = Inr lg"
  shows "\<exists>claims. (\<forall>t. now \<le> t \<and> t < now + oauth_lifetime \<longrightarrow>
         verify_oauth_state L (ap_tokens P) t (lg_state_token lg) (lg_state lg) = Some claims)
    \<and> (\<forall>t state. state \<noteq> lg_state lg \<or> now + oauth_lifetime + 5000 \<le> t \<longrightarrow>
         verify_oauth_state L (ap_tokens P) t (lg_state_token lg) state = None)
    \<and> (\<forall>t. verify_session L (ap_tokens P) t (lg_state_token lg) = None)
    \<and> oc_return_to claims = return_to
    \<and> lg_authorization_url lg = authorization_endpoint @ ''?'' @ encode_values
         [(''client_id'', ap_client_id P), (''redirect_uri'', ap_redirect_uri P), (''response_type'', ''code''),
          (''scope'', ''openid profile email''), (''state'', lg_state lg),
          (''code_challenge'', pkce_challenge (oc_verifier claims)), (''code_challenge_method'', ''S256'')]"
  by (rule begun_login_opens [OF assms])

definition ex_login :: login where
  "ex_login =
     (case begin_login paper_jwt ex_provider 0 (Inr [1]) (Inr [2]) ''https://app/'' of
        Inr lg \<Rightarrow> lg | Inl e \<Rightarrow> \<lparr>lg_authorization_url = [], lg_state_token = [], lg_state = []\<rparr>)"

lemma ex_login_begun: "begin_login paper_jwt ex_provider 0 (Inr [1]) (Inr [2]) ''https://app/'' = Inr ex_login"
  by (simp add: ex_login_def begin_login_def random_base64_url_def Let_def sign_oauth_state_def paper_jwt_def)

lemma ex_login_texts: "manager_ok (ap_tokens ex_provider)" "valid_utf8 ''https://app/''" "trim_space ''https://app/'' \<noteq> []"
  by (simp add: ex_provider_def ex_token_texts, simp add: valid_utf8_ascii, code_simp)

theorem login_state_round_trip_witness:
  "\<exists>claims. verify_oauth_state paper_jwt ex_manager 1000 (lg_state_token ex_login) (lg_state ex_login) = Some claims
    \<and> oc_return_to claims = ''https://app/''"
proof -
  from login_state_round_trip [OF paper_jwt_documented ex_login_texts(1) _ _ ex_login_texts(2,3) ex_login_begun]
  obtain claims where "\<forall>t. 0 \<le> t \<and> t < oauth_lifetime \<longrightarrow>
      verify_oauth_state paper_jwt ex_manager t (lg_state_token ex_login) (lg_state ex_login) = Some claims"
    "oc_return_to claims = ''https://app/''" by (auto simp: ex_provider_def)
  then show ?thesis by (intro exI [of _ claims]) (simp add: oauth_lifetime_def)
qed

section \<open>Profiles\<close>

lemma profile_values_fields:
  assumes "profile_values ow pf now login = Inr new"
  shows "pw_owner new = ow" "pw_created_at_ms new = now" "pw_last_login_at_ms new = login"
    and "pf_email pf = [] \<Longrightarrow> pw_email new = None" and "text_column 128 (pf_subject pf) = Inr (pw_subject new)"
  using assms by (auto simp: profile_values_def split: sum.splits if_splits)

text \<open>A committed profile, and one that is not.\<close>

lemma upsert_profile_cases:
  assumes run: "upsert_profile env ow pf last_login (s, rows) = (result, (s', rows'))"
  obtains (unchanged) e where "result = Inl e" "s' = s" "rows' = rows"
  | (written) stored where "profile_transaction ow (normalized_profile pf) (env_now env) (clamp_login (env_now env) last_login)
        (s, rows) = Inr (stored, (s', rows'))"
      "result = Inr stored \<or> (\<exists>e. result = Inl e \<and> env_commit env = CommitUnacknowledged e)"
      "pf_subject (normalized_profile pf) \<noteq> []"
  using run by (auto simp: upsert_profile_def Let_def split: if_splits option.splits sum.splits commit_outcome.splits)




section \<open>The callback\<close>

lemma varchar_nonempty: "varchar n s = Inr v \<Longrightarrow> s \<noteq> [] \<Longrightarrow> 0 < n \<Longrightarrow> v \<noteq> []"
  by (cases s; cases n) (auto simp: varchar_def Let_def split: if_splits prod.splits)

lemma upserted_subject:
  assumes "profiles_ok rows" and "upsert_profile env ow pf last_login (s, rows) = (Inr stored, (s', rows'))"
  shows "\<exists>row \<in> set rows'. pw_owner row = ow \<and> stored = stored_profile row \<and> pw_subject row \<noteq> []
    \<and> text_column 128 (pf_subject (normalized_profile pf)) = Inr (pw_subject row) \<and> profiles_ok rows'"
  using assms(2)
proof (cases rule: upsert_profile_cases)
  case (written stored')
  obtain new r where new: "profile_values ow (normalized_profile pf) (env_now env) (clamp_login (env_now env) last_login) = Inr new"
    and r: "r \<in> set rows'" "pw_owner r = ow" "stored' = stored_profile r" and ok': "profiles_ok rows'"
    and row: "r = (case find (\<lambda>x. pw_owner x = ow) rows of None \<Rightarrow> new | Some old \<Rightarrow> overwrite_profile old new)"
    by (rule profile_transaction_cases [OF assms(1) written(1)])
  have "pw_subject r = pw_subject new" unfolding row by (simp split: option.splits)
  then have subject: "text_column 128 (pf_subject (normalized_profile pf)) = Inr (pw_subject r)"
    using profile_values_fields(5) [OF new] by simp
  then have "pw_subject r \<noteq> []"
    using written(3) varchar_nonempty by (auto simp: text_column_def split: if_splits)
  with r ok' subject written(2) show ?thesis by auto
qed simp

text \<open>A login that succeeds: what Linux DO answers, and the request that comes back.\<close>

definition ex_upstream :: http_client where
  "ex_upstream q = Inr (200,
     if uq_method q = ''POST''
     then [CHR 0x7B, CHR 0x22] @ ''access_token'' @ [CHR 0x22, CHR 0x3A, CHR 0x22, CHR ''t'', CHR 0x22, CHR 0x7D]
     else [CHR 0x7B, CHR 0x22] @ ''id'' @ [CHR 0x22, CHR 0x3A, CHR 0x22, CHR ''1'', CHR 0x22, CHR 0x2C, CHR 0x22]
       @ ''login'' @ [CHR 0x22, CHR 0x3A, CHR 0x22, CHR ''u'', CHR 0x22, CHR 0x7D])"

definition ex_linuxdo_user :: profile where
  "ex_linuxdo_user =
     \<lparr>pf_subject = ''1'', pf_username = ''u'', pf_display_name = ''u'', pf_avatar_url = [], pf_email = []\<rparr>"

lemma ex_trimmed: "trim_space ''1'' = ''1''" "trim_space ''u'' = ''u''" "trim_space [] = []"
  by (simp_all add: trim_space_def is_space_rune_def decode_rune_def)

lemma ex_completed: "complete_login ex_json P ex_upstream code claims = Inr ex_linuxdo_user"
proof -
  have token: "fetch_json ex_upstream (token_request P code claims) = Inr (JvObject [(''access_token'', JvString ''t'')])"
    by (simp add: fetch_json_def ex_upstream_def token_request_def) code_simp
  have user: "fetch_json ex_upstream (profile_request ''t'') = Inr (JvObject [(''id'', JvString ''1''), (''login'', JvString ''u'')])"
    by (simp add: fetch_json_def ex_upstream_def profile_request_def) code_simp
  have "access_token_of (JvObject [(''access_token'', JvString ''t'')]) = Some ''t''" by code_simp
  moreover have "payload_of ex_json (JvObject [(''id'', JvString ''1''), (''login'', JvString ''u'')])
      = Some [(''login'', JString ''u''), (''id'', JString ''1'')]" by code_simp
  moreover have "normalize_profile ex_json [(''login'', JString ''u''), (''id'', JString ''1'')] = ex_linuxdo_user"
    by (simp add: normalize_profile_def ex_linuxdo_user_def ex_trimmed)
  ultimately show ?thesis by (simp add: complete_login_def token user Let_def) (simp add: ex_linuxdo_user_def)
qed

lemma ex_stored: "\<exists>w'. store_profile ex_call_env ex_linuxdo_user 0 ex_world = (Inr ex_linuxdo_user, w')"
proof -
  have ascii: "text_column n s = Inr s" if "list_all (\<lambda>c. of_char c < (128 :: nat)) s" "length s \<le> n" for n s
    using that by (simp add: text_column_def varchar_def valid_utf8_ascii rune_count_ascii)
  have row: "\<exists>new. profile_values ow ex_linuxdo_user now login = Inr new \<and> stored_profile new = ex_linuxdo_user \<and> pw_owner new = ow"
    for ow now login
    by (simp add: profile_values_def ex_linuxdo_user_def ascii stored_profile_def)
  have transaction: "\<exists>sp. profile_transaction ow ex_linuxdo_user now login (s, []) = Inr (ex_linuxdo_user, sp)" for ow now login s
    using row [of ow now login]
    by (auto simp: profile_transaction_def ensure_owner_def exec_sql_def sql_def upsert_profile_row_def upsert_row_def query_row_def)
  have "normalized_profile ex_linuxdo_user = ex_linuxdo_user"
    by (simp add: normalized_profile_def ex_linuxdo_user_def ex_trimmed truncate_runes_def rune_count_ascii)
  moreover have "owner_key_of s \<noteq> []" for s
    using owner_key_valid [of s] by (auto simp: validate_owner_key_def owner_key_pattern_def split: if_splits)
  moreover have "pf_subject ex_linuxdo_user \<noteq> []" by (simp add: ex_linuxdo_user_def)
  moreover have "env_begin_error ex_env = None" "env_commit ex_env = Committed" by (simp_all add: ex_env_def)
  ultimately have "\<exists>sp. upsert_profile ex_env (owner_key_of s) ex_linuxdo_user 0 (empty_db, []) = (Inr ex_linuxdo_user, sp)" for s
    using transaction [of "owner_key_of s" "env_now ex_env" "clamp_login (env_now ex_env) 0" empty_db]
    by (auto simp: upsert_profile_def Let_def)
  then show ?thesis
    by (auto simp: store_profile_def ex_call_env_def ex_world_def Let_def split: prod.splits)
      (metis prod.inject)
qed

definition ex_login_server :: "memory_redis server" where
  "ex_login_server = ex_server\<lparr>srv_http_client := ex_upstream\<rparr>"

definition ex_callback :: http_request where
  "ex_callback = ex_request\<lparr>hr_method := ''GET'', hr_path := ''/hifumi/v1/auth/callback'',
     hr_query := [(''code'', ''c''), (''state'', lg_state ex_login)],
     hr_cookies := [(oauth_cookie_name, lg_state_token ex_login)]\<rparr>"

lemma ex_callback_answer:
  "\<exists>token location w'. handle_callback ex_login_server ex_call_env ex_callback ex_world
     = (Some \<lparr>rs_status = 302, rs_headers = [(''Cache-Control'', ''no-store''), (''Location'', location)],
          rs_cookies = [set_cookie session_cookie_name token (session_lifetime div 1000), clear_cookie oauth_cookie_name],
          rs_body = []\<rparr>, w')"
proof -
  from begun_login_opens [OF paper_jwt_documented ex_login_texts(1) _ _ ex_login_texts(2,3) ex_login_begun]
  obtain claims where "\<forall>t. 0 \<le> t \<and> t < oauth_lifetime \<longrightarrow>
      verify_oauth_state paper_jwt ex_manager t (lg_state_token ex_login) (lg_state ex_login) = Some claims"
    by (auto simp: ex_provider_def)
  then have opens: "verify_oauth_state paper_jwt ex_manager 0 (lg_state_token ex_login) (lg_state ex_login) = Some claims"
    by (simp add: oauth_lifetime_def)
  have state: "lg_state ex_login \<noteq> []"
    using opens by (auto simp: verify_oauth_state_def Let_def split: option.splits prod.splits if_splits)
  obtain w' where "store_profile ex_call_env ex_linuxdo_user 0 ex_world = (Inr ex_linuxdo_user, w')" using ex_stored by blast
  moreover obtain token expires where "sign_session paper_jwt ex_manager 0 ex_linuxdo_user = Inr (token, expires)"
    by (simp add: sign_session_def paper_jwt_def)
  ultimately show ?thesis
    using opens state
    by (simp add: handle_callback_def Let_def ex_login_server_def ex_server_def ex_callback_def query_get_def ex_completed
        ex_call_env_def) blast
qed

text \<open>
  C35. A login is a session: the cookie that a successful callback sets authenticates every request that
  carries it for the lifetime of a session, as the user whose profile was stored, with the fields that
  were stored; and the stored row is that of the subject Linux DO named, under the owner key the
  session is authenticated as whenever that subject fits its column.
\<close>

theorem login_authenticates:
  assumes L: "jwt_documented (srv_jwt srv)" and m: "manager_ok (srv_tokens srv)" and ok: "profiles_ok (wd_profiles w)"
    and run: "handle_callback srv env r w = (Some response, w')"
    and ck: "ck \<in> set (rs_cookies response)" "ck_name ck = session_cookie_name"
  shows "\<exists>claims pf. \<exists>row \<in> set (wd_profiles w').
     complete_login (srv_json srv) (srv_oauth srv) (srv_http_client srv) (query_get r ''code'') claims = Inr pf
     \<and> pw_owner row = owner_key_of (pf_subject pf)
     \<and> (trim_space (pf_subject pf) = pf_subject pf \<and> rune_count (pf_subject pf) \<le> 128 \<longrightarrow> pw_subject row = pf_subject pf)
     \<and> (\<forall>t r'. ce_now env \<le> t \<and> t < ce_now env + session_lifetime
          \<and> map_of (hr_cookies r') session_cookie_name = Some (ck_value ck) \<longrightarrow>
          (\<exists>claims. authenticate srv t r' = Some (claims, owner_key_of (pw_subject row))
            \<and> claims_profile claims = stored_profile row))"
  using run
proof (cases rule: handle_callback_cases)
  case (failed return_to)
  then show ?thesis using ck by (auto simp: fail_login_def http_redirect_def Let_def split: option.splits)
next
  case (stored claims cookie pf stored token expires)
  have ck_value: "ck_value ck = token"
    using ck stored(6) by (auto simp: set_cookie_def clear_cookie_def oauth_cookie_name_def session_cookie_name_def)
  obtain s' where "upsert_profile (ce_tx env) (owner_key_of (pf_subject pf)) pf (of_int (ce_now env)) (wd_db w, wd_profiles w)
      = (Inr stored, (s', wd_profiles w'))"
    using stored(4) by (auto simp: store_profile_def Let_def split: prod.splits)
  from upserted_subject [OF ok this] obtain row where row: "row \<in> set (wd_profiles w')" "pw_owner row = owner_key_of (pf_subject pf)"
      "stored = stored_profile row" "pw_subject row \<noteq> []"
      "text_column 128 (pf_subject (normalized_profile pf)) = Inr (pw_subject row)" "profiles_ok (wd_profiles w')"
    by blast
  have texts: "profile_text_ok stored" "pf_subject stored \<noteq> []" "pf_subject stored = pw_subject row"
    using row by (auto simp: profiles_ok_def stored_profile_def)
  have expires: "expires = ce_now env + session_lifetime" using stored(5) by (auto simp: sign_session_def split: sum.splits)
  have verify: "verify_session (srv_jwt srv) (srv_tokens srv) t token
      = Some (session_claims_for (srv_jwt srv) (srv_tokens srv) (ce_now env) stored)"
    if "ce_now env \<le> t" "t < expires" for t
    using verify_own_session [OF L m texts(1,2) stored(5), of t] that
      jwt_laws(4) [OF L, of "ce_now env - 5000"] jwt_laws(5) [OF L, of expires] by auto
  have "pw_subject row = pf_subject pf" if "trim_space (pf_subject pf) = pf_subject pf" "rune_count (pf_subject pf) \<le> 128"
    using row(5) that by (auto simp: normalized_profile_def Let_def truncate_runes_def text_column_def varchar_def split: if_splits)
  moreover have "\<exists>claims. authenticate srv t r' = Some (claims, owner_key_of (pw_subject row)) \<and> claims_profile claims = stored_profile row"
    if "ce_now env \<le> t" "t < expires" "map_of (hr_cookies r') session_cookie_name = Some token" for t r'
    using verify [OF that(1,2)] that(3) texts(3) row(3)
    by (simp add: authenticate_def) (simp add: session_claims_for_def)
  ultimately show ?thesis using stored(3) row(1,2) ck_value expires by blast
qed

theorem login_authenticates_witness:
  "\<exists>token w'. \<exists>row \<in> set (wd_profiles w').
     snd (handle_callback ex_login_server ex_call_env ex_callback ex_world) = w'
     \<and> (\<exists>claims. authenticate ex_login_server 1000 (ex_request\<lparr>hr_cookies := [(session_cookie_name, token)]\<rparr>)
          = Some (claims, owner_key_of (pw_subject row)))"
proof -
  obtain token location w' where run: "handle_callback ex_login_server ex_call_env ex_callback ex_world
     = (Some \<lparr>rs_status = 302, rs_headers = [(''Cache-Control'', ''no-store''), (''Location'', location)],
          rs_cookies = [set_cookie session_cookie_name token (session_lifetime div 1000), clear_cookie oauth_cookie_name],
          rs_body = []\<rparr>, w')"
    using ex_callback_answer by blast
  have "jwt_documented (srv_jwt ex_login_server)" "manager_ok (srv_tokens ex_login_server)" "profiles_ok (wd_profiles ex_world)"
    by (simp_all add: ex_login_server_def ex_server_def paper_jwt_documented ex_token_texts ex_world_def profiles_ok_def)
  from login_authenticates [OF this run, of "set_cookie session_cookie_name token (session_lifetime div 1000)"]
  obtain row where "row \<in> set (wd_profiles w')"
    and "\<forall>t r'. ce_now ex_call_env \<le> t \<and> t < ce_now ex_call_env + session_lifetime
          \<and> map_of (hr_cookies r') session_cookie_name = Some (ck_value (set_cookie session_cookie_name token (session_lifetime div 1000)))
          \<longrightarrow> (\<exists>claims. authenticate ex_login_server t r' = Some (claims, owner_key_of (pw_subject row))
            \<and> claims_profile claims = stored_profile row)"
    by (simp add: set_cookie_def) blast
  from this(1) this(2) [rule_format, of 1000 "ex_request\<lparr>hr_cookies := [(session_cookie_name, token)]\<rparr>"] run
  show ?thesis by (auto simp: ex_call_env_def session_lifetime_def set_cookie_def)
qed

text \<open>
  C36. The callback sends the browser to the frontend and nowhere else, and it does not panic: for a
  configuration that was loaded, with no origin on a zone of an IPv6 address, every answer is a redirect
  whose location begins with \<open>https\<close>, the host of an allowed origin, and then a path, a query, a fragment or
  nothing, so that no other host can be read from it; a host in ASCII is written as it is. It sets cookies, and
  writes anything of a user, only when the state of the request opened the login of the cookie and
  Linux DO answered for the code with a profile.
\<close>

theorem callback_stays_on_frontend:
  assumes config: "load_from lookup = Inr (srv_config srv)" and zones: "zoneless (srv_config srv)"
    and run: "handle_callback srv env r w = (handled, w')"
  shows "\<exists>response location host rest. handled = Some response \<and> rs_status response = 302
    \<and> map_of (rs_headers response) ''Location'' = Some location
    \<and> ''https://'' @ host \<in> set (cg_frontend_origins (srv_config srv))
    \<and> location = ''https://'' @ url_escape EncHost host @ rest \<and> (rest = [] \<or> hd rest \<in> set ''/?#'')
    \<and> (\<forall>c \<in> set (url_escape EncHost host). c \<notin> set (CHR 0x5C # ''/?#@''))
    \<and> (list_all (\<lambda>c. of_char c < (128 :: nat)) host \<longrightarrow> url_escape EncHost host = host)
    \<and> (rs_cookies response \<noteq> [] \<or> w' \<noteq> w \<longrightarrow> (\<exists>cookie claims pf.
         map_of (hr_cookies r) oauth_cookie_name = Some cookie
         \<and> verify_oauth_state (srv_jwt srv) (srv_tokens srv) (ce_now env) cookie (query_get r ''state'') = Some claims
         \<and> complete_login (srv_json srv) (srv_oauth srv) (srv_http_client srv) (query_get r ''code'') claims = Inr pf))"
proof -
  have on_failure: "rs_cookies response = []" if "fail_login srv return_to = Some response" for response return_to
    using that by (auto simp: fail_login_def http_redirect_def Let_def split: option.splits)
  have written: "(\<forall>response. handled = Some response \<longrightarrow> rs_cookies response = []) \<and> w' = w
    \<or> (\<exists>cookie claims pf. map_of (hr_cookies r) oauth_cookie_name = Some cookie
         \<and> verify_oauth_state (srv_jwt srv) (srv_tokens srv) (ce_now env) cookie (query_get r ''state'') = Some claims
         \<and> complete_login (srv_json srv) (srv_oauth srv) (srv_http_client srv) (query_get r ''code'') claims = Inr pf)"
    using run on_failure
    by (auto simp: handle_callback_def Let_def split: if_splits option.splits sum.splits prod.splits)
  obtain response location u where answer: "handled = Some response" "rs_status response = 302"
      "map_of (rs_headers response) ''Location'' = Some location"
    and page: "frontend_page (srv_config srv) u" and leads: "leads_to (gu_host u) location"
    using run
  proof (cases rule: handle_callback_cases)
    case (failed return_to)
    with that show ?thesis using fail_login_leads [OF config zones, of return_to] by metis
  next
    case (stored claims cookie pf stored token expires)
    obtain u where page: "frontend_page (srv_config srv) u"
      and valid: "validated_frontend_return_url srv (oc_return_to claims) = url_string u"
      by (rule validated_page [OF config zones])
    from stored(6) show ?thesis
      by (rule that [OF _ _ _ page frontend_page_leads [OF page]]) (simp_all add: valid)
  qed
  obtain rest where location: "location = ''https://'' @ url_escape EncHost (gu_host u) @ rest" "rest = [] \<or> hd rest \<in> set ''/?#''"
    using leads unfolding leads_to_def by blast
  have "\<forall>c \<in> set (url_escape EncHost (gu_host u)). c \<notin> set (CHR 0x5C # ''/?#@'')"
    using escape_host_delimiters by auto
  moreover have "''https://'' @ gu_host u \<in> set (cg_frontend_origins (srv_config srv))"
    using page by (auto simp: frontend_page_def web_url_def url_origin_def)
  ultimately show ?thesis
    using answer location page written unfolding frontend_page_def by blast
qed

theorem callback_stays_on_frontend_witness:
  "\<exists>response w' location rest. handle_callback ex_login_server ex_call_env ex_callback ex_world = (Some response, w')
    \<and> rs_status response = 302 \<and> map_of (rs_headers response) ''Location'' = Some location
    \<and> location = ''https://app'' @ rest \<and> (rest = [] \<or> hd rest \<in> set ''/?#'')"
proof -
  have config: "load_from ex_lookup = Inr (srv_config ex_login_server)" using ex_config_loaded by (simp add: ex_login_server_def ex_server_def)
  have zones: "zoneless (srv_config ex_login_server)" by (simp add: zoneless_def ex_login_server_def ex_server_def ex_config_def)
  obtain handled w' where run: "handle_callback ex_login_server ex_call_env ex_callback ex_world = (handled, w')" by fastforce
  from callback_stays_on_frontend [OF config zones run] obtain response location host rest where
    answer: "handled = Some response" "rs_status response = 302" "map_of (rs_headers response) ''Location'' = Some location"
    and host: "''https://'' @ host \<in> set (cg_frontend_origins (srv_config ex_login_server))"
      "list_all (\<lambda>c. of_char c < (128 :: nat)) host \<longrightarrow> url_escape EncHost host = host"
    and location: "location = ''https://'' @ url_escape EncHost host @ rest" "rest = [] \<or> hd rest \<in> set ''/?#''"
    by blast
  have "host = ''app''" using host(1) by (simp add: ex_login_server_def ex_server_def ex_config_def)
  with host(2) location have "location = ''https://app'' @ rest" by simp
  with run answer location(2) show ?thesis by blast
qed

end
