(* ===== verification/Command.thy ===== *)
theory Command
  imports Sessions Migrations
begin

text \<open>
  The program (\<open>cmd/study-list-api/main.go\<close>): the choice of the command, what \<open>serve\<close> checks before it
  listens and the server it puts together, \<open>migrate\<close>, and \<open>healthcheck\<close>. What lives outside of the process
  (the environment, MySQL and Redis answering, the clock and the libraries) is a record that the
  definitions take as an argument.
\<close>

section \<open>Choosing the command\<close>

datatype command = Serve | Migrate | Healthcheck

datatype command_error =
    UnknownCommand string
  | ConfigFailed config_error
  | ConnectMySQL err
  | SchemaCheck err
  | RedisURL err
  | ConnectRedis err
  | TokensFailed manager_error
  | ServerFailed string
  | MigrationFailed err
  | HealthAddress
  | HealthRequest err
  | HealthStatus nat

definition select_command :: "string list \<Rightarrow> command_error + command" where
  "select_command arguments =
     (let command = (case arguments of [] \<Rightarrow> ''serve'' | a # _ \<Rightarrow> a)
      in if command = ''serve'' then Inr Serve
         else if command = ''migrate'' then Inr Migrate
         else if command = ''healthcheck'' then Inr Healthcheck
         else Inl (UnknownCommand command))"

section \<open>The logger\<close>

datatype log_level = LevelDebug | LevelInfo | LevelWarn | LevelError

definition new_logger :: "string \<Rightarrow> log_level" where
  "new_logger level =
     (let l = to_lower level
      in if l = ''debug'' then LevelDebug
         else if l = ''warn'' then LevelWarn
         else if l = ''error'' then LevelError
         else LevelInfo)"

section \<open>Serve\<close>

text \<open>
  The outside of a start: \<open>os.LookupEnv\<close>, whether MySQL can be opened and Redis answers, the order in which
  the map of required variables is visited, and the libraries.
\<close>

record 's outside =
  ou_lookup :: "string \<Rightarrow> string option"
  ou_open_mysql :: "string \<Rightarrow> err option"
  ou_parse_redis_url :: "string \<Rightarrow> err option"
  ou_ping_redis :: "err option"
  ou_map_order :: "(string \<times> string) list \<Rightarrow> (string \<times> string) list"
  ou_jwt :: jwt_library
  ou_http_client :: http_client
  ou_json :: go_json
  ou_proto :: proto_codec
  ou_redis :: "'s redis_commands"
  ou_service :: service
  ou_build :: build_info

definition load_config :: "'s outside \<Rightarrow> config_error + config" where
  "load_config env = load_from (ou_lookup env)"

definition new_provider :: "string \<Rightarrow> string \<Rightarrow> string \<Rightarrow> string \<Rightarrow> token_manager \<Rightarrow> oauth_provider" where
  "new_provider client_id client_secret redirect_uri frontend_url manager =
     \<lparr>ap_client_id = client_id, ap_client_secret = client_secret, ap_redirect_uri = redirect_uri,
      ap_frontend_url = frontend_url, ap_tokens = manager\<rparr>"

text \<open>\<open>NewServer\<close> on complete dependencies: it fails on a trusted proxy that is no CIDR.\<close>

fun parse_networks :: "string list \<Rightarrow> ip_net list option" where
  "parse_networks [] = Some []"
| "parse_networks (raw # rest) =
     (case parse_cidr raw of
        None \<Rightarrow> None
      | Some network \<Rightarrow> map_option (Cons network) (parse_networks rest))"

definition new_server ::
  "'s outside \<Rightarrow> config \<Rightarrow> token_manager \<Rightarrow> oauth_provider \<Rightarrow> command_error + 's server" where
  "new_server env c manager provider =
     (case parse_networks (cg_trusted_proxy_cidrs c) of
        None \<Rightarrow> Inl (ServerFailed ''invalid trusted proxy CIDR'')
      | Some networks \<Rightarrow>
          Inr \<lparr>srv_config = c, srv_jwt = ou_jwt env, srv_tokens = manager, srv_oauth = provider,
               srv_http_client = ou_http_client env, srv_json = ou_json env, srv_proto = ou_proto env, srv_redis = ou_redis env,
               srv_redis_prefix = cg_redis_key_prefix c, srv_service = ou_service env, srv_build = ou_build env,
               srv_trusted_proxies = networks\<rparr>)"

text \<open>\<open>serve\<close> up to the moment it starts to listen.\<close>

definition start_server :: "'s outside \<Rightarrow> 'd schema \<Rightarrow> command_error + 's server" where
  "start_server env schema =
     (case load_config env of
        Inl e \<Rightarrow> Inl (ConfigFailed e)
      | Inr c \<Rightarrow>
     (case validate_serve (ou_map_order env) c of
        Inl e \<Rightarrow> Inl (ConfigFailed e)
      | Inr _ \<Rightarrow>
     (case ou_open_mysql env (cg_mysql_dsn c) of
        Some e \<Rightarrow> Inl (ConnectMySQL e)
      | None \<Rightarrow>
     (case check_schema schema of
        Inl e \<Rightarrow> Inl (SchemaCheck e)
      | Inr _ \<Rightarrow>
     (case ou_parse_redis_url env (cg_redis_url c) of
        Some e \<Rightarrow> Inl (RedisURL e)
      | None \<Rightarrow>
     (case ou_ping_redis env of
        Some e \<Rightarrow> Inl (ConnectRedis e)
      | None \<Rightarrow>
     (case new_manager (cg_session_secret c) (public_issuer c) (cg_session_audience c) of
        Inl e \<Rightarrow> Inl (TokensFailed e)
      | Inr manager \<Rightarrow>
          new_server env c manager
            (new_provider (cg_client_id c) (cg_client_secret c) (public_url c ''v1/auth/callback'')
               (url_string (cg_frontend_return_url c)) manager))))))))"

section \<open>Migrate\<close>

definition migrate_command ::
  "'s outside \<Rightarrow> migration_env \<Rightarrow> 'd ddl \<Rightarrow> string \<Rightarrow> 'd schema \<Rightarrow> (command_error + unit) \<times> 'd schema" where
  "migrate_command env E exec source schema =
     (case load_config env of
        Inl e \<Rightarrow> (Inl (ConfigFailed e), schema)
      | Inr c \<Rightarrow>
     (case validate_migrate c of
        Inl e \<Rightarrow> (Inl (ConfigFailed e), schema)
      | Inr _ \<Rightarrow>
     (case ou_open_mysql env (cg_mysql_dsn c) of
        Some e \<Rightarrow> (Inl (ConnectMySQL e), schema)
      | None \<Rightarrow>
          (case migrate_up E exec source schema of
             (Inl e, schema') \<Rightarrow> (Inl (MigrationFailed e), schema')
           | (Inr _, schema') \<Rightarrow> (Inr (), schema')))))"

section \<open>Health check\<close>

text \<open>Where the health check asks.\<close>

definition health_target :: "config \<Rightarrow> string option" where
  "health_target c =
     (case split_host_port (cg_http_addr c) of
        None \<Rightarrow> None
      | Some (host, port) \<Rightarrow>
          (let host' = (if host = [] \<or> host = ''0.0.0.0'' \<or> host = ''::'' then ''127.0.0.1'' else host)
           in Some (''http://'' @ join_host_port host' port @ public_path c ''healthz'')))"

text \<open>\<open>get\<close> is the HTTP client: the status of the answer, or that there is none.\<close>

definition healthcheck_command :: "'s outside \<Rightarrow> (string \<Rightarrow> err + nat) \<Rightarrow> command_error + unit" where
  "healthcheck_command env get =
     (case load_config env of
        Inl e \<Rightarrow> Inl (ConfigFailed e)
      | Inr c \<Rightarrow>
          (case health_target c of
             None \<Rightarrow> Inl HealthAddress
           | Some target \<Rightarrow>
               (case get target of
                  Inl e \<Rightarrow> Inl (HealthRequest e)
                | Inr status \<Rightarrow> if status \<noteq> 200 then Inl (HealthStatus status) else Inr ())))"

section \<open>What a start has checked\<close>

lemma start_server_some:
  assumes "start_server env schema = Inr srv"
  obtains c manager where "load_config env = Inr c" and "validate_serve (ou_map_order env) c = Inr ()"
    and "check_schema schema = Inr ()" and "ou_ping_redis env = None"
    and "new_manager (cg_session_secret c) (public_issuer c) (cg_session_audience c) = Inr manager"
    and "new_server env c manager
      (new_provider (cg_client_id c) (cg_client_secret c) (public_url c ''v1/auth/callback'')
         (url_string (cg_frontend_return_url c)) manager) = Inr srv"
  using assms by (auto simp: start_server_def split: sum.splits option.splits)

lemma new_server_some:
  assumes "new_server env c manager provider = Inr srv"
  shows "srv_config srv = c" "srv_tokens srv = manager" "srv_oauth srv = provider" "srv_redis_prefix srv = cg_redis_key_prefix c" "parse_networks (cg_trusted_proxy_cidrs c) = Some (srv_trusted_proxies srv)"
  using assms by (auto simp: new_server_def split: option.splits)

lemma load_from_some:
  assumes "load_from lookup = Inr c"
  shows "cg_frontend_origins c \<noteq> [] \<and> distinct (cg_frontend_origins c) \<and> (\<forall>x \<in> set (cg_frontend_origins c). https_origin x)
    \<and> url_origin (cg_frontend_return_url c) \<in> set (cg_frontend_origins c) \<and> gu_user (cg_frontend_return_url c) = None
    \<and> gu_scheme (cg_public_base_url c) = ''https'' \<and> gu_host (cg_public_base_url c) \<noteq> []
    \<and> has_suffix (gu_path (cg_public_base_url c)) ''/'' \<and> (\<exists>raw. normalized_base_url raw = Inr (cg_public_base_url c))"
proof -
  have base: "gu_scheme u = ''https'' \<and> gu_host u \<noteq> [] \<and> has_suffix (gu_path u) ''/''"
    if "normalized_base_url raw = Inr u" for raw u
    using that by (auto simp: normalized_base_url_def has_suffix_def split: option.splits if_splits)
  show ?thesis
    using assms normalized_origins_ok base
    by (auto simp: load_from_def Let_def simp del: not_None_eq split: sum.splits option.splits if_splits)
qed

section \<open>The public URL\<close>

text \<open>
  A base URL whose public URLs can be told from its path: no user, no percent sign in the host (a zone), the
  default encoding of the path, no dot segments in it, and none of the two characters that the router
  reads as parameters.
\<close>

definition plain_base :: "go_url \<Rightarrow> bool" where
  "plain_base base \<longleftrightarrow> gu_user base = None \<and> CHR 0x25 \<notin> set (gu_host base) \<and> gu_raw_path base = []
     \<and> no_dots (trim_suffix (gu_path base) ''/'') \<and> CHR '':'' \<notin> set (gu_path base) \<and> CHR ''*'' \<notin> set (gu_path base)"

lemma normalized_base_web:
  assumes "normalized_base_url raw = Inr base" and "plain_base base"
  shows "web_url base" and "\<exists>path. gu_path base = path @ ''/'' \<and> trim_suffix (gu_path base) ''/'' = path \<and> no_dots path"
    and "hd (gu_path base) = CHR ''/''"
proof -
  obtain u where u: "url_parse raw = Some u" "gu_scheme u = ''https''" "gu_host u \<noteq> []"
    and base: "base = u \<and> has_suffix (gu_path u) ''/'' \<or> base = u\<lparr>gu_path := gu_path u @ ''/''\<rparr>"
    using assms(1) by (auto simp: normalized_base_url_def split: option.splits if_splits)
  have "web_url u" using assms(2) base by (intro url_parse_web [OF u]) (auto simp: plain_base_def)
  then show web: "web_url base" using base by (cases "gu_path u") (auto simp: web_url_def)
  obtain path where path: "gu_path base = path @ ''/''"
    using base by (auto simp: has_suffix_def) (metis append_take_drop_id)
  then have "trim_suffix (gu_path base) ''/'' = path" by (simp add: trim_suffix_def has_suffix_def)
  with path assms(2) show "\<exists>path. gu_path base = path @ ''/'' \<and> trim_suffix (gu_path base) ''/'' = path \<and> no_dots path"
    by (auto simp: plain_base_def)
  show "hd (gu_path base) = CHR ''/''" using web path by (auto simp: web_url_def)
qed

text \<open>The URL Linux DO sends the browser back to is that of the route.\<close>

lemma callback_url_route:
  assumes base: "normalized_base_url raw = Inr (cg_public_base_url c)" and plain: "plain_base (cg_public_base_url c)"
  shows "\<exists>u. url_parse (public_url c ''v1/auth/callback'') = Some u \<and> gu_scheme u = ''https'' \<and> gu_user u = None
    \<and> gu_host u = gu_host (cg_public_base_url c) \<and> gu_path u = public_path c ''v1/auth/callback'' \<and> gu_raw_query u = []"
proof -
  let ?base = "cg_public_base_url c" and ?rel = "''v1/auth/callback''"
  obtain path where path: "gu_path ?base = path @ ''/''" "trim_suffix (gu_path ?base) ''/'' = path" "no_dots path"
    using normalized_base_web(2) [OF base plain] by blast
  define u where "u = empty_url\<lparr>gu_scheme := gu_scheme ?base, gu_host := gu_host ?base, gu_user := gu_user ?base, gu_path := gu_path ?base @ ?rel\<rparr>"
  have "no_dots ?rel" "url_escape EncPath ?rel = ?rel" by code_simp+
  then have "url_resolve ?base ?rel = u"
    unfolding u_def using normalized_base_web(3) [OF base plain] path plain
    by (intro url_resolve_plain [where path = path]) (simp_all add: plain_base_def)
  moreover have "web_url u"
    using normalized_base_web(1,3) [OF base plain] path(1)
    by (cases path) (auto simp: web_url_def u_def empty_url_def)
  ultimately have "url_parse (public_url c ?rel) = Some (reparsed u)"
    by (simp add: public_url_def trim_prefix_def has_prefix_def url_round_trip)
  moreover have "public_path c ?rel = gu_path u"
    using path(2) by (simp add: public_path_def u_def trim_prefix_def has_prefix_def path(1))
  ultimately show ?thesis
    using normalized_base_web(1) [OF base plain] by (auto simp: u_def empty_url_def web_url_def)
qed

lemma callback_is_routed:
  "hr_method r = ''GET'' \<Longrightarrow> hr_path r = public_path c ''v1/auth/callback'' \<Longrightarrow> route c r = Some EndCallback"
  by (simp add: route_def fixed_routes_def public_path_def trim_prefix_def has_prefix_def)

end
