(* ===== verification/CommandProps.thy ===== *)
theory CommandProps
  imports Command SessionProps
begin

text \<open>
  The properties of the program as a whole: what has been checked before it listens, what a migration
  leaves for the next start, which requests the router lets through to a handler, and that a server that
  runs passes the health check.
\<close>

section \<open>Start and migration\<close>

text \<open>
  C37. What listens has been checked: the schema is the one this program knows and clean; every secret is
  set and the signing key has 32 bytes; the allowed origins are distinct \<open>https\<close> origins and the return
  URL belongs to one of them; every trusted proxy is a network; the cookies are signed and the logins begun
  with one and the same key. If the public base is plain, with no user, no percent sign in the host, the
  default encoding of the path, no dot segments and no \<open>:\<close> or \<open>*\<close> in it, then the address Linux DO is told
  to send the browser back to, read as the URL it is, is an \<open>https\<close> URL on the host of the public base,
  and a \<open>GET\<close> of its path is routed to the callback. (With dot segments it is not: the address resolves
  them and the routes do not.)
\<close>

theorem startup_is_checked:
  assumes start: "start_server env schema = Inr srv" and order: "\<And>xs. set (ou_map_order env xs) = set xs"
  shows "check_schema schema = Inr ()
    \<and> (\<forall>(name, v) \<in> set (required_variables (srv_config srv)). trim_space v \<noteq> [])
    \<and> 32 \<le> length (tm_secret (srv_tokens srv)) \<and> tm_issuer (srv_tokens srv) \<noteq> [] \<and> tm_audience (srv_tokens srv) \<noteq> []
    \<and> cg_frontend_origins (srv_config srv) \<noteq> [] \<and> distinct (cg_frontend_origins (srv_config srv))
    \<and> (\<forall>origin \<in> set (cg_frontend_origins (srv_config srv)). https_origin origin)
    \<and> url_origin (cg_frontend_return_url (srv_config srv)) \<in> set (cg_frontend_origins (srv_config srv))
    \<and> parse_networks (cg_trusted_proxy_cidrs (srv_config srv)) = Some (srv_trusted_proxies srv)
    \<and> ap_tokens (srv_oauth srv) = srv_tokens srv
    \<and> (plain_base (cg_public_base_url (srv_config srv)) \<longrightarrow>
         (\<exists>u. url_parse (ap_redirect_uri (srv_oauth srv)) = Some u \<and> gu_scheme u = ''https''
            \<and> gu_host u = gu_host (cg_public_base_url (srv_config srv))
            \<and> (\<forall>r. hr_method r = ''GET'' \<longrightarrow> hr_path r = gu_path u \<longrightarrow> route (srv_config srv) r = Some EndCallback)))"
proof -
  obtain c manager where c: "load_config env = Inr c" "validate_serve (ou_map_order env) c = Inr ()"
      "check_schema schema = Inr ()"
    and manager: "new_manager (cg_session_secret c) (public_issuer c) (cg_session_audience c) = Inr manager"
    and srv: "new_server env c manager
      (new_provider (cg_client_id c) (cg_client_secret c) (public_url c ''v1/auth/callback'')
         (url_string (cg_frontend_return_url c)) manager) = Inr srv"
    by (rule start_server_some [OF start])
  have loaded: "load_from (ou_lookup env) = Inr c" using c(1) by (simp add: load_config_def)
  have required: "\<forall>(name, v) \<in> set (required_variables c). trim_space v \<noteq> []"
    using c(2) order by (auto simp: validate_serve_def require_all_ok split: sum.splits)
  obtain raw where base: "normalized_base_url raw = Inr (cg_public_base_url c)"
    using load_from_some [OF loaded] by blast
  have callback: "plain_base (cg_public_base_url c) \<Longrightarrow>
      \<exists>u. url_parse (public_url c ''v1/auth/callback'') = Some u \<and> gu_scheme u = ''https''
        \<and> gu_host u = gu_host (cg_public_base_url c)
        \<and> (\<forall>r. hr_method r = ''GET'' \<longrightarrow> hr_path r = gu_path u \<longrightarrow> route c r = Some EndCallback)"
    using callback_url_route [OF base] callback_is_routed by metis
  show ?thesis
    using c(3) required callback new_server_some [OF srv] new_manager_ok [OF manager] load_from_some [OF loaded]
    by (simp add: new_provider_def)
qed

text \<open>An environment that sets every required variable.\<close>

definition ex_outside :: "memory_redis outside" where
  "ex_outside =
     \<lparr>ou_lookup = ex_lookup,
      ou_open_mysql = (\<lambda>_. None), ou_parse_redis_url = (\<lambda>_. None), ou_ping_redis = None, ou_map_order = rev,
      ou_jwt = paper_jwt, ou_http_client = ex_upstream, ou_json = ex_json,
      ou_proto = ex_codec, ou_redis = memory_commands, ou_service = ex_service,
      ou_build = \<lparr>bi_version = ''dev'', bi_commit = ''unknown'', bi_build_time = ''unknown''\<rparr>\<rparr>"

lemma ex_loaded: "load_config ex_outside = Inr ex_config"
  by (simp add: load_config_def ex_outside_def ex_config_loaded)

lemma ex_validated: "validate_serve (ou_map_order ex_outside) ex_config = Inr ()"
proof -
  have "tm_secret ex_manager \<noteq> []" by (simp add: ex_manager_def)
  then have "require_all (ou_map_order ex_outside (required_variables ex_config)) = Inr ()"
    unfolding require_all_ok by (simp add: required_variables_def ex_config_def ex_outside_def ex_config_trimmed)
  moreover have "check_cidrs [''10.0.0.0/8''] = Inr ()" by code_simp
  ultimately show ?thesis
    by (simp add: validate_serve_def minimum_signing_secret_len_def) (simp add: ex_config_def ex_manager_def)
qed

definition ex_schema :: "nat schema" where
  "ex_schema = \<lparr>sm_versions = Some [(1, False)], sm_data = 0\<rparr>"

lemma ex_schema_current: "check_schema ex_schema = Inr ()"
  by (simp add: check_schema_def ex_schema_def current_version_def)

lemma ex_started: "\<exists>srv. start_server ex_outside ex_schema = Inr srv"
proof -
  have "trim_suffix (url_string ex_public_base) ''/'' \<noteq> []" by code_simp
  then have "public_issuer ex_config \<noteq> []" by (simp add: public_issuer_def ex_config_def)
  then have "\<exists>manager. new_manager (cg_session_secret ex_config) (public_issuer ex_config) (cg_session_audience ex_config) = Inr manager"
    by (simp add: new_manager_def) (simp add: ex_config_def ex_manager_def)
  moreover have "\<exists>networks. parse_networks (cg_trusted_proxy_cidrs ex_config) = Some networks"
  proof -
    have "parse_networks [''10.0.0.0/8''] \<noteq> None" by code_simp
    then show ?thesis by (auto simp: ex_config_def)
  qed
  moreover have outside: "ou_open_mysql ex_outside dsn = None" "ou_parse_redis_url ex_outside url = None" "ou_ping_redis ex_outside = None"
    for dsn url by (simp_all add: ex_outside_def)
  ultimately show ?thesis
    using ex_schema_current outside by (auto simp: start_server_def ex_loaded ex_validated new_server_def)
qed

theorem startup_is_checked_witness:
  "\<exists>srv u. start_server ex_outside ex_schema = Inr srv \<and> 32 \<le> length (tm_secret (srv_tokens srv))
    \<and> url_parse (ap_redirect_uri (srv_oauth srv)) = Some u \<and> gu_scheme u = ''https'' \<and> gu_host u = ''api''"
proof -
  obtain srv where start: "start_server ex_outside ex_schema = Inr srv" using ex_started by blast
  then have "srv_config srv = ex_config"
    using ex_loaded by (auto elim!: start_server_some dest!: new_server_some(1))
  moreover have "plain_base ex_public_base" by code_simp
  ultimately have "plain_base (cg_public_base_url (srv_config srv))" "gu_host (cg_public_base_url (srv_config srv)) = ''api''"
    by (simp_all add: ex_config_def) (simp add: ex_public_base_def empty_url_def)
  moreover have "set (ou_map_order ex_outside xs) = set xs" for xs by (simp add: ex_outside_def)
  ultimately show ?thesis using startup_is_checked [OF start] start by metis
qed


text \<open>A migration whose last reply is lost: it fails, and a server can start.\<close>

definition ex_lost_reply :: migration_env where
  "ex_lost_reply = \<lparr>me_connection = None, me_lock = Inr 1, me_created = False, me_read = None, me_mark = None,
     me_clean = Some (True, ErrExternal ''invalid connection'')\<rparr>"

lemma ex_migrate:
  assumes "me_connection E = None" "me_lock E = Inr 1" "me_read E = None" "me_mark E = None"
  shows "migrate_command ex_outside E (\<lambda>_ d. (None, Suc d)) ''1;u'' \<lparr>sm_versions = None, sm_data = 0\<rparr> =
    (case me_clean E of None \<Rightarrow> (Inr (), \<lparr>sm_versions = Some [(1, False)], sm_data = 2\<rparr>)
     | Some (effect, e) \<Rightarrow> (Inl (MigrationFailed e), \<lparr>sm_versions = Some [(1, \<not> effect)], sm_data = 2\<rparr>))"
proof -
  have "split_statements ''1;u'' = [''1'', ''u'']" by (simp add: split_statements_def ex_trimmed)
  then have "migrate_up E (\<lambda>_ d. (None, Suc d)) ''1;u'' \<lparr>sm_versions = None, sm_data = 0\<rparr> =
    (case me_clean E of None \<Rightarrow> (Inr (), \<lparr>sm_versions = Some [(1, False)], sm_data = 2\<rparr>)
     | Some (effect, e) \<Rightarrow> (Inl e, \<lparr>sm_versions = Some [(1, \<not> effect)], sm_data = 2\<rparr>))"
    using assms by (simp add: migrate_up_def Let_def insert_version_def mark_version_def current_version_def split: option.splits)
  moreover have "cg_mysql_dsn ex_config = ''dsn''" by (simp add: ex_config_def)
  moreover have "ou_open_mysql ex_outside dsn = None" for dsn by (simp add: ex_outside_def)
  ultimately show ?thesis
    by (simp add: migrate_command_def validate_migrate_def ex_config_trimmed ex_loaded split: option.splits)
qed


text \<open>The migration whose last reply is lost leaves a schema that passes the check.\<close>

lemma ex_lost_reply_starts:
  "\<exists>e schema'. migrate_command ex_outside ex_lost_reply (\<lambda>_ d. (None, Suc d)) ''1;u''
      \<lparr>sm_versions = None, sm_data = (0 :: nat)\<rparr> = (Inl (MigrationFailed e), schema')
    \<and> check_schema schema' = Inr ()"
  by (simp add: ex_migrate ex_lost_reply_def check_schema_def current_version_def)

section \<open>The router\<close>

text \<open>The paths of the routes are different, so every route is found.\<close>

lemma route_session: "route c r = Some e \<Longrightarrow> e \<in> {EndSession, EndLogout, EndExchange, EndDiff, EndResolve} \<Longrightarrow>
    hr_method r \<noteq> ''OPTIONS'' \<and> hr_path r \<in> set (map (public_path c)
      [''v1/auth/session'', ''v1/auth/logout'', ''v1/sync/exchange'', ''v1/sync/diff'', ''v1/sync/events'', ''v1/sync/resolve''])"
  by (auto simp: route_def fixed_routes_def split: option.splits if_splits)

lemma cors_refuses:
  assumes "requires_browser_source srv (hr_path r)" and "hr_method r \<noteq> ''OPTIONS''" and "\<not> valid_state_origin srv r"
  shows "cors srv r = Inl (write_api_error 403 ''invalid_origin'') \<or> cors srv r = Inl (write_api_error 403 ''invalid_referer'')"
  using assms by (auto simp: cors_def valid_state_origin_def Let_def)

text \<open>No handler names an allowed origin of its own.\<close>

definition names_no_origin :: "http_response \<Rightarrow> bool" where
  "names_no_origin response \<longleftrightarrow> ''Access-Control-Allow-Origin'' \<notin> fst ` set (rs_headers response)"

lemma names_no_origin_simps [simp]:
  "names_no_origin (write_json status members)" "names_no_origin (write_api_error status code)" "names_no_origin internal_error"
  "names_no_origin (http_redirect url status)"
  "name \<noteq> ''Access-Control-Allow-Origin'' \<Longrightarrow> names_no_origin (with_header name v response) = names_no_origin response"
  "names_no_origin (response\<lparr>rs_cookies := cs\<rparr>) = names_no_origin response"
  by (simp_all add: names_no_origin_def write_json_def write_api_error_def internal_error_def http_redirect_def with_header_def)

lemma handlers_name_no_origin:
  "names_no_origin (handle_login srv now random1 random2 r)" "names_no_origin (handle_logout srv r)"
  "names_no_origin (handle_ready mysql redis schema)" "names_no_origin (handle_version srv)" "names_no_origin handle_health"
  "names_no_origin (fst (handle_session srv env r w))"
  "fst (handle_callback srv env r w) = Some response \<Longrightarrow> names_no_origin response"
  by (auto simp: handle_login_def handle_logout_def handle_ready_def handle_version_def handle_health_def handle_session_def
        Let_def split: sum.splits option.splits prod.splits)
    (auto simp: names_no_origin_def handle_callback_def fail_login_def http_redirect_def Let_def
        split: sum.splits option.splits prod.splits if_splits)

lemma sync_names_no_origin: "names_no_origin (fst (handle_sync_http srv env operation r w))"
proof -
  have errors: "names_no_origin (write_envelope_error e)" "names_no_origin (write_sync_error e')" "names_no_origin (write_call_error e'')"
    for e e' e''
    by (auto simp: write_envelope_error_def write_sync_error_def write_call_error_def
        split: envelope_error.splits err.splits call_error.splits)
  then have "names_no_origin (write_sync_answer answer)" for answer
    by (auto simp: write_sync_answer_def split: sum.splits)
  with errors show ?thesis
    by (auto simp: handle_sync_http_def Let_def split: option.splits sum.splits prod.splits)
qed

lemma middleware_origin:
  assumes "with_middleware srv request_id r handler w = (response, w')"
    and "\<And>answer. fst (handler w) = Some answer \<Longrightarrow> names_no_origin answer"
    and "(''Access-Control-Allow-Origin'', origin) \<in> set (rs_headers response)"
  shows "origin = hr_origin r \<and> origin \<in> set (cg_frontend_origins (srv_config srv))"
proof -
  let ?hs = "(''X-Request-Id'', request_id) # security_headers"
  let ?ok = "origin = hr_origin r \<and> origin \<in> set (cg_frontend_origins (srv_config srv))"
  have none: "(''Access-Control-Allow-Origin'', origin) \<notin> set (rs_headers answer)" if "names_no_origin answer" for answer
    using that by (force simp: names_no_origin_def)
  show ?thesis
  proof (cases "cors srv r")
    case (Inl refused)
    then have "response = add_headers ?hs refused" using assms(1) by (simp add: with_middleware_def Let_def)
    with assms(3) have "(''Access-Control-Allow-Origin'', origin) \<in> set (rs_headers refused)" by (simp add: add_headers_def security_headers_def)
    then show ?thesis using Inl none [OF names_no_origin_simps(2)] by (auto simp: cors_def Let_def split: if_splits)
  next
    case (Inr headers)
    have cors: "(''Access-Control-Allow-Origin'', origin) \<in> set headers \<Longrightarrow> ?ok"
      using Inr by (auto simp: cors_def Let_def split: if_splits)
    obtain answer where "response = add_headers (?hs @ headers) answer" "names_no_origin answer"
      using assms(1,2) Inr by (auto simp: with_middleware_def recovery_def Let_def split: prod.splits option.splits)
    with assms(3) none cors show ?thesis by (auto simp: add_headers_def security_headers_def)
  qed
qed

lemma middleware_refused:
  assumes "with_middleware srv request_id r handler w = (response, w')"
    and "requires_browser_source srv (hr_path r)" and "hr_method r \<noteq> ''OPTIONS''" and "\<not> valid_state_origin srv r"
  shows "rs_status response = 403 \<and> rs_cookies response = [] \<and> w' = w"
  using cors_refuses [OF assms(2-4)] assms(1)
  by (auto simp: with_middleware_def Let_def add_headers_def write_api_error_def write_json_def)

text \<open>The requests the router serves are handlers behind the middleware.\<close>

lemma serve_request_middleware:
  assumes "serve_request srv env random health request_id e r w = Some (response, w')"
  shows "\<exists>handler. with_middleware srv request_id r handler w = (response, w')
    \<and> (\<forall>answer. fst (handler w) = Some answer \<longrightarrow> names_no_origin answer)"
proof -
  have served: ?thesis if "with_middleware srv request_id r h w = (response, w')"
    and "\<And>answer. fst (h w) = Some answer \<Longrightarrow> names_no_origin answer" for h
    using that by blast
  have preflight: "names_no_origin \<lparr>rs_status = 204, rs_headers = [], rs_cookies = [], rs_body = []\<rparr>" by (simp add: names_no_origin_def)
  have fst_case: "fst (case p of (x, w') \<Rightarrow> (Some x, w')) = Some (fst p)" for p :: "http_response \<times> 'a world" by (cases p) simp
  show ?thesis
    by (cases e; insert assms; simp add: serve_request_def; erule served;
        auto simp: fst_case preflight handlers_name_no_origin(1-6) sync_names_no_origin dest: handlers_name_no_origin(7))
qed

text \<open>
  C40. The router keeps other sites out: a request to the session, the logout or a synchronisation endpoint
  that does not come from an allowed origin, or without a referer of that origin, is answered with 403
  before any handler runs; nothing changes and no cookie is set. And whatever the endpoint, an answer
  names no origin as allowed but the one of the request, and only when it is on the list.
\<close>

theorem foreign_origins_refused:
  assumes run: "serve_request srv env random health request_id e r w = Some (response, w')"
    and route: "route (srv_config srv) r = Some e"
  shows "(e \<in> {EndSession, EndLogout, EndExchange, EndDiff, EndResolve} \<longrightarrow> \<not> valid_state_origin srv r \<longrightarrow>
         rs_status response = 403 \<and> rs_cookies response = [] \<and> w' = w)
    \<and> (\<forall>origin. (''Access-Control-Allow-Origin'', origin) \<in> set (rs_headers response) \<longrightarrow>
         origin = hr_origin r \<and> origin \<in> set (cg_frontend_origins (srv_config srv)))"
proof -
  obtain handler where h: "with_middleware srv request_id r handler w = (response, w')"
    "\<And>answer. fst (handler w) = Some answer \<Longrightarrow> names_no_origin answer"
    using serve_request_middleware [OF run] by blast
  have "rs_status response = 403 \<and> rs_cookies response = [] \<and> w' = w"
    if "e \<in> {EndSession, EndLogout, EndExchange, EndDiff, EndResolve}" "\<not> valid_state_origin srv r"
    using middleware_refused [OF h(1)] route_session [OF route that(1)] that(2) by (simp add: requires_browser_source_def)
  then show ?thesis using middleware_origin [OF h] by blast
qed

theorem foreign_origins_refused_witness:
  "\<exists>response. serve_request ex_server ex_call_env (Inl ErrNoRows, Inl ErrNoRows) (True, True, True) ''id'' EndLogout
      (ex_request\<lparr>hr_path := ''/hifumi/v1/auth/logout'', hr_origin := ''https://evil''\<rparr>) ex_world = Some (response, ex_world)
    \<and> rs_status response = 403"
proof -
  let ?r = "ex_request\<lparr>hr_path := ''/hifumi/v1/auth/logout'', hr_origin := ''https://evil''\<rparr>"
  obtain response w' where run: "serve_request ex_server ex_call_env (Inl ErrNoRows, Inl ErrNoRows) (True, True, True) ''id'' EndLogout ?r ex_world
      = Some (response, w')"
    by (cases "with_middleware ex_server ''id'' ?r (\<lambda>w. (Some (handle_logout ex_server ?r), w)) ex_world")
      (simp add: serve_request_def)
  have paths: "public_path ex_config relative = ''/hifumi/'' @ trim_prefix relative ''/''" for relative
    by (simp add: public_path_def ex_config_def ex_public_base_def empty_url_def trim_suffix_def has_suffix_def)
  have "route (srv_config ex_server) ?r = Some EndLogout"
    by (simp add: route_def fixed_routes_def ex_server_def paths ex_request_def trim_prefix_def has_prefix_def)
  moreover have "\<not> valid_state_origin ex_server ?r"
    by (simp add: valid_state_origin_def ex_server_def ex_config_def)
  ultimately show ?thesis using foreign_origins_refused [OF run] run by auto
qed

section \<open>The health check\<close>

lemma split_join_host_port:
  assumes "\<forall>c \<in> set host. c \<noteq> CHR ''['' \<and> c \<noteq> CHR '']'' \<and> c \<noteq> CHR '':''" and "\<forall>c \<in> set port. c \<noteq> CHR ''['' \<and> c \<noteq> CHR '']'' \<and> c \<noteq> CHR '':''"
  shows "split_host_port (join_host_port host port) = Some (host, port)"
proof -
  have "takeWhile (\<lambda>x. x \<noteq> CHR '':'') (rev (host @ CHR '':'' # port)) = rev port"
    using assms(2) by (simp add: takeWhile_append)
  moreover have "hd (host @ CHR '':'' # port) \<noteq> CHR ''[''" using assms(1) by (cases host) auto
  ultimately show ?thesis
    using assms by (auto simp: split_host_port_def join_host_port_def Let_def)
qed

text \<open>
  A server that was started passes the health check of the same configuration: the path it asks for is a
  route of the router, the middleware lets it through without an origin, and the answer is 200.
\<close>

theorem started_server_is_healthy:
  assumes start: "start_server env schema = Inr srv"
    and address: "split_host_port (cg_http_addr (srv_config srv)) = Some (host, port)"
    and r: "hr_method r = ''GET''" "hr_path r = public_path (srv_config srv) ''healthz''" "hr_origin r = []"
    and run: "serve_request srv cenv random health request_id e r w = Some (response, w')" "route (srv_config srv) r = Some e"
    and get: "\<And>target. health_target (srv_config srv) = Some target \<Longrightarrow> get target = Inr (rs_status response)"
  shows "e = EndHealth \<and> w' = w \<and> healthcheck_command env get = Inr ()"
proof -
  have e: "e = EndHealth" using run(2) r by (simp add: route_def fixed_routes_def)
  have "\<exists>headers. cors srv r = Inr headers"
    using r by (auto simp: cors_def Let_def requires_browser_source_def public_path_def trim_prefix_def has_prefix_def)
  then have answer: "rs_status response = 200" "w' = w"
    using run(1) by (auto simp: e serve_request_def with_middleware_def recovery_def Let_def add_headers_def handle_health_def)
  obtain c where c: "load_config env = Inr c" "srv_config srv = c"
    using start_server_some [OF start] new_server_some(1) by metis
  obtain target where "health_target c = Some target" using address c(2) by (auto simp: health_target_def Let_def)
  then show ?thesis using answer e get c by (simp add: healthcheck_command_def)
qed

section \<open>The address in the log\<close>

lemma parse_networks_some: "parse_networks raws = Some networks \<Longrightarrow> network \<in> set networks \<Longrightarrow>
    \<exists>raw \<in> set raws. parse_cidr raw = Some network"
  by (induction raws arbitrary: networks) (auto split: option.splits)

text \<open>
  A client cannot choose the address it is logged under: the line has the address of the connection, unless
  that one lies in one of the configured networks; then it may have one that the proxy has named, and
  that one is an IP address. Whatever the request is, its line has the status that was answered.
\<close>

theorem logged_client_is_not_forged:
  assumes start: "start_server env schema = Inr srv"
    and line: "line = request_log srv request_id remote_addr forwarded r response"
    and host: "host = (case split_host_port remote_addr of None \<Rightarrow> remote_addr | Some (host, _) \<Rightarrow> host)"
  shows "rl_line_status line = rs_status response
    \<and> (rl_line_client_ip line = host
       \<or> (\<exists>cidr \<in> set (cg_trusted_proxy_cidrs (srv_config srv)). \<exists>network ip. parse_cidr cidr = Some network
            \<and> parse_ip host = Some ip \<and> net_contains network ip)
          \<and> rl_line_client_ip line \<in> set (map trim_space (split_on CHR 0x2C forwarded))
          \<and> parse_ip (rl_line_client_ip line) \<noteq> None)"
proof (cases "rl_line_client_ip line = host")
  case False
  obtain c manager where "new_server env c manager
      (new_provider (cg_client_id c) (cg_client_secret c) (public_url c ''v1/auth/callback'')
         (url_string (cg_frontend_return_url c)) manager) = Inr srv"
    by (rule start_server_some [OF start])
  note networks = new_server_some(5) [OF this] and c = new_server_some(1) [OF this]
  define found where "found = find (\<lambda>candidate. parse_ip candidate \<noteq> None) (map trim_space (split_on CHR 0x2C forwarded))"
  obtain ip candidate where "parse_ip host = Some ip" "\<exists>network \<in> set (srv_trusted_proxies srv). net_contains network ip"
    "found = Some candidate" "rl_line_client_ip line = candidate"
    using False unfolding line host found_def
    by (simp add: request_log_def client_ip_def Let_def list_ex_iff split: option.splits if_splits prod.splits)
  moreover from this have "\<exists>cidr \<in> set (cg_trusted_proxy_cidrs (srv_config srv)). \<exists>network. parse_cidr cidr = Some network \<and> net_contains network ip"
    using parse_networks_some [OF networks] c by metis
  moreover have "candidate \<in> set (map trim_space (split_on CHR 0x2C forwarded)) \<and> parse_ip candidate \<noteq> None"
    using calculation(3) unfolding found_def by (auto simp: find_Some_iff simp del: not_None_eq)
  ultimately show ?thesis by (simp add: line request_log_def)
qed (simp add: line request_log_def)

end
