(* ===== verification/Serving.thy ===== *)
theory Serving
  imports Command WakeHub
begin

text \<open>
  What \<open>serve\<close> of \<open>cmd/study-list-api/main.go\<close> does from the moment it listens: it waits for a signal, for the outbox
  publisher to give up, or for the listener to fail; then it cancels the event streams, lets the other
  requests finish until a deadline, and returns; the deferred calls close the wake-up hub. The requests
  that are open, and the calls other goroutines make to the hub, are part of the state and of its steps.
\<close>

section \<open>State\<close>

text \<open>\<open>Shutdown\<close> waits for the requests \<open>net/http\<close> serves; a WebSocket has taken its connection over.\<close>

datatype request_kind = PlainRequest | EventStreamRequest | WebSocketRequest

datatype listen_end = ListenFailed err | ServerClosed

datatype serve_error = ServeFailed err | ShutdownDeadline

datatype serve_phase =
    Serving  \<comment> \<open>in the \<open>select\<close>\<close>
  | StreamsToClose
  | ShutdownToCall
  | Draining  \<comment> \<open>in \<open>Shutdown\<close>\<close>
  | Returning "serve_error option"  \<comment> \<open>the deferred calls are still to run\<close>
  | Returned "serve_error option"
  | ServePanicked panic

record serving =
  sg_phase :: serve_phase
  sg_root_done :: bool  \<comment> \<open>\<open>rootContext\<close>\<close>
  sg_server_error :: "listen_end option"  \<comment> \<open>the channel \<open>serverErrors\<close>\<close>
  sg_accepting :: bool  \<comment> \<open>before \<open>Shutdown\<close>; a listener that failed leaves connections that are kept alive\<close>
  sg_streams_cancelled :: bool  \<comment> \<open>\<open>streamContext\<close> of the server\<close>
  sg_requests_cancelled :: bool  \<comment> \<open>\<open>requestContext\<close>\<close>
  sg_open :: "request_kind list"
  sg_wake :: wake_hub


section \<open>Steps\<close>


definition waited_for :: "serving \<Rightarrow> request_kind list" where
  "waited_for s = filter (\<lambda>k. k \<noteq> WebSocketRequest) (sg_open s)"








section \<open>What always holds\<close>





lemma waited_for_fields [simp]:
  "waited_for (s\<lparr>sg_root_done := b\<rparr>) = waited_for s" "waited_for (s\<lparr>sg_server_error := e\<rparr>) = waited_for s"
  "waited_for (s\<lparr>sg_accepting := b\<rparr>) = waited_for s" "waited_for (s\<lparr>sg_requests_cancelled := b\<rparr>) = waited_for s"
  "waited_for (s\<lparr>sg_phase := p\<rparr>) = waited_for s" "waited_for (s\<lparr>sg_wake := w\<rparr>) = waited_for s"
  by (simp_all add: waited_for_def)



section \<open>The end\<close>







end
