(* ===== verification/Spec2Isabelle.thy ===== *)
theory Spec2Isabelle
  imports Prelude GoStrings Wire Errors Validation Progress SqlTable Store StoreSpec Service
    ServiceSpec Invariant Completeness Examples Batches Feed SyncProps
    Encoding NetAddr Url UrlLemmas Sse SseLog SseClient SseProps OwnerMap WakeHub Hub Redis Outbox OutboxSpec RealtimeProps
    JsonText Frames Hints Subscriber Sha256 Config Tokens OAuth Profiles TokenProps Transport Http WebSocket Events TransportProps Connection Delivery
    Sessions Migrations SessionProps Command CommandProps Serving
begin

text \<open>
  Verification development of the Hifumi backend: the synchronisation of a user's records between
  devices, over HTTP, an event stream and a WebSocket, with MySQL as the store and Redis for what is shared
  between processes.

  \<^bold>\<open>The program.\<close> A user's records live in a \<^emph>\<open>baseline\<close>: a numbered log of operations, and the latest
  record for every key. A device sends a batch of mutations (\<open>exchange\<close> or \<open>diff\<close>), each on the version it has
  seen; the service decides for each one, in one serializable transaction of the owner, whether it is applied,
  superseded by a newer record, or a replay of an operation it has done before, and answers with the next page
  of the log. \<open>resolve\<close> joins two histories by keeping the one of the server, or by starting a new baseline from
  a snapshot of the device; the old operations stay in an archive. A transaction that changes anything leaves a
  row in the outbox; the publisher sends it as a \<^emph>\<open>hint\<close> through Redis; every process wakes its event streams,
  which read the log from the database, and tells its WebSocket connections. A session is a signed token in a
  cookie, which a login at Linux DO ends with; the owner key is a hash of the user's name there.

  \<^bold>\<open>The theories, from the bottom.\<close>

  \<^item> \<open>Prelude\<close>: machine integers, the monad of state and error the transactions are written in, the contract of a
    relation that steps preserve (\<open>tx_preorder\<close>). \<open>GoStrings\<close>: bytes, runes and UTF-8, what is used of \<open>strings\<close>.
    \<open>Encoding\<close>, \<open>JsonText\<close>, \<open>Sha256\<close>: \<open>strconv\<close>, base64, reading and writing of JSON text, SHA-256. \<open>NetAddr\<close>, \<open>Url\<close>,
    \<open>UrlLemmas\<close>: addresses and networks of \<open>net\<close>, and \<open>net/url\<close>: parsing, printing and resolving; a URL that was
    parsed is parsed again from its text (\<open>url_round_trip\<close>), and the text leads to its host (\<open>url_string_leads\<close>).
  \<^item> \<open>Wire\<close>, \<open>Errors\<close>, \<open>Validation\<close>, \<open>Progress\<close>: the messages of \<open>api/sync/v1\<close> and, of \<open>internal/sync\<close>, the files
    \<open>errors.go\<close>, \<open>validation.go\<close> and \<open>progress.go\<close>.
  \<^item> \<open>SqlTable\<close>, \<open>Store\<close>, \<open>StoreSpec\<close>: \<open>internal/store/mysql/store.go\<close> over tables that are lists of rows with the
    keys of \<open>migrations/001_sync_core.up.sql\<close>; every table with a key is an interpretation of \<open>keyed_table\<close>;
    \<open>abs_owner\<close> is the state of one owner as the specification sees it.
  \<^item> \<open>Service\<close>: \<open>internal/sync/service.go\<close>. \<open>ServiceSpec\<close> says what a call may do to the state of its owner and \<open>Invariant\<close>
    what always holds of it; \<open>Completeness\<close> is the other half of the refinement: what may be done is done;
    \<open>Batches\<close>, \<open>Feed\<close>, \<open>Examples\<close>, \<open>SyncProps\<close>: whole calls and their properties.
  \<^item> \<open>Sse\<close>, \<open>SseLog\<close>, \<open>SseClient\<close>, \<open>SseProps\<close>, \<open>Events\<close>: \<open>internal/httpapi/sse.go\<close>, the pages cut to fit, the stream as a
    sequence of items, a client that reads it back, and the handler around it.
  \<^item> \<open>OwnerMap\<close>, \<open>WakeHub\<close>, \<open>Hub\<close>: \<open>wake_hub.go\<close> and \<open>hub.go\<close> of \<open>internal/realtime\<close> over one index (\<open>owner_index\<close>), their
    pointers as positions in a heap. \<open>Redis\<close>, \<open>Hints\<close>: \<open>redis.go\<close>, its scripts over an abstract Redis (\<open>redis_counters\<close>,
    \<open>redis_sorted_sets\<close>) and the way of a hint; \<open>Subscriber\<close>: the goroutine that listens for hints, with its loops,
    among the others that use the hubs. \<open>Outbox\<close>, \<open>OutboxSpec\<close>: \<open>internal/store/mysql/outbox.go\<close>. \<open>RealtimeProps\<close>.
  \<^item> \<open>Frames\<close>, \<open>Transport\<close>, \<open>Http\<close>, \<open>WebSocket\<close>, \<open>Connection\<close>, \<open>TransportProps\<close>: \<open>frames.go\<close>, the synchronisation endpoints of
    \<open>server.go\<close> and \<open>websocket.go\<close> of \<open>internal/httpapi\<close>, a connection with its three goroutines. \<open>Delivery\<close>: from the exchange of
    one device through the outbox, Redis, the listener and the wake-up hub to the event stream of another.
  \<^item> \<open>Config\<close>, \<open>Tokens\<close>, \<open>OAuth\<close>, \<open>Profiles\<close>, \<open>TokenProps\<close>: \<open>internal/config\<close>, \<open>internal/auth\<close> and \<open>internal/store/mysql/profile.go\<close>.
    \<open>Sessions\<close>, \<open>SessionProps\<close>: the other endpoints of \<open>server.go\<close>, the middleware and the router.
  \<^item> \<open>Migrations\<close>, \<open>Command\<close>, \<open>CommandProps\<close>: \<open>migrations/migrate.go\<close> and \<open>cmd/study-list-api/main.go\<close>.
    \<open>Serving\<close>: what \<open>serve\<close> does after it listens, the open requests and the wake-up hub being part of its state.

  \<^bold>\<open>How state is modelled.\<close> The database is the record \<open>db\<close> of tables; a transaction is a function from it to an
  error or a result with the new database, and \<open>with_owner_transaction\<close> begins, commits or undoes it, with a commit
  that succeeds, is refused, or succeeds unnoticed. The serializable transactions of an owner are the steps of a
  history (\<open>reachable\<close>). The hubs are step relations: what holds locks in the code is one step, sends to other
  peers interleave. A panic is a value of the model. The world of a handler is the database, the profiles, Redis and
  the hub; time, random bytes and failures of the outside come with each call as an argument.

  \<^bold>\<open>What is shown.\<close> C1 to C15: in every history of calls the log is gapless, owners do not see each other, a call that
  fails changes nothing, a batch does what the specification decides and answers it, a batch or a resolution
  sent again changes nothing more, pages and events are the right ones, and a change reaches
  the event streams of the user's other devices (C11, over all components in between). The theorems \<open>diff_refines_decisions\<close>,
  \<open>feed_page_is_next_log_segment\<close> and others that are not numbered stand beside them. C16 to C18: the event
  stream is the log, within its limits, whatever breaks. C19 to C24: no sequence of calls makes the hubs panic,
  limits and leases are exact, a hint is published after its change and, unless the publisher fails for ever,
  delivered. C25 to C31: frames round trip, hints reach every connection of the owner, requests are guarded,
  rate-limited and answered once, a connection writes in order and leaves nothing behind. C32 to C36: tokens
  and logins, and that the text of every redirect of the callback leads to an allowed origin. C37 to C40: what
  is checked before the server listens, what a migration leaves for it, how it stops, and which requests
  reach a handler. \<open>logged_client_is_not_forged\<close> and \<open>started_server_is_healthy\<close> stand beside them.

  \<^bold>\<open>Bounds.\<close> Words have the width of the code (\<open>u32\<close>, \<open>u64\<close>), cursors stop at \<open>2 ^ 53 - 1\<close> where the code checks it, and
  bytes, runes and UTF-16 units are counted as the code counts them. No definition has fuel: the loops over the
  database (\<open>send_feed\<close>, \<open>run_outbox\<close>) and over events (\<open>run_stream\<close>, \<open>read_loop\<close>) recurse over the list of the
  reads, rounds or events that happen, and \<open>sse_feed_terminates\<close> says how many reads are enough.

  \<^bold>\<open>Parameters.\<close> The protobuf runtime, the JWT library (with \<open>jwt_documented\<close>, which the library \<open>paper_jwt\<close> satisfies),
  the Redis server (with the two contracts above, interpreted on a Redis in memory), what MySQL makes of the
  statements of a migration, the upstream HTTP client, the parsing of media types, the parsing and printing of
  floating-point numbers, the order in which a Go map is visited. The standard library is that of Go 1.26.

  \<^bold>\<open>Not modelled.\<close> Opening and closing of connections to MySQL and Redis, and the row copying of \<open>scanChange\<close>, which is part of
  the queries; foreign keys other than the one of every table to \<open>sync_owners\<close>; what gin answers on a path or a
  method that is no route; log lines but for what a request is logged as; signals, goroutines, timers and timeouts
  as such (what they cause is an event or an argument). The theorem on the redirects leaves out origins with an IPv6
  zone, whose text may not be parsed again (\<open>zone_text_does_not_parse\<close>). The generated code of \<open>sync.pb.go\<close> beyond
  its types and getters.
\<close>

end
